(* ===== verification/Cap_Prelude.thy ===== *)
theory Cap_Prelude
  imports Main "HOL-Library.Word"
begin

unbundle bit_operations_syntax

text \<open>
  Shared vocabulary of the development: machine words, results with faults, byte memory, byte
  order, and the C string functions the library uses.

  The modelled platform is the one the library is built for: a little-endian LP64 host
  (x86-64 Linux), so that a multi-byte load from a packet gives the host-order value and
  \<open>ntohs\<close>/\<open>ntohl\<close> swap the bytes.

  Memory behind a pointer is the list of its readable bytes. A C expression that reads outside of
  them, dereferences NULL or calls \<open>abort\<close> has no value: it is \<open>Inl\<close> of a \<open>fault\<close>. Code that
  runs to its \<open>return\<close> is \<open>Inr\<close> of the returned value.
\<close>

named_theorems res_simps \<open>evaluation of results and of the bind\<close>
named_theorems mem_simps \<open>loads from byte memory\<close>

section \<open>Machine words\<close>

type_synonym u8 = "8 word"
type_synonym u16 = "16 word"
type_synonym u32 = "32 word"
type_synonym u64 = "64 word"

text \<open>The value a C \<open>int\<close> has after a conversion from a wider integer.\<close>

definition c_int :: "int \<Rightarrow> int" where
  "c_int x = (x + 2 ^ 31) mod 2 ^ 32 - 2 ^ 31"

lemma c_int_id: "- (2 ^ 31) \<le> x \<Longrightarrow> x < 2 ^ 31 \<Longrightarrow> c_int x = x"
  by (simp add: c_int_def)

lemma c_int_bounds: "- (2 ^ 31) \<le> c_int x \<and> c_int x < 2 ^ 31"
  by (simp add: c_int_def)

section \<open>Results with faults\<close>

datatype fault =
    Out_of_bounds   \<comment> \<open>access outside of an object\<close>
  | Null_deref      \<comment> \<open>access through a null pointer\<close>
  | Dangling        \<comment> \<open>access through a pointer into memory that has been freed or moved\<close>
  | Aborted         \<comment> \<open>the program called abort or failed an assertion\<close>

type_synonym 'a res = "fault + 'a"

definition rbind :: "'a res \<Rightarrow> ('a \<Rightarrow> 'b res) \<Rightarrow> 'b res" where
  "rbind m f = (case m of Inl e \<Rightarrow> Inl e | Inr x \<Rightarrow> f x)"

lemma rbind_Inl [simp, res_simps]: "rbind (Inl e) f = Inl e"
  by (simp add: rbind_def)

lemma rbind_Inr [simp, res_simps]: "rbind (Inr x) f = f x"
  by (simp add: rbind_def)

lemma rbind_assoc: "rbind (rbind m f) g = rbind m (\<lambda>x. rbind (f x) g)"
  by (simp add: rbind_def split: sum.split)

lemma rbind_Inr_iff: "rbind m f = Inr y \<longleftrightarrow> (\<exists>x. m = Inr x \<and> f x = Inr y)"
  by (cases m) simp_all

lemma rbind_Inl_iff: "rbind m f = Inl e \<longleftrightarrow> m = Inl e \<or> (\<exists>x. m = Inr x \<and> f x = Inl e)"
  by (cases m) auto

lemma rbind_cong [fundef_cong]:
  "m = m' \<Longrightarrow> (\<And>x. m' = Inr x \<Longrightarrow> f x = f' x) \<Longrightarrow> rbind m f = rbind m' f'"
  by (cases m') simp_all

text \<open>C's short-circuit conjunction: the right operand is evaluated only when the left is true.\<close>

definition rand :: "bool \<Rightarrow> bool res \<Rightarrow> bool res" where
  "rand a b = (if a then b else Inr False)"

lemma rand_simps [simp, res_simps]: "rand True b = b" "rand False b = Inr False"
  by (simp_all add: rand_def)

section \<open>Byte memory\<close>

type_synonym mem = "u8 list"

definition rd8 :: "mem \<Rightarrow> nat \<Rightarrow> u8 res" where
  "rd8 m i = (if i < length m then Inr (m ! i) else Inl Out_of_bounds)"

definition le16 :: "u8 \<Rightarrow> u8 \<Rightarrow> u16" where
  "le16 a b = word_of_nat (unat a + 256 * unat b)"

definition le32 :: "u8 \<Rightarrow> u8 \<Rightarrow> u8 \<Rightarrow> u8 \<Rightarrow> u32" where
  "le32 a b c d =
     word_of_nat (unat a + 256 * (unat b + 256 * (unat c + 256 * unat d)))"

definition le64 :: "u32 \<Rightarrow> u32 \<Rightarrow> u64" where
  "le64 lo hi = word_of_nat (unat lo + 4294967296 * unat hi)"

definition rd16 :: "mem \<Rightarrow> nat \<Rightarrow> u16 res" where
  "rd16 m i = rbind (rd8 m i) (\<lambda>a. rbind (rd8 m (i + 1)) (\<lambda>b. Inr (le16 a b)))"

definition rd32 :: "mem \<Rightarrow> nat \<Rightarrow> u32 res" where
  "rd32 m i = rbind (rd8 m i) (\<lambda>a. rbind (rd8 m (i + 1)) (\<lambda>b.
     rbind (rd8 m (i + 2)) (\<lambda>c. rbind (rd8 m (i + 3)) (\<lambda>d. Inr (le32 a b c d)))))"

definition rd64 :: "mem \<Rightarrow> nat \<Rightarrow> u64 res" where
  "rd64 m i = rbind (rd32 m i) (\<lambda>lo. rbind (rd32 m (i + 4)) (\<lambda>hi. Inr (le64 lo hi)))"

text \<open>A run of bytes copied out of memory (\<open>memcpy\<close>).\<close>

definition rdn :: "mem \<Rightarrow> nat \<Rightarrow> nat \<Rightarrow> u8 list res" where
  "rdn m i n = (if i + n \<le> length m then Inr (take n (drop i m)) else Inl Out_of_bounds)"

lemma rd8_in [mem_simps]: "i < length m \<Longrightarrow> rd8 m i = Inr (m ! i)"
  by (simp add: rd8_def)

lemma rd16_in [mem_simps]: "i + 1 < length m \<Longrightarrow> rd16 m i = Inr (le16 (m ! i) (m ! (i + 1)))"
  by (simp add: rd16_def rd8_def)

lemma rd32_in [mem_simps]:
  "i + 3 < length m \<Longrightarrow>
   rd32 m i = Inr (le32 (m ! i) (m ! (i + 1)) (m ! (i + 2)) (m ! (i + 3)))"
  by (simp add: rd32_def rd8_def)

lemma rd64_in [mem_simps]:
  "i + 7 < length m \<Longrightarrow>
   rd64 m i = Inr (le64 (le32 (m ! i) (m ! (i + 1)) (m ! (i + 2)) (m ! (i + 3)))
                        (le32 (m ! (i + 4)) (m ! (i + 5)) (m ! (i + 6)) (m ! (i + 7))))"
  by (simp add: rd64_def rd32_in add.commute add.left_commute)

lemma rdn_in [mem_simps]: "i + n \<le> length m \<Longrightarrow> rdn m i n = Inr (take n (drop i m))"
  by (simp add: rdn_def)

lemma rd8_Inr_iff: "rd8 m i = Inr b \<longleftrightarrow> i < length m \<and> b = m ! i"
  by (auto simp: rd8_def)

lemma rd16_Inr_bound: "rd16 m i = Inr w \<Longrightarrow> i + 1 < length m"
  by (auto simp: rd16_def rbind_Inr_iff rd8_Inr_iff)

lemma rd32_Inr_bound: "rd32 m i = Inr w \<Longrightarrow> i + 3 < length m"
  by (auto simp: rd32_def rbind_Inr_iff rd8_Inr_iff)

text \<open>Storing words: the little-endian bytes of a value, as the host lays them out.\<close>

definition bytes16 :: "u16 \<Rightarrow> u8 list" where
  "bytes16 w = [word_of_nat (unat w mod 256), word_of_nat (unat w div 256)]"

definition bytes32 :: "u32 \<Rightarrow> u8 list" where
  "bytes32 w = [word_of_nat (unat w mod 256), word_of_nat (unat w div 256 mod 256),
                word_of_nat (unat w div 65536 mod 256), word_of_nat (unat w div 16777216)]"

definition bytes64 :: "u64 \<Rightarrow> u8 list" where
  "bytes64 w = bytes32 (word_of_nat (unat w mod 4294967296))
             @ bytes32 (word_of_nat (unat w div 4294967296))"

lemma length_bytes [simp]:
  "length (bytes16 v) = 2" "length (bytes32 w) = 4" "length (bytes64 x) = 8"
  by (simp_all add: bytes16_def bytes32_def bytes64_def)

lemma unat_lt_256: "unat (b :: u8) < 256"
  using unsigned_less [of b] by simp

lemma unat_lt_65536: "unat (b :: u16) < 65536"
  using unsigned_less [of b] by simp

lemma unat_lt_u32: "unat (b :: u32) < 4294967296"
  using unsigned_less [of b] by simp

lemma unat_lt_u64: "unat (b :: u64) < 18446744073709551616"
  using unsigned_less [of b] by simp

lemma word_unat_eqI: "unat v = unat w \<Longrightarrow> v = (w :: 'a::len word)"
  by (rule unsigned_word_eqI)

lemma digit256: "a < 256 \<Longrightarrow> (a + 256 * k) mod 256 = a" "a < 256 \<Longrightarrow> (a + 256 * k) div 256 = k"
  for a k :: nat
  by simp_all

lemma unat_le16: "unat (le16 a b) = unat a + 256 * unat b"
  using unat_lt_256 [of a] unat_lt_256 [of b] unfolding le16_def unat_of_nat by simp

lemma unat_le32:
  "unat (le32 a b c d) = unat a + 256 * (unat b + 256 * (unat c + 256 * unat d))"
  using unat_lt_256 [of a] unat_lt_256 [of b] unat_lt_256 [of c] unat_lt_256 [of d]
  unfolding le32_def unat_of_nat by simp

lemma unat_le64: "unat (le64 lo hi) = unat lo + 4294967296 * unat hi"
  using unat_lt_u32 [of lo] unat_lt_u32 [of hi] unfolding le64_def unat_of_nat by simp

lemma le16_bytes16:
  "le16 (word_of_nat (unat w mod 256)) (word_of_nat (unat w div 256)) = w"
  using unat_lt_65536 [of w]
  by (intro word_unat_eqI) (simp add: unat_le16 unat_of_nat)

lemma le32_bytes32:
  "le32 (word_of_nat (unat w mod 256)) (word_of_nat (unat w div 256 mod 256))
        (word_of_nat (unat w div 65536 mod 256)) (word_of_nat (unat w div 16777216)) = w"
proof (rule word_unat_eqI)
  have "unat w div 16777216 < 256"
    using unat_lt_u32 [of w] by simp
  moreover have "unat w div 65536 = unat w div 256 div 256" "unat w div 16777216 = unat w div 256 div 256 div 256"
    by (simp_all add: div_mult2_eq [symmetric])
  ultimately show "unat (le32 (word_of_nat (unat w mod 256)) (word_of_nat (unat w div 256 mod 256))
        (word_of_nat (unat w div 65536 mod 256)) (word_of_nat (unat w div 16777216))) = unat w"
    by (simp add: unat_le32 unat_of_nat)
qed

lemma rd16_bytes16 [mem_simps]: "rd16 (xs @ bytes16 w @ ys) (length xs) = Inr w"
  by (simp add: rd16_in bytes16_def nth_append le16_bytes16)

lemma rd32_bytes32 [mem_simps]: "rd32 (xs @ bytes32 w @ ys) (length xs) = Inr w"
  by (simp add: rd32_in bytes32_def nth_append le32_bytes32)

lemma rd64_bytes64 [mem_simps]: "rd64 (xs @ bytes64 w @ ys) (length xs) = Inr w"
proof -
  let ?lo = "word_of_nat (unat w mod 4294967296) :: u32"
  let ?hi = "word_of_nat (unat w div 4294967296) :: u32"
  have lo: "rd32 (xs @ bytes64 w @ ys) (length xs) = Inr ?lo"
    using rd32_bytes32 [of xs ?lo "bytes32 ?hi @ ys"] by (simp add: bytes64_def)
  have hi: "rd32 (xs @ bytes64 w @ ys) (length xs + 4) = Inr ?hi"
    using rd32_bytes32 [of "xs @ bytes32 ?lo" ?hi ys] by (simp add: bytes64_def)
  have "le64 ?lo ?hi = w"
    using unat_lt_u64 [of w] by (intro word_unat_eqI) (simp add: unat_le64 unat_of_nat)
  with lo hi show ?thesis by (simp add: rd64_def)
qed

text \<open>Conversely, the bytes of a word that was read are the bytes of the memory.\<close>

lemma bytes16_le16: "bytes16 (le16 a b) = [a, b]"
  using unat_lt_256 [of a] by (simp add: bytes16_def unat_le16)

lemma bytes32_le32: "bytes32 (le32 a b c d) = [a, b, c, d]"
proof -
  have q: "x div 65536 = x div 256 div 256" "x div 16777216 = x div 256 div 256 div 256" for x :: nat
    by (simp_all add: div_mult2_eq [symmetric])
  show ?thesis
    using unat_lt_256 [of a] unat_lt_256 [of b] unat_lt_256 [of c]
    by (simp only: bytes32_def unat_le32 q digit256) simp
qed

lemma bytes64_le64: "bytes64 (le64 lo hi) = bytes32 lo @ bytes32 hi"
  using unat_lt_u32 [of lo] by (simp add: bytes64_def unat_le64)

lemma take4_drop: "i + 3 < length m \<Longrightarrow> take 4 (drop i m) = [m ! i, m ! (i + 1), m ! (i + 2), m ! (i + 3)]"
  by (intro nth_equalityI) (auto simp: less_Suc_eq numeral_eq_Suc)

lemma rd16_take: "rd16 m i = Inr w \<Longrightarrow> bytes16 w = take 2 (drop i m)"
  using rd16_Inr_bound [of m i w]
  by (intro nth_equalityI) (auto simp: rd16_in bytes16_le16 less_Suc_eq numeral_eq_Suc)

lemma rd32_take: "rd32 m i = Inr w \<Longrightarrow> bytes32 w = take 4 (drop i m)"
  using rd32_Inr_bound [of m i w] by (auto simp: rd32_in bytes32_le32 take4_drop)

lemma take_drop_split: "take (a + b) (drop i m) = take a (drop i m) @ take b (drop (i + a) m)"
  by (simp add: take_add add.commute)

lemma rd64_take: "rd64 m i = Inr w \<Longrightarrow> bytes64 w = take 8 (drop i m)"
  using take_drop_split [of 4 4 i m] rd32_take [of m i] rd32_take [of m "i + 4"]
  by (auto simp: rd64_def rbind_Inr_iff bytes64_le64)

section \<open>Byte order\<close>

definition ntohs :: "u16 \<Rightarrow> u16" where
  "ntohs w = le16 (word_of_nat (unat w div 256)) (word_of_nat (unat w mod 256))"

definition ntohl :: "u32 \<Rightarrow> u32" where
  "ntohl w = le32 (word_of_nat (unat w div 16777216)) (word_of_nat (unat w div 65536 mod 256))
                  (word_of_nat (unat w div 256 mod 256)) (word_of_nat (unat w mod 256))"

text \<open>The same byte swap in the other direction; on this host \<open>be64toh\<close> swaps eight bytes.\<close>

abbreviation (input) htons :: "u16 \<Rightarrow> u16" where "htons \<equiv> ntohs"

abbreviation (input) htonl :: "u32 \<Rightarrow> u32" where "htonl \<equiv> ntohl"

definition be64toh :: "u64 \<Rightarrow> u64" where
  "be64toh w = le64 (ntohl (word_of_nat (unat w div 4294967296)))
                    (ntohl (word_of_nat (unat w mod 4294967296)))"

lemma ntohs_le16: "ntohs (le16 a b) = le16 b a"
  using unat_lt_256 [of a] unat_lt_256 [of b]
  by (simp add: ntohs_def unat_le16)

lemma unat_ntohs_le16: "unat (ntohs (le16 a b)) = 256 * unat a + unat b"
  by (simp add: ntohs_le16 unat_le16)

lemma ntohs_ntohs [simp]: "ntohs (ntohs w) = w"
proof -
  have "ntohs w = le16 (word_of_nat (unat w div 256)) (word_of_nat (unat w mod 256))"
    by (simp add: ntohs_def)
  then show ?thesis by (simp add: ntohs_le16 le16_bytes16)
qed

lemma ntohl_le32: "ntohl (le32 a b c d) = le32 d c b a"
proof -
  let ?n = "unat (le32 a b c d)"
  note lt = unat_lt_256 [of a] unat_lt_256 [of b] unat_lt_256 [of c] unat_lt_256 [of d]
  have 0: "?n = unat a + 256 * (unat b + 256 * (unat c + 256 * unat d))"
    by (rule unat_le32)
  have 1: "?n div 256 = unat b + 256 * (unat c + 256 * unat d)" and m0: "?n mod 256 = unat a"
    unfolding 0 by (rule digit256 [OF lt(1)])+
  have m1: "?n div 256 mod 256 = unat b"
    unfolding 1 by (rule digit256(1) [OF lt(2)])
  have 2: "?n div 65536 = unat c + 256 * unat d"
    using 1 lt div_mult2_eq [of ?n 256 256] by simp
  have 3: "?n div 16777216 = unat d"
    using 2 lt div_mult2_eq [of ?n 65536 256] by simp
  show ?thesis
    using m0 m1 2 3 lt by (simp add: ntohl_def del: One_nat_def)
qed

lemma ntohl_ntohl [simp]: "ntohl (ntohl w) = w"
proof -
  have "ntohl w = le32 (word_of_nat (unat w div 16777216)) (word_of_nat (unat w div 65536 mod 256))
                  (word_of_nat (unat w div 256 mod 256)) (word_of_nat (unat w mod 256))"
    by (simp add: ntohl_def)
  then show ?thesis by (simp add: ntohl_le32 le32_bytes32)
qed

lemma ntohs_eq_iff [simp]: "ntohs v = ntohs w \<longleftrightarrow> v = w"
  by (metis ntohs_ntohs)

lemma ntohl_eq_iff [simp]: "ntohl v = ntohl w \<longleftrightarrow> v = w"
  by (metis ntohl_ntohl)

text \<open>The bits of a word composed of bytes.\<close>

lemma or_shifted_eq_add:
  fixes x y :: nat
  assumes "x < 2 ^ n"
  shows "x OR 2 ^ n * y = x + 2 ^ n * y"
proof -
  have x: "take_bit n x = x" using assms by (simp add: take_bit_nat_eq_self)
  have "take_bit n x AND push_bit n y = 0" by (simp add: bit_eq_iff bit_simps)
  then have "x AND 2 ^ n * y = 0" by (simp add: x push_bit_eq_mult mult.commute)
  then show ?thesis by (simp add: disjunctive_add_eq_or)
qed

lemma bit_shifted_add:
  fixes x y :: nat
  assumes "x < 2 ^ n"
  shows "bit (x + 2 ^ n * y) k \<longleftrightarrow> (if k < n then bit x k else bit y (k - n))"
proof -
  have x: "take_bit n x = x" using assms by (simp add: take_bit_nat_eq_self)
  have "x + 2 ^ n * y = take_bit n x OR push_bit n y"
    using or_shifted_eq_add [OF assms, of y] by (simp add: x push_bit_eq_mult mult.commute)
  moreover have "bit x k = (k < n \<and> bit x k)" by (subst x [symmetric]) (simp add: bit_simps)
  ultimately show ?thesis by (auto simp: bit_simps)
qed

lemma bit_le32:
  "bit (le32 a b c d) k \<longleftrightarrow>
     (if k < 8 then bit a k else if k < 16 then bit b (k - 8)
      else if k < 24 then bit c (k - 16) else bit d (k - 24))"
proof -
  have lt: "unat v < 2 ^ 8" for v :: u8 using unat_lt_256 [of v] by simp
  have e: "unat (le32 a b c d) = unat a + 2 ^ 8 * (unat b + 2 ^ 8 * (unat c + 2 ^ 8 * unat d))"
    by (simp add: unat_le32)
  have "bit (unat (le32 a b c d)) k \<longleftrightarrow>
     (if k < 8 then bit (unat a) k else if k - 8 < 8 then bit (unat b) (k - 8)
      else if k - 8 - 8 < 8 then bit (unat c) (k - 8 - 8) else bit (unat d) (k - 8 - 8 - 8))"
    unfolding e bit_shifted_add [OF lt] ..
  then show ?thesis by (auto simp: bit_unsigned_iff split: if_splits)
qed

lemma le32_AND:
  "le32 a b c d AND le32 a' b' c' d' = le32 (a AND a') (b AND b') (c AND c') (d AND d')"
  by (rule bit_word_eqI) (simp add: bit_le32 bit_and_iff)

lemma le32_exhaust: "\<exists>a b c d. w = le32 a b c d"
  using le32_bytes32 [of w] by metis

lemma ntohl_AND: "ntohl (v AND w) = ntohl v AND ntohl w"
proof -
  obtain a b c d where v: "v = le32 a b c d" using le32_exhaust by blast
  obtain a' b' c' d' where w: "w = le32 a' b' c' d'" using le32_exhaust by blast
  show ?thesis by (simp add: v w le32_AND ntohl_le32)
qed

lemma sint_small:
  assumes "unat w < 2 ^ (LENGTH('a) - 1)"
  shows "sint (w :: 'a :: len word) = int (unat w)"
proof -
  have "uint w < 2 ^ (LENGTH('a) - 1)" using assms by (metis of_nat_less_iff of_nat_numeral of_nat_power uint_nat)
  moreover have "- (2 ^ (LENGTH('a) - 1)) \<le> uint w" by (rule order_trans [OF _ unsigned_greater_eq]) simp
  ultimately show ?thesis unfolding sint_uint by (subst signed_take_bit_int_eq_self) simp_all
qed

section \<open>C strings and character arrays\<close>

text \<open>
  A \<open>const char*\<close> argument that points to a terminated string is the \<open>string\<close> of its characters
  before the terminator. A character array in a struct is the list of all its elements, padding
  included; used as a string it is read up to its first NUL, and a read that runs past the end of
  the array is a fault.
\<close>

abbreviation NUL :: char where "NUL \<equiv> CHR 0x00"

definition char_of_byte :: "u8 \<Rightarrow> char" where
  "char_of_byte b = char_of (unat b)"

definition byte_of_char :: "char \<Rightarrow> u8" where
  "byte_of_char c = word_of_nat (of_char c)"

lemma char_byte_inverse [simp]: "char_of_byte (byte_of_char c) = c"
proof -
  have "(of_char c :: nat) < 256" by simp
  then show ?thesis by (simp add: char_of_byte_def byte_of_char_def unat_of_nat)
qed

lemma byte_char_inverse [simp]: "byte_of_char (char_of_byte b) = b"
  using unat_lt_256 [of b] by (simp add: char_of_byte_def byte_of_char_def)

definition cstr :: "char list \<Rightarrow> string res" where
  "cstr a = (if NUL \<in> set a then Inr (takeWhile (\<lambda>c. c \<noteq> NUL) a) else Inl Out_of_bounds)"

definition strncpy :: "nat \<Rightarrow> string \<Rightarrow> char list" where
  "strncpy n s = take n s @ replicate (n - length s) NUL"

definition strncmp_eq :: "char list \<Rightarrow> char list \<Rightarrow> nat \<Rightarrow> bool" where
  "strncmp_eq a b n \<longleftrightarrow>
     takeWhile (\<lambda>c. c \<noteq> NUL) (take n a) = takeWhile (\<lambda>c. c \<noteq> NUL) (take n b)"

definition tolower :: "char \<Rightarrow> char" where
  "tolower c = (let n = of_char c :: nat in if 65 \<le> n \<and> n \<le> 90 then char_of (n + 32) else c)"

definition strcasecmp_eq :: "string \<Rightarrow> string \<Rightarrow> bool" where
  "strcasecmp_eq s t \<longleftrightarrow> map tolower s = map tolower t"

definition isdigit :: "char \<Rightarrow> bool" where
  "isdigit c \<longleftrightarrow> 48 \<le> (of_char c :: nat) \<and> (of_char c :: nat) \<le> 57"

text \<open>\<open>strstr\<close>, as the suffix of the first occurrence; only whether there is one matters here.\<close>

fun is_prefix :: "string \<Rightarrow> string \<Rightarrow> bool" where
  "is_prefix [] t = True"
| "is_prefix (a # s) [] = False"
| "is_prefix (a # s) (b # t) = (a = b \<and> is_prefix s t)"

fun strstr :: "string \<Rightarrow> string \<Rightarrow> string option" where
  "strstr t s =
     (if is_prefix s t then Some t else (case t of [] \<Rightarrow> None | _ # t' \<Rightarrow> strstr t' s))"

declare strstr.simps [simp del]

lemma is_prefix_iff: "is_prefix s t \<longleftrightarrow> (\<exists>r. t = s @ r)"
  by (induction s t rule: is_prefix.induct) auto

lemma strstr_Some_iff: "(\<exists>r. strstr t s = Some r) \<longleftrightarrow> (\<exists>p r. t = p @ s @ r)"
proof (induction t)
  case Nil
  then show ?case by (auto simp: strstr.simps [of "[]"] is_prefix_iff)
next
  case (Cons a t)
  show ?case
  proof (cases "is_prefix s (a # t)")
    case True
    then show ?thesis
      by (auto simp: strstr.simps [of "a # t"] is_prefix_iff) (metis append_Nil)
  next
    case False
    then have "(\<exists>r. strstr (a # t) s = Some r) \<longleftrightarrow> (\<exists>p r. t = p @ s @ r)"
      using Cons.IH by (simp add: strstr.simps [of "a # t"])
    also have "\<dots> \<longleftrightarrow> (\<exists>p r. a # t = p @ s @ r)"
      using False by (auto simp: is_prefix_iff Cons_eq_append_conv)
    finally show ?thesis .
  qed
qed

lemma length_strncpy [simp]: "length (strncpy n s) = n"
  by (simp add: strncpy_def)

lemma takeWhile_strncpy:
  assumes "NUL \<notin> set s"
  shows "takeWhile (\<lambda>c. c \<noteq> NUL) (strncpy n s) = take n s"
proof -
  have "c \<noteq> NUL" if "c \<in> set (take n s)" for c
    using that assms by (metis in_set_takeD)
  then have "takeWhile (\<lambda>c. c \<noteq> NUL) (take n s @ replicate (n - length s) NUL)
      = take n s @ takeWhile (\<lambda>c. c \<noteq> NUL) (replicate (n - length s) NUL)"
    by (intro takeWhile_append2) simp
  moreover have "takeWhile (\<lambda>c. c \<noteq> NUL) (replicate k NUL) = []" for k
    by (cases k) simp_all
  ultimately show ?thesis by (simp add: strncpy_def)
qed

lemma cstr_strncpy:
  "NUL \<notin> set s \<Longrightarrow> length s < n \<Longrightarrow> cstr (strncpy n s) = Inr s"
  using takeWhile_strncpy [of s n] by (simp add: cstr_def) (simp add: strncpy_def)

lemma strncmp_eq_strncpy:
  "NUL \<notin> set s \<Longrightarrow> NUL \<notin> set t \<Longrightarrow> strncmp_eq (strncpy n s) (strncpy n t) n \<longleftrightarrow> take n s = take n t"
  by (simp add: strncmp_eq_def takeWhile_strncpy)

end
