(* ===== verification/Libc.thy ===== *)
theory Libc
  imports Cap_Prelude
begin

text \<open>
  The parts of the C library whose results the program depends on: number scanning (\<open>strtoll\<close>,
  \<open>atoi\<close>, \<open>strtoul\<close> with base 0), decimal and hexadecimal printing, IPv4 addresses in text form
  (\<open>inet_aton\<close>, \<open>inet_ntoa\<close>) and ethernet addresses in text form (\<open>ether_aton\<close>), as the GNU C
  library defines them.
\<close>

section \<open>Scanning decimal numbers\<close>

fun strtoll_digits :: "nat \<Rightarrow> string \<Rightarrow> nat" where
  "strtoll_digits acc [] = acc"
| "strtoll_digits acc (c # s) =
     (if isdigit c then strtoll_digits (10 * acc + (of_char c - 48)) s else acc)"

definition isspace :: "char \<Rightarrow> bool" where
  "isspace c \<longleftrightarrow> c \<in> {CHR 0x20, CHR 0x09, CHR 0x0A, CHR 0x0B, CHR 0x0C, CHR 0x0D}"

text \<open>\<open>strtoll\<close> in base 10: leading space, a sign, digits, saturation at the range of the type.\<close>

definition strtoll :: "string \<Rightarrow> int" where
  "strtoll s =
     (case dropWhile isspace s of
        [] \<Rightarrow> 0
      | c # r \<Rightarrow>
          if c = CHR ''-'' then max (- (2 ^ 63)) (- int (strtoll_digits 0 r))
          else if c = CHR ''+'' then min (2 ^ 63 - 1) (int (strtoll_digits 0 r))
          else min (2 ^ 63 - 1) (int (strtoll_digits 0 (c # r))))"

text \<open>The decimal value of a digit string.\<close>

definition dec_value :: "string \<Rightarrow> nat" where
  "dec_value s = foldl (\<lambda>a c. 10 * a + (of_char c - 48)) 0 s"

lemma strtoll_digits_foldl:
  "\<forall>c\<in>set s. isdigit c \<Longrightarrow> strtoll_digits acc s = foldl (\<lambda>a c. 10 * a + (of_char c - 48)) acc s"
  by (induction s arbitrary: acc) auto

lemma dec_value_bound: "\<forall>c\<in>set s. isdigit c \<Longrightarrow> dec_value s < 10 ^ length s"
proof (induction s rule: rev_induct)
  case Nil
  then show ?case by (simp add: dec_value_def)
next
  case (snoc c s)
  then have "dec_value s + 1 \<le> 10 ^ length s" and "(of_char c :: nat) - 48 \<le> 9"
    by (auto simp: isdigit_def Suc_le_eq)
  then show ?case by (simp add: dec_value_def)
qed

lemma isdigit_not_special:
  "isdigit c \<Longrightarrow> \<not> isspace c \<and> c \<noteq> CHR ''-'' \<and> c \<noteq> CHR ''+''"
  by (auto simp: isdigit_def isspace_def)

lemma strtoll_digit_string:
  assumes "\<forall>c\<in>set s. isdigit c" "length s \<le> 18"
  shows "strtoll s = int (dec_value s)"
proof (cases s)
  case Nil
  then show ?thesis by (simp add: strtoll_def dec_value_def)
next
  case (Cons c r)
  have "(10::nat) ^ length s \<le> 10 ^ 18"
    using assms(2) by (intro power_increasing) simp_all
  with dec_value_bound [OF assms(1)] have "int (dec_value s) \<le> 2 ^ 63 - 1" by simp
  then show ?thesis
    using assms(1) Cons isdigit_not_special [of c]
    by (simp add: strtoll_def strtoll_digits_foldl dec_value_def)
qed

text \<open>\<open>atoi\<close> converts the \<open>long\<close> result to \<open>int\<close>.\<close>

definition atoi :: "string \<Rightarrow> int" where
  "atoi s = c_int (strtoll s)"

section \<open>Splitting strings\<close>

text \<open>\<open>strchr\<close> followed by a store of NUL at the hit: the text before and behind the character.\<close>

fun strchr_split :: "char \<Rightarrow> string \<Rightarrow> (string \<times> string) option" where
  "strchr_split c [] = None"
| "strchr_split c (a # s) =
     (if a = c then Some ([], s)
      else (case strchr_split c s of None \<Rightarrow> None | Some (p, r) \<Rightarrow> Some (a # p, r)))"

lemma strchr_split_Some_iff:
  "strchr_split c s = Some (p, r) \<longleftrightarrow> s = p @ c # r \<and> c \<notin> set p"
proof (induction s arbitrary: p)
  case (Cons a s)
  have "strchr_split c (a # s) = Some (p, r) \<longleftrightarrow>
    (if a = c then p = [] \<and> r = s else (\<exists>q. p = a # q \<and> strchr_split c s = Some (q, r)))"
    by (auto split: option.split)
  then show ?case unfolding Cons.IH by (auto simp: Cons_eq_append_conv)
qed simp

lemma strchr_split_None_iff: "strchr_split c s = None \<longleftrightarrow> c \<notin> set s"
  by (induction s) (auto split: option.splits)

section \<open>Printing numbers\<close>

definition digit_char :: "nat \<Rightarrow> char" where
  "digit_char n = char_of (48 + n)"

text \<open>\<open>%d\<close> and \<open>%u\<close> of a non-negative value, \<open>%d\<close> of any.\<close>

fun dec :: "nat \<Rightarrow> string" where
  "dec n = (if n < 10 then [digit_char n] else dec (n div 10) @ [digit_char (n mod 10)])"

declare dec.simps [simp del]

definition dec_int :: "int \<Rightarrow> string" where
  "dec_int x = (if x < 0 then CHR ''-'' # dec (nat (- x)) else dec (nat x))"

definition hex_char :: "nat \<Rightarrow> char" where
  "hex_char n = (if n < 10 then char_of (48 + n) else char_of (55 + n))"

text \<open>\<open>%2.2X\<close> of a byte.\<close>

definition hex2 :: "u8 \<Rightarrow> string" where
  "hex2 b = [hex_char (unat b div 16), hex_char (unat b mod 16)]"

lemma of_char_digit: "n < 10 \<Longrightarrow> of_char (digit_char n) = 48 + n"
  by (simp add: digit_char_def)

lemma isdigit_digit_char: "n < 10 \<Longrightarrow> isdigit (digit_char n)"
  by (simp add: isdigit_def of_char_digit)

lemma isdigit_dec: "c \<in> set (dec n) \<Longrightarrow> isdigit c"
proof (induction n rule: dec.induct)
  case (1 n)
  then show ?case by (subst (asm) (2) dec.simps) (auto split: if_splits simp: isdigit_digit_char)
qed

lemma dec_not_Nil: "dec n \<noteq> []"
  by (subst dec.simps) simp

lemma dec_value_dec: "dec_value (dec n) = n"
proof (induction n rule: dec.induct)
  case (1 n)
  show ?case
  proof (cases "n < 10")
    case True
    then show ?thesis by (subst dec.simps) (simp add: dec_value_def of_char_digit)
  next
    case False
    with 1 have "dec_value (dec (n div 10)) = n div 10" by simp
    with False show ?thesis by (subst dec.simps) (simp add: dec_value_def of_char_digit)
  qed
qed

text \<open>Only zero is printed with a leading zero.\<close>

lemma hd_dec: "0 < n \<Longrightarrow> hd (dec n) \<noteq> CHR ''0''"
proof (induction n rule: dec.induct)
  case (1 n)
  show ?case
  proof (cases "n < 10")
    case True
    have "of_char (digit_char n) \<noteq> (of_char CHR ''0'' :: nat)"
      using True 1(2) by (simp add: of_char_digit)
    then show ?thesis using True by (subst dec.simps) auto
  next
    case False
    with 1 have "hd (dec (n div 10)) \<noteq> CHR ''0''" by simp
    with False show ?thesis by (subst dec.simps) (simp add: dec_not_Nil)
  qed
qed

lemma dec_length_le: "n < 10 ^ k \<Longrightarrow> 0 < k \<Longrightarrow> length (dec n) \<le> k"
proof (induction n arbitrary: k rule: dec.induct)
  case (1 n)
  show ?case
  proof (cases "n < 10")
    case True
    with 1(3) show ?thesis by (subst dec.simps) simp
  next
    case False
    with 1(2,3) obtain j where j: "k = Suc j" "0 < j"
      by (metis Suc_pred bot_nat_0.not_eq_extremum power_one_right One_nat_def)
    with 1(2) have "n div 10 < 10 ^ j" by (simp add: less_mult_imp_div_less)
    with 1(1) [OF False this j(2)] False j(1) show ?thesis by (subst dec.simps) simp
  qed
qed

section \<open>\<open>strtoul\<close> with base 0\<close>

definition digit_val :: "char \<Rightarrow> nat option" where
  "digit_val c =
     (let n = of_char c :: nat in
      if 48 \<le> n \<and> n \<le> 57 then Some (n - 48)
      else if 97 \<le> n \<and> n \<le> 102 then Some (n - 87)
      else if 65 \<le> n \<and> n \<le> 70 then Some (n - 55)
      else None)"

fun scan_base :: "nat \<Rightarrow> nat \<Rightarrow> string \<Rightarrow> nat \<times> string" where
  "scan_base b acc [] = (acc, [])"
| "scan_base b acc (c # s) =
     (case digit_val c of
        Some d \<Rightarrow> if d < b then scan_base b (b * acc + d) s else (acc, c # s)
      | None \<Rightarrow> (acc, c # s))"

text \<open>The prefix decides the base; the caller has checked that the text starts with a digit.\<close>

definition strtoul0 :: "string \<Rightarrow> nat \<times> string" where
  "strtoul0 s =
     (case s of
        z # x # h # r \<Rightarrow>
          if z = CHR ''0'' \<and> (x = CHR ''x'' \<or> x = CHR ''X'') \<and> digit_val h \<noteq> None
          then scan_base 16 0 (h # r)
          else if z = CHR ''0'' then scan_base 8 0 s else scan_base 10 0 s
      | z # _ \<Rightarrow> if z = CHR ''0'' then scan_base 8 0 s else scan_base 10 0 s
      | [] \<Rightarrow> (0, []))"

lemma digit_val_digit: "isdigit c \<Longrightarrow> digit_val c = Some (of_char c - 48)"
  by (simp add: digit_val_def isdigit_def)

lemma scan_base_digits:
  assumes "\<forall>c\<in>set s. isdigit c" "r = [] \<or> digit_val (hd r) = None"
  shows "scan_base 10 acc (s @ r) = (foldl (\<lambda>a c. 10 * a + (of_char c - 48)) acc s, r)"
  using assms
proof (induction s arbitrary: acc)
  case Nil
  then show ?case by (cases r) auto
next
  case (Cons c s)
  then have "isdigit c" by simp
  then have "digit_val c = Some (of_char c - 48)" "(of_char c :: nat) - 48 < 10"
    by (simp_all add: digit_val_digit) (auto simp: isdigit_def)
  with Cons show ?case by simp
qed

lemma strtoul0_nonzero:
  "s \<noteq> [] \<Longrightarrow> hd s \<noteq> CHR ''0'' \<Longrightarrow> strtoul0 s = scan_base 10 0 s"
  by (auto simp: strtoul0_def split: list.splits)

lemma strtoul0_dec:
  assumes "r = [] \<or> hd r = CHR ''.''"
  shows "strtoul0 (dec n @ r) = (n, r)"
proof (cases "n = 0")
  case True
  have "dec 0 = ''0''" by (subst dec.simps) (code_simp)
  with True assms show ?thesis
    by (cases r) (auto simp: strtoul0_def digit_val_def split: list.split)
next
  case False
  have "digit_val CHR ''.'' = None" by (simp add: digit_val_def)
  then have r: "r = [] \<or> digit_val (hd r) = None" using assms by auto
  have "strtoul0 (dec n @ r) = scan_base 10 0 (dec n @ r)"
    using False hd_dec [of n] dec_not_Nil [of n] by (intro strtoul0_nonzero) auto
  also have "\<dots> = (dec_value (dec n), r)"
    using r isdigit_dec by (simp add: scan_base_digits dec_value_def)
  finally show ?thesis by (simp add: dec_value_dec)
qed

section \<open>IPv4 addresses\<close>

text \<open>An \<open>in_addr\<close> holds its address in network order: its first byte in memory is the first number.\<close>

definition inet_ntoa :: "u32 \<Rightarrow> string" where
  "inet_ntoa a =
     (let bs = bytes32 a in
      dec (unat (bs ! 0)) @ ''.'' @ dec (unat (bs ! 1)) @ ''.'' @
      dec (unat (bs ! 2)) @ ''.'' @ dec (unat (bs ! 3)))"

text \<open>The loop of \<open>inet_aton\<close> over the parts; \<open>pp\<close> holds the bytes stored so far.\<close>

function inet_parts :: "u8 list \<Rightarrow> string \<Rightarrow> (u8 list \<times> nat \<times> string) option" where
  "inet_parts pp cp =
     (case cp of
        [] \<Rightarrow> None
      | c # _ \<Rightarrow>
          if \<not> isdigit c then None
          else let (val, cp) = strtoul0 cp in
            if val > 0xffffffff then None
            else (case cp of
                c # rest \<Rightarrow>
                  if c = CHR ''.'' then
                    if length pp > 2 \<or> val > 0xff then None
                    else inet_parts (pp @ [word_of_nat val]) rest
                  else Some (pp, val, cp)
              | [] \<Rightarrow> Some (pp, val, [])))"
  by pat_completeness auto
termination
  by (relation "measure (\<lambda>(pp, cp). 3 - length pp)") auto

declare inet_parts.simps [simp del]

definition inet_max :: "nat list" where
  "inet_max = [0xffffffff, 0xffffff, 0xffff, 0xff]"

definition inet_aton :: "string \<Rightarrow> u32 option" where
  "inet_aton cp =
     (case inet_parts [] cp of
        None \<Rightarrow> None
      | Some (pp, val, rest) \<Rightarrow>
          if rest \<noteq> [] \<and> \<not> isspace (hd rest) then None
          else if val > inet_max ! length pp then None
          else let w = pp @ replicate (4 - length pp) 0 in
            Some (le32 (w ! 0) (w ! 1) (w ! 2) (w ! 3) OR ntohl (word_of_nat val)))"

definition INADDR_NONE :: u32 where "INADDR_NONE = 0xFFFFFFFF"

definition inet_addr :: "string \<Rightarrow> u32" where
  "inet_addr cp = (case inet_aton cp of None \<Rightarrow> INADDR_NONE | Some a \<Rightarrow> a)"

text \<open>One part of a dotted quad is scanned and stored.\<close>

lemma dec_head: "\<exists>c s. dec n = c # s \<and> isdigit c"
  using dec_not_Nil [of n] isdigit_dec [of _ n] by (cases "dec n") auto

lemma inet_parts_step:
  assumes "n < 256" "length pp \<le> 2"
  shows "inet_parts pp (dec n @ CHR ''.'' # rest) = inet_parts (pp @ [word_of_nat n]) rest"
proof -
  obtain c s where d: "dec n = c # s" "isdigit c" using dec_head by blast
  have "strtoul0 (dec n @ CHR ''.'' # rest) = (n, CHR ''.'' # rest)" by (rule strtoul0_dec) simp
  with assms d show ?thesis by (subst inet_parts.simps) simp
qed

lemma inet_parts_last:
  assumes "n < 256"
  shows "inet_parts pp (dec n) = Some (pp, n, [])"
proof -
  obtain c s where d: "dec n = c # s" "isdigit c" using dec_head by blast
  have "strtoul0 (dec n) = (n, [])" using strtoul0_dec [of "[]" n] by simp
  with assms d show ?thesis by (subst inet_parts.simps) simp
qed

lemma ntohl_byte: "n < 256 \<Longrightarrow> ntohl (word_of_nat n) = le32 0 0 0 (word_of_nat n)"
  unfolding ntohl_def unat_of_nat by simp

lemma last_byte_OR: "le32 a b c 0 OR le32 0 0 0 d = le32 a b c d"
proof (rule word_unat_eqI)
  let ?x = "unat a + 256 * (unat b + 256 * unat c)"
  have "?x < 2 ^ 24" using unat_lt_256 [of a] unat_lt_256 [of b] unat_lt_256 [of c] by simp
  then have "?x OR 2 ^ 24 * unat d = ?x + 2 ^ 24 * unat d" by (rule or_shifted_eq_add)
  moreover have "unat (le32 a b c 0 OR le32 0 0 0 d) = unat (le32 a b c 0) OR unat (le32 0 0 0 d)"
    by (rule unsigned_or_eq)
  ultimately show "unat (le32 a b c 0 OR le32 0 0 0 d) = unat (le32 a b c d)"
    by (simp add: unat_le32)
qed

text \<open>\<open>inet_aton\<close> reads back what \<open>inet_ntoa\<close> prints.\<close>

lemma inet_aton_ntoa: "inet_aton (inet_ntoa a) = Some a"
proof -
  define b where "b i = bytes32 a ! i" for i
  have bs: "bytes32 a = [b 0, b 1, b 2, b 3]" by (simp add: b_def bytes32_def)
  have a: "le32 (b 0) (b 1) (b 2) (b 3) = a" by (simp add: b_def bytes32_def le32_bytes32)
  have lt: "unat (b i) < 256" for i by (rule unat_lt_256)
  have w: "word_of_nat (unat (b i)) = b i" for i by simp
  have "inet_parts [] (inet_ntoa a) = Some ([b 0, b 1, b 2], unat (b 3), [])"
    by (simp add: inet_ntoa_def bs inet_parts_step lt inet_parts_last)
  moreover have "ntohl (word_of_nat (unat (b 3))) = le32 0 0 0 (b 3)"
    using ntohl_byte [OF lt [of 3]] by simp
  ultimately show ?thesis
    using lt [of 3] a by (simp add: inet_aton_def inet_max_def last_byte_OR)
qed

section \<open>Ethernet addresses\<close>

definition at0 :: "string \<Rightarrow> char" where
  "at0 s = (case s of [] \<Rightarrow> NUL | c # _ \<Rightarrow> c)"

definition hex_digit :: "char \<Rightarrow> nat option" where
  "hex_digit c = digit_val (tolower c)"

text \<open>The loop of \<open>ether_aton_r\<close>: \<open>cnt\<close> octets have been stored; one or two digits each.\<close>

function ether_octets :: "nat \<Rightarrow> u8 list \<Rightarrow> string \<Rightarrow> u8 list option" where
  "ether_octets cnt acc asc =
     (if cnt \<ge> 6 then Some acc
      else (case hex_digit (at0 asc) of
          None \<Rightarrow> None
        | Some number \<Rightarrow>
            let ch = tolower (at0 (tl asc)) in
            if cnt < 5 \<and> ch \<noteq> CHR '':'' \<or> cnt = 5 \<and> ch \<noteq> NUL \<and> \<not> isspace ch then
              (case hex_digit (at0 (tl asc)) of
                 None \<Rightarrow> None
               | Some low \<Rightarrow>
                   if cnt < 5 \<and> at0 (drop 2 asc) \<noteq> CHR '':'' then None
                   else ether_octets (cnt + 1) (acc @ [word_of_nat (16 * number + low)]) (drop 3 asc))
            else ether_octets (cnt + 1) (acc @ [word_of_nat number]) (drop 2 asc)))"
  by pat_completeness auto
termination
  by (relation "measure (\<lambda>(cnt, acc, asc). 6 - cnt)") auto

declare ether_octets.simps [simp del]

definition ether_aton :: "string \<Rightarrow> u8 list option" where
  "ether_aton asc = ether_octets 0 [] asc"

end
