(* ===== verification/Picotime.thy ===== *)
theory Picotime
  imports Libc "HOL-Library.Log_Nat"
begin

text \<open>
  Picosecond timestamps (\<open>caputils/picotime.h\<close>, \<open>src/picotime.c\<close>): the packed struct of a 32-bit
  second and a 64-bit picosecond count, the conversions from \<open>timespec\<close> and \<open>timeval\<close>, the
  comparison, subtraction and addition.

  The C code divides and scales with \<open>PICODIVIDER\<close>, the \<open>double\<close> constant 1e12, so every
  intermediate of \<open>timepico_sub\<close> and \<open>timepico_add\<close> that involves it is an IEEE double. The model
  computes with the rounded values: \<open>r53\<close> rounds a natural number to a 53-bit significand, ties to
  even, and \<open>pico_quot\<close> is the rounded quotient by 1e12 in units of \<open>2 ^ -94\<close>, below the last
  significand bit of every quotient that occurs.
\<close>

section \<open>The type and its order\<close>

record timepico =
  tv_sec :: u32
  tv_psec :: u64

instantiation timepico_ext :: (linorder) linorder
begin

definition less_eq_timepico_ext :: "'a timepico_scheme \<Rightarrow> 'a timepico_scheme \<Rightarrow> bool" where
  "less_eq_timepico_ext x y \<longleftrightarrow>
     tv_sec x < tv_sec y \<or>
     tv_sec x = tv_sec y \<and>
       (tv_psec x < tv_psec y \<or> tv_psec x = tv_psec y \<and> timepico.more x \<le> timepico.more y)"

definition less_timepico_ext :: "'a timepico_scheme \<Rightarrow> 'a timepico_scheme \<Rightarrow> bool" where
  "less_timepico_ext x y \<longleftrightarrow> x \<le> y \<and> \<not> y \<le> x"

instance
  by standard (auto simp: less_eq_timepico_ext_def less_timepico_ext_def)

end

lemma timepico_less_iff:
  "x < y \<longleftrightarrow> tv_sec x < tv_sec y \<or> tv_sec x = tv_sec y \<and> tv_psec x < tv_psec y"
  for x y :: timepico
  by (auto simp: less_timepico_ext_def less_eq_timepico_ext_def)

lemma timepico_le_iff:
  "x \<le> y \<longleftrightarrow> tv_sec x < tv_sec y \<or> tv_sec x = tv_sec y \<and> tv_psec x \<le> tv_psec y"
  for x y :: timepico
  by (auto simp: less_eq_timepico_ext_def)

section \<open>Conversions\<close>

text \<open>\<open>struct timespec\<close> and \<open>struct timeval\<close>: two C \<open>long\<close>s, kept as their 64 bits.\<close>

record timespec =
  ts_sec :: u64
  ts_nsec :: u64

record timeval =
  tval_sec :: u64
  tval_usec :: u64

definition timespec_to_timepico :: "timespec \<Rightarrow> timepico" where
  "timespec_to_timepico t = \<lparr>tv_sec = ucast (ts_sec t), tv_psec = ts_nsec t * 1000\<rparr>"

definition timeval_to_timepico :: "timeval \<Rightarrow> timepico" where
  "timeval_to_timepico t = \<lparr>tv_sec = ucast (tval_sec t), tv_psec = tval_usec t * 1000 * 1000\<rparr>"

definition timepico_new :: "u64 \<Rightarrow> u64 \<Rightarrow> timepico" where
  "timepico_new sec psec = \<lparr>tv_sec = ucast sec, tv_psec = psec\<rparr>"

section \<open>Comparison\<close>

definition timecmp :: "timepico \<Rightarrow> timepico \<Rightarrow> int" where
  "timecmp ts1 ts2 =
     (if tv_sec ts1 < tv_sec ts2 then -1
      else if tv_sec ts1 > tv_sec ts2 then 1
      else if tv_psec ts1 < tv_psec ts2 then -1
      else if tv_psec ts1 > tv_psec ts2 then 1
      else 0)"

lemma timecmp_order: "timecmp x y = (if x < y then -1 else if y < x then 1 else 0)"
  by (auto simp: timecmp_def timepico_less_iff)

lemma timecmp_less: "timecmp x y < 0 \<longleftrightarrow> x < y"
  by (auto simp: timecmp_order)

lemma timecmp_le: "timecmp x y \<le> 0 \<longleftrightarrow> x \<le> y"
  by (auto simp: timecmp_order)

lemma timecmp_greater: "timecmp x y > 0 \<longleftrightarrow> y < x"
  by (auto simp: timecmp_order)

section \<open>Doubles\<close>

definition PICODIVIDER :: nat where
  "PICODIVIDER = 1000000000000"

text \<open>Round to nearest, ties to even, with a significand of 53 bits.\<close>

definition r53 :: "nat \<Rightarrow> nat" where
  "r53 n =
     (let e = floorlog 2 n - 53; q = n div 2 ^ e; r = n mod 2 ^ e; h = 2 ^ e div 2
      in if e = 0 then n
         else if r < h \<or> r = h \<and> even q then q * 2 ^ e else (q + 1) * 2 ^ e)"

definition r53i :: "int \<Rightarrow> int" where
  "r53i x = (if x < 0 then - int (r53 (nat (- x))) else int (r53 (nat x)))"

text \<open>
  The rounded quotient of a double by 1e12, in units of \<open>2 ^ -94\<close>. The exact quotient is cut at
  \<open>2 ^ -93\<close> and a sticky bit below it records whether anything was cut off, so that rounding the
  sum rounds the exact quotient.
\<close>

definition pico_quot :: "nat \<Rightarrow> nat" where
  "pico_quot a =
     r53 (2 * (a * 2 ^ 93 div PICODIVIDER) + (if a * 2 ^ 93 mod PICODIVIDER = 0 then 0 else 1))"

text \<open>
  Conversion of an integral double to \<open>uint64_t\<close> as the compiler emits it for x86-64: negative
  values down to \<open>-2 ^ 63\<close> come out modulo \<open>2 ^ 64\<close> (ISO C leaves them undefined), smaller ones
  as the integer-indefinite value, values from \<open>2 ^ 64\<close> on as 0.
\<close>

definition u64_of_dbl :: "int \<Rightarrow> u64" where
  "u64_of_dbl v = (if v < - (2 ^ 63) then 2 ^ 63 else if v < 2 ^ 64 then word_of_int v else 0)"

section \<open>Subtraction and addition\<close>

text \<open>
  \<open>timepico_sub\<close>: the carry is moved into the subtrahend, in doubles, and the fields are then
  subtracted.
\<close>

definition sub_borrow :: "timepico \<Rightarrow> timepico \<Rightarrow> timepico" where
  "sub_borrow x y =
     (if tv_psec x < tv_psec y then
        let psec = r53 (pico_quot (r53 (unat (tv_psec y - tv_psec x))) + 2 ^ 94) div 2 ^ 94
        in \<lparr>tv_sec = tv_sec y + word_of_nat psec,
            tv_psec = u64_of_dbl (r53i (int (r53 (unat (tv_psec y))) - int (r53 (PICODIVIDER * psec))))\<rparr>
      else y)"

definition sub_excess :: "timepico \<Rightarrow> timepico \<Rightarrow> timepico" where
  "sub_excess x y =
     (if PICODIVIDER < r53 (unat (tv_psec x - tv_psec y)) then
        let psec = pico_quot (r53 (unat (tv_psec x - tv_psec y))) div 2 ^ 94
        in \<lparr>tv_sec = tv_sec y - word_of_nat psec,
            tv_psec = u64_of_dbl (r53i (int (r53 (unat (tv_psec y))) + int (r53 (PICODIVIDER * psec))))\<rparr>
      else y)"

definition timepico_sub :: "timepico \<Rightarrow> timepico \<Rightarrow> timepico" where
  "timepico_sub x y =
     (let y = sub_borrow x y; y = sub_excess x y
      in \<lparr>tv_sec = tv_sec x - tv_sec y, tv_psec = tv_psec x - tv_psec y\<rparr>)"

subsection \<open>Facts about the rounding\<close>

lemma r53_exact: "n < 2 ^ 53 \<Longrightarrow> r53 n = n"
proof -
  assume "n < 2 ^ 53"
  then have "floorlog 2 n \<le> 53"
    by (intro floorlog_leI) simp_all
  then show ?thesis by (simp add: r53_def)
qed

lemma r53_le: "r53 n \<le> n + n div 2 ^ 53"
proof (cases "n < 2 ^ 53")
  case True
  then show ?thesis by (simp add: r53_exact)
next
  case False
  define e where "e = floorlog 2 n - 53"
  from False have n0: "0 < n" by simp
  then have fb: "2 ^ (floorlog 2 n - 1) \<le> n" and fb2: "n < 2 ^ floorlog 2 n"
    using floorlog_bounds [of n 2] by simp_all
  have big: "53 < floorlog 2 n"
  proof (rule ccontr)
    assume "\<not> 53 < floorlog 2 n"
    then have "(2::nat) ^ floorlog 2 n \<le> 2 ^ 53"
      by (intro power_increasing) simp_all
    with fb2 False show False by linarith
  qed
  then have fl: "floorlog 2 n - 1 = (e - 1) + 53" and e0: "0 < e"
    by (simp_all add: e_def)
  have half: "(2::nat) ^ e div 2 = 2 ^ (e - 1)"
    using e0 by (cases e) simp_all
  have "2 ^ (e - 1) * 2 ^ 53 \<le> n"
    using fb unfolding fl power_add .
  then have h: "2 ^ (e - 1) \<le> n div 2 ^ 53"
    by (simp add: less_eq_div_iff_mult_less_eq)
  have dm: "n = n div 2 ^ e * 2 ^ e + n mod 2 ^ e"
    by (rule div_mult_mod_eq [symmetric])
  have "(n div 2 ^ e + 1) * 2 ^ e \<le> n + 2 ^ (e - 1)" if "\<not> n mod 2 ^ e < 2 ^ e div 2"
  proof -
    have "2 ^ (e - 1) \<le> n mod 2 ^ e" "(2::nat) ^ e = 2 ^ (e - 1) + 2 ^ (e - 1)"
      using that half e0 by (simp_all flip: power_Suc mult_2)
    with dm show ?thesis by (simp add: algebra_simps)
  qed
  moreover have "n div 2 ^ e * 2 ^ e \<le> n + n div 2 ^ 53"
    using div_times_less_eq_dividend [of n "2 ^ e"] by linarith
  ultimately show ?thesis
    using h e0 unfolding r53_def Let_def e_def [symmetric] by (auto intro: order_trans)
qed

lemma r53_pow2_le:
  assumes "2 ^ k \<le> n" shows "2 ^ k \<le> r53 n"
proof -
  define e where "e = floorlog 2 n - 53"
  have n0: "0 < n" using assms by (metis less_le_trans zero_less_numeral zero_less_power)
  have "2 ^ k < (2::nat) ^ floorlog 2 n"
    using assms floorlog_bounds [of n 2] n0 by (simp add: order.strict_trans1)
  then have "k < floorlog 2 n" by simp
  have low: "2 ^ k \<le> n div 2 ^ e * 2 ^ e"
  proof (cases "e \<le> k")
    case True
    then have k: "(2::nat) ^ k = 2 ^ (k - e) * 2 ^ e" by (simp flip: power_add)
    with assms have "2 ^ (k - e) \<le> n div 2 ^ e"
      by (simp add: less_eq_div_iff_mult_less_eq)
    with k show ?thesis by (metis mult_le_mono1)
  next
    case False
    have "(2::nat) ^ k \<le> 2 ^ e" using False by (intro power_increasing) simp_all
    moreover have "2 ^ e \<le> n"
    proof -
      have "(2::nat) ^ e \<le> 2 ^ (floorlog 2 n - 1)"
        by (intro power_increasing) (simp_all add: e_def)
      also have "\<dots> \<le> n" using floorlog_bounds [of n 2] n0 by simp
      finally show ?thesis .
    qed
    then have "1 \<le> n div 2 ^ e" by (simp add: less_eq_div_iff_mult_less_eq)
    ultimately show ?thesis by (metis mult_1 mult_le_mono1 order_trans)
  qed
  then show ?thesis
    using assms unfolding r53_def Let_def e_def [symmetric] by (auto intro: order_trans)
qed

lemma r53_mono_int: "r53i (int n) = int (r53 n)"
  by (simp add: r53i_def)

lemma r53_small:
  assumes "n < 2 ^ 53" shows "r53i (int n) = int n" "r53i (- int n) = - int n"
  using assms by (auto simp: r53i_def r53_exact)

lemma u64_of_dbl_neg:
  "n \<le> 2 ^ 62 \<Longrightarrow> u64_of_dbl (- int n) = - word_of_nat n"
  by (simp add: u64_of_dbl_def)

lemma u64_of_dbl_pos: "n < 2 ^ 64 \<Longrightarrow> u64_of_dbl (int n) = word_of_nat n"
  by (simp add: u64_of_dbl_def)

text \<open>A borrow of less than a second is one second: the rounding never reaches the next integer.\<close>

lemma borrow_one:
  assumes "d < PICODIVIDER"
  shows "r53 (pico_quot d + 2 ^ 94) div 2 ^ 94 = 1"
proof -
  define N where "N = 2 * (d * 2 ^ 93 div PICODIVIDER) +
    (if d * 2 ^ 93 mod PICODIVIDER = 0 then 0 else 1::nat)"
  have "d * 2 ^ 93 div PICODIVIDER \<le> (PICODIVIDER - 1) * 2 ^ 93 div PICODIVIDER"
    using assms by (intro div_le_mono mult_le_mono) simp_all
  also have "\<dots> = 9903520314273138678878710749"
    by (simp add: PICODIVIDER_def)
  finally have N: "N \<le> 2 * 9903520314273138678878710749 + 1"
    unfolding N_def by simp
  have "r53 N \<le> N + N div 2 ^ 53" by (rule r53_le)
  also have "\<dots> \<le> (2 * 9903520314273138678878710749 + 1)
      + (2 * 9903520314273138678878710749 + 1) div 2 ^ 53"
    using N by (intro add_mono div_le_mono)
  finally have q: "pico_quot d \<le> 19807040628546279556780677048"
    unfolding pico_quot_def N_def [symmetric] by simp
  let ?m = "pico_quot d + 2 ^ 94"
  have "r53 ?m \<le> ?m + ?m div 2 ^ 53" by (rule r53_le)
  also have "\<dots> \<le> (19807040628546279556780677048 + 2 ^ 94)
      + (19807040628546279556780677048 + 2 ^ 94) div 2 ^ 53"
    using q by (intro add_mono div_le_mono) simp_all
  also have "\<dots> < 2 * 2 ^ 94" by simp
  finally have "r53 ?m div 2 ^ 94 < 2" by (simp only: less_mult_imp_div_less)
  moreover have "2 ^ 94 \<le> r53 ?m" by (rule r53_pow2_le) simp
  then have "1 \<le> r53 ?m div 2 ^ 94" by (simp add: less_eq_div_iff_mult_less_eq)
  ultimately show ?thesis by linarith
qed

text \<open>\<open>timepico_add\<close>: the fields are added and whole seconds are carried over one at a time.\<close>

lemma carry_decreases:
  fixes p :: u64
  assumes "PICODIVIDER < r53 (unat p)"
  shows "unat (u64_of_dbl (r53i (int (r53 (unat p)) - int PICODIVIDER))) < unat p"
proof -
  define n where "n = r53 (unat p) - PICODIVIDER"
  have n: "int (r53 (unat p)) - int PICODIVIDER = int n"
    using assms by (simp add: n_def)
  have "r53 (unat p) \<le> unat p + 2 ^ 11"
    using r53_le [of "unat p"] unat_lt_u64 [of p] div_le_mono [of "unat p" "2 ^ 64" "2 ^ 53"]
    by simp
  then have n_le: "n + PICODIVIDER \<le> unat p + 2 ^ 11"
    using assms by (simp add: n_def)
  then have "n \<le> 2 ^ 64"
    using unat_lt_u64 [of p] by (simp add: PICODIVIDER_def)
  then have "r53 n \<le> n + 2 ^ 11"
    using r53_le [of n] div_le_mono [of n "2 ^ 64" "2 ^ 53"] by simp
  with n_le have le: "r53 n + (PICODIVIDER - 2 ^ 12) \<le> unat p"
    by (simp add: PICODIVIDER_def)
  then have "r53 n < 2 ^ 64"
    using unat_lt_u64 [of p] by (simp add: PICODIVIDER_def)
  then have "unat (u64_of_dbl (int (r53 n))) = r53 n"
    by (simp add: u64_of_dbl_pos unat_of_nat)
  with le show ?thesis
    unfolding n r53_mono_int by (simp add: PICODIVIDER_def)
qed

function add_carry :: "timepico \<Rightarrow> timepico" where
  "add_carry tmp =
     (if PICODIVIDER < r53 (unat (tv_psec tmp)) then
        add_carry \<lparr>tv_sec = tv_sec tmp + 1,
          tv_psec = u64_of_dbl (r53i (int (r53 (unat (tv_psec tmp))) - int PICODIVIDER))\<rparr>
      else tmp)"
  by pat_completeness auto
termination
  by (relation "measure (\<lambda>tmp. unat (tv_psec tmp))") (simp_all add: carry_decreases)

declare add_carry.simps [simp del]

definition timepico_add :: "timepico \<Rightarrow> timepico \<Rightarrow> timepico" where
  "timepico_add a b =
     add_carry \<lparr>tv_sec = tv_sec a + tv_sec b, tv_psec = tv_psec a + tv_psec b\<rparr>"

section \<open>Correctness of subtraction\<close>

text \<open>A timestamp is normalised when its picoseconds are less than a second.\<close>

definition norm_tp :: "timepico \<Rightarrow> bool" where
  "norm_tp t \<longleftrightarrow> unat (tv_psec t) < PICODIVIDER"

definition total_psec :: "timepico \<Rightarrow> nat" where
  "total_psec t = unat (tv_sec t) * PICODIVIDER + unat (tv_psec t)"

lemma norm_tp_r53: "norm_tp t \<Longrightarrow> r53 (unat (tv_psec t)) = unat (tv_psec t)"
  by (rule r53_exact) (simp add: norm_tp_def PICODIVIDER_def)

lemma total_psec_less_iff:
  assumes "norm_tp x" "norm_tp y"
  shows "total_psec x < total_psec y \<longleftrightarrow> x < y"
proof -
  have "unat (tv_sec x) < unat (tv_sec y) \<Longrightarrow> total_psec x < total_psec y" if "norm_tp x" for x y
  proof -
    assume "unat (tv_sec x) < unat (tv_sec y)"
    then have "(unat (tv_sec x) + 1) * PICODIVIDER \<le> unat (tv_sec y) * PICODIVIDER"
      by (intro mult_le_mono1) simp
    with that show ?thesis by (simp add: total_psec_def norm_tp_def)
  qed
  note step = this
  consider "unat (tv_sec x) < unat (tv_sec y)" | "unat (tv_sec y) < unat (tv_sec x)"
    | "tv_sec x = tv_sec y"
    by (metis linorder_neqE_nat unsigned_word_eqI)
  then show ?thesis
    using step [of x y] step [of y x] assms
    by cases (auto simp: timepico_less_iff word_less_nat_alt total_psec_def)
qed

lemma sub_borrow_norm:
  assumes "norm_tp x" "norm_tp y"
  shows "sub_borrow x y =
    (if tv_psec x < tv_psec y
     then \<lparr>tv_sec = tv_sec y + 1, tv_psec = tv_psec y - word_of_nat PICODIVIDER\<rparr> else y)"
proof (cases "tv_psec x < tv_psec y")
  case True
  define d where "d = unat (tv_psec y - tv_psec x)"
  have dl: "d < PICODIVIDER"
    using assms True by (simp add: d_def norm_tp_def unat_sub word_less_nat_alt word_le_nat_alt)
  then have "r53 d = d" by (intro r53_exact) (simp add: PICODIVIDER_def)
  with borrow_one [OF dl] have psec: "r53 (pico_quot (r53 d) + 2 ^ 94) div 2 ^ 94 = 1"
    by simp
  have "r53 PICODIVIDER = PICODIVIDER"
    by (rule r53_exact) (simp add: PICODIVIDER_def)
  moreover define k where "k = PICODIVIDER - unat (tv_psec y)"
  moreover have "int (unat (tv_psec y)) - int PICODIVIDER = - int k"
    using assms by (simp add: k_def norm_tp_def)
  moreover have "u64_of_dbl (r53i (- int k)) = - word_of_nat k"
    using assms by (simp add: k_def PICODIVIDER_def r53_small u64_of_dbl_neg)
  moreover have "(- word_of_nat k :: u64) = tv_psec y - word_of_nat PICODIVIDER"
    using assms by (simp add: k_def norm_tp_def less_imp_le)
  ultimately show ?thesis
    using True psec assms by (simp add: sub_borrow_def Let_def d_def [symmetric] norm_tp_r53)
next
  case False
  then show ?thesis by (simp add: sub_borrow_def)
qed

lemma sub_diff_norm:
  assumes "norm_tp x" "norm_tp y"
  shows "unat (tv_psec x - tv_psec (sub_borrow x y)) =
    (if tv_psec x < tv_psec y then unat (tv_psec x) + PICODIVIDER - unat (tv_psec y)
     else unat (tv_psec x) - unat (tv_psec y))"
proof (cases "tv_psec x < tv_psec y")
  case True
  define n where "n = unat (tv_psec x) + PICODIVIDER - unat (tv_psec y)"
  have "tv_psec x - (tv_psec y - word_of_nat PICODIVIDER) = word_of_nat n"
    using assms by (simp add: n_def norm_tp_def)
  moreover have "n < 2 ^ 64"
    using assms by (simp add: n_def norm_tp_def PICODIVIDER_def)
  then have "unat (word_of_nat n :: u64) = n"
    by (simp add: unat_of_nat)
  ultimately show ?thesis
    using True assms by (simp add: sub_borrow_norm n_def)
next
  case False
  then show ?thesis by (simp add: sub_borrow_norm assms unat_sub)
qed

lemma timepico_sub_norm:
  assumes "norm_tp x" "norm_tp y"
  shows "unat (tv_psec (timepico_sub x y)) =
      (if tv_psec x < tv_psec y then unat (tv_psec x) + PICODIVIDER - unat (tv_psec y)
       else unat (tv_psec x) - unat (tv_psec y))"
    and "tv_sec (timepico_sub x y) =
      tv_sec x - tv_sec y - (if tv_psec x < tv_psec y then 1 else 0)"
proof -
  let ?d = "unat (tv_psec x - tv_psec (sub_borrow x y))"
  have "?d \<le> PICODIVIDER"
    using assms by (auto simp: sub_diff_norm norm_tp_def word_less_nat_alt)
  moreover from this have "r53 ?d = ?d"
    by (intro r53_exact) (simp add: PICODIVIDER_def)
  ultimately have "sub_excess x (sub_borrow x y) = sub_borrow x y"
    by (simp add: sub_excess_def)
  then show "unat (tv_psec (timepico_sub x y)) =
      (if tv_psec x < tv_psec y then unat (tv_psec x) + PICODIVIDER - unat (tv_psec y)
       else unat (tv_psec x) - unat (tv_psec y))"
    and "tv_sec (timepico_sub x y) =
      tv_sec x - tv_sec y - (if tv_psec x < tv_psec y then 1 else 0)"
    using sub_diff_norm [OF assms] sub_borrow_norm [OF assms]
    by (simp_all add: timepico_sub_def Let_def)
qed

lemma timepico_sub_total:
  assumes "norm_tp x" "norm_tp y" "y \<le> x"
  shows "norm_tp (timepico_sub x y)"
    and "total_psec (timepico_sub x y) = total_psec x - total_psec y"
proof -
  note ps = timepico_sub_norm(1) [OF assms(1,2)]
  note sec = timepico_sub_norm(2) [OF assms(1,2)]
  show "norm_tp (timepico_sub x y)"
    using assms ps by (auto simp: norm_tp_def word_less_nat_alt)
  show "total_psec (timepico_sub x y) = total_psec x - total_psec y"
  proof (cases "tv_psec x < tv_psec y")
    case True
    with assms(3) have "tv_sec y < tv_sec x"
      by (auto simp: timepico_le_iff)
    then have lt: "unat (tv_sec y) + 1 \<le> unat (tv_sec x)"
      by (simp add: word_less_nat_alt)
    have "tv_sec (timepico_sub x y) = word_of_nat (unat (tv_sec x) - unat (tv_sec y) - 1)"
      using lt True by (simp add: sec)
    then have "unat (tv_sec (timepico_sub x y)) = unat (tv_sec x) - unat (tv_sec y) - 1"
      using unat_lt_u32 [of "tv_sec x"] by (simp add: unat_of_nat del: word_of_nat_eq_iff)
    with lt obtain k where k: "unat (tv_sec x) = unat (tv_sec y) + 1 + k"
      and "unat (tv_sec (timepico_sub x y)) = k"
      by (metis add_diff_cancel_left' diff_diff_left le_Suc_ex)
    then show ?thesis
      using True ps assms(1,2) by (simp add: total_psec_def norm_tp_def algebra_simps)
  next
    case False
    then have "unat (tv_sec (timepico_sub x y)) = unat (tv_sec x) - unat (tv_sec y)"
      and "unat (tv_sec y) \<le> unat (tv_sec x)"
      using assms(3) sec by (auto simp: timepico_le_iff unat_sub word_less_nat_alt word_le_nat_alt)
    then show ?thesis
      using False ps by (simp add: total_psec_def diff_mult_distrib word_less_nat_alt)
  qed
qed

section \<open>Correctness of addition\<close>

lemma add_carry_norm:
  assumes "unat p \<le> 2 * PICODIVIDER"
  shows "add_carry \<lparr>tv_sec = s, tv_psec = p\<rparr> =
    (if unat p \<le> PICODIVIDER then \<lparr>tv_sec = s, tv_psec = p\<rparr>
     else \<lparr>tv_sec = s + 1, tv_psec = p - word_of_nat PICODIVIDER\<rparr>)"
proof (cases "unat p \<le> PICODIVIDER")
  case True
  then have "r53 (unat p) = unat p"
    by (intro r53_exact) (simp add: PICODIVIDER_def)
  with True show ?thesis by (simp add: add_carry.simps)
next
  case False
  define n where "n = unat p - PICODIVIDER"
  have r: "r53 (unat p) = unat p" "r53 n = n"
    using assms by (simp_all add: r53_exact n_def PICODIVIDER_def)
  have n: "int (r53 (unat p)) - int PICODIVIDER = int n" and "n \<le> PICODIVIDER"
    using False assms r by (simp_all add: n_def)
  then have n2: "unat (word_of_nat n :: u64) = n" "n < 2 ^ 64"
    by (simp_all add: unat_of_nat PICODIVIDER_def)
  have "add_carry \<lparr>tv_sec = s, tv_psec = p\<rparr> = add_carry \<lparr>tv_sec = s + 1, tv_psec = word_of_nat n\<rparr>"
    using False r n n2 by (subst add_carry.simps) (simp add: r53_mono_int u64_of_dbl_pos)
  also have "\<dots> = \<lparr>tv_sec = s + 1, tv_psec = word_of_nat n\<rparr>"
    using n2 r \<open>n \<le> PICODIVIDER\<close> by (subst add_carry.simps) simp
  finally show ?thesis
    using False by (simp add: n_def)
qed

lemma timepico_add_total:
  assumes "norm_tp a" "norm_tp b" "unat (tv_sec a) + unat (tv_sec b) + 1 < 2 ^ 32"
  shows "total_psec (timepico_add a b) = total_psec a + total_psec b"
    and "norm_tp (timepico_add a b) \<longleftrightarrow> unat (tv_psec a) + unat (tv_psec b) \<noteq> PICODIVIDER"
proof -
  let ?p = "unat (tv_psec a) + unat (tv_psec b)"
  have p: "unat (tv_psec a + tv_psec b) = ?p" and p2: "?p \<le> 2 * PICODIVIDER"
    using assms(1,2) by (simp_all add: norm_tp_def PICODIVIDER_def unat_word_ariths)
  have s: "unat (tv_sec a + tv_sec b) = unat (tv_sec a) + unat (tv_sec b)"
    and s1: "unat (tv_sec a + tv_sec b + 1) = unat (tv_sec a) + unat (tv_sec b) + 1"
    using assms(3) by (simp_all add: unat_word_ariths)
  have eq: "timepico_add a b =
    (if ?p \<le> PICODIVIDER
     then \<lparr>tv_sec = tv_sec a + tv_sec b, tv_psec = tv_psec a + tv_psec b\<rparr>
     else \<lparr>tv_sec = tv_sec a + tv_sec b + 1,
           tv_psec = tv_psec a + tv_psec b - word_of_nat PICODIVIDER\<rparr>)"
    using p p2 by (simp add: timepico_add_def add_carry_norm)
  have c: "unat (tv_psec a + tv_psec b - word_of_nat PICODIVIDER) = ?p - PICODIVIDER"
    if "\<not> ?p \<le> PICODIVIDER"
  proof -
    have "word_of_nat PICODIVIDER \<le> tv_psec a + tv_psec b"
      using that p by (simp add: word_le_nat_alt PICODIVIDER_def)
    with p show ?thesis by (simp add: unat_sub PICODIVIDER_def)
  qed
  show "total_psec (timepico_add a b) = total_psec a + total_psec b"
    using p s s1 c by (simp add: eq total_psec_def algebra_simps)
  show "norm_tp (timepico_add a b) \<longleftrightarrow> ?p \<noteq> PICODIVIDER"
    using p c assms(1,2) by (auto simp: eq norm_tp_def)
qed

section \<open>The fraction of a timestamp string\<close>

text \<open>
  The tail of \<open>timepico_from_string\<close>, from the point where \<open>strptime\<close> has returned the rest of the
  input: a dot followed by digits is read with \<open>strtoll\<close> and scaled to picoseconds.
\<close>

definition fraction_psec :: "string \<Rightarrow> u64" where
  "fraction_psec fraction =
     (case fraction of
        [] \<Rightarrow> 0
      | c # digits \<Rightarrow>
          if c = CHR ''.'' then word_of_int (strtoll digits) * 10 ^ (12 - length digits) else 0)"

section \<open>Properties\<close>

text \<open>
  On normalised timestamps \<open>timecmp\<close> is the sign of the difference of the two points in
  time, counted in picoseconds.
\<close>

lemma timecmp_sign:
  assumes "norm_tp x" "norm_tp y"
  shows "timecmp x y = sgn (int (total_psec x) - int (total_psec y))"
  using total_psec_less_iff [OF assms] total_psec_less_iff [OF assms(2,1)]
  by (auto simp: timecmp_order sgn_if)

text \<open>
  Claim C27. \<open>timepico_sub\<close>, which computes its borrow in floating point, is exact: for normalised
  \<open>y \<le> x\<close> the result is normalised and is the difference in picoseconds.
\<close>

theorem timepico_sub_exact:
  assumes "norm_tp x" "norm_tp y" "timecmp y x \<le> 0"
  shows "norm_tp (timepico_sub x y) \<and> total_psec (timepico_sub x y) + total_psec y = total_psec x"
proof -
  have "y \<le> x" using assms(3) by (simp add: timecmp_le)
  moreover have "total_psec y \<le> total_psec x"
    using total_psec_less_iff [OF assms(1,2)] calculation by (simp add: linorder_not_less [symmetric])
  ultimately show ?thesis using timepico_sub_total [OF assms(1,2)] by simp
qed

theorem timepico_sub_exact_witness:
  "total_psec (timepico_sub \<lparr>tv_sec = 5, tv_psec = 3\<rparr> \<lparr>tv_sec = 3, tv_psec = 999999999999\<rparr>)
     = 1000000000004"
  using timepico_sub_exact [of "\<lparr>tv_sec = 5, tv_psec = 3\<rparr>" "\<lparr>tv_sec = 3, tv_psec = 999999999999\<rparr>"]
  by (simp add: norm_tp_def total_psec_def PICODIVIDER_def timecmp_def)

text \<open>
  \<open>timepico_add\<close> preserves the sum of the picoseconds when the seconds fit in 32 bits.
  Its result is normalised unless the picosecond fields add up to exactly one second: the loop
  compares with \<open>>\<close>, so that second is not carried.
\<close>

lemma timepico_add_exact:
  assumes "norm_tp a" "norm_tp b" "unat (tv_sec a) + unat (tv_sec b) + 1 < 2 ^ 32"
  shows "total_psec (timepico_add a b) = total_psec a + total_psec b \<and>
    (norm_tp (timepico_add a b) \<longleftrightarrow> unat (tv_psec a) + unat (tv_psec b) \<noteq> PICODIVIDER)"
  using timepico_add_total [OF assms] by simp

text \<open>
  A fraction of up to twelve digits behind the dot of a timestamp string is read as its
  decimal value in picoseconds: trailing zeros up to twelve digits are supplied.
\<close>

lemma fraction_psec_value:
  assumes "\<forall>c\<in>set digits. isdigit c" "length digits \<le> 12"
  shows "unat (fraction_psec (CHR ''.'' # digits)) = dec_value digits * 10 ^ (12 - length digits)"
proof -
  have "dec_value digits * 10 ^ (12 - length digits) < 10 ^ length digits * 10 ^ (12 - length digits)"
    using dec_value_bound [OF assms(1)] by simp
  also have "\<dots> = (10::nat) ^ 12" using assms(2) by (simp flip: power_add)
  finally have b: "dec_value digits * 10 ^ (12 - length digits) < 2 ^ 64" by simp
  have "fraction_psec (CHR ''.'' # digits) = word_of_nat (dec_value digits * 10 ^ (12 - length digits))"
    using assms by (simp add: fraction_psec_def strtoll_digit_string)
  with b show ?thesis by (simp only: unat_of_nat) simp
qed

end
