(* ===== verification/Packet.thy ===== *)
theory Packet
  imports Picotime
begin

text \<open>
  Captured packets (\<open>caputils/capture.h\<close>, \<open>caputils/packet.h\<close>, \<open>src/packet.c\<close>, and the header
  finders of \<open>src/filter.c\<close>): the capture header, the search for the IPv4, TCP and UDP headers, and
  the payload sizes of the layers.

  A pointer into a packet is the offset of the byte it points to, counted from the ethernet header;
  NULL is \<open>None\<close>. The readable bytes are the list \<open>m\<close>; they may extend beyond the captured length,
  as the stream buffer does.
\<close>

section \<open>The capture header\<close>

record cap_header =
  ch_nic :: "char list"       \<comment> \<open>CAPHEAD_NICLEN = 8 characters\<close>
  ch_mampid :: "char list"    \<comment> \<open>8 characters\<close>
  ch_ts :: timepico
  ch_len :: u32
  ch_caplen :: u32
  ch_payload :: mem           \<comment> \<open>the memory behind the header\<close>

definition sizeof_ethhdr :: nat where "sizeof_ethhdr = 14"

definition sizeof_ether_vlan_header :: nat where "sizeof_ether_vlan_header = 18"

definition sizeof_udphdr :: nat where "sizeof_udphdr = 8"

definition ETHERTYPE_IP :: u16 where "ETHERTYPE_IP = 0x0800"

definition ETHERTYPE_VLAN :: u16 where "ETHERTYPE_VLAN = 0x8100"

definition ETHERTYPE_IPV6 :: u16 where "ETHERTYPE_IPV6 = 0x86dd"

definition ETHERTYPE_ARP :: u16 where "ETHERTYPE_ARP = 0x0806"

definition STPBRIDGES :: u16 where "STPBRIDGES = 0x0026"

definition CDPVTP :: u16 where "CDPVTP = 0x016E"

definition IPPROTO_TCP :: u8 where "IPPROTO_TCP = 6"

definition IPPROTO_UDP :: u8 where "IPPROTO_UDP = 17"

lemmas packet_consts = sizeof_ethhdr_def sizeof_ether_vlan_header_def sizeof_udphdr_def
  ETHERTYPE_IP_def ETHERTYPE_VLAN_def ETHERTYPE_IPV6_def ETHERTYPE_ARP_def STPBRIDGES_def
  CDPVTP_def IPPROTO_TCP_def IPPROTO_UDP_def

lemma ethertype_neq [simp]: "ETHERTYPE_VLAN \<noteq> ETHERTYPE_IP" "ETHERTYPE_IP \<noteq> ETHERTYPE_VLAN"
  by (simp_all add: packet_consts)

lemma ipproto_neq [simp]: "IPPROTO_TCP \<noteq> IPPROTO_UDP" "IPPROTO_UDP \<noteq> IPPROTO_TCP"
  by (simp_all add: packet_consts)

section \<open>Fields of the network and transport headers\<close>

text \<open>\<open>ether->h_proto\<close> in host order; the bit fields \<open>ip_hl\<close> and \<open>doff\<close> and the other fields.\<close>

definition h_proto :: "mem \<Rightarrow> u16 res" where
  "h_proto m = rbind (rd16 m 12) (\<lambda>w. Inr (ntohs w))"

definition ip_hl :: "mem \<Rightarrow> nat \<Rightarrow> nat res" where
  "ip_hl m ip = rbind (rd8 m ip) (\<lambda>b. Inr (unat (b AND 0x0F)))"

definition ip_len :: "mem \<Rightarrow> nat \<Rightarrow> u16 res" where
  "ip_len m ip = rbind (rd16 m (ip + 2)) (\<lambda>w. Inr (ntohs w))"

definition ip_p :: "mem \<Rightarrow> nat \<Rightarrow> u8 res" where
  "ip_p m ip = rd8 m (ip + 9)"

definition ip_src_of :: "mem \<Rightarrow> nat \<Rightarrow> u32 res" where
  "ip_src_of m ip = rd32 m (ip + 12)"

definition ip_dst_of :: "mem \<Rightarrow> nat \<Rightarrow> u32 res" where
  "ip_dst_of m ip = rd32 m (ip + 16)"

definition tcp_doff :: "mem \<Rightarrow> nat \<Rightarrow> nat res" where
  "tcp_doff m tcp = rbind (rd8 m (tcp + 12)) (\<lambda>b. Inr (unat (drop_bit 4 b)))"

section \<open>Finding headers\<close>

text \<open>
  \<open>find_ipv4_header_int\<close>: the \<open>retry\<close> label is a loop over the VLAN tags. It returns the offset of
  the IP header and the offset of its payload, or \<open>None\<close> for the return value -1. Its two callers
  always pass a non-null \<open>ptr\<close>.
\<close>

function ipv4_retry :: "mem \<Rightarrow> u16 \<Rightarrow> nat \<Rightarrow> nat option res" where
  "ipv4_retry m proto cur =
     (if proto = ETHERTYPE_IP then Inr (Some cur)
      else if proto = ETHERTYPE_VLAN then
        rbind (rd16 m (cur + 2)) (\<lambda>w. ipv4_retry m (ntohs w) (cur + 4))
      else Inr None)"
  by pat_completeness auto
termination
  by (relation "measure (\<lambda>(m, proto, cur). length m - cur)") (auto dest: rd16_Inr_bound)

declare ipv4_retry.simps [simp del]

definition find_ipv4_header_int :: "mem \<Rightarrow> (nat \<times> nat) option res" where
  "find_ipv4_header_int m =
     rbind (h_proto m) (\<lambda>proto.
     rbind (ipv4_retry m proto sizeof_ethhdr) (\<lambda>r.
       case r of
         None \<Rightarrow> Inr None
       | Some offset \<Rightarrow> rbind (ip_hl m offset) (\<lambda>hl. Inr (Some (offset, offset + 4 * hl)))))"

definition find_ipv4_header :: "mem \<Rightarrow> (nat \<times> nat) option res" where
  "find_ipv4_header m = find_ipv4_header_int m"

text \<open>
  \<open>find_ether_vlan_header\<close> takes and returns \<open>h_proto\<close>; the VLAN header, when there is one, starts
  at the ethernet header.
\<close>

definition find_ether_vlan_header :: "mem \<Rightarrow> u16 \<Rightarrow> (nat option \<times> u16) res" where
  "find_ether_vlan_header m proto =
     (if proto = 0x8100 then rbind (rd16 m 16) (\<lambda>w. Inr (Some 0, ntohs w))
      else Inr (None, proto))"

definition find_ipproto_header :: "mem \<Rightarrow> nat \<Rightarrow> nat res" where
  "find_ipproto_header m ip =
     rbind (h_proto m) (\<lambda>proto.
     rbind (ip_hl m ip) (\<lambda>hl.
       Inr (sizeof_ethhdr + (if proto = 0x8100 then 4 else 0) + 4 * hl)))"

text \<open>
  \<open>find_tcp_header\<close> and \<open>find_udp_header\<close> share their shape. The out-parameters \<open>src\<close> and \<open>dst\<close>
  are passed as their current values, or as \<open>None\<close> when the caller passes NULL for both.
\<close>

definition find_transport_header ::
  "u8 \<Rightarrow> mem \<Rightarrow> nat option \<Rightarrow> (u16 \<times> u16) option \<Rightarrow> (nat option \<times> (u16 \<times> u16) option) res" where
  "find_transport_header proto m ip ports =
     (case ip of
        None \<Rightarrow> Inr (None, ports)
      | Some ip \<Rightarrow>
          rbind (ip_p m ip) (\<lambda>p.
            if p \<noteq> proto then Inr (None, ports)
            else rbind (find_ipproto_header m ip) (\<lambda>tp.
              case ports of
                None \<Rightarrow> Inr (Some tp, None)
              | Some _ \<Rightarrow>
                  rbind (rd16 m tp) (\<lambda>source.
                  rbind (rd16 m (tp + 2)) (\<lambda>dest.
                    Inr (Some tp, Some (ntohs source, ntohs dest)))))))"

definition find_tcp_header ::
  "mem \<Rightarrow> nat option \<Rightarrow> (u16 \<times> u16) option \<Rightarrow> (nat option \<times> (u16 \<times> u16) option) res" where
  "find_tcp_header = find_transport_header IPPROTO_TCP"

definition find_udp_header ::
  "mem \<Rightarrow> nat option \<Rightarrow> (u16 \<times> u16) option \<Rightarrow> (nat option \<times> (u16 \<times> u16) option) res" where
  "find_udp_header = find_transport_header IPPROTO_UDP"

section \<open>Payload sizes\<close>

datatype Level =
    LEVEL_INVALID | LEVEL_PHYSICAL | LEVEL_LINK | LEVEL_NETWORK | LEVEL_TRANSPORT
  | LEVEL_APPLICATION

definition level_lut :: "(string \<times> Level) list" where
  "level_lut = [(''physical'', LEVEL_PHYSICAL), (''link'', LEVEL_LINK),
     (''network'', LEVEL_NETWORK), (''transport'', LEVEL_TRANSPORT),
     (''application'', LEVEL_APPLICATION)]"

fun level_search :: "(string \<times> Level) list \<Rightarrow> string \<Rightarrow> Level" where
  "level_search [] str = LEVEL_INVALID"
| "level_search ((name, level) # cur) str =
     (if strcasecmp_eq name str then level else level_search cur str)"

definition level_from_string :: "string \<Rightarrow> Level" where
  "level_from_string str = level_search level_lut str"

text \<open>Sizes are \<open>size_t\<close>: a difference that would be negative wraps around.\<close>

definition payload_tcp :: "mem \<Rightarrow> Level \<Rightarrow> nat \<Rightarrow> nat \<Rightarrow> u64 res" where
  "payload_tcp m level ip tcp =
     (if level = LEVEL_TRANSPORT then
        rbind (ip_len m ip) (\<lambda>l. rbind (tcp_doff m tcp) (\<lambda>doff. rbind (ip_hl m ip) (\<lambda>hl.
          Inr (word_of_int (int (unat l) - 4 * int doff - 4 * int hl)))))
      else Inr 0)"

definition payload_udp :: "mem \<Rightarrow> Level \<Rightarrow> nat \<Rightarrow> u64 res" where
  "payload_udp m level udp =
     (if level = LEVEL_TRANSPORT then
        rbind (rd16 m (udp + 4)) (\<lambda>w. Inr (ucast (ntohs w) - word_of_nat sizeof_udphdr))
      else Inr 0)"

definition payload_ip :: "mem \<Rightarrow> Level \<Rightarrow> nat \<Rightarrow> u64 res" where
  "payload_ip m level ip =
     rbind (ip_hl m ip) (\<lambda>hl.
       if level = LEVEL_NETWORK then
         rbind (ip_len m ip) (\<lambda>l. Inr (ucast l - word_of_nat (4 * hl)))
       else
         rbind (ip_p m ip) (\<lambda>p.
           if p = IPPROTO_TCP then payload_tcp m level ip (ip + 4 * hl)
           else if p = IPPROTO_UDP then payload_udp m level (ip + 4 * hl)
           else Inr 0))"

definition payload_network :: "mem \<Rightarrow> Level \<Rightarrow> u64 res" where
  "payload_network m level =
     rbind (h_proto m) (\<lambda>proto.
       if proto = ETHERTYPE_IP then payload_ip m level sizeof_ethhdr
       else if proto = ETHERTYPE_VLAN then payload_ip m level sizeof_ether_vlan_header
       else Inr 0)"

definition payload_size :: "Level \<Rightarrow> cap_header \<Rightarrow> u64 res" where
  "payload_size level caphead =
     (case level of
        LEVEL_INVALID \<Rightarrow> Inr 0
      | LEVEL_PHYSICAL \<Rightarrow> Inr (ucast (ch_len caphead))
      | LEVEL_LINK \<Rightarrow> Inr (ucast (ch_len caphead) - word_of_nat sizeof_ethhdr)
      | _ \<Rightarrow> payload_network (ch_payload caphead) level)"

definition layer_size :: "Level \<Rightarrow> cap_header \<Rightarrow> u64 res" where
  "layer_size level caphead =
     (case level of
        LEVEL_INVALID \<Rightarrow> Inr 0
      | LEVEL_PHYSICAL \<Rightarrow> Inr 0
      | LEVEL_LINK \<Rightarrow> payload_size LEVEL_PHYSICAL caphead
      | LEVEL_NETWORK \<Rightarrow> payload_size LEVEL_LINK caphead
      | LEVEL_TRANSPORT \<Rightarrow> payload_size LEVEL_NETWORK caphead
      | LEVEL_APPLICATION \<Rightarrow> payload_size LEVEL_TRANSPORT caphead)"

section \<open>The VLAN chain\<close>

text \<open>
  Specification of the search: \<open>ethertype_at m k\<close> is the type field behind \<open>k\<close> VLAN tags. The IPv4
  header is behind the first \<open>k\<close> tags when those announce VLAN and the next field announces IPv4.
\<close>

definition ethertype_at :: "mem \<Rightarrow> nat \<Rightarrow> u16" where
  "ethertype_at m k = ntohs (le16 (m ! (12 + 4 * k)) (m ! (13 + 4 * k)))"

definition ipv4_behind :: "mem \<Rightarrow> nat \<Rightarrow> bool" where
  "ipv4_behind m k \<longleftrightarrow>
     (\<forall>i<k. ethertype_at m i = ETHERTYPE_VLAN) \<and> ethertype_at m k = ETHERTYPE_IP"

lemma ipv4_behind_0: "ipv4_behind m 0 \<longleftrightarrow> ethertype_at m 0 = ETHERTYPE_IP"
  by (simp add: ipv4_behind_def)

lemma ipv4_behind_unique: "ipv4_behind m j \<Longrightarrow> ipv4_behind m k \<Longrightarrow> j = k"
  by (rule linorder_cases [of j k]) (auto simp: ipv4_behind_def packet_consts)

lemma h_proto_in: "13 < length m \<Longrightarrow> h_proto m = Inr (ethertype_at m 0)"
  by (simp add: h_proto_def rd16_in ethertype_at_def)

lemma h_proto_Inr_bound: "h_proto m = Inr p \<Longrightarrow> 13 < length m"
  by (auto simp: h_proto_def rbind_Inr_iff dest: rd16_Inr_bound)

lemma rd16_ethertype:
  "17 + 4 * k < length m \<Longrightarrow> rd16 m (16 + 4 * k) = Inr (ntohs (ethertype_at m (Suc k)))"
  by (simp add: rd16_in ethertype_at_def)

lemma ipv4_retry_found:
  assumes "13 + 4 * (j + d) < length m"
    and "\<And>i. i < d \<Longrightarrow> ethertype_at m (j + i) = ETHERTYPE_VLAN"
    and "ethertype_at m (j + d) = ETHERTYPE_IP"
  shows "ipv4_retry m (ethertype_at m j) (14 + 4 * j) = Inr (Some (14 + 4 * (j + d)))"
  using assms
proof (induction d arbitrary: j)
  case 0
  then show ?case by (simp add: ipv4_retry.simps)
next
  case (Suc d)
  have vlan: "ethertype_at m j = ETHERTYPE_VLAN" using Suc.prems(2) [of 0] by simp
  have rd: "rd16 m (16 + 4 * j) = Inr (ntohs (ethertype_at m (Suc j)))"
    using Suc.prems(1) by (intro rd16_ethertype) simp
  have "ipv4_retry m (ethertype_at m (Suc j)) (14 + 4 * Suc j) = Inr (Some (14 + 4 * (Suc j + d)))"
    using Suc.prems(1,3) Suc.prems(2) [of "Suc _"] by (intro Suc.IH) auto
  then show ?case
    using vlan rd by (subst ipv4_retry.simps) (simp add: algebra_simps)
qed

lemma ipv4_retry_Some:
  assumes "ipv4_retry m proto cur = Inr (Some off)" "cur = 14 + 4 * j" "proto = ethertype_at m j"
    "13 + 4 * j < length m"
  shows "\<exists>d. off = 14 + 4 * (j + d) \<and> 13 + 4 * (j + d) < length m \<and>
    (\<forall>i<d. ethertype_at m (j + i) = ETHERTYPE_VLAN) \<and> ethertype_at m (j + d) = ETHERTYPE_IP"
  using assms
proof (induction m proto cur arbitrary: j rule: ipv4_retry.induct)
  case (1 m proto cur)
  consider "proto = ETHERTYPE_IP" | "proto = ETHERTYPE_VLAN" "proto \<noteq> ETHERTYPE_IP"
    using "1.prems"(1) by (subst (asm) ipv4_retry.simps) (auto split: if_splits)
  then show ?case
  proof cases
    case 1
    with "1.prems" show ?thesis
      by (intro exI [of _ 0]) (simp add: ipv4_retry.simps)
  next
    case 2
    with "1.prems"(1) obtain w where w: "rd16 m (cur + 2) = Inr w"
      and rec: "ipv4_retry m (ntohs w) (cur + 4) = Inr (Some off)"
      by (subst (asm) ipv4_retry.simps) (auto simp: rbind_Inr_iff)
    have bnd: "17 + 4 * j < length m"
      using rd16_Inr_bound [OF w] "1.prems"(2) by simp
    have "ntohs w = ethertype_at m (Suc j)"
      using w rd16_ethertype [OF bnd] "1.prems"(2) by (simp add: add.commute)
    then obtain d where d: "off = 14 + 4 * (Suc j + d)" "13 + 4 * (Suc j + d) < length m"
      "\<forall>i<d. ethertype_at m (Suc j + i) = ETHERTYPE_VLAN" "ethertype_at m (Suc j + d) = ETHERTYPE_IP"
      using "1.IH" [OF 2(2,1) w rec, of "Suc j"] bnd "1.prems"(2) by auto
    have "ethertype_at m (j + i) = ETHERTYPE_VLAN" if "i < Suc d" for i
      using that d(3) 2 "1.prems"(3) by (cases i) auto
    with d show ?thesis by (intro exI [of _ "Suc d"]) simp
  qed
qed

lemma find_ipv4_chain:
  assumes "find_ipv4_header m = Inr (Some (off, pl))"
  obtains k hl where "off = 14 + 4 * k" "\<And>i. i < k \<Longrightarrow> ethertype_at m i = ETHERTYPE_VLAN"
    "ethertype_at m k = ETHERTYPE_IP" "ip_hl m off = Inr hl" "pl = off + 4 * hl"
proof -
  obtain proto hl where p: "h_proto m = Inr proto" "ipv4_retry m proto 14 = Inr (Some off)"
    "ip_hl m off = Inr hl" "pl = off + 4 * hl"
    using assms by (auto simp: find_ipv4_header_def find_ipv4_header_int_def rbind_Inr_iff sizeof_ethhdr_def
        split: option.splits)
  have l: "13 < length m" using p(1) by (rule h_proto_Inr_bound)
  then have "proto = ethertype_at m 0" using p(1) by (simp add: h_proto_in)
  then show thesis
    using ipv4_retry_Some [OF p(2), of 0] l p(3,4) that by auto
qed

section \<open>Properties\<close>

text \<open>
  Claim C32. \<open>find_ipv4_header\<close> returns a header exactly when the chain of VLAN tags of the frame, of
  any length, ends in the IPv4 ethertype and the first byte of the header is readable; the payload
  starts \<open>ip_hl\<close> words behind the header. The loop over the tags terminates on every frame.
\<close>

theorem find_ipv4_header_iff:
  "find_ipv4_header m = Inr (Some (off, pl)) \<longleftrightarrow>
   (\<exists>k. ipv4_behind m k \<and> off = 14 + 4 * k \<and> off < length m \<and>
        pl = off + 4 * unat (m ! off AND 0x0F))"
proof
  assume "find_ipv4_header m = Inr (Some (off, pl))"
  then obtain k hl where k: "off = 14 + 4 * k" "\<And>i. i < k \<Longrightarrow> ethertype_at m i = ETHERTYPE_VLAN"
    "ethertype_at m k = ETHERTYPE_IP" "ip_hl m off = Inr hl" "pl = off + 4 * hl"
    by (rule find_ipv4_chain) blast
  moreover have "off < length m" "unat (m ! off AND 0x0F) = hl"
    using k(4) by (auto simp: ip_hl_def rbind_Inr_iff rd8_Inr_iff)
  ultimately show "\<exists>k. ipv4_behind m k \<and> off = 14 + 4 * k \<and> off < length m \<and>
        pl = off + 4 * unat (m ! off AND 0x0F)"
    by (auto simp: ipv4_behind_def)
next
  assume "\<exists>k. ipv4_behind m k \<and> off = 14 + 4 * k \<and> off < length m \<and>
        pl = off + 4 * unat (m ! off AND 0x0F)"
  then obtain k where k: "ipv4_behind m k" "off = 14 + 4 * k" "off < length m"
    "pl = off + 4 * unat (m ! off AND 0x0F)" by blast
  then have "ipv4_retry m (ethertype_at m 0) 14 = Inr (Some off)"
    using ipv4_retry_found [of 0 k m] by (simp add: ipv4_behind_def)
  with k show "find_ipv4_header m = Inr (Some (off, pl))"
    by (simp add: find_ipv4_header_def find_ipv4_header_int_def packet_consts h_proto_in ip_hl_def
        rd8_in)
qed

text \<open>
  Where \<open>find_ipv4_header\<close> finds a header behind \<open>k\<close> VLAN tags, \<open>find_ipproto_header\<close>, which
  looks at one tag only, gives the same start of the transport header exactly when \<open>k \<le> 1\<close>; behind
  more tags it points four bytes too early for each tag beyond the first.
\<close>

lemma find_ipproto_header_agrees:
  assumes "ipv4_behind m k" "14 + 4 * k < length m"
  shows "\<exists>tp. find_ipproto_header m (14 + 4 * k) = Inr tp \<and>
    tp + 4 * (k - 1) = 14 + 4 * k + 4 * unat (m ! (14 + 4 * k) AND 0x0F)"
proof -
  have "h_proto m = Inr (ethertype_at m 0)" using assms(2) by (intro h_proto_in) simp
  moreover have "ethertype_at m 0 = (if k = 0 then ETHERTYPE_IP else 0x8100)"
    using assms(1) by (auto simp: ipv4_behind_def ETHERTYPE_VLAN_def)
  moreover have "ETHERTYPE_IP \<noteq> 0x8100" by (simp add: ETHERTYPE_IP_def)
  moreover have "ip_hl m (14 + 4 * k) = Inr (unat (m ! (14 + 4 * k) AND 0x0F))"
    using assms(2) by (simp add: ip_hl_def rd8_in)
  ultimately show ?thesis by (cases k) (simp_all add: find_ipproto_header_def sizeof_ethhdr_def)
qed

text \<open>
  The payload sizes of the layers of an IPv4/TCP frame fit together: the network payload is
  the transport payload plus the TCP header, and with the IP header it is the IP total length,
  provided the headers fit in that length.
\<close>

lemma payload_size_layers:
  assumes "h_proto (ch_payload cp) = Inr ETHERTYPE_IP" "ip_p (ch_payload cp) 14 = Inr IPPROTO_TCP"
    and "ip_hl (ch_payload cp) 14 = Inr hl" "ip_len (ch_payload cp) 14 = Inr l"
    and "tcp_doff (ch_payload cp) (14 + 4 * hl) = Inr doff" "4 * hl + 4 * doff \<le> unat l"
  shows "\<exists>net trans. payload_size LEVEL_NETWORK cp = Inr net \<and> payload_size LEVEL_TRANSPORT cp = Inr trans \<and>
    unat net + 4 * hl = unat l \<and> unat trans + 4 * doff = unat net"
proof -
  define n where "n = unat l - 4 * hl"
  define t where "t = n - 4 * doff"
  have "payload_size LEVEL_NETWORK cp = Inr (word_of_nat n)"
    using assms
    by (simp add: payload_size_def payload_network_def payload_ip_def sizeof_ethhdr_def n_def)
  moreover have "payload_size LEVEL_TRANSPORT cp = Inr (word_of_nat t)"
    using assms
    by (simp add: payload_size_def payload_network_def payload_ip_def payload_tcp_def
        sizeof_ethhdr_def n_def t_def)
  moreover have "n < 2 ^ 64" "t < 2 ^ 64"
    using unat_lt_65536 [of l] by (simp_all add: n_def t_def)
  then have "unat (word_of_nat n :: u64) = n" "unat (word_of_nat t :: u64) = t"
    by (simp_all add: unat_of_nat)
  moreover have "n + 4 * hl = unat l" "t + 4 * doff = n"
    using assms(6) by (simp_all add: n_def t_def)
  ultimately show ?thesis by auto
qed

end
