(* ===== verification/Utils.thy ===== *)
theory Utils
  imports Libc
begin

text \<open>
  \<open>src/utils.c\<close>: ethernet addresses as text and the table of ethertypes.
\<close>

section \<open>Ethernet addresses as text\<close>

text \<open>
  \<open>eth_aton\<close> returns 0 and leaves the destination alone, or stores the address and returns 1: the
  result is the stored value.
\<close>

definition eth_aton :: "string \<Rightarrow> u8 list option" where
  "eth_aton addr = (case ether_aton addr of None \<Rightarrow> None | Some tmp \<Rightarrow> Some (take 6 tmp))"

text \<open>\<open>hexdump_address_r\<close>: five times \<open>%2.2X:\<close> and the last octet.\<close>

definition hexdump_address :: "u8 list \<Rightarrow> string" where
  "hexdump_address address =
     concat (map (\<lambda>i. hex2 (address ! i) @ '':'') [0..<5]) @ hex2 (address ! 5)"

section \<open>Ethertypes\<close>

definition ethertype :: "(string \<times> u16) list" where
  "ethertype = [
     (''LOOP'', 0x0060), (''STP'', 0x0026), (''CDPVTP'', 0x016e), (''PUP'', 0x0200),
     (''PUPAT'', 0x0201), (''SPRITE'', 0x0500), (''IPv4'', 0x0800), (''IP'', 0x0800),
     (''X25'', 0x0805), (''ARP'', 0x0806), (''BPQ'', 0x08ff), (''IEEEPUP'', 0x0a00),
     (''IEEEPUPAT'', 0x0a01), (''DEC'', 0x6000), (''DNA_DL'', 0x6001), (''DNA_RC'', 0x6002),
     (''DNA_RT'', 0x6003), (''LAT'', 0x6004), (''DIAG'', 0x6005), (''CUST'', 0x6006),
     (''SCA'', 0x6007), (''TEB'', 0x6558), (''MP'', 0x8010), (''RARP'', 0x8035),
     (''ATALK'', 0x809b), (''AARP'', 0x80f3), (''VLAN'', 0x8100), (''8021Q'', 0x8100),
     (''IPX'', 0x8137), (''IPv6'', 0x86dd), (''PAUSE'', 0x8808), (''SLOW'', 0x8809),
     (''WCCP'', 0x883e), (''PPP_DISC'', 0x8863), (''PPP_SES'', 0x8864), (''MPLS_UC'', 0x8847),
     (''MPLS_MC'', 0x8848), (''ATMMPOA'', 0x884c), (''LINK_CTL'', 0x886c), (''ATMFATE'', 0x8884),
     (''PAE'', 0x888e), (''AOE'', 0x88a2), (''TIPC'', 0x88ca), (''1588'', 0x88f7),
     (''FCOE'', 0x8906), (''FIP'', 0x8914), (''LOOPBACK'', 0x9000), (''EDSA'', 0xdada)]"

fun ethertype_scan_name :: "(string \<times> u16) list \<Rightarrow> string \<Rightarrow> (string \<times> u16) option" where
  "ethertype_scan_name [] name = None"
| "ethertype_scan_name (cur # rest) name =
     (if strcasecmp_eq name (fst cur) then Some cur else ethertype_scan_name rest name)"

definition ethertype_by_name :: "string \<Rightarrow> (string \<times> u16) option" where
  "ethertype_by_name name = ethertype_scan_name ethertype name"

fun ethertype_scan_number :: "(string \<times> u16) list \<Rightarrow> int \<Rightarrow> (string \<times> u16) option" where
  "ethertype_scan_number [] number = None"
| "ethertype_scan_number (cur # rest) number =
     (if number = uint (snd cur) then Some cur else ethertype_scan_number rest number)"

definition ethertype_by_number :: "int \<Rightarrow> (string \<times> u16) option" where
  "ethertype_by_number number = ethertype_scan_number ethertype number"

section \<open>Reading a printed ethernet address\<close>

lemma of_char_hex_char:
  "n < 16 \<Longrightarrow> of_char (tolower (hex_char n)) = (if n < 10 then 48 + n else 87 + n :: nat)"
  by (simp add: tolower_def hex_char_def)

lemma isspace_of_char: "isspace c \<Longrightarrow> (of_char c :: nat) \<le> 32"
  by (auto simp: isspace_def)

lemma hex_char_facts:
  assumes "n < 16"
  shows "hex_digit (hex_char n) = Some n" "tolower (hex_char n) \<noteq> CHR '':''"
    "tolower (hex_char n) \<noteq> NUL" "\<not> isspace (tolower (hex_char n))"
proof -
  have o: "of_char (tolower (hex_char n)) = (if n < 10 then 48 + n else 87 + n)"
    using assms by (rule of_char_hex_char)
  show "hex_digit (hex_char n) = Some n"
    using assms by (simp add: hex_digit_def digit_val_def of_char_hex_char)
  have "of_char (tolower (hex_char n)) \<noteq> (of_char CHR '':'' :: nat)"
    "of_char (tolower (hex_char n)) \<noteq> (of_char NUL :: nat)"
    using o assms by (auto split: if_splits)
  then show "tolower (hex_char n) \<noteq> CHR '':''" "tolower (hex_char n) \<noteq> NUL" by metis+
  show "\<not> isspace (tolower (hex_char n))"
    using o isspace_of_char [of "tolower (hex_char n)"] by (auto split: if_splits)
qed

lemma hex2_digits: "unat (b :: u8) div 16 < 16" "unat b mod 16 < 16" "16 * (unat b div 16) + unat b mod 16 = unat b"
  using unat_lt_256 [of b] by (simp_all add: less_mult_imp_div_less)

lemma ether_octets_hex2:
  assumes "cnt < 5"
  shows "ether_octets cnt acc (hex2 b @ CHR '':'' # r) = ether_octets (cnt + 1) (acc @ [b]) r"
  using assms hex_char_facts [OF hex2_digits(1) [of b]] hex_char_facts [OF hex2_digits(2) [of b]]
  by (subst ether_octets.simps) (simp add: hex2_def at0_def hex2_digits(3))

lemma ether_octets_last: "ether_octets 5 acc (hex2 b) = Some (acc @ [b])"
  using hex_char_facts [OF hex2_digits(1) [of b]] hex_char_facts [OF hex2_digits(2) [of b]]
  by (subst ether_octets.simps) (simp add: hex2_def at0_def hex2_digits(3) ether_octets.simps [of 6])

lemma eth_aton_hexdump_lemma:
  assumes "length a = 6"
  shows "eth_aton (hexdump_address a) = Some a"
proof -
  obtain b0 b1 b2 b3 b4 b5 where a: "a = [b0, b1, b2, b3, b4, b5]"
    using assms by (auto simp: numeral_eq_Suc length_Suc_conv)
  have h: "hexdump_address a = hex2 b0 @ CHR '':'' # hex2 b1 @ CHR '':'' # hex2 b2 @ CHR '':'' #
      hex2 b3 @ CHR '':'' # hex2 b4 @ CHR '':'' # hex2 b5"
    by (simp add: hexdump_address_def a upt_rec)
  have "ether_octets 0 [] (hexdump_address a) = Some a"
    using ether_octets_last [of "[b0, b1, b2, b3, b4]" b5] unfolding h
    by (simp add: ether_octets_hex2 eval_nat_numeral a)
  then show ?thesis using assms by (simp add: eth_aton_def ether_aton_def)
qed

section \<open>Lookups in the table\<close>

lemma scan_name_distinct:
  assumes "distinct (map (\<lambda>e. map tolower (fst e)) tab)" "e \<in> set tab"
  shows "ethertype_scan_name tab (fst e) = Some e"
  using assms
proof (induction tab)
  case (Cons cur rest)
  show ?case
  proof (cases "e = cur")
    case True
    then show ?thesis by (simp add: strcasecmp_eq_def)
  next
    case False
    with Cons.prems have "e \<in> set rest" by simp
    then have "map tolower (fst e) \<noteq> map tolower (fst cur)" using Cons.prems(1) by (metis (no_types, lifting) distinct.simps(2) image_eqI list.map(2) list.set_map)
    with Cons \<open>e \<in> set rest\<close> show ?thesis by (simp add: strcasecmp_eq_def)
  qed
qed simp

lemma scan_number_mem:
  "e \<in> set tab \<Longrightarrow> \<exists>e'. ethertype_scan_number tab (uint (snd e)) = Some e' \<and> snd e' = snd e"
  by (induction tab) (auto simp flip: word_uint_eq_iff)

lemma ethertype_names_distinct: "distinct (map (\<lambda>e. map tolower (fst e)) ethertype)"
  by (simp add: ethertype_def tolower_def char_of_eq_iff)

section \<open>Properties\<close>

text \<open>
  The ethertype table is consistent: its names are distinct up to letter case, so that
  \<open>ethertype_by_name\<close> finds every entry under its own name, and looking up the number of an entry
  gives an entry with that number.
\<close>

lemma ethertype_lookup:
  assumes "e \<in> set ethertype"
  shows "ethertype_by_name (fst e) = Some e \<and>
    (\<exists>e'. ethertype_by_number (uint (snd e)) = Some e' \<and> snd e' = snd e)"
  using assms ethertype_names_distinct scan_name_distinct scan_number_mem
  by (simp add: ethertype_by_name_def ethertype_by_number_def)

end
