(* ===== verification/Address.thy ===== *)
theory Address
  imports Utils
begin

text \<open>
  Stream addresses (\<open>caputils/address.h\<close>, \<open>src/address.c\<close>): the tagged union of ethernet, IPv4,
  file name and file pointer, its text form, and the tolerant parser of ethernet addresses.
\<close>

section \<open>Types\<close>

datatype AddressType =
    STREAM_ADDR_GUESS | STREAM_ADDR_CAPFILE | STREAM_ADDR_ETHERNET | STREAM_ADDR_UDP
  | STREAM_ADDR_TCP | STREAM_ADDR_FP | STREAM_ADDR_FIFO

fun address_type_num :: "AddressType \<Rightarrow> u16" where
  "address_type_num STREAM_ADDR_GUESS = 0xFFFF"
| "address_type_num STREAM_ADDR_CAPFILE = 0"
| "address_type_num STREAM_ADDR_ETHERNET = 1"
| "address_type_num STREAM_ADDR_UDP = 2"
| "address_type_num STREAM_ADDR_TCP = 3"
| "address_type_num STREAM_ADDR_FP = 4"
| "address_type_num STREAM_ADDR_FIFO = 5"

definition STREAM_ADDR_LOCAL :: u16 where "STREAM_ADDR_LOCAL = 1"
definition STREAM_ADDR_FLUSH :: u16 where "STREAM_ADDR_FLUSH = 2"
definition STREAM_ADDR_UNLINK :: u16 where "STREAM_ADDR_UNLINK = 4"
definition STREAM_ADDR_FCLOSE :: u16 where "STREAM_ADDR_FCLOSE = 8"
definition STREAM_ADDR_DUPLICATE :: u16 where "STREAM_ADDR_DUPLICATE = 16"

lemmas address_flags = STREAM_ADDR_LOCAL_def STREAM_ADDR_FLUSH_def STREAM_ADDR_UNLINK_def
  STREAM_ADDR_FCLOSE_def STREAM_ADDR_DUPLICATE_def

text \<open>
  The union: its 26 bytes, or a pointer stored over them. The members \<open>ether_addr\<close>, \<open>filename\<close> and
  \<open>ipv4\<close> are views of the bytes. A string pointer is the string it points to, with a mark whether
  it is the copy made by \<open>strdup\<close>; a \<open>FILE*\<close> is its descriptor number.
\<close>

datatype sa_data =
    Sa_buffer "u8 list" | Sa_local_filename string | Sa_int_filename string | Sa_fp nat

record stream_addr =
  sa_data :: sa_data
  sa_type :: u16    \<comment> \<open>network order\<close>
  sa_flags :: u16   \<comment> \<open>network order\<close>

definition EINVAL :: int where "EINVAL = 22"

section \<open>Accessors\<close>

definition sa_zero :: stream_addr where
  "sa_zero = \<lparr>sa_data = Sa_buffer (replicate 26 0), sa_type = 0, sa_flags = 0\<rparr>"

text \<open>\<open>stream_addr_type\<close> is the number in the field; the code compares it with the enumerators.\<close>

definition stream_addr_type :: "stream_addr \<Rightarrow> u16" where
  "stream_addr_type addr = ntohs (sa_type addr)"

definition stream_addr_flags :: "stream_addr \<Rightarrow> u16" where
  "stream_addr_flags addr = ntohs (sa_flags addr)"

definition stream_addr_have_flag :: "stream_addr \<Rightarrow> u16 \<Rightarrow> bool" where
  "stream_addr_have_flag addr flag \<longleftrightarrow> ntohs (sa_flags addr) AND flag \<noteq> 0"

text \<open>
  \<open>stream_addr_reset\<close> clears the address; the second component is the string that \<open>free\<close> releases.
\<close>

definition stream_addr_reset :: "stream_addr \<Rightarrow> stream_addr \<times> string option" where
  "stream_addr_reset addr =
     (sa_zero,
      if stream_addr_type addr = address_type_num STREAM_ADDR_CAPFILE \<and>
         stream_addr_have_flag addr STREAM_ADDR_DUPLICATE
      then (case sa_data addr of Sa_int_filename s \<Rightarrow> Some s | _ \<Rightarrow> None) else None)"

text \<open>
  \<open>stream_addr_is_set\<close> reads the first byte of the union; where a pointer is stored this is the low
  byte of the address, given by \<open>low\<close>.
\<close>

definition stream_addr_is_set :: "u8 \<Rightarrow> stream_addr \<Rightarrow> bool" where
  "stream_addr_is_set low addr \<longleftrightarrow>
     sa_type addr \<noteq> 0 \<or> (case sa_data addr of Sa_buffer b \<Rightarrow> b ! 0 | _ \<Rightarrow> low) \<noteq> 0"

definition sa_bytes :: "stream_addr \<Rightarrow> u8 list res" where
  "sa_bytes addr = (case sa_data addr of Sa_buffer b \<Rightarrow> Inr b | _ \<Rightarrow> Inl Dangling)"

definition sa_set_bytes :: "u8 list \<Rightarrow> sa_data" where
  "sa_set_bytes b = Sa_buffer (take 26 (b @ replicate 26 0))"

definition sa_ether_addr :: "stream_addr \<Rightarrow> u8 list res" where
  "sa_ether_addr addr = rbind (sa_bytes addr) (\<lambda>b. Inr (take 6 b))"

definition sin_port :: "stream_addr \<Rightarrow> u16 res" where
  "sin_port addr = rbind (sa_bytes addr) (\<lambda>b. rd16 b 2)"

definition sin_addr :: "stream_addr \<Rightarrow> u32 res" where
  "sin_addr addr = rbind (sa_bytes addr) (\<lambda>b. rd32 b 4)"

definition sockaddr_in :: "u16 \<Rightarrow> u32 \<Rightarrow> u8 list" where
  "sockaddr_in port s_addr = bytes16 2 @ bytes16 port @ bytes32 s_addr"

definition sa_string :: "stream_addr \<Rightarrow> string res" where
  "sa_string addr =
     (case sa_data addr of
        Sa_local_filename s \<Rightarrow> Inr s
      | Sa_int_filename s \<Rightarrow> Inr s
      | Sa_fp _ \<Rightarrow> Inl Dangling
      | Sa_buffer b \<Rightarrow> Inl (if take 8 b = replicate 8 0 then Null_deref else Dangling))"

section \<open>Tolerant ethernet addresses\<close>

definition rdc :: "char list \<Rightarrow> nat \<Rightarrow> char res" where
  "rdc b i = (if i < length b then Inr (b ! i) else Inl Out_of_bounds)"

definition dash_to_colon :: "char list \<Rightarrow> char list" where
  "dash_to_colon buf = map (\<lambda>c. if c = CHR ''-'' then CHR '':'' else c) (take 17 buf) @ drop 17 buf"

text \<open>The sequence of strings that repeated calls of \<open>strtok2\<close> return.\<close>

function strtok2 :: "string \<Rightarrow> string list" where
  "strtok2 s = (case strchr_split CHR '':'' s of None \<Rightarrow> [s] | Some (p, r) \<Rightarrow> p # strtok2 r)"
  by pat_completeness auto
termination
  by (relation "measure length") (auto simp: strchr_split_Some_iff)

declare strtok2.simps [simp del]

text \<open>The buffer after \<open>n\<close> calls: the first \<open>n\<close> colons have been overwritten.\<close>

fun cut_colons :: "nat \<Rightarrow> char list \<Rightarrow> char list" where
  "cut_colons 0 b = b"
| "cut_colons (Suc n) [] = []"
| "cut_colons (Suc n) (c # b) =
     (if c = NUL then c # b
      else if c = CHR '':'' then NUL # cut_colons n b
      else c # cut_colons (Suc n) b)"

text \<open>The address without delimiters: the pairs are moved to the right, in place.\<close>

definition move_pair :: "char list \<Rightarrow> nat \<Rightarrow> char list" where
  "move_pair b i =
     (let b = b[3 * i + 1 := b ! (2 * i + 1)]; b = b[3 * i := b ! (2 * i)]
      in b[3 * i - 1 := CHR '':''])"

definition insert_colons :: "char list \<Rightarrow> char list" where
  "insert_colons buf = foldl move_pair (buf[17 := NUL]) [5, 4, 3, 2, 1]"

text \<open>
  The loop over the pairs. The text goes to \<open>tmp\<close>, an array of 17 bytes; \<open>slack\<close> is the number of
  bytes behind it that can be written without harm (0 in ISO C). \<open>sprintf\<close> also stores the
  terminator. \<open>Hom_compact\<close> and \<open>Hom_bail\<close> carry the number of \<open>strtok2\<close> calls made.
\<close>

datatype hom_result = Hom_done string | Hom_compact nat | Hom_bail nat

fun hom_pairs :: "nat \<Rightarrow> string \<Rightarrow> nat \<Rightarrow> string list \<Rightarrow> hom_result res" where
  "hom_pairs slack tmp calls [] = Inr (Hom_done tmp)"
| "hom_pairs slack tmp calls (pair # next) =
     (if length pair = 12 then Inr (Hom_compact (calls + 1))
      else if length pair > 2 then Inr (Hom_bail (calls + 1))
      else
        let tmp = (if length pair = 2 then tmp @ pair
                   else if length pair = 1 then tmp @ ''0'' @ pair else tmp) in
        if length pair > 0 \<and> length tmp + 1 > 17 + slack then Inl Out_of_bounds
        else if next = [] then hom_pairs slack tmp (calls + 1) next
        else if length tmp + 1 > 17 + slack then Inl Out_of_bounds
        else hom_pairs slack (tmp @ '':'') (calls + 1) next)"

text \<open>Filling in the blanks of a double colon at \<open>i\<close>, and the loop that looks for it.\<close>

definition fill_blank :: "char list \<Rightarrow> nat \<Rightarrow> char list res" where
  "fill_blank buf i =
     (let p1 = i + 1; rest = takeWhile (\<lambda>c. c \<noteq> NUL) (drop p1 buf); digits = length rest in
      if p1 + digits \<ge> length buf then Inl Out_of_bounds
      else if digits > 17 then Inl Out_of_bounds
      else
        let p3 = 17 - digits;
            moved = take p3 buf @ rest @ drop (p3 + digits) buf in
        Inr (foldl (\<lambda>b j. b[j := CHR ''0'', j + 1 := CHR ''0'', j + 2 := CHR '':'']) moved
               (filter (\<lambda>j. (j - p1) mod 3 = 0) [p1..<p3])))"

function hom_fill :: "nat \<Rightarrow> char list \<Rightarrow> nat \<Rightarrow> char list res" where
  "hom_fill bound buf i =
     (if i < bound then
        rbind (rdc buf i) (\<lambda>c.
          if c \<noteq> CHR '':'' then hom_fill bound buf (i + 1)
          else rbind (rdc buf (i + 1)) (\<lambda>d.
            if d \<noteq> CHR '':'' then hom_fill bound buf (i + 1)
            else rbind (fill_blank buf i) (\<lambda>buf. hom_fill bound buf (i + 1))))
      else Inr buf)"
  by pat_completeness auto
termination
  by (relation "measure (\<lambda>(bound, buf, i). bound - i)") auto

declare hom_fill.simps [simp del]

definition homogenize_eth_addr :: "nat \<Rightarrow> char list \<Rightarrow> char list res" where
  "homogenize_eth_addr slack buf =
     rbind (cstr buf) (\<lambda>s.
     let len = length s; buf = dash_to_colon buf in
     rbind (cstr buf) (\<lambda>s.
     rbind (hom_pairs slack [] 1 (strtok2 s)) (\<lambda>r.
       case r of
         Hom_compact calls \<Rightarrow> Inr (insert_colons (cut_colons calls buf))
       | Hom_bail calls \<Rightarrow> Inr (cut_colons calls buf)
       | Hom_done tmp \<Rightarrow>
           let buf = take 17 (tmp @ replicate 17 NUL) @ drop 17 (cut_colons (length buf) buf) in
           hom_fill ((len + (2 ^ 64 - 1)) mod 2 ^ 64) buf 0)))"

section \<open>Parsing addresses\<close>

definition addr_header :: "AddressType \<Rightarrow> u16 \<Rightarrow> stream_addr" where
  "addr_header type flags = sa_zero\<lparr>sa_type := htons (address_type_num type), sa_flags := htons flags\<rparr>"

text \<open>
  The parser copies its input to an array of 48 bytes with \<open>strncpy\<close>, which does not terminate it
  when the input is longer. A search that ends inside of the array is fine then; one that runs off
  its end is a fault. \<open>scan_off\<close> tells whether \<open>atoi\<close> reads all characters of its argument.
\<close>

definition terminated :: "char list \<Rightarrow> bool" where
  "terminated b \<longleftrightarrow> NUL \<in> set b"

definition buf_text :: "char list \<Rightarrow> string" where
  "buf_text b = takeWhile (\<lambda>c. c \<noteq> NUL) b"

definition scan_off :: "string \<Rightarrow> bool" where
  "scan_off s =
     (case dropWhile isspace s of
        [] \<Rightarrow> True
      | c # r \<Rightarrow> list_all isdigit (if c = CHR ''-'' \<or> c = CHR ''+'' then r else c # r))"

definition aton_ipv4 :: "string \<Rightarrow> AddressType \<Rightarrow> u16 \<Rightarrow> (int \<times> stream_addr) res" where
  "aton_ipv4 src type flags =
     (let buf = strncpy 48 src in
      rbind (case strchr_split CHR '':'' (buf_text buf) of
               None \<Rightarrow> if terminated buf then Inr (buf_text buf, htons 0x0810) else Inl Out_of_bounds
             | Some (ip, port) \<Rightarrow>
                 if \<not> terminated buf \<and> scan_off port then Inl Out_of_bounds
                 else Inr (ip, htons (word_of_int (atoi port))))
        (\<lambda>(ip, port).
          Inr (if inet_addr ip = INADDR_NONE then EINVAL else 0,
               addr_header type flags\<lparr>sa_data := sa_set_bytes (sockaddr_in port (inet_addr ip))\<rparr>)))"

definition aton_ethernet :: "nat \<Rightarrow> string \<Rightarrow> u16 \<Rightarrow> (int \<times> stream_addr) res" where
  "aton_ethernet slack src flags =
     rbind (homogenize_eth_addr slack (strncpy 48 src)) (\<lambda>buf.
     rbind (cstr buf) (\<lambda>s.
       let dst = addr_header STREAM_ADDR_ETHERNET flags in
       case eth_aton s of
         None \<Rightarrow> Inr (EINVAL, dst)
       | Some a \<Rightarrow> Inr (0, dst\<lparr>sa_data := sa_set_bytes a\<rparr>)))"

definition aton_file :: "string \<Rightarrow> AddressType \<Rightarrow> u16 \<Rightarrow> int \<times> stream_addr" where
  "aton_file src type flags =
     (let dst = addr_header type flags in
      (0, dst\<lparr>sa_data :=
         if flags AND STREAM_ADDR_LOCAL \<noteq> 0 then
           (if flags AND STREAM_ADDR_DUPLICATE \<noteq> 0 then Sa_int_filename src else Sa_local_filename src)
         else sa_set_bytes ((map byte_of_char (strncpy 22 src))[21 := 0])\<rparr>))"

text \<open>The fixed formats, and the guess. The result is the return value and the address.\<close>

definition aton_fixed ::
  "nat \<Rightarrow> string \<Rightarrow> AddressType \<Rightarrow> u16 \<Rightarrow> (int \<times> stream_addr) res" where
  "aton_fixed slack src type flags =
     (case type of
        STREAM_ADDR_TCP \<Rightarrow> aton_ipv4 src type flags
      | STREAM_ADDR_UDP \<Rightarrow> aton_ipv4 src type flags
      | STREAM_ADDR_ETHERNET \<Rightarrow> aton_ethernet slack src flags
      | STREAM_ADDR_CAPFILE \<Rightarrow> Inr (aton_file src type flags)
      | STREAM_ADDR_FIFO \<Rightarrow> Inr (aton_file src type flags)
      | STREAM_ADDR_FP \<Rightarrow> Inr (EINVAL, addr_header type flags)
      | STREAM_ADDR_GUESS \<Rightarrow> Inr (0, addr_header type flags))"

text \<open>
  With a prefix, the address behind it is a pointer into the caller's array \<open>buf\<close>: copying it from
  there faults when that array is not terminated. Local names are taken from the input itself.
\<close>

definition aton_prefix ::
  "nat \<Rightarrow> bool \<Rightarrow> string \<Rightarrow> string \<Rightarrow> string \<Rightarrow> u16 \<Rightarrow> (int \<times> stream_addr) res" where
  "aton_prefix slack term prefix addr src flags =
     (let inner = (\<lambda>type. if term then aton_fixed slack addr type flags else Inl Out_of_bounds) in
      if strcasecmp_eq ''tcp'' prefix then inner STREAM_ADDR_TCP
      else if strcasecmp_eq ''udp'' prefix then inner STREAM_ADDR_UDP
      else if strcasecmp_eq ''eth'' prefix then inner STREAM_ADDR_ETHERNET
      else if strcasecmp_eq ''file'' prefix then
        aton_fixed slack (drop 7 src) STREAM_ADDR_CAPFILE (flags OR STREAM_ADDR_LOCAL)
      else if strcasecmp_eq ''fifo'' prefix then
        aton_fixed slack (drop 7 src) STREAM_ADDR_FIFO (flags OR STREAM_ADDR_LOCAL OR STREAM_ADDR_UNLINK)
      else Inr (EINVAL, addr_header STREAM_ADDR_GUESS flags))"

definition stream_addr_aton ::
  "nat \<Rightarrow> string \<Rightarrow> AddressType \<Rightarrow> u16 \<Rightarrow> (int \<times> stream_addr) res" where
  "stream_addr_aton slack src type flags =
     (if type = STREAM_ADDR_GUESS then
        let buf = strncpy 48 src; s = buf_text buf in
        case strstr s ''://'' of
          Some delim \<Rightarrow>
            aton_prefix slack (terminated buf) (take (length s - length delim) s) (drop 3 delim) src flags
        | None \<Rightarrow>
            if \<not> terminated buf then Inl Out_of_bounds
            else
              rbind (aton_fixed slack src STREAM_ADDR_ETHERNET flags) (\<lambda>(ret, dst).
                if ret = 0 then Inr (ret, dst)
                else aton_fixed slack src STREAM_ADDR_CAPFILE (flags OR STREAM_ADDR_LOCAL))
      else aton_fixed slack src type flags)"

definition stream_addr_str :: "string \<Rightarrow> u16 \<Rightarrow> stream_addr" where
  "stream_addr_str src flags =
     \<lparr>sa_data = (if flags AND STREAM_ADDR_DUPLICATE \<noteq> 0 then Sa_int_filename src
                  else Sa_local_filename src),
      sa_type = htons (address_type_num STREAM_ADDR_CAPFILE),
      sa_flags = htons (STREAM_ADDR_LOCAL OR flags)\<rparr>"

definition stream_addr_fp :: "nat \<Rightarrow> u16 \<Rightarrow> stream_addr" where
  "stream_addr_fp fp flags =
     \<lparr>sa_data = Sa_fp fp, sa_type = htons (address_type_num STREAM_ADDR_FP),
      sa_flags = htons (STREAM_ADDR_LOCAL OR flags)\<rparr>"

section \<open>Printing addresses\<close>

text \<open>
  \<open>stream_addr_ntoa_r\<close> writes at most \<open>bytes\<close> characters with the terminator; except for files and
  file pointers a longer text fails the assertion. An unknown type leaves the buffer alone; it is
  the string that was in it, \<open>old\<close>. The type read from an address is not negative, so the label
  \<open>STREAM_ADDR_GUESS\<close>, which is -1 and calls \<open>abort\<close>, is never taken.
\<close>

definition snprintf_checked :: "nat \<Rightarrow> string \<Rightarrow> string res" where
  "snprintf_checked bytes s = (if length s < bytes then Inr s else Inl Aborted)"

definition stream_addr_ntoa_r :: "string \<Rightarrow> nat \<Rightarrow> stream_addr \<Rightarrow> string res" where
  "stream_addr_ntoa_r old bytes src =
     (let t = stream_addr_type src in
      if t = address_type_num STREAM_ADDR_TCP \<or> t = address_type_num STREAM_ADDR_UDP then
        rbind (sin_addr src) (\<lambda>a. rbind (sin_port src) (\<lambda>p.
          snprintf_checked bytes
            ((if t = address_type_num STREAM_ADDR_UDP then ''udp'' else ''tcp'') @ ''://'' @
             inet_ntoa a @ '':'' @ dec (unat (ntohs p)))))
      else if t = address_type_num STREAM_ADDR_ETHERNET then
        rbind (sa_ether_addr src) (\<lambda>a. snprintf_checked bytes (''eth://'' @ hexdump_address a))
      else if t = address_type_num STREAM_ADDR_FIFO then
        rbind (sa_string src) (\<lambda>s. snprintf_checked bytes (''fifo://'' @ s))
      else if t = address_type_num STREAM_ADDR_CAPFILE then
        rbind (if stream_addr_have_flag src STREAM_ADDR_LOCAL then sa_string src
               else rbind (sa_bytes src) (\<lambda>b. cstr (map char_of_byte (take 22 b))))
          (\<lambda>s. Inr (take (bytes - 1) s))
      else if t = address_type_num STREAM_ADDR_FP then
        (case sa_data src of
           Sa_fp fd \<Rightarrow> Inr (take (bytes - 1) (''/dev/fd/'' @ dec fd))
         | _ \<Rightarrow> Inl Dangling)
      else Inr old)"

definition stream_addr_ntoa :: "string \<Rightarrow> stream_addr \<Rightarrow> string res" where
  "stream_addr_ntoa old src = stream_addr_ntoa_r old 1024 src"

section \<open>Facts about the parser\<close>

lemma buf_text_strncpy: "NUL \<notin> set s \<Longrightarrow> buf_text (strncpy n s) = take n s"
  by (simp add: buf_text_def takeWhile_strncpy)

lemma terminated_strncpy: "NUL \<notin> set s \<Longrightarrow> terminated (strncpy n s) \<longleftrightarrow> length s < n"
  using in_set_takeD [of NUL n s] by (auto simp: terminated_def strncpy_def)

lemma isdigit_facts: "isdigit c \<Longrightarrow> c \<noteq> NUL \<and> c \<noteq> CHR '':'' \<and> c \<noteq> CHR ''/'' \<and> c \<noteq> CHR ''-''"
  by (auto simp: isdigit_def)

lemma dec_chars: "NUL \<notin> set (dec n)" "CHR '':'' \<notin> set (dec n)" "CHR ''/'' \<notin> set (dec n)"
  using isdigit_dec isdigit_facts by blast+

lemma inet_ntoa_chars:
  "NUL \<notin> set (inet_ntoa a)" "CHR '':'' \<notin> set (inet_ntoa a)"
  by (simp_all add: inet_ntoa_def Let_def dec_chars)

lemma byte_dec_length: "length (dec (unat (b :: u8))) \<le> 3"
  using dec_length_le [of "unat b" 3] unat_lt_256 [of b] by simp

lemma inet_ntoa_length: "length (inet_ntoa a) \<le> 15"
  using byte_dec_length [of "bytes32 a ! 0"] byte_dec_length [of "bytes32 a ! 1"]
    byte_dec_length [of "bytes32 a ! 2"] byte_dec_length [of "bytes32 a ! 3"]
  by (simp add: inet_ntoa_def Let_def)

lemma port_dec_length: "length (dec (unat (p :: u16))) \<le> 5"
  using dec_length_le [of "unat p" 5] unat_lt_65536 [of p] by simp

lemma atoi_dec: "n < 2 ^ 31 \<Longrightarrow> atoi (dec n) = int n"
proof -
  assume n: "n < 2 ^ 31"
  then have "length (dec n) \<le> 10" by (intro dec_length_le) simp_all
  then have "strtoll (dec n) = int n"
    using isdigit_dec by (simp add: strtoll_digit_string dec_value_dec)
  with n show ?thesis by (simp add: atoi_def c_int_id)
qed

lemma atoi_dec_port: "word_of_int (atoi (dec (unat (p :: u16)))) = p"
  using atoi_dec [of "unat p"] unat_lt_65536 [of p] by simp

lemma strchr_split_append: "c \<notin> set p \<Longrightarrow> strchr_split c (p @ c # r) = Some (p, r)"
  by (simp add: strchr_split_Some_iff)

text \<open>The address \<open>ip:port\<close> in the form in which it is printed is parsed.\<close>

lemma aton_ipv4_printed:
  assumes "a \<noteq> INADDR_NONE"
  shows "aton_ipv4 (inet_ntoa a @ '':'' @ dec (unat p)) type flags =
    Inr (0, addr_header type flags\<lparr>sa_data := sa_set_bytes (sockaddr_in (htons p) a)\<rparr>)"
proof -
  let ?s = "inet_ntoa a @ '':'' @ dec (unat p)"
  have n: "NUL \<notin> set ?s" by (simp add: inet_ntoa_chars dec_chars)
  have l: "length ?s < 48" using inet_ntoa_length [of a] port_dec_length [of p] by simp
  then have t: "buf_text (strncpy 48 ?s) = ?s" "terminated (strncpy 48 ?s)"
    using buf_text_strncpy [OF n, of 48] terminated_strncpy [OF n, of 48] by simp_all
  have "strchr_split CHR '':'' ?s = Some (inet_ntoa a, dec (unat p))"
    using strchr_split_append [OF inet_ntoa_chars(2)] by simp
  with t assms show ?thesis
    by (simp add: aton_ipv4_def Let_def atoi_dec_port inet_addr_def inet_aton_ntoa)
qed

lemma strstr_prefix3:
  "c1 \<noteq> CHR '':'' \<Longrightarrow> c2 \<noteq> CHR '':'' \<Longrightarrow> c3 \<noteq> CHR '':'' \<Longrightarrow>
   strstr (c1 # c2 # c3 # CHR '':'' # CHR ''/'' # CHR ''/'' # r) ''://'' =
     Some (CHR '':'' # CHR ''/'' # CHR ''/'' # r)"
  by (simp add: strstr.simps)

text \<open>A complete ethernet address comes through \<open>homogenize_eth_addr\<close> unchanged.\<close>

lemma strtok2_Cons: "CHR '':'' \<notin> set p \<Longrightarrow> strtok2 (p @ CHR '':'' # r) = p # strtok2 r"
  by (subst strtok2.simps) (simp add: strchr_split_append)

lemma strtok2_single: "CHR '':'' \<notin> set p \<Longrightarrow> strtok2 p = [p]"
  using strchr_split_None_iff [of "CHR '':''" p] by (subst strtok2.simps) simp

lemma hex_char_plain:
  assumes "n < 16"
  shows "hex_char n \<noteq> CHR '':''" "hex_char n \<noteq> NUL" "hex_char n \<noteq> CHR ''-''"
proof -
  have "of_char (hex_char n) = (if n < 10 then 48 + n else 55 + n)"
    using assms by (simp add: hex_char_def)
  then have "of_char (hex_char n) \<noteq> (of_char CHR '':'' :: nat)"
    "of_char (hex_char n) \<noteq> (of_char NUL :: nat)" "of_char (hex_char n) \<noteq> (of_char CHR ''-'' :: nat)"
    using assms by (auto split: if_splits)
  then show "hex_char n \<noteq> CHR '':''" "hex_char n \<noteq> NUL" "hex_char n \<noteq> CHR ''-''" by metis+
qed

lemma hex2_plain: "c \<in> set (hex2 b) \<Longrightarrow> c \<noteq> CHR '':'' \<and> c \<noteq> NUL \<and> c \<noteq> CHR ''-''"
  using hex_char_plain hex2_digits(1,2) [of b] by (auto simp: hex2_def)

lemma length_hex2 [simp]: "length (hex2 b) = 2"
  by (simp add: hex2_def)

lemma cut_colons_tail:
  "NUL \<notin> set s \<Longrightarrow> \<exists>t. length t = length s \<and> cut_colons n (s @ NUL # r) = t @ NUL # r"
proof (induction n "s @ NUL # r" arbitrary: s rule: cut_colons.induct)
  case (3 n c b)
  show ?case
  proof (cases s)
    case Nil
    then show ?thesis by simp
  next
    case (Cons d s')
    with 3 have b: "c \<noteq> NUL" "d = c" "b = s' @ NUL # r" "NUL \<notin> set s'" by auto
    show ?thesis
    proof (cases "c = CHR '':''")
      case True
      with 3(1) b obtain t where "length t = length s'" "cut_colons n b = t @ NUL # r" by blast
      with b True Cons show ?thesis by (intro exI [of _ "NUL # t"]) simp
    next
      case False
      with 3(2) b obtain t where "length t = length s'" "cut_colons (Suc n) b = t @ NUL # r" by blast
      with b False Cons show ?thesis by (intro exI [of _ "c # t"]) simp
    qed
  qed
qed auto

lemma hom_fill_id:
  assumes "bound < length buf" "\<And>j. j < bound \<Longrightarrow> buf ! j = CHR '':'' \<Longrightarrow> buf ! (j + 1) \<noteq> CHR '':''"
  shows "hom_fill bound buf i = Inr buf"
  using assms
proof (induction bound buf i rule: hom_fill.induct)
  case (1 bound buf i)
  show ?case
  proof (cases "i < bound")
    case True
    with 1 show ?thesis by (subst hom_fill.simps) (auto simp: rdc_def)
  next
    case False
    then show ?thesis by (subst hom_fill.simps) simp
  qed
qed

lemma hexdump_expand:
  assumes "length a = 6"
  shows "hexdump_address a = hex2 (a ! 0) @ CHR '':'' # hex2 (a ! 1) @ CHR '':'' # hex2 (a ! 2) @
    CHR '':'' # hex2 (a ! 3) @ CHR '':'' # hex2 (a ! 4) @ CHR '':'' # hex2 (a ! 5)"
  by (simp add: hexdump_address_def upt_rec numeral_eq_Suc)

lemma hexdump_plain:
  assumes "length a = 6"
  shows "NUL \<notin> set (hexdump_address a)" "CHR ''-'' \<notin> set (hexdump_address a)"
    "length (hexdump_address a) = 17"
  using hex2_plain by (auto simp: hexdump_expand [OF assms])

lemma hom_pairs_hexdump:
  assumes "length a = 6"
  shows "hom_pairs (Suc slack) [] 1 (strtok2 (hexdump_address a)) = Inr (Hom_done (hexdump_address a))"
    and "hom_pairs 0 [] 1 (strtok2 (hexdump_address a)) = Inl Out_of_bounds"
proof -
  have "CHR '':'' \<notin> set (hex2 b)" for b using hex2_plain by blast
  then have "strtok2 (hexdump_address a) =
      [hex2 (a ! 0), hex2 (a ! 1), hex2 (a ! 2), hex2 (a ! 3), hex2 (a ! 4), hex2 (a ! 5)]"
    by (simp add: hexdump_expand [OF assms] strtok2_Cons strtok2_single)
  then show "hom_pairs (Suc slack) [] 1 (strtok2 (hexdump_address a)) = Inr (Hom_done (hexdump_address a))"
    and "hom_pairs 0 [] 1 (strtok2 (hexdump_address a)) = Inl Out_of_bounds"
    by (simp_all add: hexdump_expand [OF assms])
qed

lemma hexdump_no_double_colon:
  assumes "length a = 6" "j < 16" "hexdump_address a ! j = CHR '':''"
  shows "hexdump_address a ! (j + 1) \<noteq> CHR '':''"
proof -
  have h: "hex_char (unat (b :: u8) div 16) \<noteq> CHR '':''" "hex_char (unat b mod 16) \<noteq> CHR '':''" for b
    using hex_char_plain(1) hex2_digits(1,2) by blast+
  have "j \<in> {0, 1, 2, 3, 4, 5, 6, 7, 8, 9, 10, 11, 12, 13, 14, 15}"
    using assms(2) by (simp only: insert_iff empty_iff) presburger
  then show ?thesis
    using assms(3) h unfolding hexdump_expand [OF assms(1)] by (auto simp: hex2_def nth_Cons')
qed

lemma homogenize_hexdump:
  assumes "length a = 6"
  shows "homogenize_eth_addr (Suc slack) (strncpy 48 (hexdump_address a)) =
      Inr (strncpy 48 (hexdump_address a))"
    and "homogenize_eth_addr 0 (strncpy 48 (hexdump_address a)) = Inl Out_of_bounds"
proof -
  let ?s = "hexdump_address a"
  note plain = hexdump_plain [OF assms]
  have b: "strncpy 48 ?s = ?s @ NUL # replicate 30 NUL"
    by (simp add: strncpy_def plain(3)) (simp flip: replicate_Suc)
  have cs: "cstr (strncpy 48 ?s) = Inr ?s" using plain by (intro cstr_strncpy) simp_all
  have "map (\<lambda>c. if c = CHR ''-'' then CHR '':'' else c) ?s = ?s"
    using plain(2) by (intro map_idI) auto
  then have d: "dash_to_colon (strncpy 48 ?s) = strncpy 48 ?s"
    by (simp add: dash_to_colon_def b plain(3))
  obtain t where t: "length t = 17" "cut_colons 48 (strncpy 48 ?s) = t @ NUL # replicate 30 NUL"
    using cut_colons_tail [OF plain(1), of 48 "replicate 30 NUL"] b plain(3) by auto
  have "hom_fill 16 (strncpy 48 ?s) 0 = Inr (strncpy 48 ?s)"
    using hexdump_no_double_colon [OF assms] plain(3) by (intro hom_fill_id) (auto simp: b nth_append)
  with cs d t show "homogenize_eth_addr (Suc slack) (strncpy 48 ?s) = Inr (strncpy 48 ?s)"
    using hom_pairs_hexdump(1) [OF assms, of slack]
    by (simp add: homogenize_eth_addr_def Let_def plain(3)) (simp add: b)
  show "homogenize_eth_addr 0 (strncpy 48 ?s) = Inl Out_of_bounds"
    using cs d hom_pairs_hexdump(2) [OF assms] by (simp add: homogenize_eth_addr_def Let_def)
qed

lemma stream_addr_type_header [simp]:
  "stream_addr_type (addr_header t f\<lparr>sa_data := d\<rparr>) = address_type_num t"
  by (simp add: stream_addr_type_def addr_header_def)

section \<open>Properties\<close>

text \<open>
  Claim C31. A TCP or UDP address survives printing and parsing: \<open>stream_addr_ntoa\<close> prints
  \<open>proto://ip:port\<close>, and \<open>stream_addr_aton\<close> with a guessed type gives the same address back. The
  broadcast address, which \<open>inet_addr\<close> cannot tell from an error, is excluded.
\<close>

theorem stream_addr_ipv4_roundtrip:
  assumes "type \<in> {STREAM_ADDR_TCP, STREAM_ADDR_UDP}" "ip \<noteq> INADDR_NONE"
    and "addr = addr_header type flags\<lparr>sa_data := sa_set_bytes (sockaddr_in (htons port) ip)\<rparr>"
  shows "\<exists>s. stream_addr_ntoa old addr = Inr s \<and>
    stream_addr_aton slack s STREAM_ADDR_GUESS flags = Inr (0, addr)"
proof -
  let ?t = "inet_ntoa ip @ '':'' @ dec (unat port)"
  let ?p = "if type = STREAM_ADDR_UDP then ''udp'' else ''tcp''"
  have b: "sa_bytes addr = Inr (bytes16 2 @ bytes16 (htons port) @ bytes32 ip @ replicate 18 0)"
    by (simp add: sa_bytes_def assms(3) sa_set_bytes_def sockaddr_in_def)
  have "sin_addr addr = Inr ip" "sin_port addr = Inr (htons port)"
    using rd32_bytes32 [of "bytes16 2 @ bytes16 (htons port)" ip "replicate 18 0"]
      rd16_bytes16 [of "bytes16 2" "htons port" "bytes32 ip @ replicate 18 0"]
    by (simp_all add: sin_addr_def sin_port_def b)
  moreover have "length (?p @ ''://'' @ ?t) < 48"
    using inet_ntoa_length [of ip] port_dec_length [of port] by simp
  ultimately have n: "stream_addr_ntoa old addr = Inr (?p @ ''://'' @ ?t)"
    using assms(1) by (auto simp: stream_addr_ntoa_def stream_addr_ntoa_r_def stream_addr_type_def
        assms(3) addr_header_def snprintf_checked_def)
  have nul: "NUL \<notin> set (?p @ ''://'' @ ?t)" by (simp add: inet_ntoa_chars dec_chars)
  have "buf_text (strncpy 48 (?p @ ''://'' @ ?t)) = ?p @ ''://'' @ ?t"
    "terminated (strncpy 48 (?p @ ''://'' @ ?t))"
    using buf_text_strncpy [OF nul, of 48] terminated_strncpy [OF nul, of 48]
      \<open>length (?p @ ''://'' @ ?t) < 48\<close> by simp_all
  moreover have "strstr (?p @ ''://'' @ ?t) ''://'' = Some (''://'' @ ?t)"
    using strstr_prefix3 [of _ _ _ ?t] by simp
  moreover have "strcasecmp_eq ''tcp'' ''tcp''" "strcasecmp_eq ''udp'' ''udp''" "\<not> strcasecmp_eq ''tcp'' ''udp''"
    by (simp_all add: strcasecmp_eq_def tolower_def)
  ultimately have "stream_addr_aton slack (?p @ ''://'' @ ?t) STREAM_ADDR_GUESS flags = aton_ipv4 ?t type flags"
    using assms(1) by (auto simp: stream_addr_aton_def Let_def aton_prefix_def aton_fixed_def)
  with n show ?thesis using aton_ipv4_printed [OF assms(2)] assms(3) by auto
qed

theorem stream_addr_ipv4_roundtrip_witness:
  "\<exists>s addr. stream_addr_ntoa [] addr = Inr s \<and> stream_addr_type addr = 2 \<and>
     stream_addr_aton 0 s STREAM_ADDR_GUESS 0 = Inr (0, addr)"
proof -
  let ?a = "addr_header STREAM_ADDR_UDP 0\<lparr>sa_data := sa_set_bytes (sockaddr_in (htons 4711) 0x0100007F)\<rparr>"
  have "stream_addr_type ?a = 2" by simp
  moreover have "\<exists>s. stream_addr_ntoa [] ?a = Inr s \<and>
      stream_addr_aton 0 s STREAM_ADDR_GUESS 0 = Inr (0, ?a)"
    by (rule stream_addr_ipv4_roundtrip [where type = STREAM_ADDR_UDP])
      (simp_all add: INADDR_NONE_def)
  ultimately show ?thesis by blast
qed

text \<open>
  An ethernet address survives printing and parsing, provided that one byte behind the
  17-byte array \<open>tmp\<close> of \<open>homogenize_eth_addr\<close> can be written: \<open>sprintf\<close> stores the terminator of a
  complete address there. Without that byte, parsing any complete address is out of bounds.
\<close>

lemma stream_addr_eth_roundtrip:
  assumes "length a = 6" "addr = addr_header STREAM_ADDR_ETHERNET flags\<lparr>sa_data := sa_set_bytes a\<rparr>"
  shows "\<exists>s. stream_addr_ntoa old addr = Inr s \<and>
    stream_addr_aton (Suc slack) s STREAM_ADDR_GUESS flags = Inr (0, addr) \<and>
    stream_addr_aton 0 s STREAM_ADDR_GUESS flags = Inl Out_of_bounds"
proof -
  let ?s = "hexdump_address a"
  note plain = hexdump_plain [OF assms(1)]
  have "take 6 a = a" using assms(1) by simp
  then have n: "stream_addr_ntoa old addr = Inr (''eth://'' @ ?s)"
    using plain(3) assms(1)
    by (simp add: stream_addr_ntoa_def stream_addr_ntoa_r_def stream_addr_type_def assms(2)
        addr_header_def snprintf_checked_def sa_ether_addr_def sa_bytes_def sa_set_bytes_def)
  have nul: "NUL \<notin> set (''eth://'' @ ?s)" using plain(1) by simp
  have "buf_text (strncpy 48 (''eth://'' @ ?s)) = ''eth://'' @ ?s" "terminated (strncpy 48 (''eth://'' @ ?s))"
    using buf_text_strncpy [OF nul, of 48] terminated_strncpy [OF nul, of 48] plain(3) by simp_all
  moreover have "strstr (''eth://'' @ ?s) ''://'' = Some (''://'' @ ?s)"
    using strstr_prefix3 [of _ _ _ ?s] by simp
  moreover have "\<not> strcasecmp_eq ''tcp'' ''eth''" "\<not> strcasecmp_eq ''udp'' ''eth''" "strcasecmp_eq ''eth'' ''eth''"
    by (simp_all add: strcasecmp_eq_def tolower_def char_of_eq_iff)
  ultimately have g: "stream_addr_aton sl (''eth://'' @ ?s) STREAM_ADDR_GUESS flags = aton_ethernet sl ?s flags" for sl
    by (simp add: stream_addr_aton_def Let_def aton_prefix_def aton_fixed_def)
  have "cstr (strncpy 48 ?s) = Inr ?s" using plain by (intro cstr_strncpy) simp_all
  moreover have "eth_aton ?s = Some a"
    using eth_aton_hexdump_lemma [OF assms(1)] .
  ultimately have "aton_ethernet (Suc slack) ?s flags = Inr (0, addr)"
    by (simp add: aton_ethernet_def homogenize_hexdump(1) [OF assms(1)] assms(2))
  moreover have "aton_ethernet 0 ?s flags = Inl Out_of_bounds"
    by (simp add: aton_ethernet_def homogenize_hexdump(2) [OF assms(1)])
  ultimately show ?thesis using n g by simp
qed

lemma aton_file_prefix:
  assumes "NUL \<notin> set path"
  shows "stream_addr_aton slack (''file://'' @ path) STREAM_ADDR_GUESS flags =
    Inr (aton_file path STREAM_ADDR_CAPFILE (flags OR STREAM_ADDR_LOCAL))"
proof -
  have nul: "NUL \<notin> set (''file://'' @ path)" using assms by simp
  have "buf_text (strncpy 48 (''file://'' @ path)) = ''file://'' @ take 41 path"
    using buf_text_strncpy [OF nul, of 48] by simp
  moreover have "strstr (''file://'' @ r) ''://'' = Some (''://'' @ r)" for r
    by (simp add: strstr.simps)
  moreover have "\<not> strcasecmp_eq ''tcp'' ''file''" "\<not> strcasecmp_eq ''udp'' ''file''"
    "\<not> strcasecmp_eq ''eth'' ''file''" "strcasecmp_eq ''file'' ''file''"
    by (simp_all add: strcasecmp_eq_def)
  ultimately show ?thesis
    by (simp add: stream_addr_aton_def Let_def aton_prefix_def aton_fixed_def)
qed

text \<open>
  A file name without prefix is accepted only up to 47 characters when the type is to be
  guessed: a longer one, without \<open>://\<close> among its first 48 characters, makes the parser search past
  the end of its 48-byte copy. With the prefix \<open>file://\<close> a name of any length is taken over.
\<close>

lemma stream_addr_guess_long_name:
  assumes "NUL \<notin> set path"
  shows "(48 \<le> length path \<and> strstr (take 48 path) ''://'' = None \<longrightarrow>
      stream_addr_aton slack path STREAM_ADDR_GUESS flags = Inl Out_of_bounds) \<and>
    stream_addr_aton slack (''file://'' @ path) STREAM_ADDR_GUESS flags =
      Inr (aton_file path STREAM_ADDR_CAPFILE (flags OR STREAM_ADDR_LOCAL))"
  using aton_file_prefix [OF assms] buf_text_strncpy [OF assms, of 48] terminated_strncpy [OF assms, of 48]
  by (simp add: stream_addr_aton_def Let_def)

text \<open>
  Guessing the type of the empty string is out of bounds: the loop that looks for a double
  colon runs to \<open>strlen - 1\<close>, which wraps around.
\<close>

lemma stream_addr_guess_empty:
  "stream_addr_aton slack [] STREAM_ADDR_GUESS flags = Inl Out_of_bounds"
proof -
  have f: "hom_fill bound (replicate n NUL) i = Inl Out_of_bounds" if "i \<le> n" "n < bound" for bound n i
    using that
  proof (induction "n - i" arbitrary: i)
    case 0
    then show ?case by (subst hom_fill.simps) (simp add: rdc_def)
  next
    case (Suc k)
    then show ?case by (subst hom_fill.simps) (simp add: rdc_def)
  qed
  have "strncpy 48 [] = replicate 48 NUL" by (simp add: strncpy_def)
  moreover have "dash_to_colon (replicate 48 NUL) = replicate 48 NUL"
    by (simp add: dash_to_colon_def flip: replicate_add)
  moreover have "cut_colons 48 (replicate 48 NUL) = replicate 48 NUL"
    by (simp add: numeral_eq_Suc)
  moreover have "cstr (replicate 48 NUL) = Inr []" by (simp add: cstr_def numeral_eq_Suc)
  ultimately have "homogenize_eth_addr slack (strncpy 48 []) = Inl Out_of_bounds"
    using f [of 0 48 "2 ^ 64 - 1"]
    by (simp add: homogenize_eth_addr_def Let_def strtok2_single flip: replicate_add)
  moreover have "buf_text (strncpy 48 []) = []" "terminated (strncpy 48 [])" "strstr [] ''://'' = None"
    using buf_text_strncpy [of "[]" 48] terminated_strncpy [of "[]" 48] by (simp_all add: strstr.simps)
  ultimately show ?thesis
    by (simp add: stream_addr_aton_def Let_def aton_fixed_def aton_ethernet_def)
qed

end
