(* ===== verification/Packet_Filter.thy ===== *)
theory Packet_Filter
  imports Packet Address
begin

text \<open>
  Packet filters (\<open>caputils/filter.h\<close>, \<open>src/filter.c\<close>): the filter structure, the sixteen tests,
  their combination under AND and OR, and the state that \<open>filter_match\<close> carries from packet to
  packet. The compiled BPF program and \<open>bpf_filter\<close> belong to libpcap: the program has a type of its
  own and the interpreter is an argument.
\<close>

section \<open>The filter structure\<close>

definition FILTER_UNKNOWN :: u32 where "FILTER_UNKNOWN = 0"
definition FILTER_AND :: u32 where "FILTER_AND = 1"
definition FILTER_OR :: u32 where "FILTER_OR = 2"

abbreviation (input) OFFSET_DST_PORT :: nat where "OFFSET_DST_PORT \<equiv> 0"
abbreviation (input) OFFSET_SRC_PORT :: nat where "OFFSET_SRC_PORT \<equiv> 1"
abbreviation (input) OFFSET_IP_DST :: nat where "OFFSET_IP_DST \<equiv> 2"
abbreviation (input) OFFSET_IP_SRC :: nat where "OFFSET_IP_SRC \<equiv> 3"
abbreviation (input) OFFSET_IP_PROTO :: nat where "OFFSET_IP_PROTO \<equiv> 4"
abbreviation (input) OFFSET_ETH_DST :: nat where "OFFSET_ETH_DST \<equiv> 5"
abbreviation (input) OFFSET_ETH_SRC :: nat where "OFFSET_ETH_SRC \<equiv> 6"
abbreviation (input) OFFSET_ETH_TYPE :: nat where "OFFSET_ETH_TYPE \<equiv> 7"
abbreviation (input) OFFSET_VLAN :: nat where "OFFSET_VLAN \<equiv> 8"
abbreviation (input) OFFSET_IFACE :: nat where "OFFSET_IFACE \<equiv> 9"
abbreviation (input) OFFSET_MAMPID :: nat where "OFFSET_MAMPID \<equiv> 10"
abbreviation (input) OFFSET_END_TIME :: nat where "OFFSET_END_TIME \<equiv> 11"
abbreviation (input) OFFSET_START_TIME :: nat where "OFFSET_START_TIME \<equiv> 12"
abbreviation (input) OFFSET_PORT :: nat where "OFFSET_PORT \<equiv> 13"
abbreviation (input) OFFSET_FRAME_MAX_DT :: nat where "OFFSET_FRAME_MAX_DT \<equiv> 14"
abbreviation (input) OFFSET_FRAME_NUM :: nat where "OFFSET_FRAME_NUM \<equiv> 15"

text \<open>The enumerators \<open>FILTER_...\<close> of the bit mask are \<open>1 << OFFSET_...\<close>.\<close>

definition filter_bit :: "nat \<Rightarrow> u32" where
  "filter_bit off = push_bit off 1"

text \<open>
  The linked list of frame ranges is the list of its nodes, lower and upper bound each.
\<close>

record 'b cap_filter =
  f_filter_id :: u32
  f_version :: u32
  f_mode :: u32
  f_index :: u32
  f_starttime :: timepico
  f_endtime :: timepico
  f_mampid :: "char list"
  f_iface :: "char list"
  f_vlan_tci :: u16
  f_vlan_tci_mask :: u16
  f_eth_type :: u16
  f_eth_type_mask :: u16
  f_eth_src :: "u8 list"
  f_eth_src_mask :: "u8 list"
  f_eth_dst :: "u8 list"
  f_eth_dst_mask :: "u8 list"
  f_ip_proto :: u8
  f_ip_src :: u32
  f_ip_src_mask :: u32
  f_ip_dst :: u32
  f_ip_dst_mask :: u32
  f_src_port :: u16
  f_src_port_mask :: u16
  f_dst_port :: u16
  f_dst_port_mask :: u16
  f_port :: u16
  f_port_mask :: u16
  f_frame_max_dt :: timepico
  f_frame_num :: "(int \<times> int) list"
  f_bpf_insn :: "'b option"
  f_bpf_expr :: "string option"
  f_first :: bool
  f_frame_counter :: int
  f_frame_last_ts :: timepico
  f_consumer :: u32
  f_caplen :: u32
  f_dest :: stream_addr

definition filter_has :: "'b cap_filter \<Rightarrow> nat \<Rightarrow> bool" where
  "filter_has flt off \<longleftrightarrow> f_index flt AND filter_bit off \<noteq> 0"

section \<open>The tests\<close>

fun matchEth :: "u8 list \<Rightarrow> u8 list \<Rightarrow> mem \<Rightarrow> nat \<Rightarrow> nat list \<Rightarrow> bool res" where
  "matchEth desired msk m net [] = Inr True"
| "matchEth desired msk m net (i # js) =
     rbind (rd8 m (net + i)) (\<lambda>b.
       if b AND msk ! i \<noteq> desired ! i then Inr False else matchEth desired msk m net js)"

definition filter_iface :: "'b cap_filter \<Rightarrow> char list \<Rightarrow> bool res" where
  "filter_iface flt iface =
     rand (filter_has flt OFFSET_IFACE)
       (rbind (cstr iface) (\<lambda>h. rbind (cstr (f_iface flt)) (\<lambda>n. Inr (strstr h n \<noteq> None))))"

definition filter_vlan_tci :: "'b cap_filter \<Rightarrow> mem \<Rightarrow> nat option \<Rightarrow> bool res" where
  "filter_vlan_tci flt m vlan =
     rand (filter_has flt OFFSET_VLAN)
       (case vlan of
          None \<Rightarrow> Inr False
        | Some v \<Rightarrow> rbind (rd16 m (v + 14)) (\<lambda>tci.
            Inr (ntohs tci AND f_vlan_tci_mask flt = f_vlan_tci flt)))"

definition filter_h_proto :: "'b cap_filter \<Rightarrow> u16 \<Rightarrow> bool" where
  "filter_h_proto flt proto \<longleftrightarrow>
     filter_has flt OFFSET_ETH_TYPE \<and> proto AND f_eth_type_mask flt = f_eth_type flt"

definition filter_eth_src :: "'b cap_filter \<Rightarrow> mem \<Rightarrow> bool res" where
  "filter_eth_src flt m =
     rand (filter_has flt OFFSET_ETH_SRC)
       (matchEth (f_eth_src flt) (f_eth_src_mask flt) m 6 [0..<6])"

definition filter_eth_dst :: "'b cap_filter \<Rightarrow> mem \<Rightarrow> bool res" where
  "filter_eth_dst flt m =
     rand (filter_has flt OFFSET_ETH_DST)
       (matchEth (f_eth_dst flt) (f_eth_dst_mask flt) m 0 [0..<6])"

definition filter_ip_proto :: "'b cap_filter \<Rightarrow> mem \<Rightarrow> nat option \<Rightarrow> bool res" where
  "filter_ip_proto flt m ip =
     rand (filter_has flt OFFSET_IP_PROTO)
       (case ip of None \<Rightarrow> Inr False | Some ip \<Rightarrow> rbind (ip_p m ip) (\<lambda>p. Inr (f_ip_proto flt = p)))"

definition filter_ip_src :: "'b cap_filter \<Rightarrow> mem \<Rightarrow> nat option \<Rightarrow> bool res" where
  "filter_ip_src flt m ip =
     rand (filter_has flt OFFSET_IP_SRC)
       (case ip of
          None \<Rightarrow> Inr False
        | Some ip \<Rightarrow> rbind (ip_src_of m ip) (\<lambda>a. Inr (a AND f_ip_src_mask flt = f_ip_src flt)))"

definition filter_ip_dst :: "'b cap_filter \<Rightarrow> mem \<Rightarrow> nat option \<Rightarrow> bool res" where
  "filter_ip_dst flt m ip =
     rand (filter_has flt OFFSET_IP_DST)
       (case ip of
          None \<Rightarrow> Inr False
        | Some ip \<Rightarrow> rbind (ip_dst_of m ip) (\<lambda>a. Inr (a AND f_ip_dst_mask flt = f_ip_dst flt)))"

definition filter_src_port :: "'b cap_filter \<Rightarrow> u16 \<Rightarrow> bool" where
  "filter_src_port flt port \<longleftrightarrow>
     filter_has flt OFFSET_SRC_PORT \<and> f_src_port flt = port AND f_src_port_mask flt"

definition filter_dst_port :: "'b cap_filter \<Rightarrow> u16 \<Rightarrow> bool" where
  "filter_dst_port flt port \<longleftrightarrow>
     filter_has flt OFFSET_DST_PORT \<and> f_dst_port flt = port AND f_dst_port_mask flt"

definition filter_port :: "'b cap_filter \<Rightarrow> u16 \<Rightarrow> u16 \<Rightarrow> bool" where
  "filter_port flt src dst \<longleftrightarrow>
     filter_has flt OFFSET_PORT \<and>
     (f_port flt = src AND f_port_mask flt \<or> f_port flt = dst AND f_port_mask flt)"

definition filter_mampid :: "'b cap_filter \<Rightarrow> char list \<Rightarrow> bool" where
  "filter_mampid flt pid \<longleftrightarrow>
     filter_has flt OFFSET_MAMPID \<and> strncmp_eq (f_mampid flt) pid 8"

definition filter_start_time :: "'b cap_filter \<Rightarrow> timepico \<Rightarrow> bool" where
  "filter_start_time flt time \<longleftrightarrow>
     filter_has flt OFFSET_START_TIME \<and> timecmp (f_starttime flt) time \<le> 0"

definition filter_end_time :: "'b cap_filter \<Rightarrow> timepico \<Rightarrow> bool" where
  "filter_end_time flt time \<longleftrightarrow>
     filter_has flt OFFSET_END_TIME \<and> timecmp (f_endtime flt) time > 0"

definition filter_frame_dt :: "'b cap_filter \<Rightarrow> timepico \<Rightarrow> bool" where
  "filter_frame_dt flt time =
     (if \<not> filter_has flt OFFSET_FRAME_MAX_DT then False
      else if timecmp time (f_frame_last_ts flt) < 0 then True
      else timecmp (timepico_sub time (f_frame_last_ts flt)) (f_frame_max_dt flt) \<le> 0)"

definition filter_frame_num :: "'b cap_filter \<Rightarrow> bool" where
  "filter_frame_num flt =
     (case f_frame_num flt of
        [] \<Rightarrow> False
      | (lower, upper) # _ \<Rightarrow>
          if f_frame_counter flt < lower then False
          else if upper > 0 \<and> f_frame_counter flt > upper then False
          else True)"

section \<open>Combining the tests\<close>

text \<open>\<open>match |= test << OFFSET\<close>, one after the other.\<close>

fun run_tests :: "u32 \<Rightarrow> (bool res \<times> nat) list \<Rightarrow> u32 res" where
  "run_tests mt [] = Inr mt"
| "run_tests mt ((t, off) # ts) =
     rbind t (\<lambda>b. run_tests (mt OR (if b then filter_bit off else 0)) ts)"

record pkt_view =
  v_proto :: u16            \<comment> \<open>\<open>h_proto\<close>, behind the VLAN tag if there is one\<close>
  v_vlan :: "nat option"
  v_ip :: "nat option"
  v_src_port :: u16
  v_dst_port :: u16

text \<open>The first part of \<open>filter_core\<close>: the pointers and ports the tests are given.\<close>

definition filter_view :: "mem \<Rightarrow> pkt_view res" where
  "filter_view pkt =
     rbind (h_proto pkt) (\<lambda>proto.
     rbind (find_ether_vlan_header pkt proto) (\<lambda>(vlan, proto).
     rbind (find_ipv4_header pkt) (\<lambda>hdr.
     let ip = (case hdr of None \<Rightarrow> None | Some (off, _) \<Rightarrow> Some off) in
     rbind (find_tcp_header pkt ip (Some (0, 0))) (\<lambda>(_, ports).
     rbind (find_udp_header pkt ip ports) (\<lambda>(_, ports).
       let (src, dst) = (case ports of Some p \<Rightarrow> p | None \<Rightarrow> (0, 0)) in
       Inr \<lparr>v_proto = proto, v_vlan = vlan, v_ip = ip, v_src_port = src, v_dst_port = dst\<rparr>)))))"

definition filter_tests ::
  "'b cap_filter \<Rightarrow> mem \<Rightarrow> cap_header \<Rightarrow> pkt_view \<Rightarrow> (bool res \<times> nat) list" where
  "filter_tests flt pkt head v =
     [(Inr (filter_dst_port flt (v_dst_port v)), OFFSET_DST_PORT),
      (Inr (filter_src_port flt (v_src_port v)), OFFSET_SRC_PORT),
      (filter_ip_dst flt pkt (v_ip v), OFFSET_IP_DST),
      (filter_ip_src flt pkt (v_ip v), OFFSET_IP_SRC),
      (filter_ip_proto flt pkt (v_ip v), OFFSET_IP_PROTO),
      (filter_eth_dst flt pkt, OFFSET_ETH_DST),
      (filter_eth_src flt pkt, OFFSET_ETH_SRC),
      (Inr (filter_h_proto flt (v_proto v)), OFFSET_ETH_TYPE),
      (filter_vlan_tci flt pkt (v_vlan v), OFFSET_VLAN),
      (filter_iface flt (ch_nic head), OFFSET_IFACE),
      (Inr (filter_mampid flt (ch_mampid head)), OFFSET_MAMPID),
      (Inr (filter_end_time flt (ch_ts head)), OFFSET_END_TIME),
      (Inr (filter_start_time flt (ch_ts head)), OFFSET_START_TIME),
      (Inr (filter_port flt (v_src_port v) (v_dst_port v)), OFFSET_PORT),
      (Inr (filter_frame_dt flt (ch_ts head)), OFFSET_FRAME_MAX_DT),
      (Inr (filter_frame_num flt), OFFSET_FRAME_NUM)]"

definition filter_core :: "'b cap_filter \<Rightarrow> mem \<Rightarrow> cap_header \<Rightarrow> bool res" where
  "filter_core flt pkt head =
     rbind (filter_view pkt) (\<lambda>v.
     rbind (run_tests 0 (filter_tests flt pkt head v)) (\<lambda>mt.
       if f_mode flt = FILTER_AND then Inr (mt = f_index flt)
       else if f_mode flt = FILTER_OR then Inr (mt > 0)
       else Inl Aborted))"

section \<open>Matching a packet\<close>

definition prune_ranges :: "'b cap_filter \<Rightarrow> 'b cap_filter" where
  "prune_ranges flt =
     (case f_frame_num flt of
        [] \<Rightarrow> flt
      | (lower, upper) # next \<Rightarrow>
          if upper > 0 \<and> f_frame_counter flt > upper then flt\<lparr>f_frame_num := next\<rparr> else flt)"

definition filter_match ::
  "('b \<Rightarrow> mem \<Rightarrow> u32 \<Rightarrow> u32 \<Rightarrow> u32) \<Rightarrow> 'b cap_filter \<Rightarrow> mem \<Rightarrow> cap_header \<Rightarrow> (bool \<times> 'b cap_filter) res" where
  "filter_match bpf_filter flt pkt head =
     (let flt = (if f_first flt
                    then flt\<lparr>f_frame_last_ts := ch_ts head, f_first := False\<rparr> else flt) in
      rbind (if f_index flt = 0 then Inr True else filter_core flt pkt head) (\<lambda>core_match.
        let bpf_match = (case f_bpf_insn flt of
                           None \<Rightarrow> True
                         | Some insn \<Rightarrow> bpf_filter insn pkt (ch_len head) (ch_caplen head) \<noteq> 0);
            mt = core_match \<and> bpf_match;
            flt = prune_ranges flt;
            flt = flt\<lparr>f_frame_counter := c_int (f_frame_counter flt + 1)\<rparr>
        in Inr (mt, if mt then flt\<lparr>f_frame_last_ts := ch_ts head\<rparr> else flt)))"

text \<open>A stream of packets, matched one after the other.\<close>

fun filter_run ::
  "('b \<Rightarrow> mem \<Rightarrow> u32 \<Rightarrow> u32 \<Rightarrow> u32) \<Rightarrow> 'b cap_filter \<Rightarrow> cap_header list \<Rightarrow> (bool list \<times> 'b cap_filter) res" where
  "filter_run bpf flt [] = Inr ([], flt)"
| "filter_run bpf flt (head # rest) =
     rbind (filter_match bpf flt (ch_payload head) head) (\<lambda>(mt, flt).
     rbind (filter_run bpf flt rest) (\<lambda>(ms, flt). Inr (mt # ms, flt)))"

section \<open>What the combination computes\<close>

lemma bit_filter_bit: "bit (filter_bit off) k \<longleftrightarrow> k = off \<and> k < 32"
  by (auto simp: filter_bit_def bit_simps)

lemma filter_has_bit: "off < 32 \<Longrightarrow> filter_has flt off \<longleftrightarrow> bit (f_index flt) off"
proof -
  assume "off < 32"
  have "f_index flt AND filter_bit off = (if bit (f_index flt) off then filter_bit off else 0)"
    using \<open>off < 32\<close> by (intro bit_word_eqI) (auto simp: bit_simps bit_filter_bit)
  moreover have "filter_bit off \<noteq> 0" using \<open>off < 32\<close> bit_filter_bit [of off off] by auto
  ultimately show ?thesis by (simp add: filter_has_def)
qed

lemma run_tests_bits:
  assumes "\<forall>(t, off)\<in>set ts. \<exists>b. t = Inr b"
  shows "\<exists>w. run_tests m0 ts = Inr w \<and>
    (\<forall>k<32. bit w k \<longleftrightarrow> bit m0 k \<or> (Inr True, k) \<in> set ts)"
  using assms
proof (induction ts arbitrary: m0)
  case Nil
  then show ?case by simp
next
  case (Cons x ts)
  obtain b off where x: "x = (Inr b, off)" using Cons.prems by (cases x) auto
  let ?m = "m0 OR (if b then filter_bit off else 0)"
  from Cons obtain w where "run_tests ?m ts = Inr w"
    "\<forall>k<32. bit w k \<longleftrightarrow> bit ?m k \<or> (Inr True, k) \<in> set ts" by fastforce
  then show ?case by (auto simp: x bit_simps bit_filter_bit)
qed

text \<open>Every test is guarded by its bit of the index, except for the frame ranges.\<close>

lemma rand_True: "rand a b = Inr True \<longleftrightarrow> a \<and> b = Inr True"
  by (simp add: rand_def)

lemma test_enabled:
  assumes "(Inr True, off) \<in> set (filter_tests flt pkt head v)" "f_frame_num flt \<noteq> [] \<longrightarrow> filter_has flt 15"
  shows "filter_has flt off"
proof -
  have fn: "filter_frame_num flt \<Longrightarrow> filter_has flt 15"
    using assms(2) by (cases "f_frame_num flt") (auto simp: filter_frame_num_def)
  show ?thesis
    using assms(1) fn
    by (auto simp: filter_tests_def filter_dst_port_def filter_src_port_def filter_ip_dst_def
        filter_ip_src_def filter_ip_proto_def filter_eth_dst_def filter_eth_src_def filter_h_proto_def
        filter_vlan_tci_def filter_iface_def filter_mampid_def filter_end_time_def
        filter_start_time_def filter_port_def filter_frame_dt_def rand_True
        dest: sym [of "Inr True"] split: if_splits)
qed

lemma test_offsets: "map snd (filter_tests flt pkt head v) = [0..<16]"
  by (simp add: filter_tests_def upt_rec)

lemma test_exists: "off < 16 \<Longrightarrow> \<exists>t. (t, off) \<in> set (filter_tests flt pkt head v)"
proof -
  assume "off < 16"
  then have "off \<in> set (map snd (filter_tests flt pkt head v))" by (simp add: test_offsets)
  then show ?thesis by force
qed

lemma test_offset: "(t, off) \<in> set (filter_tests flt pkt head v) \<Longrightarrow> off < 16"
proof -
  assume "(t, off) \<in> set (filter_tests flt pkt head v)"
  then have "off \<in> set (map snd (filter_tests flt pkt head v))" by force
  then show ?thesis by (simp add: test_offsets)
qed

definition no_fault :: "(bool res \<times> nat) list \<Rightarrow> bool" where
  "no_fault ts \<longleftrightarrow> (\<forall>(t, off)\<in>set ts. \<exists>b. t = Inr b)"

lemma filter_core_bits:
  assumes "filter_view pkt = Inr v" "no_fault (filter_tests flt pkt head v)"
  shows "\<exists>w. filter_core flt pkt head =
      (if f_mode flt = FILTER_AND then Inr (w = f_index flt)
       else if f_mode flt = FILTER_OR then Inr (w > 0) else Inl Aborted) \<and>
    (\<forall>k<32. bit w k \<longleftrightarrow> (Inr True, k) \<in> set (filter_tests flt pkt head v))"
proof -
  from run_tests_bits [of "filter_tests flt pkt head v" 0] assms(2) obtain w where
    "run_tests 0 (filter_tests flt pkt head v) = Inr w"
    "\<forall>k<32. bit w k \<longleftrightarrow> (Inr True, k) \<in> set (filter_tests flt pkt head v)"
    unfolding no_fault_def by auto
  then show ?thesis using assms(1) by (intro exI [of _ w]) (simp add: filter_core_def)
qed

lemma word32_eq_iff: "v = w \<longleftrightarrow> (\<forall>k<32. bit v k = bit w k)" for v w :: u32
  by (auto simp: bit_eq_iff)

lemma filter_core_spec:
  assumes "filter_view pkt = Inr v" "no_fault (filter_tests flt pkt head v)"
    and "unat (f_index flt) < 2 ^ 16" "f_frame_num flt \<noteq> [] \<longrightarrow> filter_has flt 15"
  shows "f_mode flt = FILTER_AND \<Longrightarrow> filter_core flt pkt head =
      Inr (\<forall>off<16. filter_has flt off \<longrightarrow> (Inr True, off) \<in> set (filter_tests flt pkt head v))"
    and "f_mode flt = FILTER_OR \<Longrightarrow> filter_core flt pkt head =
      Inr (\<exists>off<16. filter_has flt off \<and> (Inr True, off) \<in> set (filter_tests flt pkt head v))"
proof -
  let ?T = "set (filter_tests flt pkt head v)"
  from filter_core_bits [OF assms(1,2)] obtain w where
    core: "filter_core flt pkt head =
      (if f_mode flt = FILTER_AND then Inr (w = f_index flt)
       else if f_mode flt = FILTER_OR then Inr (w > 0) else Inl Aborted)"
    and w: "\<And>k. k < 32 \<Longrightarrow> bit w k \<longleftrightarrow> (Inr True, k) \<in> ?T" by blast
  have en: "filter_has flt k" if "(Inr True, k) \<in> ?T" for k
    using test_enabled [OF that assms(4)] .
  have hi: "\<not> bit (f_index flt) k" if "16 \<le> k" for k
  proof -
    have "unat (f_index flt) < 2 ^ k"
      using assms(3) that by (meson less_le_trans one_le_numeral power_increasing)
    then have "\<not> bit (unat (f_index flt)) k" by (simp add: bit_iff_odd)
    then show ?thesis by (simp add: bit_unsigned_iff)
  qed
  have "w = f_index flt \<longleftrightarrow> (\<forall>k<32. (Inr True, k) \<in> ?T \<longleftrightarrow> bit (f_index flt) k)"
    using w by (simp add: word32_eq_iff)
  also have "\<dots> \<longleftrightarrow> (\<forall>k<16. filter_has flt k \<longrightarrow> (Inr True, k) \<in> ?T)"
  proof (rule iffI; intro allI impI)
    fix k :: nat assume all: "\<forall>k<32. (Inr True, k) \<in> ?T \<longleftrightarrow> bit (f_index flt) k"
      and k: "k < 16" and "filter_has flt k"
    then show "(Inr True, k) \<in> ?T" by (simp add: filter_has_bit)
  next
    fix k :: nat assume all: "\<forall>k<16. filter_has flt k \<longrightarrow> (Inr True, k) \<in> ?T" and k: "k < 32"
    have "filter_has flt k \<longleftrightarrow> bit (f_index flt) k" using k by (rule filter_has_bit)
    then show "(Inr True, k) \<in> ?T \<longleftrightarrow> bit (f_index flt) k"
      using all en [of k] hi [of k] test_offset [of "Inr True" k flt pkt head v] linorder_not_less [of k 16]
      by blast
  qed
  finally show "f_mode flt = FILTER_AND \<Longrightarrow> filter_core flt pkt head =
      Inr (\<forall>off<16. filter_has flt off \<longrightarrow> (Inr True, off) \<in> ?T)"
    by (simp add: core)
  have "w > 0 \<longleftrightarrow> (\<exists>k<32. (Inr True, k) \<in> ?T)"
  proof -
    have "w > 0 \<longleftrightarrow> \<not> (\<forall>k<32. bit w k = bit (0 :: u32) k)"
      using word32_eq_iff [of w 0] word_gt_0 [of w] by metis
    with w show ?thesis by simp
  qed
  also have "\<dots> \<longleftrightarrow> (\<exists>k<16. filter_has flt k \<and> (Inr True, k) \<in> ?T)"
  proof
    assume "\<exists>k<32. (Inr True, k) \<in> ?T"
    then obtain k where k: "(Inr True, k) \<in> ?T" by blast
    show "\<exists>k<16. filter_has flt k \<and> (Inr True, k) \<in> ?T"
      using k en [OF k] test_offset [OF k] by blast
  next
    assume "\<exists>k<16. filter_has flt k \<and> (Inr True, k) \<in> ?T"
    then obtain k :: nat where k: "k < 16" "(Inr True, k) \<in> ?T" by blast
    then have "k < 32" by simp
    with k(2) show "\<exists>k<32. (Inr True, k) \<in> ?T" by blast
  qed
  finally show "f_mode flt = FILTER_OR \<Longrightarrow> filter_core flt pkt head =
      Inr (\<exists>off<16. filter_has flt off \<and> (Inr True, off) \<in> ?T)"
    by (simp add: core FILTER_AND_def FILTER_OR_def)
qed

section \<open>Frames on which no test faults\<close>

text \<open>
  82 readable bytes cover the ethernet header, a VLAN tag, the longest IPv4 header and the ports.
\<close>

definition readable_frame :: "mem \<Rightarrow> bool" where
  "readable_frame m \<longleftrightarrow>
     82 \<le> length m \<and> \<not> (ethertype_at m 0 = ETHERTYPE_VLAN \<and> ethertype_at m 1 = ETHERTYPE_VLAN)"

lemma ipv4_retry_readable:
  assumes "readable_frame m"
  shows "\<exists>r. ipv4_retry m (ethertype_at m 0) 14 = Inr r \<and> r \<in> {None, Some 14, Some 18}"
proof -
  have "rd16 m 16 = Inr (ntohs (ethertype_at m 1))"
    using rd16_ethertype [of 0 m] assms by (simp add: readable_frame_def)
  then show ?thesis
    using assms by (auto simp: ipv4_retry.simps [of m "ethertype_at m 0"]
        ipv4_retry.simps [of m "ethertype_at m (Suc 0)"] readable_frame_def)
qed

lemma ip_hl_in: "ip < length m \<Longrightarrow> \<exists>hl. ip_hl m ip = Inr hl \<and> hl < 16"
proof -
  assume "ip < length m"
  moreover have "unat (b AND 0x0F) < 16" for b :: u8
  proof -
    have "b AND 0x0F = take_bit 4 b" by (simp add: take_bit_eq_mask mask_eq_exp_minus_1)
    moreover have "unat (take_bit 4 b) = take_bit 4 (unat b)" by (simp add: unsigned_take_bit_eq)
    ultimately show ?thesis by (simp add: take_bit_nat_less_exp [of 4, simplified])
  qed
  ultimately show ?thesis by (simp add: ip_hl_def rd8_in)
qed

lemma find_ipv4_readable:
  assumes "readable_frame m"
  shows "\<exists>r. find_ipv4_header m = Inr r \<and> (\<forall>off pl. r = Some (off, pl) \<longrightarrow> off \<le> 18)"
proof -
  have h: "h_proto m = Inr (ethertype_at m 0)"
    using assms by (intro h_proto_in) (simp add: readable_frame_def)
  obtain r where r: "ipv4_retry m (ethertype_at m 0) 14 = Inr r" "r \<in> {None, Some 14, Some 18}"
    using ipv4_retry_readable [OF assms] by blast
  obtain hl14 hl18 where "ip_hl m 14 = Inr hl14" "ip_hl m 18 = Inr hl18"
    using ip_hl_in [of 14 m] ip_hl_in [of 18 m] assms by (auto simp: readable_frame_def)
  with h r show ?thesis
    by (auto simp: find_ipv4_header_def find_ipv4_header_int_def sizeof_ethhdr_def)
qed

lemma find_transport_readable:
  assumes "readable_frame m" "\<forall>off. ip = Some off \<longrightarrow> off \<le> 18"
  shows "\<exists>h q. find_transport_header p m ip (Some pq) = Inr (h, Some q)"
proof (cases ip)
  case None
  then show ?thesis by (cases pq) (simp add: find_transport_header_def)
next
  case (Some off)
  have l: "82 \<le> length m" "off \<le> 18" using assms Some by (simp_all add: readable_frame_def)
  have p: "ip_p m off = Inr (m ! (off + 9))" using l by (simp add: ip_p_def rd8_in)
  have h: "h_proto m = Inr (ethertype_at m 0)" using l by (intro h_proto_in) simp
  obtain hl where hl: "ip_hl m off = Inr hl" "hl < 16" using ip_hl_in [of off m] l by auto
  define tp where "tp = 14 + (if ethertype_at m 0 = 0x8100 then 4 else 0) + 4 * hl"
  have tp: "find_ipproto_header m off = Inr tp" "tp + 3 < length m"
    using h hl l by (simp_all add: find_ipproto_header_def tp_def sizeof_ethhdr_def)
  show ?thesis
  proof (cases "m ! (off + 9) = p")
    case True
    then show ?thesis using p tp Some by (simp add: find_transport_header_def rd16_in)
  next
    case False
    then show ?thesis using p Some by (cases pq) (simp add: find_transport_header_def)
  qed
qed

lemma filter_view_readable:
  assumes "readable_frame m"
  shows "\<exists>v. filter_view m = Inr v \<and> v_vlan v \<in> {None, Some 0} \<and> (\<forall>off. v_ip v = Some off \<longrightarrow> off \<le> 18)"
proof -
  have h: "h_proto m = Inr (ethertype_at m 0)"
    using assms by (intro h_proto_in) (simp add: readable_frame_def)
  obtain vlan proto where vl: "find_ether_vlan_header m (ethertype_at m 0) = Inr (vlan, proto)"
    "vlan \<in> {None, Some 0}"
    using assms that
    by (cases "ethertype_at m 0 = 0x8100") (simp_all add: find_ether_vlan_header_def readable_frame_def rd16_in)
  obtain r where r: "find_ipv4_header m = Inr r" "\<forall>off pl. r = Some (off, pl) \<longrightarrow> off \<le> 18"
    using find_ipv4_readable [OF assms] by blast
  define ip where "ip = (case r of None \<Rightarrow> None | Some (off, _) \<Rightarrow> Some off)"
  have ip: "\<forall>off. ip = Some off \<longrightarrow> off \<le> 18" using r(2) by (auto simp: ip_def split: option.splits)
  obtain h1 q1 where t: "find_tcp_header m ip (Some (0, 0)) = Inr (h1, Some q1)"
    using find_transport_readable [OF assms ip, of IPPROTO_TCP "(0, 0)"] unfolding find_tcp_header_def by blast
  obtain h2 q2 where u: "find_udp_header m ip (Some q1) = Inr (h2, Some q2)"
    using find_transport_readable [OF assms ip, of IPPROTO_UDP q1] unfolding find_udp_header_def by blast
  show ?thesis
    using h vl r(1) t u ip by (auto simp: filter_view_def ip_def [symmetric] Let_def split: prod.split)
qed

lemma matchEth_readable:
  "(\<And>i. i \<in> set js \<Longrightarrow> net + i < length m) \<Longrightarrow> \<exists>b. matchEth d k m net js = Inr b"
  by (induction js) (auto simp: rd8_in)

lemma tests_readable:
  assumes "readable_frame m" "v_vlan v \<in> {None, Some 0}" "\<forall>off. v_ip v = Some off \<longrightarrow> off \<le> 18"
    and "NUL \<in> set (ch_nic head)" "NUL \<in> set (f_iface flt)"
  shows "no_fault (filter_tests flt m head v)"
proof -
  have l: "82 \<le> length m" using assms(1) by (simp add: readable_frame_def)
  have eth: "\<exists>b. matchEth d k m net [0..<6] = Inr b" if "net \<le> 6" for d k net
    using l that by (intro matchEth_readable) auto
  have "\<exists>b. filter_iface flt (ch_nic head) = Inr b"
    using assms(4,5) by (auto simp: filter_iface_def rand_def cstr_def)
  moreover have "\<exists>b. filter_vlan_tci flt m (v_vlan v) = Inr b"
    using assms(2) l by (auto simp: filter_vlan_tci_def rand_def rd16_in)
  moreover have "\<exists>b. filter_eth_src flt m = Inr b" "\<exists>b. filter_eth_dst flt m = Inr b"
    using eth [of 6] eth [of 0] by (auto simp: filter_eth_src_def filter_eth_dst_def rand_def)
  moreover have "\<exists>b. filter_ip_proto flt m (v_ip v) = Inr b" "\<exists>b. filter_ip_src flt m (v_ip v) = Inr b"
    "\<exists>b. filter_ip_dst flt m (v_ip v) = Inr b"
    using assms(3) l
    by (auto simp: filter_ip_proto_def filter_ip_src_def filter_ip_dst_def rand_def ip_p_def
        ip_src_of_def ip_dst_of_def rd8_in rd32_in split: option.split)
  ultimately show ?thesis by (simp add: no_fault_def filter_tests_def)
qed

section \<open>Filters with a single criterion\<close>

definition filter_zero :: "'b cap_filter" where
  "filter_zero = \<lparr>f_filter_id = 0, f_version = 0, f_mode = FILTER_UNKNOWN, f_index = 0,
     f_starttime = timepico_new 0 0, f_endtime = timepico_new 0 0,
     f_mampid = replicate 8 NUL, f_iface = replicate 8 NUL,
     f_vlan_tci = 0, f_vlan_tci_mask = 0, f_eth_type = 0, f_eth_type_mask = 0,
     f_eth_src = replicate 6 0, f_eth_src_mask = replicate 6 0,
     f_eth_dst = replicate 6 0, f_eth_dst_mask = replicate 6 0,
     f_ip_proto = 0, f_ip_src = 0, f_ip_src_mask = 0, f_ip_dst = 0, f_ip_dst_mask = 0,
     f_src_port = 0, f_src_port_mask = 0, f_dst_port = 0, f_dst_port_mask = 0,
     f_port = 0, f_port_mask = 0, f_frame_max_dt = timepico_new 0 0, f_frame_num = [],
     f_bpf_insn = None, f_bpf_expr = None, f_first = False, f_frame_counter = 0,
     f_frame_last_ts = timepico_new 0 0, f_consumer = 0, f_caplen = 0, f_dest = sa_zero\<rparr>"

lemma filter_has_only:
  "f_index flt = filter_bit off \<Longrightarrow> off < 32 \<Longrightarrow> k < 32 \<Longrightarrow> filter_has flt k \<longleftrightarrow> k = off"
  by (simp add: filter_has_bit bit_filter_bit)

lemmas test_defs = filter_tests_def filter_dst_port_def filter_src_port_def filter_ip_dst_def
  filter_ip_src_def filter_ip_proto_def filter_eth_dst_def filter_eth_src_def filter_h_proto_def
  filter_vlan_tci_def filter_iface_def filter_mampid_def filter_end_time_def filter_start_time_def
  filter_port_def

lemma filter_core_only_num:
  assumes "f_index flt = filter_bit 15" "f_mode flt = FILTER_AND" "filter_view pkt = Inr v"
  shows "filter_core flt pkt head = Inr (filter_frame_num flt)"
proof -
  have "filter_bit 15 \<noteq> 0" using bit_filter_bit [of 15 15] by auto
  then show ?thesis
    using assms filter_has_only [OF assms(1)]
    by (auto simp: filter_core_def test_defs filter_frame_dt_def)
qed

lemma filter_core_only_dt:
  assumes "f_index flt = filter_bit 14" "f_mode flt = FILTER_AND" "filter_view pkt = Inr v"
    and "f_frame_num flt = []"
  shows "filter_core flt pkt head = Inr (filter_frame_dt flt (ch_ts head))"
proof -
  have "filter_bit 14 \<noteq> 0" using bit_filter_bit [of 14 14] by auto
  moreover have "\<not> filter_frame_num flt" using assms(4) by (simp add: filter_frame_num_def)
  ultimately show ?thesis
    using assms(1-3) filter_has_only [OF assms(1)] by (auto simp: filter_core_def test_defs)
qed

section \<open>Frame ranges over a stream\<close>

definition in_range :: "int \<Rightarrow> int \<times> int \<Rightarrow> bool" where
  "in_range n r \<longleftrightarrow> fst r \<le> n \<and> (snd r > 0 \<longrightarrow> n \<le> snd r)"

text \<open>Ranges in increasing order with at least one frame between two of them.\<close>

fun separated :: "(int \<times> int) list \<Rightarrow> bool" where
  "separated [] = True"
| "separated [(l, u)] = (u > 0 \<longrightarrow> l \<le> u)"
| "separated ((l, u) # (l', u') # rs) = (0 < u \<and> l \<le> u \<and> u + 1 < l' \<and> separated ((l', u') # rs))"

lemma separated_tl: "separated (r # rs) \<Longrightarrow> separated rs"
  by (cases rs; cases r) auto

lemma separated_later:
  "separated ((l, u) # rs) \<Longrightarrow> r \<in> set rs \<Longrightarrow> 0 < u \<and> u + 1 < fst r"
proof (induction rs arbitrary: l u)
  case (Cons r' rs)
  obtain l' u' where r': "r' = (l', u')" by (cases r')
  show ?case
  proof (cases "r = r'")
    case True
    with Cons.prems r' show ?thesis by simp
  next
    case False
    with Cons.prems r' have "r \<in> set rs" "separated ((l', u') # rs)" "u + 1 < l'" "0 < u" by auto
    moreover from this Cons.IH have "0 < u'" "u' + 1 < fst r" by blast+
    moreover have "l' \<le> u'" using \<open>separated ((l', u') # rs)\<close> \<open>r \<in> set rs\<close> by (cases rs) auto
    ultimately show ?thesis by simp
  qed
qed simp

lemma frame_num_first:
  assumes "separated (f_frame_num flt)"
    and "\<And>l u rs. f_frame_num flt = (l, u) # rs \<Longrightarrow> 0 < u \<Longrightarrow> f_frame_counter flt \<le> u + 1"
  shows "filter_frame_num flt \<longleftrightarrow> (\<exists>r\<in>set (f_frame_num flt). in_range (f_frame_counter flt) r)"
proof (cases "f_frame_num flt")
  case Nil
  then show ?thesis by (simp add: filter_frame_num_def)
next
  case (Cons r rs)
  obtain l u where r: "r = (l, u)" by (cases r)
  have "\<not> in_range (f_frame_counter flt) r'" if "r' \<in> set rs" for r'
    using separated_later [of l u rs r'] assms Cons r that by (auto simp: in_range_def)
  then show ?thesis by (auto simp: filter_frame_num_def Cons r in_range_def)
qed

lemma c_int_Suc: "1 \<le> n \<Longrightarrow> n + 1 < 2 ^ 31 \<Longrightarrow> c_int (n + 1) = n + 1"
  by (rule c_int_id) simp_all

text \<open>The ranges that remain after frame \<open>n\<close>.\<close>

definition pruned :: "int \<Rightarrow> (int \<times> int) list \<Rightarrow> (int \<times> int) list" where
  "pruned n rs = (case rs of [] \<Rightarrow> [] | (l, u) # q \<Rightarrow> if u > 0 \<and> n > u then q else rs)"

definition not_passed :: "int \<Rightarrow> (int \<times> int) list \<Rightarrow> bool" where
  "not_passed n rs = (case rs of [] \<Rightarrow> True | (l, u) # q \<Rightarrow> u > 0 \<longrightarrow> n \<le> u + 1)"

lemma prune_ranges_pruned:
  "prune_ranges flt = flt\<lparr>f_frame_num := pruned (f_frame_counter flt) (f_frame_num flt)\<rparr>"
  by (auto simp: prune_ranges_def pruned_def split: list.split)

lemma pruned_facts:
  assumes "separated rs" "not_passed n rs"
  shows "separated (pruned n rs)" "not_passed (n + 1) (pruned n rs)"
    "n < m \<Longrightarrow> (\<exists>r\<in>set (pruned n rs). in_range m r) \<longleftrightarrow> (\<exists>r\<in>set rs. in_range m r)"
proof -
  consider "rs = []" | l u q where "rs = (l, u) # q" "u > 0" "n > u"
    | l u q where "rs = (l, u) # q" "\<not> (u > 0 \<and> n > u)"
    by (cases rs) auto
  then have "separated (pruned n rs) \<and> not_passed (n + 1) (pruned n rs) \<and>
    (n < m \<longrightarrow> (\<exists>r\<in>set (pruned n rs). in_range m r) = (\<exists>r\<in>set rs. in_range m r))"
  proof cases
    case 1
    then show ?thesis by (simp add: pruned_def not_passed_def)
  next
    case 2
    then have p: "pruned n rs = q" "n = u + 1" using assms(2) by (simp_all add: pruned_def not_passed_def)
    have "not_passed (n + 1) q"
    proof (cases q)
      case Nil
      then show ?thesis by (simp add: not_passed_def)
    next
      case (Cons r q')
      obtain l' u' where r: "r = (l', u')" by (cases r)
      have "u + 1 < l'" "u' > 0 \<longrightarrow> l' \<le> u'"
        using assms(1) 2(1) Cons r by (cases q'; auto)+
      then show ?thesis using p(2) by (auto simp: not_passed_def Cons r)
    qed
    with p 2 assms(1) separated_tl [of "(l, u)" q] show ?thesis by (auto simp: in_range_def)
  next
    case 3
    then show ?thesis using assms by (auto simp: pruned_def not_passed_def)
  qed
  then show "separated (pruned n rs)" "not_passed (n + 1) (pruned n rs)"
    "n < m \<Longrightarrow> (\<exists>r\<in>set (pruned n rs). in_range m r) \<longleftrightarrow> (\<exists>r\<in>set rs. in_range m r)" by blast+
qed

lemma filter_match_num:
  assumes "f_index flt = filter_bit 15" "f_mode flt = FILTER_AND" "f_bpf_insn flt = None"
    and "filter_view pkt = Inr v" "1 \<le> f_frame_counter flt" "f_frame_counter flt + 1 < 2 ^ 31"
  shows "\<exists>flt'. filter_match bpf flt pkt head = Inr (filter_frame_num flt, flt') \<and>
    f_index flt' = filter_bit 15 \<and> f_mode flt' = FILTER_AND \<and> f_bpf_insn flt' = None \<and>
    f_frame_counter flt' = f_frame_counter flt + 1 \<and>
    f_frame_num flt' = pruned (f_frame_counter flt) (f_frame_num flt)"
proof -
  let ?flt = "if f_first flt then flt\<lparr>f_frame_last_ts := ch_ts head, f_first := False\<rparr> else flt"
  have "filter_core ?flt pkt head = Inr (filter_frame_num ?flt)"
    using assms by (intro filter_core_only_num [of _ _ v]) simp_all
  moreover have "filter_frame_num ?flt = filter_frame_num flt"
    by (simp add: filter_frame_num_def split: list.split)
  moreover have "filter_bit 15 \<noteq> 0" using bit_filter_bit [of 15 15] by auto
  ultimately show ?thesis
    using assms c_int_Suc [OF assms(5,6)] by (auto simp: filter_match_def Let_def prune_ranges_pruned)
qed

lemma filter_run_ranges:
  assumes "f_index flt = filter_bit 15" "f_mode flt = FILTER_AND" "f_bpf_insn flt = None"
    and "\<forall>head\<in>set heads. \<exists>v. filter_view (ch_payload head) = Inr v"
    and "1 \<le> f_frame_counter flt" "f_frame_counter flt + int (length heads) < 2 ^ 31"
    and "separated (f_frame_num flt)" "not_passed (f_frame_counter flt) (f_frame_num flt)"
  shows "\<exists>flt'. filter_run bpf flt heads =
    Inr (map (\<lambda>i. \<exists>r\<in>set (f_frame_num flt). in_range (f_frame_counter flt + int i) r) [0..<length heads], flt')"
  using assms
proof (induction heads arbitrary: flt)
  case Nil
  then show ?case by simp
next
  case (Cons head heads)
  let ?n = "f_frame_counter flt" and ?rs = "f_frame_num flt"
  obtain v where v: "filter_view (ch_payload head) = Inr v" using Cons.prems(4) by auto
  obtain flt1 where m: "filter_match bpf flt (ch_payload head) head = Inr (filter_frame_num flt, flt1)"
    and f1: "f_index flt1 = filter_bit 15" "f_mode flt1 = FILTER_AND" "f_bpf_insn flt1 = None"
      "f_frame_counter flt1 = ?n + 1" "f_frame_num flt1 = pruned ?n ?rs"
    using filter_match_num [OF Cons.prems(1-3) v Cons.prems(5), of bpf head] Cons.prems(6) by auto
  note pf = pruned_facts [OF Cons.prems(7,8)]
  obtain flt' where run: "filter_run bpf flt1 heads =
    Inr (map (\<lambda>i. \<exists>r\<in>set (pruned ?n ?rs). in_range (?n + 1 + int i) r) [0..<length heads], flt')"
    using Cons.IH [of flt1] Cons.prems f1 pf(1,2) by auto
  have eq: "(\<exists>r\<in>set (pruned ?n ?rs). in_range (?n + 1 + int i) r) = (\<exists>r\<in>set ?rs. in_range (?n + int (Suc i)) r)" for i
    using pf(3) [of "?n + 1 + int i"] by (simp add: algebra_simps)
  have "filter_frame_num flt \<longleftrightarrow> (\<exists>r\<in>set ?rs. in_range (?n + int 0) r)"
  proof -
    have "?n \<le> u + 1" if "?rs = (l, u) # rs" "0 < u" for l u rs
      using Cons.prems(8) that by (simp add: not_passed_def)
    from frame_num_first [OF Cons.prems(7) this] show ?thesis by simp
  qed
  moreover have "[0..<length (head # heads)] = 0 # map Suc [0..<length heads]"
    by (simp only: list.size upt_conv_Cons map_Suc_upt) simp
  ultimately show ?case
    using m run unfolding eq by (simp add: comp_def del: upt_Suc)
qed

text \<open>While the first range has not ended it stays; the frame behind its end is rejected.\<close>

lemma filter_run_gap:
  assumes "f_index flt = filter_bit 15" "f_mode flt = FILTER_AND" "f_bpf_insn flt = None"
    and "\<forall>head\<in>set heads. \<exists>v. filter_view (ch_payload head) = Inr v"
    and "1 \<le> f_frame_counter flt" "f_frame_counter flt + int (length heads) < 2 ^ 31"
    and "f_frame_num flt = (l, u) # rs" "0 < u" "f_frame_counter flt + int k = u + 1" "k < length heads"
  shows "\<exists>ms flt'. filter_run bpf flt heads = Inr (ms, flt') \<and> length ms = length heads \<and> \<not> ms ! k"
proof -
  have len: "\<exists>ms flt'. filter_run bpf flt hs = Inr (ms, flt') \<and> length ms = length hs"
    if "f_index flt = filter_bit 15" "f_mode flt = FILTER_AND" "f_bpf_insn flt = None"
      "\<forall>head\<in>set hs. \<exists>v. filter_view (ch_payload head) = Inr v" "1 \<le> f_frame_counter flt"
      "f_frame_counter flt + int (length hs) < 2 ^ 31" for flt hs
    using that
  proof (induction hs arbitrary: flt)
    case (Cons head hs)
    obtain v where v: "filter_view (ch_payload head) = Inr v" using Cons.prems(4) by auto
    obtain flt1 where "filter_match bpf flt (ch_payload head) head = Inr (filter_frame_num flt, flt1)"
      "f_index flt1 = filter_bit 15" "f_mode flt1 = FILTER_AND" "f_bpf_insn flt1 = None"
      "f_frame_counter flt1 = f_frame_counter flt + 1"
      using filter_match_num [OF Cons.prems(1-3) v Cons.prems(5), of bpf head] Cons.prems(6) by auto
    with Cons.IH [of flt1] Cons.prems show ?case by auto
  qed simp
  show ?thesis
    using assms
  proof (induction heads arbitrary: flt k)
    case (Cons head heads)
    obtain v where v: "filter_view (ch_payload head) = Inr v" using Cons.prems(4) by auto
    obtain flt1 where m: "filter_match bpf flt (ch_payload head) head = Inr (filter_frame_num flt, flt1)"
      and f1: "f_index flt1 = filter_bit 15" "f_mode flt1 = FILTER_AND" "f_bpf_insn flt1 = None"
        "f_frame_counter flt1 = f_frame_counter flt + 1"
        "f_frame_num flt1 = pruned (f_frame_counter flt) (f_frame_num flt)"
      using filter_match_num [OF Cons.prems(1-3) v Cons.prems(5), of bpf head] Cons.prems(6) by auto
    show ?case
    proof (cases k)
      case 0
      with Cons.prems have "\<not> filter_frame_num flt" by (simp add: filter_frame_num_def)
      moreover obtain ms flt' where "filter_run bpf flt1 heads = Inr (ms, flt')" "length ms = length heads"
        using len [of flt1 heads] f1 Cons.prems by auto
      ultimately show ?thesis using m 0 by simp
    next
      case (Suc j)
      with Cons.prems f1(5) have "f_frame_num flt1 = (l, u) # rs" by (simp add: pruned_def)
      with Cons.IH [of flt1 j] f1 Cons.prems Suc obtain ms flt' where
        "filter_run bpf flt1 heads = Inr (ms, flt')" "length ms = length heads" "\<not> ms ! j" by auto
      with m Suc show ?thesis by simp
    qed
  qed simp
qed

section \<open>Inter-arrival times over a stream\<close>

lemma filter_match_dt:
  assumes "f_index flt = filter_bit 14" "f_mode flt = FILTER_AND" "f_bpf_insn flt = None"
    and "f_frame_num flt = []" "\<not> f_first flt" "filter_view pkt = Inr v"
  shows "\<exists>flt'. filter_match bpf flt pkt head = Inr (filter_frame_dt flt (ch_ts head), flt') \<and>
    f_index flt' = filter_bit 14 \<and> f_mode flt' = FILTER_AND \<and> f_bpf_insn flt' = None \<and>
    f_frame_num flt' = [] \<and> \<not> f_first flt' \<and> f_frame_max_dt flt' = f_frame_max_dt flt \<and>
    f_frame_last_ts flt' = (if filter_frame_dt flt (ch_ts head) then ch_ts head else f_frame_last_ts flt)"
proof -
  have "filter_core flt pkt head = Inr (filter_frame_dt flt (ch_ts head))"
    using assms by (intro filter_core_only_dt [of _ _ v]) simp_all
  moreover have "filter_bit 14 \<noteq> 0" using bit_filter_bit [of 14 14] by auto
  ultimately show ?thesis
    using assms by (auto simp: filter_match_def Let_def prune_ranges_def)
qed

lemma frame_dt_total:
  assumes "f_index flt = filter_bit 14" "norm_tp t" "norm_tp (f_frame_last_ts flt)"
    "norm_tp (f_frame_max_dt flt)" "f_frame_last_ts flt \<le> t"
  shows "filter_frame_dt flt t \<longleftrightarrow>
    total_psec t \<le> total_psec (f_frame_last_ts flt) + total_psec (f_frame_max_dt flt)"
proof -
  have "filter_has flt 14" using filter_has_only [OF assms(1)] by simp
  moreover have "\<not> timecmp t (f_frame_last_ts flt) < 0" using assms(5) by (simp add: timecmp_less)
  moreover note sub = timepico_sub_total [OF assms(2,3,5)]
  have "total_psec (f_frame_last_ts flt) \<le> total_psec t"
    using total_psec_less_iff [OF assms(2,3)] assms(5) by (simp add: linorder_not_less [symmetric])
  moreover have "timecmp (timepico_sub t (f_frame_last_ts flt)) (f_frame_max_dt flt) \<le> 0 \<longleftrightarrow>
      total_psec (timepico_sub t (f_frame_last_ts flt)) \<le> total_psec (f_frame_max_dt flt)"
    unfolding timecmp_le using total_psec_less_iff [OF assms(4) sub(1)]
    by (simp add: linorder_not_less [symmetric])
  ultimately show ?thesis using sub(2) by (auto simp: filter_frame_dt_def)
qed

text \<open>After a rejection in a sorted stream everything is rejected.\<close>

lemma filter_run_dt:
  assumes "f_index flt = filter_bit 14" "f_mode flt = FILTER_AND" "f_bpf_insn flt = None"
    and "f_frame_num flt = []" "\<not> f_first flt"
    and "\<forall>head\<in>set heads. \<exists>v. filter_view (ch_payload head) = Inr v"
    and "\<forall>head\<in>set heads. norm_tp (ch_ts head)" "norm_tp (f_frame_last_ts flt)" "norm_tp (f_frame_max_dt flt)"
    and "sorted_wrt (\<lambda>a b. ch_ts a \<le> ch_ts b) heads" "\<forall>head\<in>set heads. f_frame_last_ts flt \<le> ch_ts head"
  shows "\<exists>ms flt'. filter_run bpf flt heads = Inr (ms, flt') \<and> sorted_wrt (\<lambda>a b. b \<longrightarrow> a) ms \<and>
    (\<forall>t. norm_tp t \<longrightarrow> (\<forall>head\<in>set heads. t \<le> ch_ts head) \<longrightarrow> f_frame_last_ts flt \<le> t \<longrightarrow>
       \<not> filter_frame_dt flt t \<longrightarrow> True \<notin> set ms)"
  using assms
proof (induction heads arbitrary: flt)
  case Nil
  then show ?case by simp
next
  case (Cons head heads)
  obtain v where v: "filter_view (ch_payload head) = Inr v" using Cons.prems(6) by auto
  let ?ok = "filter_frame_dt flt (ch_ts head)"
  obtain flt1 where m: "filter_match bpf flt (ch_payload head) head = Inr (?ok, flt1)"
    and f1: "f_index flt1 = filter_bit 14" "f_mode flt1 = FILTER_AND" "f_bpf_insn flt1 = None"
      "f_frame_num flt1 = []" "\<not> f_first flt1" "f_frame_max_dt flt1 = f_frame_max_dt flt"
      "f_frame_last_ts flt1 = (if ?ok then ch_ts head else f_frame_last_ts flt)"
    using filter_match_dt [OF Cons.prems(1-5) v, of bpf head] by auto
  obtain ms flt' where run: "filter_run bpf flt1 heads = Inr (ms, flt')" and so: "sorted_wrt (\<lambda>a b. b \<longrightarrow> a) ms"
    and rej: "\<And>t. norm_tp t \<Longrightarrow> \<forall>head\<in>set heads. t \<le> ch_ts head \<Longrightarrow> f_frame_last_ts flt1 \<le> t \<Longrightarrow>
       \<not> filter_frame_dt flt1 t \<Longrightarrow> True \<notin> set ms"
    using Cons.IH [of flt1] Cons.prems f1 by (auto split: if_splits)
  have mono: "\<not> filter_frame_dt flt t \<Longrightarrow> t \<le> t' \<Longrightarrow> norm_tp t \<Longrightarrow> norm_tp t' \<Longrightarrow> f_frame_last_ts flt \<le> t \<Longrightarrow>
      \<not> filter_frame_dt flt t'" for t t'
    using frame_dt_total [OF Cons.prems(1) _ Cons.prems(8,9), of t]
      frame_dt_total [OF Cons.prems(1) _ Cons.prems(8,9), of t'] total_psec_less_iff [of t' t]
    by (auto simp: linorder_not_less)
  have dt1: "filter_frame_dt flt1 t = filter_frame_dt flt t" if "\<not> ?ok" for t
    using that f1 Cons.prems(1) by (simp add: filter_frame_dt_def filter_has_def)
  have none: "True \<notin> set ms" if "\<not> ?ok"
    using rej [of "ch_ts head"] that dt1 [OF that] f1(7) Cons.prems(7,10,11) by auto
  have "sorted_wrt (\<lambda>a b. b \<longrightarrow> a) (?ok # ms)" using so none by (cases ?ok) auto
  moreover have "True \<notin> set (?ok # ms)" if "norm_tp t" "\<forall>h\<in>set (head # heads). t \<le> ch_ts h"
    "f_frame_last_ts flt \<le> t" "\<not> filter_frame_dt flt t" for t
    using mono [OF that(4) _ that(1) _ that(3), of "ch_ts head"] that(2) none Cons.prems(7) by auto
  ultimately show ?case using m run by auto
qed

section \<open>Properties\<close>

definition zero_packet :: "timepico \<Rightarrow> cap_header" where
  "zero_packet t = \<lparr>ch_nic = replicate 8 NUL, ch_mampid = replicate 8 NUL, ch_ts = t, ch_len = 82,
     ch_caplen = 82, ch_payload = replicate 82 0\<rparr>"

lemma zero_packet_readable: "readable_frame (replicate 82 0)"
  by (simp add: readable_frame_def ethertype_at_def ntohs_def le16_def packet_consts)

lemma zero_packet_view: "\<exists>v. filter_view (ch_payload (zero_packet t)) = Inr v"
  using filter_view_readable [OF zero_packet_readable] by (auto simp: zero_packet_def)

text \<open>
  Claim C3. On a frame with at least 82 readable bytes and at most one VLAN tag \<open>filter_core\<close> runs
  without a fault. In AND mode it accepts exactly when every criterion enabled in the index is
  satisfied, in OR mode exactly when at least one is.
\<close>

theorem filter_core_criteria:
  assumes "readable_frame pkt" "NUL \<in> set (ch_nic head)" "NUL \<in> set (f_iface flt)"
    and "unat (f_index flt) < 2 ^ 16" "f_frame_num flt \<noteq> [] \<longrightarrow> filter_has flt OFFSET_FRAME_NUM"
  shows "\<exists>v. filter_view pkt = Inr v \<and>
    (f_mode flt = FILTER_AND \<longrightarrow> filter_core flt pkt head =
       Inr (\<forall>off<16. filter_has flt off \<longrightarrow> (Inr True, off) \<in> set (filter_tests flt pkt head v))) \<and>
    (f_mode flt = FILTER_OR \<longrightarrow> filter_core flt pkt head =
       Inr (\<exists>off<16. filter_has flt off \<and> (Inr True, off) \<in> set (filter_tests flt pkt head v)))"
proof -
  obtain v where v: "filter_view pkt = Inr v" "v_vlan v \<in> {None, Some 0}"
    "\<forall>off. v_ip v = Some off \<longrightarrow> off \<le> 18"
    using filter_view_readable [OF assms(1)] by blast
  have "no_fault (filter_tests flt pkt head v)"
    using tests_readable [OF assms(1) v(2,3) assms(2,3)] .
  from filter_core_spec [OF v(1) this assms(4,5)] v(1) show ?thesis by blast
qed

theorem filter_core_criteria_witness:
  "filter_core (filter_zero\<lparr>f_mode := FILTER_AND, f_index := filter_bit OFFSET_SRC_PORT, f_src_port := 80\<rparr> :: unit cap_filter)
     (replicate 82 0) (zero_packet (timepico_new 0 0)) = Inr False"
proof -
  let ?f = "filter_zero\<lparr>f_mode := FILTER_AND, f_index := filter_bit OFFSET_SRC_PORT, f_src_port := 80\<rparr> :: unit cap_filter"
  let ?h = "zero_packet (timepico_new 0 0)"
  have i: "f_index ?f = filter_bit 1" by simp
  have "unat (filter_bit 1) < 2 ^ 16" by (simp add: filter_bit_def)
  then obtain v where v: "filter_core ?f (replicate 82 0) ?h =
      Inr (\<forall>off<16. filter_has ?f off \<longrightarrow> (Inr True, off) \<in> set (filter_tests ?f (replicate 82 0) ?h v))"
    using filter_core_criteria [OF zero_packet_readable, of ?h ?f]
    by (auto simp: zero_packet_def filter_zero_def)
  have "(Inr True, 1) \<notin> set (filter_tests ?f (replicate 82 0) ?h v)"
    by (simp add: filter_tests_def filter_src_port_def filter_zero_def)
  moreover have "filter_has ?f 1" using filter_has_only [OF i, of 1] by simp
  moreover have "(1::nat) < 16" by simp
  ultimately show ?thesis unfolding v sum.inject by blast
qed

text \<open>
  Claim C25. With frame ranges as the only criterion, and ranges in increasing order with a gap of at
  least one frame between two of them, the filter accepts exactly the frames whose number, counted
  from 1, lies in one of the ranges, although only the first range is tested and ranges are dropped
  on the way.
\<close>

theorem filter_frame_ranges:
  assumes "f_index flt = filter_bit OFFSET_FRAME_NUM" "f_mode flt = FILTER_AND" "f_bpf_insn flt = None"
    and "f_frame_counter flt = 1" "separated (f_frame_num flt)" "not_passed 1 (f_frame_num flt)"
    and "\<forall>head\<in>set heads. \<exists>v. filter_view (ch_payload head) = Inr v" "int (length heads) < 2 ^ 31 - 1"
  shows "\<exists>flt'. filter_run bpf flt heads =
    Inr (map (\<lambda>i. \<exists>r\<in>set (f_frame_num flt). in_range (1 + int i) r) [0..<length heads], flt')"
  using filter_run_ranges [OF assms(1,2,3,7), of bpf] assms(4,5,6,8) by simp

theorem filter_frame_ranges_witness:
  "\<exists>flt'. filter_run (\<lambda>_ _ _ _. 0)
     (filter_zero\<lparr>f_mode := FILTER_AND, f_index := filter_bit OFFSET_FRAME_NUM, f_frame_counter := 1,
        f_frame_num := [(1, 1), (3, -1)]\<rparr> :: unit cap_filter)
     [zero_packet (timepico_new 0 0), zero_packet (timepico_new 0 0), zero_packet (timepico_new 0 0)]
   = Inr ([True, False, True], flt')"
proof -
  let ?f = "filter_zero\<lparr>f_mode := FILTER_AND, f_index := filter_bit OFFSET_FRAME_NUM, f_frame_counter := 1,
        f_frame_num := [(1, 1), (3, -1)]\<rparr> :: unit cap_filter"
  let ?h = "zero_packet (timepico_new 0 0)"
  have "\<exists>flt'. filter_run (\<lambda>_ _ _ _. 0) ?f [?h, ?h, ?h] =
    Inr (map (\<lambda>i. \<exists>r\<in>set (f_frame_num ?f). in_range (1 + int i) r) [0..<length [?h, ?h, ?h]], flt')"
    by (rule filter_frame_ranges)
      (use zero_packet_view in \<open>auto simp: filter_zero_def not_passed_def\<close>)
  then show ?thesis by (simp add: in_range_def upt_rec)
qed

text \<open>
  The frame that follows a bounded range is always rejected, even when the next range
  begins with it: a range is dropped only after a frame beyond its end has been tested against it.
  So the ranges \<open>1,2\<close> or \<open>1-3,4-5\<close> do not match frame 2 and frame 4.
\<close>

lemma filter_adjacent_ranges:
  assumes "f_index flt = filter_bit OFFSET_FRAME_NUM" "f_mode flt = FILTER_AND" "f_bpf_insn flt = None"
    and "f_frame_counter flt = 1" "f_frame_num flt = (l, int u) # rs" "0 < u" "u < length heads"
    and "\<forall>head\<in>set heads. \<exists>v. filter_view (ch_payload head) = Inr v" "int (length heads) < 2 ^ 31 - 1"
  shows "\<exists>ms flt'. filter_run bpf flt heads = Inr (ms, flt') \<and> length ms = length heads \<and> \<not> ms ! u"
  using filter_run_gap [OF assms(1-3) assms(8), of l "int u" rs u bpf] assms(4-7,9) by simp

text \<open>
  With \<open>frame-max-dt\<close> as the only criterion, on a stream of normalised timestamps in
  increasing order, no packet is accepted after the first rejected one: the filter ends a stream at
  the first gap that is too long.
\<close>

lemma filter_max_dt_stops:
  assumes "f_index flt = filter_bit OFFSET_FRAME_MAX_DT" "f_mode flt = FILTER_AND" "f_bpf_insn flt = None"
    and "f_frame_num flt = []" "\<not> f_first flt" "norm_tp (f_frame_max_dt flt)"
    and "\<forall>head\<in>set heads. \<exists>v. filter_view (ch_payload head) = Inr v"
    and "\<forall>head\<in>set heads. norm_tp (ch_ts head)" "norm_tp (f_frame_last_ts flt)"
    and "sorted_wrt (\<lambda>a b. ch_ts a \<le> ch_ts b) heads" "\<forall>head\<in>set heads. f_frame_last_ts flt \<le> ch_ts head"
  shows "\<exists>ms flt'. filter_run bpf flt heads = Inr (ms, flt') \<and>
    (\<forall>i j. i < j \<longrightarrow> j < length ms \<longrightarrow> \<not> ms ! i \<longrightarrow> \<not> ms ! j)"
proof -
  from filter_run_dt [OF assms(1-5) assms(7,8,9,6,10,11), of bpf] obtain ms flt' where
    "filter_run bpf flt heads = Inr (ms, flt')" and so: "sorted_wrt (\<lambda>a b. b \<longrightarrow> a) ms" by blast
  moreover have "\<forall>i j. i < j \<longrightarrow> j < length ms \<longrightarrow> \<not> ms ! i \<longrightarrow> \<not> ms ! j"
    using so by (auto simp: sorted_wrt_iff_nth_less)
  ultimately show ?thesis by blast
qed

end
