(* ===== verification/Filter_Pack.thy ===== *)
theory Filter_Pack
  imports Packet_Filter
begin

text \<open>
  The wire format of filters (\<open>struct filter_packed\<close>, \<open>filter_pack\<close>, \<open>filter_unpack\<close> in
  \<open>src/filter.c\<close>), as sent between the MArCd and the measurement points.
\<close>

section \<open>The packed structure\<close>

record filter_packed =
  p_filter_id :: u32
  p_index :: u32
  p_iface :: "char list"
  p_vlan_tci :: u16
  p_eth_type :: u16
  p_eth_src :: "u8 list"
  p_eth_dst :: "u8 list"
  p_ip_proto :: u8
  p_ip_src_text :: "char list"         \<comment> \<open>\<open>_ip_src\<close>, 16 characters\<close>
  p_ip_dst_text :: "char list"
  p_src_port :: u16
  p_dst_port :: u16
  p_vlan_tci_mask :: u16
  p_eth_type_mask :: u16
  p_eth_src_mask :: "u8 list"
  p_eth_dst_mask :: "u8 list"
  p_ip_src_mask_text :: "char list"
  p_ip_dst_mask_text :: "char list"
  p_src_port_mask :: u16
  p_dst_port_mask :: u16
  p_consumer :: u32
  p_caplen :: u32
  p_dest :: stream_addr
  p_version :: u32
  p_starttime :: timepico
  p_endtime :: timepico
  p_mampid :: "char list"
  p_ip_src :: u32
  p_ip_src_mask :: u32
  p_ip_dst :: u32
  p_ip_dst_mask :: u32
  p_port :: u16
  p_port_mask :: u16
  p_mode :: u8

text \<open>
  \<open>inet_ntoa\<close> prints into a static buffer of 18 bytes: behind the terminator it keeps what earlier
  calls left there, and the 16 bytes that \<open>filter_pack\<close> copies include some of it.
\<close>

definition inet_ntoa_buf :: "char list \<Rightarrow> u32 \<Rightarrow> char list" where
  "inet_ntoa_buf old a = (let t = inet_ntoa a @ [NUL] in t @ drop (length t) old)"

section \<open>Packing and unpacking\<close>

definition filter_pack :: "char list \<Rightarrow> 'b cap_filter \<Rightarrow> filter_packed \<Rightarrow> filter_packed" where
  "filter_pack old src dst =
     (let b1 = inet_ntoa_buf old (f_ip_src src); b2 = inet_ntoa_buf b1 (f_ip_dst src);
          b3 = inet_ntoa_buf b2 (f_ip_src_mask src); b4 = inet_ntoa_buf b3 (f_ip_dst_mask src) in
      dst\<lparr>p_filter_id := htonl (f_filter_id src), p_index := htonl (f_index src),
          p_vlan_tci := htons (f_vlan_tci src), p_eth_type := htons (f_eth_type src),
          p_ip_proto := f_ip_proto src, p_src_port := htons (f_src_port src),
          p_dst_port := htons (f_dst_port src), p_port := htons (f_port src),
          p_vlan_tci_mask := htons (f_vlan_tci_mask src), p_eth_type_mask := htons (f_eth_type_mask src),
          p_src_port_mask := htons (f_src_port_mask src), p_dst_port_mask := htons (f_dst_port_mask src),
          p_port_mask := htons (f_port_mask src), p_consumer := htonl (f_consumer src),
          p_caplen := htonl (f_caplen src), p_mode := ucast (f_mode src),
          p_ip_src := f_ip_src src, p_ip_dst := f_ip_dst src,
          p_ip_src_mask := f_ip_src_mask src, p_ip_dst_mask := f_ip_dst_mask src,
          p_ip_src_text := take 16 b1, p_ip_dst_text := take 16 b2,
          p_ip_src_mask_text := take 16 b3, p_ip_dst_mask_text := take 16 b4,
          p_iface := take 8 (f_iface src), p_eth_src := take 6 (f_eth_src src),
          p_eth_dst := take 6 (f_eth_dst src), p_eth_src_mask := take 6 (f_eth_src_mask src),
          p_eth_dst_mask := take 6 (f_eth_dst_mask src), p_dest := f_dest src,
          p_version := htonl 0x02\<rparr>)"

text \<open>\<open>inet_aton\<close> on a field of the packed structure; a failed conversion keeps the old value.\<close>

definition aton_field :: "char list \<Rightarrow> u32 \<Rightarrow> u32 res" where
  "aton_field text old =
     rbind (cstr text) (\<lambda>s. Inr (case inet_aton s of None \<Rightarrow> old | Some a \<Rightarrow> a))"

definition unpack_addrs :: "filter_packed \<Rightarrow> 'b cap_filter \<Rightarrow> 'b cap_filter res" where
  "unpack_addrs src dst =
     (if ntohl (p_version src) = 0 then
        rbind (aton_field (p_ip_src_text src) (f_ip_src dst)) (\<lambda>a.
        rbind (aton_field (p_ip_dst_text src) (f_ip_dst dst)) (\<lambda>b.
        rbind (aton_field (p_ip_src_mask_text src) (f_ip_src_mask dst)) (\<lambda>c.
        rbind (aton_field (p_ip_dst_mask_text src) (f_ip_dst_mask dst)) (\<lambda>d.
          Inr (dst\<lparr>f_ip_src := a, f_ip_dst := b, f_ip_src_mask := c, f_ip_dst_mask := d\<rparr>)))))
      else Inr (dst\<lparr>f_ip_src := p_ip_src src, f_ip_dst := p_ip_dst src,
                    f_ip_src_mask := p_ip_src_mask src, f_ip_dst_mask := p_ip_dst_mask src\<rparr>))"

definition filter_unpack :: "filter_packed \<Rightarrow> 'b cap_filter \<Rightarrow> 'b cap_filter res" where
  "filter_unpack src dst =
     rbind (unpack_addrs src (dst\<lparr>
          f_filter_id := ntohl (p_filter_id src), f_index := ntohl (p_index src),
          f_vlan_tci := ntohs (p_vlan_tci src), f_eth_type := ntohs (p_eth_type src),
          f_ip_proto := p_ip_proto src, f_src_port := ntohs (p_src_port src),
          f_dst_port := ntohs (p_dst_port src), f_vlan_tci_mask := ntohs (p_vlan_tci_mask src),
          f_eth_type_mask := ntohs (p_eth_type_mask src), f_src_port_mask := ntohs (p_src_port_mask src),
          f_dst_port_mask := ntohs (p_dst_port_mask src), f_consumer := ntohl (p_consumer src),
          f_caplen := ntohl (p_caplen src)\<rparr>)) (\<lambda>dst.
       Inr (dst\<lparr>f_mode := (if sint (ntohl (p_version src)) \<ge> 2 then ucast (p_mode src) else FILTER_AND),
          f_iface := take 8 (p_iface src), f_eth_src := take 6 (p_eth_src src),
          f_eth_dst := take 6 (p_eth_dst src), f_eth_src_mask := take 6 (p_eth_src_mask src),
          f_eth_dst_mask := take 6 (p_eth_dst_mask src), f_dest := p_dest src,
          f_version := htonl 0x02, f_frame_num := []\<rparr>))"

section \<open>Properties\<close>

lemma aton_field_ntoa: "aton_field (take 16 (inet_ntoa_buf old a)) x = Inr a"
proof -
  have l: "length (inet_ntoa a) \<le> 15" by (rule inet_ntoa_length)
  then obtain rest where t: "take 16 (inet_ntoa_buf old a) = inet_ntoa a @ NUL # rest"
    by (simp add: inet_ntoa_buf_def Let_def take_Cons')
  have "takeWhile (\<lambda>c. c \<noteq> NUL) (inet_ntoa a @ NUL # rest) = inet_ntoa a"
    using inet_ntoa_chars(1) [of a] by (subst takeWhile_append2) auto
  then show ?thesis by (simp add: aton_field_def t cstr_def inet_aton_ntoa)
qed

text \<open>
  The fields that travel. The time limits, the MAMPid and the port of \<open>tp.port\<close> are not among them,
  although their bits of the index are.
\<close>

definition wire_copy :: "'b cap_filter \<Rightarrow> 'b cap_filter \<Rightarrow> u32 \<Rightarrow> 'b cap_filter" where
  "wire_copy src dst mode = src\<lparr>
     f_version := 0x02000000, f_mode := mode,
     f_starttime := f_starttime dst, f_endtime := f_endtime dst, f_mampid := f_mampid dst,
     f_port := f_port dst, f_port_mask := f_port_mask dst, f_frame_max_dt := f_frame_max_dt dst,
     f_frame_num := [], f_bpf_insn := f_bpf_insn dst, f_bpf_expr := f_bpf_expr dst,
     f_first := f_first dst, f_frame_counter := f_frame_counter dst, f_frame_last_ts := f_frame_last_ts dst\<rparr>"

definition filter_wf :: "'b cap_filter \<Rightarrow> bool" where
  "filter_wf f \<longleftrightarrow> length (f_iface f) = 8 \<and> length (f_mampid f) = 8 \<and> length (f_eth_src f) = 6 \<and>
     length (f_eth_dst f) = 6 \<and> length (f_eth_src_mask f) = 6 \<and> length (f_eth_dst_mask f) = 6"

lemma htonl_2: "htonl 2 = 0x02000000" "ntohl 0x02000000 = 2"
  by (simp_all add: ntohl_def le32_def)

text \<open>
  Claim C29. Unpacking a packed filter restores the fields of the original format, addresses and
  masks included, and the mode; the time limits, the MAMPid and \<open>port\<close> keep the values of the
  destination. A sender without version field (version 0) gives the same addresses by way of their
  text form, with mode AND.
\<close>

theorem filter_pack_unpack:
  assumes "filter_wf src" "unat (f_mode src) < 256"
  shows "filter_unpack (filter_pack old src pk) dst = Inr (wire_copy src dst (f_mode src)) \<and>
    filter_unpack (filter_pack old src pk\<lparr>p_version := 0\<rparr>) dst = Inr (wire_copy src dst FILTER_AND)"
proof -
  have mode: "ucast (ucast (f_mode src) :: u8) = f_mode src"
    using assms(2) by (intro word_unat_eqI) (simp add: unsigned_ucast_eq take_bit_eq_mod unat_mod)
  have v: "sint (2 :: u32) \<ge> 2" "ntohl 0 = 0" by (simp_all add: ntohl_def le32_def)
  show ?thesis
    using assms(1) mode v
    by (cases src; cases dst) (simp add: filter_unpack_def unpack_addrs_def filter_pack_def Let_def aton_field_ntoa
        wire_copy_def filter_wf_def htonl_2)
qed

definition packed_zero :: filter_packed where
  "packed_zero = \<lparr>p_filter_id = 0, p_index = 0, p_iface = replicate 8 NUL, p_vlan_tci = 0,
     p_eth_type = 0, p_eth_src = replicate 6 0, p_eth_dst = replicate 6 0, p_ip_proto = 0,
     p_ip_src_text = replicate 16 NUL, p_ip_dst_text = replicate 16 NUL, p_src_port = 0, p_dst_port = 0,
     p_vlan_tci_mask = 0, p_eth_type_mask = 0, p_eth_src_mask = replicate 6 0,
     p_eth_dst_mask = replicate 6 0, p_ip_src_mask_text = replicate 16 NUL,
     p_ip_dst_mask_text = replicate 16 NUL, p_src_port_mask = 0, p_dst_port_mask = 0, p_consumer = 0,
     p_caplen = 0, p_dest = sa_zero, p_version = 0, p_starttime = timepico_new 0 0,
     p_endtime = timepico_new 0 0, p_mampid = replicate 8 NUL, p_ip_src = 0, p_ip_src_mask = 0,
     p_ip_dst = 0, p_ip_dst_mask = 0, p_port = 0, p_port_mask = 0, p_mode = 0\<rparr>"

theorem filter_pack_unpack_witness:
  "filter_unpack (filter_pack [] (filter_zero\<lparr>f_mode := FILTER_OR, f_index := 8, f_ip_src := 0x0100007F\<rparr> :: unit cap_filter)
     packed_zero) (filter_zero :: unit cap_filter) =
   Inr (filter_zero\<lparr>f_version := 0x02000000, f_mode := FILTER_OR, f_index := 8, f_ip_src := 0x0100007F\<rparr>)"
proof -
  let ?f = "filter_zero\<lparr>f_mode := FILTER_OR, f_index := 8, f_ip_src := 0x0100007F\<rparr> :: unit cap_filter"
  have "filter_wf ?f" by (simp add: filter_wf_def filter_zero_def)
  moreover have "unat (f_mode ?f) < 256" by (simp add: FILTER_OR_def)
  ultimately have "filter_unpack (filter_pack [] ?f packed_zero) filter_zero = Inr (wire_copy ?f filter_zero (f_mode ?f))"
    using filter_pack_unpack [of ?f] by blast
  then show ?thesis by (simp add: wire_copy_def filter_zero_def)
qed

text \<open>
  A filter on the start time, end time, MAMPid or \<open>tp.port\<close> does not survive the wire: two
  filters that differ only in these fields are packed to the same bytes up to \<open>port\<close>, and give the
  same filter when they are unpacked.
\<close>

lemma filter_pack_drops_times:
  "filter_unpack (filter_pack old (src\<lparr>f_starttime := t1, f_endtime := t2, f_mampid := mp, f_port := p, f_port_mask := k\<rparr>) pk) dst
     = filter_unpack (filter_pack old src pk) dst"
  by (simp add: filter_unpack_def unpack_addrs_def filter_pack_def Let_def)

end
