(* ===== verification/Header_Walk.thy ===== *)
theory Header_Walk
  imports Packet
begin

text \<open>
  The header walk (\<open>header_init\<close>, \<open>header_walk\<close>, \<open>next_payload\<close> of \<open>src/packet.c\<close>), the protocol table
  (\<open>src/protocol.c\<close>) and the function of every protocol that finds the header behind its own
  (\<open>src/protocols/*.c\<close>, \<open>src/format/stp.c\<close>), for a build with IPv6.

  A pointer into the packet is its offset from \<open>cp->payload\<close>, NULL is \<open>None\<close>. A read behind the memory
  \<open>ch_payload\<close> of the packet is the fault \<open>Out_of_bounds\<close>.
\<close>

unbundle bit_operations_syntax

section \<open>Protocols and the state of a walk\<close>

datatype protocol_type =
    PROTOCOL_UNKNOWN | PROTOCOL_DONE | PROTOCOL_DATA | PROTOCOL_ARP | PROTOCOL_CDP | PROTOCOL_DNS
  | PROTOCOL_ETHERNET | PROTOCOL_GRE | PROTOCOL_GTP | PROTOCOL_ICMP | PROTOCOL_IGMP | PROTOCOL_IPV4
  | PROTOCOL_IPV6 | PROTOCOL_MPLS | PROTOCOL_OSPF | PROTOCOL_PTPv2 | PROTOCOL_PW | PROTOCOL_SCTP
  | PROTOCOL_STP | PROTOCOL_TCP | PROTOCOL_UDP | PROTOCOL_VLAN

record network =
  net_src :: string
  net_dst :: string
  net_plen :: u64

record header_chunk =
  hc_cp :: cap_header
  hc_protocol :: "protocol_type option"
  hc_last_net :: network
  hc_truncated :: bool
  hc_ptr :: "nat option"

definition limited_caplen :: "cap_header \<Rightarrow> nat option \<Rightarrow> nat \<Rightarrow> bool" where
  "limited_caplen cp ptr bytes =
     (case ptr of None \<Rightarrow> True | Some p \<Rightarrow> p + bytes > unat (ch_caplen cp))"

text \<open>
  A \<open>next_payload\<close> callback gets the header and the position of its protocol header; it returns the
  type of what follows, the pointer to it (\<open>*out\<close>, which the caller preset to the position) and the
  network it may have filled in.
\<close>

type_synonym next_fun = "header_chunk \<Rightarrow> nat \<Rightarrow> (protocol_type \<times> nat option \<times> network) res"

abbreviation (input) hc_mem :: "header_chunk \<Rightarrow> mem" where
  "hc_mem h \<equiv> ch_payload (hc_cp h)"

section \<open>What follows a header\<close>

definition ethertype_next :: "u16 \<Rightarrow> protocol_type" where
  "ethertype_next t =
     (if t = ETHERTYPE_ARP then PROTOCOL_ARP
      else if t = ETHERTYPE_VLAN then PROTOCOL_VLAN
      else if t = ETHERTYPE_IP then PROTOCOL_IPV4
      else if t = ETHERTYPE_IPV6 then PROTOCOL_IPV6
      else if t = 0x8847 then PROTOCOL_MPLS
      else if t = STPBRIDGES then PROTOCOL_STP
      else if t = 0x88F7 then PROTOCOL_PTPv2
      else PROTOCOL_DATA)"

definition ipproto_next :: "u8 \<Rightarrow> protocol_type" where
  "ipproto_next p =
     (if p = 47 then PROTOCOL_GRE
      else if p = 1 then PROTOCOL_ICMP
      else if p = 2 then PROTOCOL_IGMP
      else if p = 4 then PROTOCOL_IPV4
      else if p = 41 then PROTOCOL_IPV6
      else if p = 89 then PROTOCOL_OSPF
      else if p = IPPROTO_TCP then PROTOCOL_TCP
      else if p = IPPROTO_UDP then PROTOCOL_UDP
      else if p = 132 then PROTOCOL_SCTP
      else PROTOCOL_DATA)"

definition ethernet_next :: next_fun where
  "ethernet_next h ptr = rbind (rd16 (hc_mem h) (ptr + 12)) (\<lambda>w.
     Inr (ethertype_next (ntohs w), Some (ptr + 14), hc_last_net h))"

definition vlan_next :: next_fun where
  "vlan_next h ptr = rbind (rd16 (hc_mem h) (ptr + 2)) (\<lambda>w.
     Inr (ethertype_next (ntohs w), Some (ptr + 4), hc_last_net h))"

definition ipv4_next :: next_fun where
  "ipv4_next h ptr =
     rbind (ip_hl (hc_mem h) ptr) (\<lambda>hl.
       if hl < 5 then Inr (PROTOCOL_DONE, None, hc_last_net h)
       else
         rbind (ip_src_of (hc_mem h) ptr) (\<lambda>src.
         rbind (ip_dst_of (hc_mem h) ptr) (\<lambda>dst.
         rbind (ip_len (hc_mem h) ptr) (\<lambda>len.
         rbind (ip_p (hc_mem h) ptr) (\<lambda>p.
           Inr (ipproto_next p, Some (ptr + 4 * hl),
                \<lparr>net_src = inet_ntoa src, net_dst = inet_ntoa dst,
                 net_plen = word_of_int (int (unat len) - 4 * int hl)\<rparr>))))))"

subsection \<open>IPv6\<close>

text \<open>\<open>inet_ntop\<close> of an IPv6 address: eight groups in hexadecimal, the first longest run of at least
  two zero groups shortened, IPv4 notation for compatible and mapped addresses.\<close>

definition hex_lower :: "nat \<Rightarrow> char" where
  "hex_lower n = (if n < 10 then char_of (48 + n) else char_of (87 + n))"

fun hex :: "nat \<Rightarrow> string" where
  "hex n = (if n < 16 then [hex_lower n] else hex (n div 16) @ [hex_lower (n mod 16)])"

declare hex.simps [simp del]

definition zero_run :: "nat list \<Rightarrow> nat \<Rightarrow> nat" where
  "zero_run ws i = length (takeWhile (\<lambda>w. w = 0) (drop i ws))"

definition best_run :: "nat list \<Rightarrow> (nat \<times> nat) option" where
  "best_run ws =
     (let (base, len) = fold (\<lambda>i (b, n). if zero_run ws i > n then (i, zero_run ws i) else (b, n)) [0..<8] (0, 0)
      in if len < 2 then None else Some (base, len))"

fun ntop6_groups :: "u8 list \<Rightarrow> (nat \<times> nat) option \<Rightarrow> (nat \<times> nat) list \<Rightarrow> string" where
  "ntop6_groups bs best [] = []"
| "ntop6_groups bs best ((i, w) # ws) =
     (let run = (case best of None \<Rightarrow> False | Some (b, n) \<Rightarrow> b \<le> i \<and> i < b + n) in
      if run then (if Some i = map_option fst best then '':'' else []) @ ntop6_groups bs best ws
      else (if i \<noteq> 0 then '':'' else []) @
        (if i = 6 \<and> (best = Some (0, 6) \<or> best = Some (0, 5) \<and> bs ! 10 = 0xff \<and> bs ! 11 = 0xff)
         then inet_ntoa (le32 (bs ! 12) (bs ! 13) (bs ! 14) (bs ! 15))
         else hex w @ ntop6_groups bs best ws))"

definition inet_ntop6 :: "u8 list \<Rightarrow> string" where
  "inet_ntop6 bs =
     (let ws = map (\<lambda>i. 256 * unat (bs ! (2 * i)) + unat (bs ! (2 * i + 1))) [0..<8];
          best = best_run ws
      in ntop6_groups bs best (zip [0..<8] ws) @
         (case best of Some (b, n) \<Rightarrow> if b + n = 8 then '':'' else [] | None \<Rightarrow> []))"

definition is_ipv6_ext :: "u8 \<Rightarrow> bool" where
  "is_ipv6_ext nxt = (nxt = 0)"

text \<open>
  The loop over the extension headers: the header size reached, and the payload with its protocol
  when the end of the chain was captured. \<open>ntohs\<close> is applied to the single byte \<open>ip6e_len\<close>.
\<close>

definition ext_size :: "u8 \<Rightarrow> nat" where
  "ext_size len = unat (ntohs (ucast len)) * 8 + 8"

function ipv6_ext_walk :: "cap_header \<Rightarrow> nat \<Rightarrow> nat \<Rightarrow> (nat \<times> (nat \<times> u8) option) res" where
  "ipv6_ext_walk cp payload hsize =
     (if limited_caplen cp (Some payload) 2 then Inr (hsize, None)
      else rbind (rd8 (ch_payload cp) (payload + 1)) (\<lambda>len.
        if limited_caplen cp (Some payload) (ext_size len) then Inr (hsize, None)
        else rbind (rd8 (ch_payload cp) payload) (\<lambda>nxt.
          if is_ipv6_ext nxt then ipv6_ext_walk cp (payload + ext_size len) (hsize + ext_size len)
          else Inr (hsize + ext_size len, Some (payload + ext_size len, nxt)))))"
  by pat_completeness auto
termination ipv6_ext_walk
  by (relation "measure (\<lambda>(cp, payload, hsize). unat (ch_caplen cp) - payload)")
    (auto simp: limited_caplen_def ext_size_def)

declare ipv6_ext_walk.simps [simp del]

definition ipv6_total_header_size :: "cap_header \<Rightarrow> nat \<Rightarrow> (nat \<times> (nat \<times> u8) option) res" where
  "ipv6_total_header_size cp ip =
     (if limited_caplen cp (Some 0) 40 then Inr (0, None)
      else rbind (rd8 (ch_payload cp) (ip + 6)) (\<lambda>nxt.
        if \<not> is_ipv6_ext nxt then Inr (40, Some (ip + 40, nxt))
        else ipv6_ext_walk cp (ip + 40) 40))"

definition ipv6_next :: next_fun where
  "ipv6_next h ptr =
     rbind (ipv6_total_header_size (hc_cp h) ptr) (\<lambda>(hsize, payload).
       case payload of
         None \<Rightarrow> Inr (PROTOCOL_DONE, None, hc_last_net h)
       | Some (out, proto) \<Rightarrow>
           rbind (rdn (hc_mem h) (ptr + 8) 16) (\<lambda>src.
           rbind (rdn (hc_mem h) (ptr + 24) 16) (\<lambda>dst.
           rbind (rd16 (hc_mem h) (ptr + 4)) (\<lambda>plen.
             Inr (ipproto_next proto, Some out,
                  \<lparr>net_src = inet_ntop6 src, net_dst = inet_ntop6 dst,
                   net_plen = ucast plen + 40 - word_of_nat hsize\<rparr>)))))"

subsection \<open>Tunnels and labels\<close>

definition gre_next :: next_fun where
  "gre_next h ptr =
     rbind (rd32 (hc_mem h) ptr) (\<lambda>w.
       let val = ntohl w;
           opt = (if bit val 31 \<or> bit val 30 then 4 else 0) + (if bit val 29 then 4 else 0) +
                 (if bit val 28 then 4 else 0)
       in Inr (ethertype_next (ucast val), Some (ptr + 4 + opt), hc_last_net h))"

definition mpls_next_payload :: next_fun where
  "mpls_next_payload h ptr =
     rbind (rd32 (hc_mem h) ptr) (\<lambda>w.
       if \<not> bit (ntohl w) 8 then Inr (PROTOCOL_MPLS, Some (ptr + 4), hc_last_net h)
       else rbind (rd8 (hc_mem h) (ptr + 4)) (\<lambda>b.
         Inr (if b AND 0xf0 = 0 then PROTOCOL_PW
              else if b AND 0xf0 = 0x40 then PROTOCOL_IPV4
              else if b AND 0xf0 = 0x60 then PROTOCOL_IPV6
              else PROTOCOL_DATA, Some (ptr + 4), hc_last_net h)))"

definition pw_next_payload :: next_fun where
  "pw_next_payload h ptr = Inr (PROTOCOL_ETHERNET, Some (ptr + 4), hc_last_net h)"

datatype gtp_version = GTPv1 | GTPv2 | GTPvP

definition gtp_version_of :: "u8 \<Rightarrow> gtp_version res" where
  "gtp_version_of b =
     (if drop_bit 5 b = 1 then Inr (if bit b 4 then GTPv1 else GTPvP)
      else if drop_bit 5 b = 2 then Inr GTPv2
      else Inl Aborted)"

definition gtp_header_size :: "mem \<Rightarrow> nat \<Rightarrow> nat res" where
  "gtp_header_size m ptr =
     rbind (rd8 m ptr) (\<lambda>b.
     rbind (gtp_version_of b) (\<lambda>v.
       case v of
         GTPv1 \<Rightarrow> if bit b 2 then Inl Aborted else Inr (if bit b 1 \<or> bit b 0 then 12 else 8)
       | GTPv2 \<Rightarrow> Inr (if bit b 3 then 8 else 4)
       | GTPvP \<Rightarrow> Inr 6))"

definition gtp_next :: next_fun where
  "gtp_next h ptr =
     rbind (rd8 (hc_mem h) ptr) (\<lambda>b.
     rbind (gtp_version_of b) (\<lambda>version.
     rbind (rd8 (hc_mem h) (ptr + 1)) (\<lambda>message.
     rbind (gtp_header_size (hc_mem h) ptr) (\<lambda>hsize.
       if version = GTPv2 \<and> bit b 4 then Inr (PROTOCOL_GTP, Some (ptr + hsize), hc_last_net h)
       else if message \<noteq> 255 then Inr (PROTOCOL_DATA, Some (ptr + hsize), hc_last_net h)
       else rbind (rd8 (hc_mem h) (ptr + hsize)) (\<lambda>p.
         Inr (if p AND 0xf0 = 0x40 then PROTOCOL_IPV4
              else if p AND 0xf0 = 0x60 then PROTOCOL_IPV6
              else PROTOCOL_DATA, Some (ptr + hsize), hc_last_net h))))))"

subsection \<open>Transport protocols\<close>

text \<open>
  In \<open>udp_next\<close> the test \<open>dport == sport\<close> stands before the first \<open>case\<close> label of the switch and is
  never reached.
\<close>

definition udp_next :: next_fun where
  "udp_next h ptr =
     rbind (rd16 (hc_mem h) ptr) (\<lambda>s.
     rbind (rd16 (hc_mem h) (ptr + 2)) (\<lambda>d.
       let sport = ntohs s; dport = ntohs d in
       Inr (if sport = 53 \<or> dport = 53 then PROTOCOL_DNS
            else if dport = 2152 \<or> dport = 2123 then PROTOCOL_GTP
            else if dport = 319 then PROTOCOL_PTPv2
            else PROTOCOL_DATA, Some (ptr + 8), hc_last_net h)))"

definition tcp_next :: next_fun where
  "tcp_next h ptr =
     rbind (tcp_doff (hc_mem h) ptr) (\<lambda>doff.
       if net_plen (hc_last_net h) - word_of_nat (4 * doff) = 0
       then Inr (PROTOCOL_DONE, Some (ptr + 4 * doff), hc_last_net h)
       else
         rbind (rd16 (hc_mem h) ptr) (\<lambda>s.
         rbind (rd16 (hc_mem h) (ptr + 2)) (\<lambda>d.
           if ntohs s = 53 \<or> ntohs d = 53 then Inr (PROTOCOL_DNS, Some (ptr + 4 * doff + 2), hc_last_net h)
           else Inr (PROTOCOL_DATA, Some (ptr + 4 * doff), hc_last_net h))))"

text \<open>
  The remaining callbacks return \<open>PROTOCOL_DONE\<close> and leave \<open>*out\<close> as it is; \<open>icmp_next_payload\<close> is
  \<open>next_payload\<close> of \<open>icmp.c\<close>.
\<close>

definition arp_next :: next_fun where
  "arp_next h ptr = Inr (PROTOCOL_DONE, Some ptr, hc_last_net h)"

definition cdp_next :: next_fun where
  "cdp_next h ptr = Inr (PROTOCOL_DONE, Some ptr, hc_last_net h)"

definition icmp_next_payload :: next_fun where
  "icmp_next_payload h ptr = Inr (PROTOCOL_DONE, Some ptr, hc_last_net h)"

definition igmp_next :: next_fun where
  "igmp_next h ptr = Inr (PROTOCOL_DONE, Some ptr, hc_last_net h)"

definition ospf_next :: next_fun where
  "ospf_next h ptr = Inr (PROTOCOL_DONE, Some ptr, hc_last_net h)"

definition ptpv2_next :: next_fun where
  "ptpv2_next h ptr = Inr (PROTOCOL_DONE, Some ptr, hc_last_net h)"

definition sctp_next :: next_fun where
  "sctp_next h ptr = Inr (PROTOCOL_DONE, Some ptr, hc_last_net h)"

definition stp_next :: next_fun where
  "stp_next h ptr = Inr (PROTOCOL_DONE, Some ptr, hc_last_net h)"

lemmas done_next_defs = arp_next_def cdp_next_def icmp_next_payload_def igmp_next_def ospf_next_def
  ptpv2_next_def sctp_next_def stp_next_def

section \<open>The protocol table\<close>

record caputils_protocol =
  pr_name :: string
  pr_size :: nat
  pr_size_dyn :: "(header_chunk \<Rightarrow> nat \<Rightarrow> nat res) option"
  pr_next :: "next_fun option"

definition proto_entry :: "string \<Rightarrow> nat \<Rightarrow> next_fun option \<Rightarrow> caputils_protocol" where
  "proto_entry name bsize nxt = \<lparr>pr_name = name, pr_size = bsize, pr_size_dyn = None, pr_next = nxt\<rparr>"

definition protocol_gtp :: caputils_protocol where
  "protocol_gtp = (proto_entry ''GPRS Tunneling Protocol'' 1 (Some gtp_next))
     \<lparr>pr_size_dyn := Some (\<lambda>h ptr. gtp_header_size (hc_mem h) ptr)\<rparr>"

text \<open>The table after \<open>protocol_init\<close>; \<open>PROTOCOL_UNKNOWN\<close> has no entry.\<close>

fun protocol_get :: "protocol_type \<Rightarrow> caputils_protocol option" where
  "protocol_get PROTOCOL_UNKNOWN = None"
| "protocol_get PROTOCOL_DATA = Some (proto_entry ''data'' 0 None)"
| "protocol_get PROTOCOL_DONE = Some (proto_entry ''done'' 0 None)"
| "protocol_get PROTOCOL_ARP = Some (proto_entry ''ARP'' 0 (Some arp_next))"
| "protocol_get PROTOCOL_CDP = Some (proto_entry ''CDP'' 0 (Some cdp_next))"
| "protocol_get PROTOCOL_DNS = Some (proto_entry ''DNS'' 12 None)"
| "protocol_get PROTOCOL_ETHERNET = Some (proto_entry ''ethernet'' 14 (Some ethernet_next))"
| "protocol_get PROTOCOL_GRE = Some (proto_entry ''GRE'' 4 (Some gre_next))"
| "protocol_get PROTOCOL_GTP = Some protocol_gtp"
| "protocol_get PROTOCOL_ICMP = Some (proto_entry ''ICMP'' 8 (Some icmp_next_payload))"
| "protocol_get PROTOCOL_IGMP = Some (proto_entry ''IGMP'' 0 (Some igmp_next))"
| "protocol_get PROTOCOL_IPV4 = Some (proto_entry ''IPv4'' 20 (Some ipv4_next))"
| "protocol_get PROTOCOL_IPV6 = Some (proto_entry ''IPv6'' 20 (Some ipv6_next))"
| "protocol_get PROTOCOL_MPLS = Some (proto_entry ''MPLS'' 4 (Some mpls_next_payload))"
| "protocol_get PROTOCOL_OSPF = Some (proto_entry ''OSPF'' 0 (Some ospf_next))"
| "protocol_get PROTOCOL_PTPv2 = Some (proto_entry ''PTPV2'' 34 (Some ptpv2_next))"
| "protocol_get PROTOCOL_PW = Some (proto_entry ''PW'' 4 (Some pw_next_payload))"
| "protocol_get PROTOCOL_SCTP = Some (proto_entry ''SCTP'' 12 (Some sctp_next))"
| "protocol_get PROTOCOL_STP = Some (proto_entry ''STP'' 0 (Some stp_next))"
| "protocol_get PROTOCOL_TCP = Some (proto_entry ''TCP'' 20 (Some tcp_next))"
| "protocol_get PROTOCOL_UDP = Some (proto_entry ''UDP'' 8 (Some udp_next))"
| "protocol_get PROTOCOL_VLAN = Some (proto_entry ''vlan'' 4 (Some vlan_next))"

section \<open>The walk\<close>

definition header_size :: "header_chunk \<Rightarrow> nat res" where
  "header_size h =
     (case (hc_protocol h, hc_ptr h) of
        (Some t, Some ptr) \<Rightarrow>
          (case protocol_get t of
             None \<Rightarrow> Inl Null_deref
           | Some p \<Rightarrow> (case pr_size_dyn p of Some f \<Rightarrow> f h ptr | None \<Rightarrow> Inr (pr_size p)))
      | _ \<Rightarrow> Inl Null_deref)"

definition ptr_sanity :: "cap_header \<Rightarrow> nat option \<Rightarrow> unit res" where
  "ptr_sanity cp ptr =
     (case ptr of None \<Rightarrow> Inl Aborted
      | Some p \<Rightarrow> if p > unat (ch_caplen cp) then Inl Aborted else Inr ())"

definition next_payload :: "header_chunk \<Rightarrow> (bool \<times> header_chunk) res" where
  "next_payload h =
     (case (hc_protocol h, hc_ptr h) of
        (Some current, Some ptr) \<Rightarrow>
          (case protocol_get current of
             None \<Rightarrow> Inl Null_deref
           | Some p \<Rightarrow>
               (case pr_next p of
                  None \<Rightarrow> Inr (False, h)
                | Some nxt \<Rightarrow>
                    if hc_truncated h then Inr (False, h)
                    else
                      rbind (nxt h ptr) (\<lambda>(type, out, net).
                        let h = h\<lparr>hc_ptr := out, hc_protocol := Some type, hc_last_net := net\<rparr> in
                        case protocol_get type of
                          None \<Rightarrow> Inl Aborted
                        | Some _ \<Rightarrow>
                            if out = None \<and> type = PROTOCOL_DONE \<or> limited_caplen (hc_cp h) out 0
                            then Inr (False, h\<lparr>hc_ptr := None, hc_truncated := True\<rparr>)
                            else
                              rbind (ptr_sanity (hc_cp h) out) (\<lambda>_.
                              rbind (header_size h) (\<lambda>bsize.
                                let h = (if limited_caplen (hc_cp h) out bsize
                                         then h\<lparr>hc_truncated := True\<rparr> else h)
                                in Inr (type \<noteq> PROTOCOL_UNKNOWN \<and> type \<noteq> PROTOCOL_DONE, h))))))
      | _ \<Rightarrow> Inl Null_deref)"

definition header_init :: "cap_header \<Rightarrow> header_chunk" where
  "header_init cp =
     \<lparr>hc_cp = cp, hc_protocol = None, hc_last_net = \<lparr>net_src = [], net_dst = [], net_plen = 0\<rparr>,
      hc_truncated = False, hc_ptr = None\<rparr>"

definition header_walk :: "header_chunk \<Rightarrow> (bool \<times> header_chunk) res" where
  "header_walk h =
     (if hc_ptr h = None then
        let h = h\<lparr>hc_protocol := Some PROTOCOL_ETHERNET, hc_ptr := Some 0\<rparr> in
        rbind (header_size h) (\<lambda>bsize.
          Inr (True, if limited_caplen (hc_cp h) (hc_ptr h) bsize then h\<lparr>hc_truncated := True\<rparr> else h))
      else next_payload h)"

text \<open>
  The loop \<open>while ( header_walk(&header) )\<close> of \<open>print_pkt\<close>: the headers it visits. \<open>None\<close> is a loop that
  has not ended within the fuel.
\<close>

fun visit_headers :: "nat \<Rightarrow> header_chunk \<Rightarrow> header_chunk list res option" where
  "visit_headers 0 h = None"
| "visit_headers (Suc fuel) h =
     (case header_walk h of
        Inl e \<Rightarrow> Some (Inl e)
      | Inr (cont, h) \<Rightarrow>
          if cont then map_option (\<lambda>r. rbind r (\<lambda>hs. Inr (h # hs))) (visit_headers fuel h)
          else Some (Inr []))"

text \<open>The states in which the loop runs its body.\<close>

inductive visited :: "cap_header \<Rightarrow> header_chunk \<Rightarrow> bool" for cp where
  first: "header_walk (header_init cp) = Inr (True, h) \<Longrightarrow> visited cp h"
| further: "visited cp h \<Longrightarrow> header_walk h = Inr (True, h') \<Longrightarrow> visited cp h'"

section \<open>Every step moves on\<close>

text \<open>Protocols behind which the walk does not look.\<close>

definition last_protocol :: "protocol_type \<Rightarrow> bool" where
  "last_protocol t \<longleftrightarrow> t = PROTOCOL_DONE \<or> t = PROTOCOL_DATA \<or> t = PROTOCOL_DNS"

lemma ethertype_next_known: "ethertype_next w \<noteq> PROTOCOL_UNKNOWN"
  by (simp add: ethertype_next_def)

lemma ipproto_next_known: "ipproto_next w \<noteq> PROTOCOL_UNKNOWN"
  by (simp add: ipproto_next_def)

lemma ext_walk_forward:
  "ipv6_ext_walk cp payload hsize = Inr (n, Some (q, nxt)) \<Longrightarrow> payload < q"
proof (induction cp payload hsize rule: ipv6_ext_walk.induct)
  case (1 cp payload hsize)
  show ?case
    using 1(2) 1(1)
    by (subst (asm) ipv6_ext_walk.simps)
      (fastforce simp: rbind_Inr_iff ext_size_def split: if_splits)
qed

lemma ipv6_size_forward:
  assumes "ipv6_total_header_size cp ip = Inr (n, Some (q, nxt))"
  shows "ip < q"
  using assms by (auto simp: ipv6_total_header_size_def rbind_Inr_iff dest: ext_walk_forward split: if_splits)

lemmas next_defs = ethernet_next_def vlan_next_def ipv4_next_def ipv6_next_def gre_next_def
  mpls_next_payload_def pw_next_payload_def gtp_next_def udp_next_def tcp_next_def done_next_defs

lemma gtp_size_positive: "gtp_header_size m ptr = Inr n \<Longrightarrow> 0 < n"
  by (auto simp: gtp_header_size_def rbind_Inr_iff split: gtp_version.splits if_splits) (metis gtp_version.exhaust)+

lemma next_progress:
  assumes "protocol_get t = Some p" "pr_next p = Some nxt" "nxt h ptr = Inr (t', out, net)"
  shows "protocol_get t' \<noteq> None" "out = Some q \<Longrightarrow> \<not> last_protocol t' \<Longrightarrow> ptr < q"
proof -
  have "t' \<noteq> PROTOCOL_UNKNOWN"
    using assms ethertype_next_known ipproto_next_known
    by (cases t) (auto simp: proto_entry_def protocol_gtp_def next_defs rbind_Inr_iff Let_def split: if_splits option.splits)
  then show "protocol_get t' \<noteq> None"
    by (cases t') simp_all
  show "ptr < q" if "out = Some q" "\<not> last_protocol t'"
    using assms that
    by (cases t) (auto simp: proto_entry_def protocol_gtp_def next_defs rbind_Inr_iff Let_def last_protocol_def
        dest!: ipv6_size_forward gtp_size_positive split: if_splits option.splits)
qed

section \<open>The invariant of the walk\<close>

text \<open>
  What holds whenever the loop runs its body: the position lies inside the captured bytes, and unless
  the header is flagged as truncated all of it was captured.
\<close>

definition chunk_ok :: "cap_header \<Rightarrow> header_chunk \<Rightarrow> bool" where
  "chunk_ok cp h \<longleftrightarrow> hc_cp h = cp \<and>
     (\<exists>t ptr. hc_protocol h = Some t \<and> hc_ptr h = Some ptr \<and> protocol_get t \<noteq> None \<and> t \<noteq> PROTOCOL_DONE \<and>
        ptr \<le> unat (ch_caplen cp) \<and>
        (\<not> hc_truncated h \<longrightarrow> (\<exists>n. header_size h = Inr n \<and> ptr + n \<le> unat (ch_caplen cp))))"

lemma header_size_truncated [simp]: "header_size (h\<lparr>hc_truncated := b\<rparr>) = header_size h"
proof -
  have "gtp_header_size (hc_mem (h\<lparr>hc_truncated := b\<rparr>)) = gtp_header_size (hc_mem h)" by simp
  then show ?thesis
    unfolding header_size_def
    by (auto split: option.splits simp: proto_entry_def protocol_gtp_def elim!: protocol_get.elims)
qed

lemma walk_first: "\<exists>h. header_walk (header_init cp) = Inr (True, h) \<and> chunk_ok cp h \<and> hc_ptr h = Some 0 \<and> hc_protocol h = Some PROTOCOL_ETHERNET"
  by (auto simp: header_walk_def header_init_def header_size_def proto_entry_def chunk_ok_def limited_caplen_def Let_def)

lemma ptr_sanity_passes: "\<not> limited_caplen cp ptr 0 \<Longrightarrow> ptr_sanity cp ptr = Inr ()"
  by (auto simp: ptr_sanity_def limited_caplen_def split: option.splits)

lemma walk_step:
  assumes ok: "chunk_ok cp h" and walk: "header_walk h = Inr (True, h')"
  shows "chunk_ok cp h' \<and> (last_protocol (the (hc_protocol h')) \<or> the (hc_ptr h) < the (hc_ptr h'))
    \<and> \<not> last_protocol (the (hc_protocol h))"
proof -
  obtain t ptr where h: "hc_cp h = cp" "hc_protocol h = Some t" "hc_ptr h = Some ptr" "t \<noteq> PROTOCOL_DONE"
    using ok by (auto simp: chunk_ok_def)
  obtain p nxt t' out net where n: "protocol_get t = Some p" "pr_next p = Some nxt"
      "nxt h ptr = Inr (t', out, net)"
    using walk h by (auto simp: header_walk_def next_payload_def rbind_Inr_iff split: option.splits if_splits)
  define g where "g = h\<lparr>hc_ptr := out, hc_protocol := Some t', hc_last_net := net\<rparr>"
  have t': "protocol_get t' \<noteq> None" using next_progress(1) [OF n] .
  have "\<exists>k. \<not> limited_caplen cp out 0 \<and> header_size g = Inr k \<and> t' \<noteq> PROTOCOL_DONE \<and>
      h' = (if limited_caplen cp out k then g\<lparr>hc_truncated := True\<rparr> else g)"
    using walk h n t' ptr_sanity_passes
    by (auto simp: header_walk_def next_payload_def rbind_Inr_iff g_def Let_def split: option.splits if_splits)
  then obtain k where k: "\<not> limited_caplen cp out 0" "header_size g = Inr k" "t' \<noteq> PROTOCOL_DONE"
      "h' = (if limited_caplen cp out k then g\<lparr>hc_truncated := True\<rparr> else g)"
    by blast
  then obtain q where q: "out = Some q" "q \<le> unat (ch_caplen cp)"
    by (cases out) (auto simp: limited_caplen_def)
  have "\<not> last_protocol t"
    using n h(4) by (auto simp: last_protocol_def proto_entry_def)
  moreover have "chunk_ok cp h'"
    using k q t' h(1) by (auto simp: chunk_ok_def g_def limited_caplen_def)
  moreover have "last_protocol t' \<or> ptr < q"
    using next_progress(2) [OF n q(1)] by blast
  ultimately show ?thesis using k(4) h q(1) by (auto simp: g_def)
qed

lemma visited_ok: "visited cp h \<Longrightarrow> chunk_ok cp h"
proof (induction rule: visited.induct)
  case (first h)
  then show ?case using walk_first [of cp] by auto
next
  case (further h h')
  then show ?case using walk_step by blast
qed

lemma visit_ends:
  assumes "chunk_ok cp h"
  shows "unat (ch_caplen cp) + 2 - the (hc_ptr h) \<le> fuel \<or> last_protocol (the (hc_protocol h)) \<and> 0 < fuel
    \<Longrightarrow> visit_headers fuel h \<noteq> None"
  using assms
proof (induction fuel arbitrary: h)
  case 0
  then show ?case by (auto simp: chunk_ok_def)
next
  case (Suc fuel)
  show ?case
  proof (cases "\<exists>h'. header_walk h = Inr (True, h')")
    case True
    then obtain h' where h': "header_walk h = Inr (True, h')" by blast
    have s: "chunk_ok cp h'" "last_protocol (the (hc_protocol h')) \<or> the (hc_ptr h) < the (hc_ptr h')"
        "\<not> last_protocol (the (hc_protocol h))"
      using walk_step [OF Suc.prems(2) h'] by auto
    have "the (hc_ptr h) \<le> unat (ch_caplen cp)" using Suc.prems(2) by (auto simp: chunk_ok_def)
    then have "visit_headers fuel h' \<noteq> None"
      using Suc.IH [OF _ s(1)] s(2,3) Suc.prems(1) by linarith
    then show ?thesis using h' by auto
  next
    case False
    then show ?thesis by (auto split: sum.splits)
  qed
qed

section \<open>Faults of a step\<close>

lemmas field_defs = ip_hl_def ip_src_of_def ip_dst_of_def ip_len_def ip_p_def tcp_doff_def

lemma next_fault:
  assumes "protocol_get t = Some p" "pr_next p = Some nxt" "nxt h ptr = Inl f"
    and "ptr + pr_size p \<le> length (hc_mem h)"
  shows "t = PROTOCOL_IPV6 \<or> t = PROTOCOL_MPLS \<or> t = PROTOCOL_GTP"
  using assms
  by (cases t) (auto simp: proto_entry_def next_defs field_defs mem_simps Let_def split: if_splits)

lemma ethertype_next_gtp: "ethertype_next w \<noteq> PROTOCOL_GTP"
  by (simp add: ethertype_next_def)

lemma ipproto_next_gtp: "ipproto_next w \<noteq> PROTOCOL_GTP"
  by (simp add: ipproto_next_def)

lemma next_gtp:
  assumes "protocol_get t = Some p" "pr_next p = Some nxt" "nxt h ptr = Inr (PROTOCOL_GTP, out, net)"
  shows "t = PROTOCOL_GTP \<or> t = PROTOCOL_UDP \<and>
    (\<exists>w. rd16 (hc_mem h) (ptr + 2) = Inr w \<and> (ntohs w = 2152 \<or> ntohs w = 2123))"
  using assms ethertype_next_gtp ipproto_next_gtp
  by (cases t) (auto simp: proto_entry_def next_defs rbind_Inr_iff Let_def split: if_splits option.splits)

lemma header_size_fault:
  assumes "header_size h = Inl f" "hc_protocol h = Some t" "hc_ptr h = Some ptr" "protocol_get t \<noteq> None"
  shows "t = PROTOCOL_GTP"
  using assms by (cases t) (auto simp: header_size_def proto_entry_def)

lemma walk_fault:
  assumes ok: "chunk_ok cp h" and mem: "unat (ch_caplen cp) \<le> length (ch_payload cp)" and f: "header_walk h = Inl f"
  shows "\<exists>t ptr. hc_protocol h = Some t \<and> hc_ptr h = Some ptr \<and>
    (t = PROTOCOL_IPV6 \<or> t = PROTOCOL_MPLS \<or> t = PROTOCOL_GTP \<or>
     t = PROTOCOL_UDP \<and> (\<exists>w. rd16 (ch_payload cp) (ptr + 2) = Inr w \<and> (ntohs w = 2152 \<or> ntohs w = 2123)))"
proof -
  obtain t ptr where h: "hc_cp h = cp" "hc_protocol h = Some t" "hc_ptr h = Some ptr" "protocol_get t \<noteq> None"
    using ok by (auto simp: chunk_ok_def)
  obtain p nxt where n: "protocol_get t = Some p" "pr_next p = Some nxt" "\<not> hc_truncated h"
    using f h by (auto simp: header_walk_def next_payload_def split: option.splits if_splits)
  obtain k where k: "header_size h = Inr k" "ptr + k \<le> unat (ch_caplen cp)"
    using ok n(3) h(3) by (auto simp: chunk_ok_def)
  have size: "ptr + pr_size p \<le> length (hc_mem h)" if "t \<noteq> PROTOCOL_GTP"
    using that k n(1) h mem by (cases t) (auto simp: header_size_def proto_entry_def)
  show ?thesis
  proof (cases "nxt h ptr")
    case (Inl e)
    then show ?thesis using next_fault [OF n(1,2) Inl] size h by blast
  next
    case (Inr r)
    obtain t' out net where r: "r = (t', out, net)" by (cases r)
    let ?g = "h\<lparr>hc_ptr := out, hc_protocol := Some t', hc_last_net := net\<rparr>"
    have t': "protocol_get t' \<noteq> None" using next_progress(1) [OF n(1,2)] Inr r by blast
    have "\<not> limited_caplen cp out 0 \<and> header_size ?g = Inl f"
      using f h n t' Inr r ptr_sanity_passes
      by (auto simp: header_walk_def next_payload_def rbind_Inl_iff Let_def split: option.splits if_splits)
    then have "t' = PROTOCOL_GTP"
      using header_size_fault [of ?g f t'] t' by (cases out) (auto simp: limited_caplen_def)
    then show ?thesis using next_gtp [OF n(1,2)] Inr r h by blast
  qed
qed

section \<open>Steps over link layer headers\<close>

lemma walk_to:
  assumes "hc_protocol h = Some t" "hc_ptr h = Some ptr" "\<not> hc_truncated h"
    and "protocol_get t = Some p" "pr_next p = Some nxt" "nxt h ptr = Inr (t', Some q, net)"
    and "protocol_get t' = Some p'" "pr_size_dyn p' = None" "q + pr_size p' \<le> unat (ch_caplen (hc_cp h))"
  shows "header_walk h = Inr (t' \<noteq> PROTOCOL_UNKNOWN \<and> t' \<noteq> PROTOCOL_DONE,
    h\<lparr>hc_ptr := Some q, hc_protocol := Some t', hc_last_net := net\<rparr>)"
  using assms by (simp add: header_walk_def next_payload_def header_size_def ptr_sanity_def limited_caplen_def)

text \<open>The link layer header whose ethertype is number \<open>j\<close> of the chain.\<close>

definition link_at :: "cap_header \<Rightarrow> nat \<Rightarrow> header_chunk \<Rightarrow> bool" where
  "link_at cp j h \<longleftrightarrow> visited cp h \<and> hc_cp h = cp \<and> \<not> hc_truncated h \<and>
     hc_protocol h = Some (if j = 0 then PROTOCOL_ETHERNET else PROTOCOL_VLAN) \<and>
     hc_ptr h = Some (if j = 0 then 0 else 10 + 4 * j)"

lemma link_step:
  assumes "link_at cp j h" "14 + 4 * j + pr_size p' \<le> unat (ch_caplen cp)" "unat (ch_caplen cp) \<le> length (ch_payload cp)"
    and "protocol_get (ethertype_next (ethertype_at (ch_payload cp) j)) = Some p'" "pr_size_dyn p' = None"
  shows "header_walk h = Inr (ethertype_next (ethertype_at (ch_payload cp) j) \<noteq> PROTOCOL_DONE,
    h\<lparr>hc_ptr := Some (14 + 4 * j), hc_protocol := Some (ethertype_next (ethertype_at (ch_payload cp) j))\<rparr>)"
proof -
  let ?t = "if j = 0 then PROTOCOL_ETHERNET else PROTOCOL_VLAN" and ?ptr = "if j = 0 then 0 else 10 + 4 * j"
  let ?n = "if j = 0 then ethernet_next else vlan_next"
  have l: "hc_cp h = cp" "hc_protocol h = Some ?t" "hc_ptr h = Some ?ptr" "\<not> hc_truncated h"
    using assms(1) by (simp_all add: link_at_def)
  have "rd16 (ch_payload cp) (12 + 4 * j) = Inr (ntohs (ethertype_at (ch_payload cp) j))"
    using assms(2,3) by (simp add: rd16_in ethertype_at_def)
  then have "?n h ?ptr = Inr (ethertype_next (ethertype_at (ch_payload cp) j), Some (14 + 4 * j), hc_last_net h)"
    using l(1) by (cases "j = 0") (simp_all add: ethernet_next_def vlan_next_def add.commute)
  moreover obtain p where "protocol_get ?t = Some p" "pr_next p = Some ?n"
    by (cases "j = 0") (simp_all add: proto_entry_def)
  ultimately show ?thesis
    using walk_to [OF l(2,3,4) _ _ _ assms(4,5)] assms(2) l(1) ethertype_next_known by simp
qed

lemma link_chain:
  assumes "\<And>i. i < j \<Longrightarrow> ethertype_at (ch_payload cp) i = ETHERTYPE_VLAN"
    and "14 + 4 * j \<le> unat (ch_caplen cp)" "unat (ch_caplen cp) \<le> length (ch_payload cp)"
  shows "\<exists>h. link_at cp j h"
  using assms
proof (induction j)
  case 0
  then show ?case
    using walk_first [of cp] visited.first
    by (fastforce simp: link_at_def chunk_ok_def header_walk_def header_init_def header_size_def proto_entry_def
        limited_caplen_def Let_def)
next
  case (Suc j)
  then obtain h where h: "link_at cp j h" by auto
  have t: "ethertype_next (ethertype_at (ch_payload cp) j) = PROTOCOL_VLAN"
    using Suc.prems(1) [of j] by (simp add: ethertype_next_def packet_consts)
  have "header_walk h = Inr (True, h\<lparr>hc_ptr := Some (14 + 4 * j), hc_protocol := Some PROTOCOL_VLAN\<rparr>)"
    using link_step [OF h, of "proto_entry ''vlan'' 4 (Some vlan_next)"] Suc.prems(2,3) t
    by (simp add: proto_entry_def)
  then have "link_at cp (Suc j) (h\<lparr>hc_ptr := Some (14 + 4 * j), hc_protocol := Some PROTOCOL_VLAN\<rparr>)"
    using h visited.further by (auto simp: link_at_def)
  then show ?case by blast
qed

lemma visited_ipv4:
  assumes "find_ipv4_header (ch_payload cp) = Inr (Some (off, pl))"
    and "unat (ch_caplen cp) \<le> length (ch_payload cp)" "off + 20 \<le> unat (ch_caplen cp)"
  obtains h where "visited cp h" "hc_cp h = cp" "hc_protocol h = Some PROTOCOL_IPV4" "hc_ptr h = Some off" "\<not> hc_truncated h"
proof -
  let ?m = "ch_payload cp"
  obtain k hl where k: "off = 14 + 4 * k" "\<And>i. i < k \<Longrightarrow> ethertype_at ?m i = ETHERTYPE_VLAN"
      "ethertype_at ?m k = ETHERTYPE_IP"
    using find_ipv4_chain [OF assms(1)] by blast
  then obtain h where h: "link_at cp k h" using link_chain [of k cp] assms by auto
  let ?h = "h\<lparr>hc_ptr := Some off, hc_protocol := Some PROTOCOL_IPV4\<rparr>"
  have "ethertype_next (ethertype_at ?m k) = PROTOCOL_IPV4"
    using k(3) by (simp add: ethertype_next_def packet_consts)
  then have "header_walk h = Inr (True, ?h)"
    using link_step [OF h, of "proto_entry ''IPv4'' 20 (Some ipv4_next)"] assms(2,3) k(1) by (simp add: proto_entry_def)
  then have "visited cp ?h" using h visited.further by (auto simp: link_at_def)
  then show thesis using that [of ?h] h by (simp add: link_at_def)
qed

section \<open>Sample packets\<close>

definition sample_packet :: "mem \<Rightarrow> cap_header" where
  "sample_packet bs = \<lparr>ch_nic = [], ch_mampid = [], ch_ts = timepico_new 0 0,
     ch_len = word_of_nat (length bs), ch_caplen = word_of_nat (length bs), ch_payload = bs\<rparr>"

text \<open>An ethernet frame with a VLAN tag, IPv4 and UDP, to the port of GTP-U, with one byte of data.\<close>

definition gtp_frame :: mem where
  "gtp_frame = replicate 12 0 @ [0x81, 0, 0, 1, 0x08, 0, 0x45, 0, 0, 29, 0, 0, 0, 0, 64, 17] @ replicate 10 1 @
     [0x08, 0x68, 0x08, 0x68, 0, 0, 0, 0, 0]"

lemma sample_packet_simps [simp]:
  "ch_payload (sample_packet bs) = bs" "ch_caplen (sample_packet bs) = word_of_nat (length bs)"
  by (simp_all add: sample_packet_def)

lemma length_gtp_frame [simp]: "length gtp_frame = 47"
  by (simp add: gtp_frame_def)

lemma gtp_frame_ipv4: "find_ipv4_header gtp_frame = Inr (Some (18, 38))"
proof -
  have "rd16 gtp_frame 12 = Inr 0x81" "rd16 gtp_frame 16 = Inr 0x08" "rd8 gtp_frame 18 = Inr 0x45"
    by (simp_all add: rd16_def rd8_def gtp_frame_def nth_append nth_Cons' le16_def)
  then show ?thesis
    by (simp add: find_ipv4_header_def find_ipv4_header_int_def h_proto_def ipv4_retry.simps packet_consts
        ip_hl_def ntohs_def le16_def)
qed

section \<open>Properties\<close>

text \<open>
  Claim C5. The loop over the headers of a packet ends, whatever the captured bytes are: every header
  behind which the walk goes on moves the position, and the position never leaves the captured bytes.
\<close>

theorem header_walk_terminates:
  "\<exists>r. visit_headers (unat (ch_caplen cp) + 3) (header_init cp) = Some r"
proof -
  obtain h where h: "header_walk (header_init cp) = Inr (True, h)" "chunk_ok cp h" "hc_ptr h = Some 0"
    using walk_first by blast
  define n where "n = unat (ch_caplen cp) + 2"
  have "visit_headers n h \<noteq> None"
    using visit_ends [OF h(2), of n] h(3) by (simp add: n_def del: visit_headers.simps)
  then have "\<exists>r. visit_headers (Suc n) (header_init cp) = Some r" using h(1) by auto
  then show ?thesis by (simp add: n_def numeral_3_eq_3 del: visit_headers.simps)
qed

text \<open>
  Claim C6. At every header the loop visits, the position lies inside the captured bytes and the whole
  header was captured unless it is flagged as truncated; and the step to the next header neither reads
  outside of the captured bytes nor aborts, except behind IPv6, MPLS and GTP headers and at UDP
  datagrams to a GTP port.
\<close>

theorem header_walk_safe:
  assumes "visited cp h" "unat (ch_caplen cp) \<le> length (ch_payload cp)"
    and "hc_protocol h \<notin> {Some PROTOCOL_IPV6, Some PROTOCOL_MPLS, Some PROTOCOL_GTP}"
    and "hc_protocol h = Some PROTOCOL_UDP \<Longrightarrow>
      (\<And>w. rd16 (ch_payload cp) (the (hc_ptr h) + 2) = Inr w \<Longrightarrow> ntohs w \<notin> {2152, 2123})"
  shows "(\<exists>ptr. hc_ptr h = Some ptr \<and> ptr \<le> unat (ch_caplen cp) \<and>
      (hc_truncated h \<or> (\<exists>n. header_size h = Inr n \<and> ptr + n \<le> unat (ch_caplen cp)))) \<and>
    (\<exists>cont h'. header_walk h = Inr (cont, h'))"
proof -
  have ok: "chunk_ok cp h" using assms(1) by (rule visited_ok)
  have "header_walk h \<noteq> Inl f" for f
    using walk_fault [OF ok assms(2), of f] assms(3,4) by auto
  then have "\<exists>cont h'. header_walk h = Inr (cont, h')"
    by (cases "header_walk h") auto
  then show ?thesis using ok by (auto simp: chunk_ok_def)
qed

theorem header_walk_safe_witness:
  "\<exists>h. visited (sample_packet gtp_frame) h \<and> hc_protocol h = Some PROTOCOL_IPV4 \<and>
    (\<exists>cont h'. header_walk h = Inr (cont, h'))"
proof -
  obtain h where h: "visited (sample_packet gtp_frame) h" "hc_protocol h = Some PROTOCOL_IPV4"
    using visited_ipv4 [of "sample_packet gtp_frame" 18 38] gtp_frame_ipv4 by auto
  then show ?thesis using header_walk_safe [OF h(1)] by (simp, blast)
qed

lemma ipv4_next_payload:
  assumes "hc_cp h = cp" "unat (ch_caplen cp) \<le> length (ch_payload cp)" "off + 20 \<le> unat (ch_caplen cp)"
    and "ip_hl (ch_payload cp) off = Inr hl" "5 \<le> hl"
  shows "\<exists>t net. ipv4_next h off = Inr (t, Some (off + 4 * hl), net)"
  using assms by (simp add: ipv4_next_def ip_src_of_def ip_dst_of_def ip_len_def ip_p_def rd8_in rd16_in rd32_in)

text \<open>
  Claim C33. The walk and \<open>find_ipv4_header\<close> agree: the header that \<open>find_ipv4_header\<close> finds, behind any
  number of VLAN tags, is visited as an IPv4 header at the same position; and when its length field is
  valid and the options were captured, the step behind it leads to the payload \<open>find_ipv4_header\<close> gives.
\<close>

theorem header_walk_finds_ipv4:
  assumes "find_ipv4_header (ch_payload cp) = Inr (Some (off, pl))"
    and "unat (ch_caplen cp) \<le> length (ch_payload cp)" "off + 20 \<le> unat (ch_caplen cp)"
  shows "\<exists>h. visited cp h \<and> hc_protocol h = Some PROTOCOL_IPV4 \<and> hc_ptr h = Some off \<and>
    (off + 20 \<le> pl \<longrightarrow> (\<exists>t net. ipv4_next h off = Inr (t, Some pl, net)))"
proof -
  obtain h where h: "visited cp h" "hc_cp h = cp" "hc_protocol h = Some PROTOCOL_IPV4" "hc_ptr h = Some off"
    using visited_ipv4 [OF assms] by blast
  obtain hl where hl: "ip_hl (ch_payload cp) off = Inr hl" "pl = off + 4 * hl"
    using find_ipv4_chain [OF assms(1)] by blast
  then show ?thesis
    using ipv4_next_payload [OF h(2) assms(2,3) hl(1)] h by auto
qed

theorem header_walk_finds_ipv4_witness:
  "\<exists>h. visited (sample_packet gtp_frame) h \<and> hc_protocol h = Some PROTOCOL_IPV4 \<and> hc_ptr h = Some 18 \<and>
    (18 + 20 \<le> (38::nat) \<longrightarrow> (\<exists>t net. ipv4_next h 18 = Inr (t, Some 38, net)))"
  using header_walk_finds_ipv4 [of "sample_packet gtp_frame" 18 38] gtp_frame_ipv4 by simp

text \<open>
  A UDP datagram to the port of GTP-U whose first data byte does not carry version 1 or 2 makes
  the walk abort the program: the size of the next header is computed from data that was never checked.
\<close>

lemma header_walk_gtp_aborts:
  assumes "visited cp h" "hc_protocol h = Some PROTOCOL_UDP" "\<not> hc_truncated h" "hc_ptr h = Some ptr"
    and "rd16 (ch_payload cp) ptr = Inr s" "ntohs s \<noteq> 53"
    and "rd16 (ch_payload cp) (ptr + 2) = Inr d" "ntohs d = 2152"
    and "rd8 (ch_payload cp) (ptr + 8) = Inr b" "drop_bit 5 b \<notin> {1, 2}"
  shows "header_walk h = Inl Aborted"
proof -
  have ok: "chunk_ok cp h" using assms(1) by (rule visited_ok)
  have "hc_cp h = cp" "ptr + 8 \<le> unat (ch_caplen cp)"
    using ok assms(2-4) by (auto simp: chunk_ok_def header_size_def proto_entry_def)
  then show ?thesis
    using assms(2-)
    by (simp add: header_walk_def next_payload_def proto_entry_def udp_next_def limited_caplen_def
        ptr_sanity_def header_size_def protocol_gtp_def gtp_header_size_def gtp_version_of_def)
qed

text \<open>
  When an IPv6 header was captured in part, at least the 20 bytes the protocol table asks for but
  not all 40, the walk reads its addresses behind the end of the captured bytes: the size that was meant
  to be tested is tested at the start of the packet.
\<close>

lemma header_walk_ipv6_overread:
  assumes "visited cp h" "hc_protocol h = Some PROTOCOL_IPV6" "\<not> hc_truncated h" "hc_ptr h = Some ptr"
    and "length (ch_payload cp) = unat (ch_caplen cp)" "40 \<le> unat (ch_caplen cp)" "unat (ch_caplen cp) < ptr + 40"
    and "ch_payload cp ! (ptr + 6) \<noteq> 0"
  shows "header_walk h = Inl Out_of_bounds"
proof -
  have ok: "chunk_ok cp h" using assms(1) by (rule visited_ok)
  have h: "hc_cp h = cp" "ptr + 20 \<le> unat (ch_caplen cp)"
    using ok assms(2-4) by (auto simp: chunk_ok_def header_size_def proto_entry_def)
  have "ipv6_total_header_size cp ptr = Inr (40, Some (ptr + 40, ch_payload cp ! (ptr + 6)))"
    using h(2) assms(5,6,8) by (simp add: ipv6_total_header_size_def limited_caplen_def is_ipv6_ext_def rd8_in)
  then have "ipv6_next h ptr = Inl Out_of_bounds"
    using h(1) assms(5,7) by (auto simp: ipv6_next_def rdn_def)
  then show ?thesis
    using assms(2-4) by (simp add: header_walk_def next_payload_def proto_entry_def)
qed

end
