(* ===== verification/Dns_Name.thy ===== *)
theory Dns_Name
  imports Header_Walk
begin

text \<open>
  The names of DNS packets, as \<open>src/protocols/dns.c\<close> decodes them: \<open>copy_label\<close>, \<open>dns_name_int\<close> and
  \<open>dns_name\<close>.

  Memory is what is readable from the DNS header on, so a position is an offset from \<open>payload\<close> and never
  lies before it; \<open>fin\<close> is the offset of \<open>end\<close>. Reads behind \<open>end\<close> that stay in readable memory have a
  value. The destination is an array of bytes, and a write behind it is a fault.

  The specification is the format of RFC 1035: \<open>name_at\<close> relates a position to the labels of the name that
  starts there.
\<close>

section \<open>The destination\<close>

record dns_out =
  do_buf :: "u8 list"
  do_pos :: nat
  do_size :: nat

definition wrn :: "u8 list \<Rightarrow> nat \<Rightarrow> u8 list \<Rightarrow> u8 list res" where
  "wrn buf pos xs =
     (if pos + length xs \<le> length buf then Inr (take pos buf @ xs @ drop (pos + length xs) buf) else Inl Out_of_bounds)"

text \<open>The bytes that \<open>%.*s\<close> prints: up to \<open>n\<close>, or to the null character.\<close>

fun str_upto :: "mem \<Rightarrow> nat \<Rightarrow> nat \<Rightarrow> u8 list res" where
  "str_upto m i 0 = Inr []"
| "str_upto m i (Suc n) =
     rbind (rd8 m i) (\<lambda>b. if b = 0 then Inr [] else rbind (str_upto m (i + 1) n) (\<lambda>bs. Inr (b # bs)))"

abbreviation (input) dot :: u8 where "dot \<equiv> 0x2e"

definition copy_label :: "dns_out \<Rightarrow> mem \<Rightarrow> nat \<Rightarrow> nat \<Rightarrow> (nat \<times> dns_out) res" where
  "copy_label d m src len =
     (if do_size d = 0 then Inr (0, d)
      else rbind (str_upto m src (min (do_size d) len)) (\<lambda>s.
        let text = s @ [dot]; bytes = length text in
        rbind (wrn (do_buf d) (do_pos d) (take (do_size d - 1) text @ [0])) (\<lambda>buf.
          let pos = do_pos d + min bytes (do_size d) in
          if bytes > do_size d then
            rbind (wrn buf (pos - 1) [dot, dot, dot, 0]) (\<lambda>buf.
              Inr (do_size d, d\<lparr>do_buf := buf, do_pos := pos\<rparr>))
          else Inr (bytes, d\<lparr>do_buf := buf, do_pos := pos\<rparr>))))"

section \<open>Names\<close>

definition MAX_LABEL_REFERENCES :: nat where "MAX_LABEL_REFERENCES = 32"

definition malformed :: "u8 list" where
  "malformed = map byte_of_char ''[malformed]''"

text \<open>
  The loop over the references that have been followed: nothing when the offset is zero, has been visited
  or there is no entry left, otherwise the entries with the offset recorded.
\<close>

fun visit_label :: "nat \<Rightarrow> nat list \<Rightarrow> nat list option" where
  "visit_label offset [] = None"
| "visit_label offset (v # vis) =
     (if offset = 0 \<or> v = offset then None
      else if v = 0 then Some (offset # vis)
      else map_option ((#) v) (visit_label offset vis))"

lemma visit_label_decreases:
  "visit_label offset vis = Some vis' \<Longrightarrow>
    length (filter (\<lambda>v. v = 0) vis') < length (filter (\<lambda>v. v = 0) vis)"
  by (induction vis arbitrary: vis') (auto split: if_splits)

definition label_offset :: "u8 \<Rightarrow> u8 \<Rightarrow> nat" where
  "label_offset len b = 256 * unat (len AND 0x3f) + unat b"

text \<open>
  The loop of \<open>dns_name_int\<close>, entered with the length byte and the position behind it. The result is the
  returned pointer and the destination; the pointer that a reference returns is not used.
\<close>

function dns_labels :: "mem \<Rightarrow> nat \<Rightarrow> u8 \<Rightarrow> nat \<Rightarrow> dns_out \<Rightarrow> nat list \<Rightarrow> (nat option \<times> dns_out) res" where
  "dns_labels m fin len src d vis =
     (if len AND 0xc0 = 0xc0 then
        rbind (rd8 m src) (\<lambda>b.
          let offset = label_offset len b; src = src + 1 in
          case visit_label offset vis of
            None \<Rightarrow> rbind (copy_label d (malformed @ [0]) 0 (length malformed)) (\<lambda>(_, d). Inr (Some src, d))
          | Some vis \<Rightarrow>
              if offset \<ge> fin then Inr (Some src, d)
              else rbind (rd8 m offset) (\<lambda>len.
                rbind (dns_labels m fin len (offset + 1) d vis) (\<lambda>(_, d). Inr (Some src, d))))
      else
        rbind (copy_label d m src (unat len)) (\<lambda>(n, d).
          let d = d\<lparr>do_size := do_size d - n\<rparr>; src = src + unat len in
          if src \<ge> fin then Inr (None, d)
          else rbind (rd8 m src) (\<lambda>len.
            if len = 0 then Inr (Some (src + 1), d) else dns_labels m fin len (src + 1) d vis)))"
  by pat_completeness auto
termination dns_labels
  by (relation "measures [\<lambda>(m, fin, len, src, d, vis). length (filter (\<lambda>v. v = 0) vis),
      \<lambda>(m, fin, len, src, d, vis). fin - src]") (auto dest: visit_label_decreases)

declare dns_labels.simps [simp del]

definition dns_name_int :: "mem \<Rightarrow> nat \<Rightarrow> nat \<Rightarrow> dns_out \<Rightarrow> nat list \<Rightarrow> (nat option \<times> dns_out) res" where
  "dns_name_int m fin src d vis =
     (if src \<ge> fin then Inr (None, d) else rbind (rd8 m src) (\<lambda>len. dns_labels m fin len (src + 1) d vis))"

definition dns_name :: "u8 list \<Rightarrow> nat \<Rightarrow> nat \<Rightarrow> nat \<Rightarrow> mem \<Rightarrow> (nat option \<times> u8 list) res" where
  "dns_name dst bsize src fin m =
     (let bsize = (if bsize \<noteq> 0 then bsize - 3 else bsize) in
      rbind (dns_name_int m fin src \<lparr>do_buf = dst, do_pos = 0, do_size = bsize\<rparr> (replicate MAX_LABEL_REFERENCES 0))
        (\<lambda>(p, d). Inr (p, do_buf d)))"

text \<open>A reference is followed by a call of \<open>dns_name_int\<close> with the offset recorded.\<close>

lemma dns_labels_reference:
  assumes "len AND 0xc0 = 0xc0" "rd8 m src = Inr b" "visit_label (label_offset len b) vis = Some vis'"
  shows "dns_labels m fin len src d vis =
    rbind (dns_name_int m fin (label_offset len b) d vis') (\<lambda>(_, d). Inr (Some (src + 1), d))"
  using assms by (subst dns_labels.simps) (simp add: dns_name_int_def rbind_assoc Let_def)

section \<open>Writes stay in the destination\<close>

lemma str_upto_readable: "i + n \<le> length m \<Longrightarrow> \<exists>s. str_upto m i n = Inr s \<and> length s \<le> n"
proof (induction n arbitrary: i)
  case (Suc n)
  from Suc.IH [of "i + 1"] Suc.prems show ?case by (force simp: rd8_def)
qed simp

lemma wrn_inside: "pos + length xs \<le> length buf \<Longrightarrow> \<exists>buf'. wrn buf pos xs = Inr buf' \<and> length buf' = length buf"
  by (simp add: wrn_def)

text \<open>The bytes left are those behind the position, less three for the dots.\<close>

definition dns_room :: "dns_out \<Rightarrow> bool" where
  "dns_room d \<longleftrightarrow> do_size d = 0 \<or> do_pos d + do_size d + 3 \<le> length (do_buf d)"

lemma copy_label_room:
  assumes "dns_room d" "src + min (do_size d) len \<le> length m \<or> do_size d = 0"
  shows "\<exists>n d'. copy_label d m src len = Inr (n, d') \<and> n \<le> do_size d \<and> length (do_buf d') = length (do_buf d) \<and>
    do_size d' = do_size d \<and> dns_room (d'\<lparr>do_size := do_size d' - n\<rparr>)"
proof (cases "do_size d = 0")
  case False
  then obtain s where s: "str_upto m src (min (do_size d) len) = Inr s" using str_upto_readable [of src _ m] assms(2) by metis
  let ?n = "Suc (length s)"
  let ?xs = "take (do_size d - 1) (s @ [dot]) @ [0]"
  have r: "do_pos d + do_size d + 3 \<le> length (do_buf d)" using assms(1) False by (simp add: dns_room_def)
  have "length ?xs \<le> do_size d" using False by simp
  then have "do_pos d + length ?xs \<le> length (do_buf d)" using r by linarith
  then obtain buf where buf: "wrn (do_buf d) (do_pos d) ?xs = Inr buf" "length buf = length (do_buf d)"
    using wrn_inside by blast
  show ?thesis
  proof (cases "?n > do_size d")
    case True
    then obtain buf' where "wrn buf (do_pos d + do_size d - 1) [dot, dot, dot, 0] = Inr buf'" "length buf' = length buf"
      using wrn_inside [of "do_pos d + do_size d - 1" "[dot, dot, dot, 0]" buf] buf(2) r False by auto
    then show ?thesis using True False s buf by (simp add: copy_label_def Let_def dns_room_def min_absorb2)
  next
    case nt: False
    then show ?thesis using False s buf r by (simp add: copy_label_def Let_def dns_room_def min_absorb1)
  qed
qed (use assms in \<open>simp add: copy_label_def dns_room_def\<close>)

lemma dns_labels_safe:
  assumes "dns_room d" "src \<le> fin" "fin + do_size d \<le> length m" "fin < length m"
  shows "\<exists>p d'. dns_labels m fin len src d vis = Inr (p, d') \<and> length (do_buf d') = length (do_buf d) \<and>
    (\<forall>q. p = Some q \<longrightarrow> src < q \<and> q \<le> fin + 1)"
  using assms
proof (induction m fin len src d vis rule: dns_labels.induct)
  case (1 m fin len src d vis)
  obtain b where b: "rd8 m src = Inr b" using "1.prems" by (simp add: rd8_def)
  show ?case
  proof (cases "len AND 0xc0 = 0xc0")
    case ref: True
    show ?thesis
    proof (cases "visit_label (label_offset len b) vis")
      case None
      have "0 + min (do_size d) (length malformed) \<le> length (malformed @ [0])" by simp
      then obtain n d' where "copy_label d (malformed @ [0]) 0 (length malformed) = Inr (n, d')"
          "length (do_buf d') = length (do_buf d)"
        using copy_label_room "1.prems"(1) by blast
      then show ?thesis using None ref b "1.prems"(2) by (subst dns_labels.simps) simp
    next
      case (Some vis')
      show ?thesis
      proof (cases "label_offset len b \<ge> fin")
        case True
        then show ?thesis using dns_labels_reference [OF ref b Some] "1.prems"(2) by (simp add: dns_name_int_def)
      next
        case False
        obtain len' where l: "rd8 m (label_offset len b) = Inr len'" using False "1.prems" by (simp add: rd8_def)
        show ?thesis using "1.IH"(1) [OF ref b refl refl Some False l "1.prems"(1) _ "1.prems"(3,4)] False l "1.prems"(2)
          by (fastforce simp: dns_labels_reference [OF ref b Some] dns_name_int_def)
      qed
    qed
  next
    case lab: False
    obtain n d1 where c: "copy_label d m src (unat len) = Inr (n, d1)" "length (do_buf d1) = length (do_buf d)"
        "do_size d1 = do_size d" "dns_room (d1\<lparr>do_size := do_size d1 - n\<rparr>)"
      using copy_label_room [OF "1.prems"(1), of src "unat len" m] "1.prems"(2,3) by fastforce
    show ?thesis
    proof (cases "src + unat len \<ge> fin")
      case True
      then show ?thesis using lab c by (subst dns_labels.simps) simp
    next
      case False
      then obtain len' where l: "rd8 m (src + unat len) = Inr len'" using "1.prems" by (simp add: rd8_def)
      show ?thesis
      proof (cases "len' = 0")
        case True
        then show ?thesis using lab c l False by (subst dns_labels.simps) simp
      next
        case ne: False
        have "dns_labels m fin len src d vis =
            dns_labels m fin len' (src + unat len + 1) (d1\<lparr>do_size := do_size d1 - n\<rparr>) vis"
          using lab c(1) l False ne by (subst dns_labels.simps) simp
        then show ?thesis
          using "1.IH"(2) [OF lab c(1) refl refl refl False l ne c(4)] False c(2,3) "1.prems"(3,4) by fastforce
      qed
    qed
  qed
qed

section \<open>Names as RFC 1035 has them\<close>

text \<open>
  The labels of the name at position \<open>p\<close>, the number of references followed and the position behind the
  name. A name starts at \<open>s\<close>, and a reference leads to a name that starts before it.
\<close>

inductive name_at :: "mem \<Rightarrow> nat \<Rightarrow> nat \<Rightarrow> nat \<Rightarrow> nat \<Rightarrow> u8 list list \<Rightarrow> nat \<Rightarrow> bool" for m :: mem and fin :: nat where
  name_end: "p < fin \<Longrightarrow> m ! p = 0 \<Longrightarrow> name_at m fin s p 0 [] (p + 1)"
| name_label: "p < fin \<Longrightarrow> unat (m ! p) = length l \<Longrightarrow> 0 < length l \<Longrightarrow> length l < 64 \<Longrightarrow> 0 \<notin> set l \<Longrightarrow>
    take (length l) (drop (p + 1) m) = l \<Longrightarrow> name_at m fin s (p + 1 + length l) k ls q \<Longrightarrow> name_at m fin s p k (l # ls) q"
| name_ref: "p + 1 < fin \<Longrightarrow> m ! p AND 0xc0 = 0xc0 \<Longrightarrow> off = label_offset (m ! p) (m ! (p + 1)) \<Longrightarrow> 0 < off \<Longrightarrow> off < s \<Longrightarrow>
    ls \<noteq> [] \<Longrightarrow> name_at m fin off off k ls q' \<Longrightarrow> name_at m fin s p (Suc k) ls (p + 2)"

definition name_text :: "u8 list list \<Rightarrow> u8 list" where
  "name_text ls = concat (map (\<lambda>l. l @ [dot]) ls)"

lemma and_c0_small: "unat (x :: u8) < 64 \<Longrightarrow> x AND 0xc0 \<noteq> 0xc0"
proof -
  assume "unat x < 64"
  then have "unat (take_bit 6 x) = unat x" by (simp add: unsigned_take_bit_eq) (simp add: take_bit_eq_mod)
  then have "take_bit 6 x = x" by (simp only: word_unat_eq_iff)
  then have "x AND 0xc0 = x AND (mask 6 AND 0xc0)" by (metis take_bit_eq_mask and.assoc)
  also have "mask 6 AND 0xc0 = (0 :: u8)" by (simp add: mask_eq_exp_minus_1)
  finally show ?thesis by simp
qed

lemma name_at_first:
  assumes "name_at m fin s p k ls q"
  shows "p < fin" "ls = [] \<longleftrightarrow> m ! p = 0" "ls = [] \<Longrightarrow> q = p + 1"
  using assms by (cases rule: name_at.cases; auto)+

lemma str_upto_label: "take n (drop i m) = s \<Longrightarrow> length s = n \<Longrightarrow> 0 \<notin> set s \<Longrightarrow> str_upto m i n = Inr s"
proof (induction n arbitrary: i s)
  case (Suc n)
  then obtain b t where s: "s = b # t" "length t = n" by (cases s) auto
  have i: "i < length m" using Suc.prems(1,2) by (cases "i < length m") auto
  then have "drop i m = m ! i # drop (Suc i) m" by (rule Cons_nth_drop_Suc [symmetric])
  then have "m ! i = b" "take n (drop (i + 1) m) = t" using Suc.prems(1) s by simp_all
  then show ?case using Suc.IH [of "i + 1" t] Suc.prems(3) s i by (auto simp: rd8_def)
qed simp

text \<open>The text written so far, ended by a null character.\<close>

definition written :: "u8 list \<Rightarrow> u8 list \<Rightarrow> bool" where
  "written t buf \<longleftrightarrow> (\<exists>r. buf = t @ 0 # r)"

lemma copy_label_label:
  assumes "dns_room d" "length l + 1 < do_size d" "take (length l) (drop src m) = l" "0 \<notin> set l"
    and "do_pos d = length t" "take (length t) (do_buf d) = t"
  shows "\<exists>d'. copy_label d m src (length l) = Inr (length l + 1, d') \<and> do_size d' = do_size d \<and>
    do_pos d' = length (t @ l @ [dot]) \<and> written (t @ l @ [dot]) (do_buf d') \<and> length (do_buf d') = length (do_buf d)"
proof -
  have r: "length t + do_size d + 3 \<le> length (do_buf d)" using assms(1,2,5) by (auto simp: dns_room_def)
  let ?buf = "t @ (l @ [dot, 0]) @ drop (length t + length l + 2) (do_buf d)"
  have "wrn (do_buf d) (do_pos d) (take (do_size d - 1) (l @ [dot]) @ [0]) = Inr ?buf"
    using r assms(2,5,6) by (simp add: wrn_def)
  moreover have "str_upto m src (min (do_size d) (length l)) = Inr l"
    using str_upto_label [OF assms(3) refl assms(4)] assms(2) by (simp add: min_absorb2)
  ultimately have "copy_label d m src (length l) =
      Inr (length l + 1, d\<lparr>do_buf := ?buf, do_pos := length (t @ l @ [dot])\<rparr>)"
    using assms(2,5) by (simp add: copy_label_def Let_def min_absorb1)
  then show ?thesis using r assms(2) by (auto simp: written_def)
qed

lemma visit_label_new:
  "0 < offset \<Longrightarrow> \<forall>v\<in>set vs. offset < v \<Longrightarrow>
    visit_label offset (vs @ replicate (Suc n) 0) = Some (vs @ offset # replicate n 0)"
  by (induction vs) auto

lemma dns_labels_decodes:
  assumes "name_at m fin s p k ls q" "ls \<noteq> []" "fin \<le> length m" "dns_room d" "length (name_text ls) < do_size d"
    and "k \<le> n" "\<forall>v\<in>set vs. s \<le> v" "do_pos d = length t" "take (length t) (do_buf d) = t"
  shows "\<exists>d'. dns_labels m fin (m ! p) (p + 1) d (vs @ replicate n 0) = Inr (Some q, d') \<and>
    written (t @ name_text ls) (do_buf d') \<and> length (do_buf d') = length (do_buf d)"
  using assms
proof (induction arbitrary: d vs n t rule: name_at.induct)
  case (name_label p l s k ls q)
  let ?p = "p + 1 + length l"
  have lt: "length l + 1 < do_size d" "length (name_text ls) < do_size d - (length l + 1)"
    using name_label.prems(4) by (simp_all add: name_text_def)
  obtain d1 where c: "copy_label d m (p + 1) (length l) = Inr (length l + 1, d1)" "do_size d1 = do_size d"
      "do_pos d1 = length (t @ l @ [dot])" "written (t @ l @ [dot]) (do_buf d1)" "length (do_buf d1) = length (do_buf d)"
    using copy_label_label [OF name_label.prems(3) lt(1) name_label.hyps(6,5) name_label.prems(7,8)] by blast
  let ?d = "d1\<lparr>do_size := do_size d1 - (length l + 1)\<rparr>"
  note f = name_at_first [OF name_label.hyps(7)]
  have step: "dns_labels m fin (m ! p) (p + 1) d (vs @ replicate n 0) =
      (if m ! ?p = 0 then Inr (Some (?p + 1), ?d) else dns_labels m fin (m ! ?p) (?p + 1) ?d (vs @ replicate n 0))"
    using and_c0_small [of "m ! p"] name_label.hyps(2,4) name_label.prems(2) f(1) c(1)
    by (subst dns_labels.simps) (simp add: rd8_def)
  show ?case
  proof (cases "ls = []")
    case True
    then show ?thesis using step f c(4,5) by (simp add: name_text_def)
  next
    case False
    have "dns_room ?d" using name_label.prems(3,7) lt c(2,3,5) by (auto simp: dns_room_def)
    moreover have "take (length (t @ l @ [dot])) (do_buf ?d) = t @ l @ [dot]" using c(4) by (auto simp: written_def)
    ultimately show ?thesis
      using name_label.IH [OF False name_label.prems(2), of ?d n vs "t @ l @ [dot]"] name_label.prems(5,6) lt(2) c(2,3,5) step f(2) False
      by (simp add: name_text_def)
  qed
next
  case (name_ref p off s ls k q')
  obtain n' where n: "n = Suc n'" "k \<le> n'" using name_ref.prems(5) by (cases n) auto
  have v: "visit_label (label_offset (m ! p) (m ! (p + 1))) (vs @ replicate n 0) = Some ((vs @ [off]) @ replicate n' 0)"
    using visit_label_new [of off vs n'] name_ref.hyps(3,4,5) name_ref.prems(6) n(1) by force
  have b: "rd8 m (p + 1) = Inr (m ! (p + 1))" using name_ref.hyps(1) name_ref.prems(2) by (simp add: rd8_def)
  have o: "off < fin" "rd8 m off = Inr (m ! off)"
    using name_at_first(1) [OF name_ref.hyps(7)] name_ref.prems(2) by (simp_all add: rd8_def)
  have "\<forall>v\<in>set (vs @ [off]). off \<le> v" using name_ref.prems(6) name_ref.hyps(5) by auto
  from name_ref.IH [OF name_ref.hyps(6) name_ref.prems(2,3,4) n(2) this name_ref.prems(7,8)] obtain d' where
    "dns_labels m fin (m ! off) (off + 1) d ((vs @ [off]) @ replicate n' 0) = Inr (Some q', d')"
    and w: "written (t @ name_text ls) (do_buf d')" "length (do_buf d') = length (do_buf d)" by blast
  then have "dns_name_int m fin off d ((vs @ [off]) @ replicate n' 0) = Inr (Some q', d')"
    using o by (simp add: dns_name_int_def)
  then have "dns_labels m fin (m ! p) (p + 1) d (vs @ replicate n 0) = Inr (Some (p + 2), d')"
    using dns_labels_reference [OF name_ref.hyps(2) b v] name_ref.hyps(3) by simp
  with w show ?case by blast
qed simp

lemma dns_name_first_label:
  assumes "src < fin" "fin \<le> length m"
  shows "dns_name dst bsize src fin m =
    rbind (dns_labels m fin (m ! src) (src + 1)
        \<lparr>do_buf = dst, do_pos = 0, do_size = (if bsize \<noteq> 0 then bsize - 3 else bsize)\<rparr> (replicate 32 0))
      (\<lambda>(p, d). Inr (p, do_buf d))"
  using assms by (simp add: dns_name_def dns_name_int_def rd8_def MAX_LABEL_REFERENCES_def)

text \<open>The sample packet: a header, the name \<open>a.bc.\<close> and a name that refers to it.\<close>

definition dns_sample :: mem where
  "dns_sample = replicate 12 0 @ [1, 97, 2, 98, 99, 0] @ [1, 120, 0xc0, 12] @ [0, 1, 0, 1]"

lemma dns_sample_name:
  assumes "22 \<le> fin"
  shows "name_at (dns_sample @ r) fin 18 18 1 [[120], [97], [98, 99]] 22"
proof -
  have 0: "name_at (dns_sample @ r) fin 12 17 0 [] (17 + 1)"
    by (rule name_end) (use assms in \<open>simp_all add: dns_sample_def nth_append\<close>)
  have 1: "name_at (dns_sample @ r) fin 12 14 0 [[98, 99]] 18"
    by (rule name_label) (use 0 assms in \<open>simp_all add: dns_sample_def nth_append\<close>)
  have 2: "name_at (dns_sample @ r) fin 12 12 0 [[97], [98, 99]] 18"
    by (rule name_label) (use 1 assms in \<open>simp_all add: dns_sample_def nth_append\<close>)
  have 3: "name_at (dns_sample @ r) fin 18 20 (Suc 0) [[97], [98, 99]] (20 + 2)"
    by (rule name_ref [OF _ _ _ _ _ _ 2]) (use assms in \<open>simp_all add: dns_sample_def nth_append label_offset_def\<close>)
  show ?thesis by (rule name_label) (use 3 assms in \<open>simp_all add: dns_sample_def nth_append\<close>)
qed

section \<open>Properties\<close>

text \<open>
  Claim C8. Decoding implements the format of RFC 1035: for a name of at least one label with references to
  earlier names, at most 32 deep, whose text fits, the destination holds the labels with a dot behind each,
  null-terminated, and the position returned is that behind the name.
\<close>

theorem dns_name_decodes:
  assumes "name_at m fin src src k ls q" "ls \<noteq> []" "k \<le> 32" "fin \<le> length m"
    and "length (name_text ls) + 3 < bsize" "bsize \<le> length dst"
  shows "\<exists>buf. dns_name dst bsize src fin m = Inr (Some q, buf) \<and> written (name_text ls) buf \<and> length buf = length dst"
proof -
  let ?d = "\<lparr>do_buf = dst, do_pos = 0, do_size = bsize - 3\<rparr>"
  have "dns_room ?d" using assms(5,6) by (simp add: dns_room_def)
  then obtain d' where "dns_labels m fin (m ! src) (src + 1) ?d (replicate 32 0) = Inr (Some q, d')"
      "written (name_text ls) (do_buf d')" "length (do_buf d') = length dst"
    using dns_labels_decodes [OF assms(1,2,4), of ?d 32 "[]" "[]"] assms(3,5) by (auto simp: less_diff_conv)
  then show ?thesis
    using dns_name_first_label [OF name_at_first(1) [OF assms(1)] assms(4), of dst bsize] assms(5) by simp
qed

theorem dns_name_decodes_witness:
  "\<exists>buf. dns_name (replicate 128 1) 128 18 22 dns_sample = Inr (Some 22, buf) \<and>
    written (name_text [[120], [97], [98, 99]]) buf \<and> length buf = length (replicate 128 (1 :: u8))"
  by (rule dns_name_decodes [OF dns_sample_name [of 22 "[]", unfolded append_Nil2]])
    (simp_all add: dns_sample_def name_text_def)

text \<open>
  Claim C22. Decoding a name ends for every packet, writes only into the destination and returns a position at
  most one behind the end of the captured data, provided that the bytes a truncated label is taken to have
  are readable behind that end.
\<close>

theorem dns_name_safe:
  assumes "bsize = 0 \<or> 3 \<le> bsize \<and> bsize \<le> length dst" "fin + bsize \<le> length m" "fin < length m"
  shows "\<exists>p buf. dns_name dst bsize src fin m = Inr (p, buf) \<and> length buf = length dst \<and>
    (\<forall>q. p = Some q \<longrightarrow> src < q \<and> q \<le> fin + 1)"
proof (cases "src < fin")
  case True
  let ?d = "\<lparr>do_buf = dst, do_pos = 0, do_size = (if bsize \<noteq> 0 then bsize - 3 else bsize)\<rparr>"
  have "dns_room ?d" "fin + do_size ?d \<le> length m" using assms(1,2) by (auto simp: dns_room_def)
  from dns_labels_safe [OF this(1) _ this(2) assms(3), of "src + 1" "m ! src" "replicate 32 0"] True show ?thesis
    using dns_name_first_label [OF True, of m dst bsize] assms(3) by fastforce
qed (simp add: dns_name_def dns_name_int_def)

theorem dns_name_safe_witness:
  "\<exists>p buf. dns_name (replicate 128 1) 128 12 13 (replicate 12 0 @ [63] @ replicate 140 97) = Inr (p, buf) \<and>
    length buf = length (replicate 128 (1 :: u8)) \<and> (\<forall>q. p = Some q \<longrightarrow> 12 < q \<and> q \<le> 13 + 1)"
  by (rule dns_name_safe) simp_all

text \<open>
  The name of the root, a single zero byte, is not decoded: the loop body runs once for it and takes
  the byte that follows for the length of a label, so that the position returned is two behind the name when
  that byte is zero, as it is in front of every common query type.
\<close>

lemma dns_name_root:
  assumes "src + 1 < fin" "fin \<le> length m" "m ! src = 0" "m ! (src + 1) = 0" "6 \<le> bsize" "bsize \<le> length dst"
  shows "\<exists>buf. dns_name dst bsize src fin m = Inr (Some (src + 2), buf) \<and> written [dot] buf"
proof -
  let ?d = "\<lparr>do_buf = dst, do_pos = 0, do_size = bsize - 3\<rparr>"
  have "dns_room ?d" using assms(5,6) by (simp add: dns_room_def)
  then obtain d' where c: "copy_label ?d m (src + 1) 0 = Inr (1, d')" "written [dot] (do_buf d')"
    using copy_label_label [of ?d "[]" "src + 1" m "[]"] assms(5) by (auto simp: less_diff_conv)
  have "dns_labels m fin 0 (src + 1) ?d (replicate 32 0) =
      Inr (Some (src + 2), d'\<lparr>do_size := do_size d' - 1\<rparr>)"
    using c(1) assms(1,2,4) by (subst dns_labels.simps) (simp add: rd8_def)
  then show ?thesis
    using dns_name_first_label [of src fin m dst bsize] assms(1-3,5) c(2) by simp
qed

text \<open>
  A reference behind the captured data leaves the destination as it was, and yet a position is returned:
  the caller prints an array that was not written.
\<close>

lemma dns_name_unwritten:
  assumes "src + 1 < fin" "fin \<le> length m" "m ! src AND 0xc0 = 0xc0" "fin \<le> label_offset (m ! src) (m ! (src + 1))"
  shows "dns_name dst bsize src fin m = Inr (Some (src + 2), dst)"
proof -
  have v: "visit_label (label_offset (m ! src) (m ! (src + 1))) (replicate 32 0) =
      Some (label_offset (m ! src) (m ! (src + 1)) # replicate 31 0)"
    using visit_label_new [of "label_offset (m ! src) (m ! (src + 1))" "[]" 31] assms(1,4) by (simp add: numeral_eq_Suc)
  have b: "rd8 m (src + 1) = Inr (m ! (src + 1))" using assms(1,2) by (simp add: rd8_def)
  show ?thesis using dns_name_first_label [of src fin m dst bsize] dns_labels_reference [OF assms(3) b v] assms
    by (simp add: dns_name_int_def)
qed

text \<open>The length of a label is not compared with the end of the captured data before the label is copied.\<close>

lemma dns_name_overread:
  assumes "src + 1 = fin" "fin = length m" "0 < unat (m ! src)" "m ! src AND 0xc0 \<noteq> 0xc0" "3 < bsize"
  shows "dns_name dst bsize src fin m = Inl Out_of_bounds"
proof -
  obtain k where "min (bsize - 3) (unat (m ! src)) = Suc k"
    using assms(3,5) by (cases "min (bsize - 3) (unat (m ! src))") (auto simp: min_def split: if_splits)
  then have "str_upto m (src + 1) (min (bsize - 3) (unat (m ! src))) = Inl Out_of_bounds"
    using assms(1,2) by (simp add: rd8_def)
  then show ?thesis
    using dns_name_first_label [of src fin m dst bsize] assms by (simp add: dns_labels.simps [of m] copy_label_def)
qed

end
