(* ===== verification/Dns_Print.thy ===== *)
theory Dns_Print
  imports Dns_Name
begin

text \<open>
  Printing DNS packets (\<open>src/protocols/dns.c\<close>): the line for a packet (\<open>dns_format\<close> with \<open>print_query\<close> and
  \<open>print_response\<close>) and the long form (\<open>dns_dump\<close>), with \<open>fputs_printable\<close> of \<open>src/format.c\<close>. The output is
  the string that is written. Positions are offsets from the DNS header, as in \<open>Dns_Name\<close>.

  The arrays that names are decoded into are not initialised; \<open>junk\<close> is what they hold.
\<close>

section \<open>Formatting\<close>

text \<open>\<open>%0nx\<close>.\<close>

definition hex_pad :: "nat \<Rightarrow> nat \<Rightarrow> string" where
  "hex_pad n x = replicate (n - length (hex x)) CHR ''0'' @ hex x"

text \<open>\<open>%0nX\<close>.\<close>

definition hex_pad_upper :: "nat \<Rightarrow> nat \<Rightarrow> string" where
  "hex_pad_upper n x =
     map (\<lambda>c. let k = of_char c :: nat in if 97 \<le> k \<and> k \<le> 102 then char_of (k - 32) else c) (hex_pad n x)"

definition isprint :: "u8 \<Rightarrow> bool" where
  "isprint b \<longleftrightarrow> 32 \<le> unat b \<and> unat b < 127"

definition printable :: "u8 \<Rightarrow> string" where
  "printable b = (if isprint b \<and> b \<noteq> 0x0a then [char_of_byte b] else CHR 0x5c # CHR ''x'' # hex_pad 2 (unat b))"

text \<open>\<open>strlen\<close> reads to the null character; with a limit the string is printed up to it.\<close>

definition fputs_printable :: "u8 list \<Rightarrow> nat option \<Rightarrow> string res" where
  "fputs_printable str limit =
     (if 0 \<in> set str then
        let s = takeWhile (\<lambda>b. b \<noteq> 0) str;
            n = (case limit of Some k \<Rightarrow> min k (length s) | None \<Rightarrow> length s)
        in Inr (concat (map printable (take n s)))
      else Inl Out_of_bounds)"

text \<open>A string that is put out in front of the rest.\<close>

definition emit :: "string \<Rightarrow> string res \<Rightarrow> string res" where
  "emit s r = rbind r (\<lambda>t. Inr (s @ t))"

lemma emit_Inr [simp]: "emit s (Inr t) = Inr (s @ t)"
  by (simp add: emit_def)

section \<open>Tables\<close>

definition TYPE_ANY :: nat where "TYPE_ANY = 255"

definition dns_type_lut :: "nat \<Rightarrow> string option" where
  "dns_type_lut = map_of [(1, ''A''), (2, ''NS''), (5, ''CNAME''), (6, ''SOA''), (12, ''PTR''), (15, ''MX''),
     (16, ''TXT''), (28, ''AAAA''), (99, ''SPF''), (251, ''IXFR''), (252, ''AXFR''), (255, ''ANY'')]"

definition dns_class_lut :: "nat \<Rightarrow> string option" where
  "dns_class_lut = map_of [(1, ''IN''), (2, ''CS''), (3, ''CH''), (4, ''HS'')]"

definition dns_opcode_lut :: "nat \<Rightarrow> string option" where
  "dns_opcode_lut = map_of [(0, ''Query''), (1, ''Inverse query''), (2, ''Status''), (4, ''Notify''), (5, ''Update'')]"

definition CLASS_MAX :: nat where "CLASS_MAX = 5"

definition dns_class_name :: "u16 \<Rightarrow> string option" where
  "dns_class_name cl = (if unat cl < CLASS_MAX then dns_class_lut (unat cl) else Some ''INVALID'')"

text \<open>A null pointer as the argument of \<open>%s\<close>.\<close>

definition str_arg :: "string option \<Rightarrow> string res" where
  "str_arg s = (case s of Some t \<Rightarrow> Inr t | None \<Rightarrow> Inl Null_deref)"

definition type_text :: "u16 \<Rightarrow> string option" where
  "type_text t = (if unat t \<le> TYPE_ANY then dns_type_lut (unat t) else None)"

section \<open>The header\<close>

record dns_header =
  dh_id :: u16
  dh_flags :: u16
  dh_qdcount :: u16
  dh_ancount :: u16
  dh_nscount :: u16
  dh_arcount :: u16

definition sizeof_dns_header :: nat where "sizeof_dns_header = 12"

text \<open>The header in memory; the caller swaps the flags.\<close>

definition dns_header_of :: "mem \<Rightarrow> dns_header res" where
  "dns_header_of m =
     rbind (rd16 m 0) (\<lambda>i. rbind (rd16 m 2) (\<lambda>f. rbind (rd16 m 4) (\<lambda>qd. rbind (rd16 m 6) (\<lambda>an.
     rbind (rd16 m 8) (\<lambda>ns. rbind (rd16 m 10) (\<lambda>ar.
       Inr \<lparr>dh_id = i, dh_flags = ntohs f, dh_qdcount = qd, dh_ancount = an, dh_nscount = ns, dh_arcount = ar\<rparr>))))))"

text \<open>The bit fields of the flags on a little-endian host.\<close>

definition dh_rcode :: "dns_header \<Rightarrow> nat" where "dh_rcode h = unat (dh_flags h AND 15)"

definition dh_z :: "dns_header \<Rightarrow> nat" where "dh_z h = unat (drop_bit 4 (dh_flags h) AND 7)"

definition dh_bit :: "dns_header \<Rightarrow> nat \<Rightarrow> nat" where "dh_bit h i = of_bool (bit (dh_flags h) i)"

definition dh_opcode :: "dns_header \<Rightarrow> nat" where "dh_opcode h = unat (drop_bit 11 (dh_flags h) AND 15)"

abbreviation (input) dh_ra where "dh_ra h \<equiv> dh_bit h 7"
abbreviation (input) dh_rd where "dh_rd h \<equiv> dh_bit h 8"
abbreviation (input) dh_tc where "dh_tc h \<equiv> dh_bit h 9"
abbreviation (input) dh_aa where "dh_aa h \<equiv> dh_bit h 10"
abbreviation (input) dh_qr where "dh_qr h \<equiv> dh_bit h 15"

abbreviation (input) size_limited :: string where
  "size_limited \<equiv> '' [Packet size limited during capture]''"

section \<open>Queries\<close>

text \<open>The loop over the questions, from question \<open>i\<close> on; \<open>qname\<close> has 128 bytes.\<close>

function query_loop :: "u8 list \<Rightarrow> mem \<Rightarrow> nat \<Rightarrow> nat \<Rightarrow> nat \<Rightarrow> nat \<Rightarrow> string res" where
  "query_loop junk m fin n i ptr =
     (if \<not> i < n then Inr []
      else emit (if i > 1 then '', '' else [])
        (rbind (dns_name junk 128 ptr fin m) (\<lambda>(p, qname).
           case p of
             None \<Rightarrow> Inr size_limited
           | Some ptr \<Rightarrow>
               if ptr + 4 \<ge> fin then Inr size_limited
               else rbind (rd16 m ptr) (\<lambda>qtype. rbind (rd16 m (ptr + 2)) (\<lambda>qclass.
                 rbind (str_arg (dns_class_name (ntohs qclass))) (\<lambda>cl.
                 emit (cl @ '' '' @
                     (case type_text (ntohs qtype) of Some t \<Rightarrow> t | None \<Rightarrow> ''('' @ dec (unat (ntohs qtype)) @ '')'') @ '' '')
                   (rbind (fputs_printable qname None) (\<lambda>name.
                     emit name (query_loop junk m fin n (i + 1) (ptr + 4))))))))))"
  by pat_completeness auto
termination query_loop
  by (relation "measure (\<lambda>(junk, m, fin, n, i, ptr). n - i)") auto

declare query_loop.simps [simp del]

definition print_query :: "u8 list \<Rightarrow> dns_header \<Rightarrow> nat \<Rightarrow> nat \<Rightarrow> mem \<Rightarrow> string res" where
  "print_query junk h ptr fin m =
     emit ('' Standard query 0x'' @ hex_pad 4 (unat (ntohs (dh_id h))) @ '' [qdcount='' @ dec (unat (ntohs (dh_qdcount h))) @ ''] '')
       (query_loop junk m fin (unat (ntohs (dh_qdcount h))) 0 ptr)"

section \<open>Responses\<close>

text \<open>Discarding the questions: the position behind them, or none when the data ends before.\<close>

fun skip_questions :: "mem \<Rightarrow> nat \<Rightarrow> nat \<Rightarrow> nat \<Rightarrow> nat option res" where
  "skip_questions m fin 0 ptr = Inr (Some ptr)"
| "skip_questions m fin (Suc n) ptr =
     rbind (dns_name [] 0 ptr fin m) (\<lambda>(p, _).
       case p of
         None \<Rightarrow> Inr None
       | Some ptr \<Rightarrow> if ptr + 4 \<ge> fin then Inr None else skip_questions m fin n (ptr + 4))"

text \<open>
  The data of an answer of class \<open>IN\<close>: the text, the position and the length after a priority has been
  skipped, and the array \<open>name\<close>. The value of \<open>dns_name\<close> is not used.
\<close>

definition answer_name :: "u8 list \<Rightarrow> mem \<Rightarrow> nat \<Rightarrow> nat \<Rightarrow> string res" where
  "answer_name name m fin ptr =
     rbind (dns_name name 128 ptr fin m) (\<lambda>(_, name). rbind (fputs_printable name None) (\<lambda>s. Inr (s @ '' '')))"

definition answer_data :: "u8 list \<Rightarrow> mem \<Rightarrow> nat \<Rightarrow> u16 \<Rightarrow> nat \<Rightarrow> u16 \<Rightarrow> (string \<times> nat \<times> u16) res" where
  "answer_data name m fin type ptr rdlen =
     (if type = 1 then rbind (rd32 m ptr) (\<lambda>a. Inr (inet_ntoa a @ '' '', ptr, rdlen))
      else if type = 28 then rbind (rdn m ptr 16) (\<lambda>a. Inr (inet_ntop6 a @ '' '', ptr, rdlen))
      else if type = 15 then
        rbind (rd16 m ptr) (\<lambda>prio. rbind (answer_name name m fin (ptr + 2)) (\<lambda>s.
          Inr (dec (unat (ntohs prio)) @ '' '' @ s, ptr + 2, rdlen - 2)))
      else if type \<in> {2, 5, 6, 12, 16, 99} then
        rbind (answer_name name m fin ptr) (\<lambda>s. Inr (s, ptr, rdlen))
      else Inr ([], ptr, rdlen))"

fun answer_loop :: "u8 list \<Rightarrow> mem \<Rightarrow> nat \<Rightarrow> nat \<Rightarrow> nat \<Rightarrow> string res" where
  "answer_loop junk m fin 0 ptr = Inr []"
| "answer_loop junk m fin (Suc n) ptr =
     rbind (dns_name junk 128 ptr fin m) (\<lambda>(p, name).
       case p of
         None \<Rightarrow> Inr size_limited
       | Some ptr \<Rightarrow>
           if ptr + 10 \<ge> fin then Inr size_limited
           else rbind (rd16 m ptr) (\<lambda>type. rbind (rd16 m (ptr + 2)) (\<lambda>cl. rbind (rd32 m (ptr + 4)) (\<lambda>ttl.
             rbind (rd16 m (ptr + 8)) (\<lambda>rdlen.
             emit ((case type_text (ntohs type) of Some t \<Rightarrow> t @ '' '' | None \<Rightarrow> ''('' @ dec (unat (ntohs type)) @ '') '') @
                 ''[ttl='' @ dec (unat (ntohl ttl)) @ ''d] '')
               (rbind (if ntohs cl = 1 then answer_data name m fin (ntohs type) (ptr + 10) (ntohs rdlen)
                       else rbind (str_arg (dns_class_name (ntohs cl))) (\<lambda>c. Inr (c @ '' '', ptr + 10, ntohs rdlen)))
                 (\<lambda>(s, ptr, rdlen). emit s (answer_loop junk m fin n (ptr + unat rdlen)))))))))"

definition print_response :: "u8 list \<Rightarrow> dns_header \<Rightarrow> nat \<Rightarrow> nat \<Rightarrow> mem \<Rightarrow> string res" where
  "print_response junk h ptr fin m =
     emit ('' Standard query response 0x'' @ hex_pad 4 (unat (ntohs (dh_id h))) @ '' '')
       (rbind (skip_questions m fin (unat (ntohs (dh_qdcount h))) ptr) (\<lambda>p.
          case p of
            None \<Rightarrow> Inr size_limited
          | Some ptr \<Rightarrow>
              emit (if ntohs (dh_ancount h) = 0 then ''(no answer section)'' else [])
                (answer_loop junk m fin (unat (ntohs (dh_ancount h))) ptr)))"

section \<open>The line for a packet\<close>

definition rcode_text :: "nat \<Rightarrow> string option" where
  "rcode_text = map_of [(1, '' Format error''), (2, '' Server failure''), (3, '' No such name''),
     (4, '' Not implemented''), (5, '' Refused''), (6, '' Name Exists when it should not''),
     (7, '' RR Set Exists when it should not''), (8, '' RR Set that should exist does not''),
     (9, '' Not Authoritative''), (10, '' Name not contained in zone'')]"

definition FORMAT_HEADER :: u32 where "FORMAT_HEADER = 16"

text \<open>\<open>ptr\<close> is the offset of the DNS header in the packet; the sizes are differences of \<open>size_t\<close>.\<close>

definition dns_format :: "u8 list \<Rightarrow> header_chunk \<Rightarrow> nat \<Rightarrow> u32 \<Rightarrow> string res" where
  "dns_format junk header ptr flags =
     (let cp = hc_cp header; m = drop ptr (ch_payload cp);
          full_size = (ucast (ch_len cp) :: u64) - word_of_nat ptr;
          captured_size = (ucast (ch_caplen cp) :: u64) - word_of_nat ptr in
      rbind (dns_header_of m) (\<lambda>h.
      emit ('' DNS'' @ (if flags AND FORMAT_HEADER \<noteq> 0 then
          ''(HDR['' @ dec sizeof_dns_header @ '']DATA['' @ dec_int (sint (full_size - word_of_nat sizeof_dns_header)) @
          ''])[id=0x'' @ hex (unat (ntohs (dh_id h))) @ '':qr='' @ dec (dh_qr h) @ '':opcode='' @ dec (dh_opcode h) @
          '',aa='' @ dec (dh_aa h) @ '',tc='' @ dec (dh_tc h) @ '',rd='' @ dec (dh_rd h) @ '',ra='' @ dec (dh_ra h) @
          '',z='' @ dec (dh_z h) @ '',rcode='' @ dec (dh_rcode h) @ '']'' else []))
        (if dh_tc h = 1 then Inr '' message truncated''
         else case rcode_text (dh_rcode h) of
           Some t \<Rightarrow> Inr t
         | None \<Rightarrow>
             emit (if dh_rcode h = 0 then [] else '' rcode: '' @ dec (dh_rcode h))
               (if full_size > captured_size then Inr size_limited
                else let fin = unat (ch_caplen cp) - ptr in
                  if dh_opcode h = 0 then
                    if dh_qr h = 0 then print_query junk h sizeof_dns_header fin m
                    else print_response junk h sizeof_dns_header fin m
                  else if dh_opcode h = 1 then Inr '' inverse query''
                  else if dh_opcode h = 2 then Inr '' status''
                  else Inr ('' reserved opcode '' @ dec (dh_opcode h))))))"

section \<open>The long form\<close>

abbreviation (input) newline :: char where "newline \<equiv> CHR 0x0a"

text \<open>\<open>%s\<close> of the array that holds a name.\<close>

definition name_arg :: "u8 list \<Rightarrow> string res" where
  "name_arg name = cstr (map char_of_byte name)"

text \<open>What follows a name is read through the pointer that \<open>dns_name\<close> returned, null or not.\<close>

definition deref :: "nat option \<Rightarrow> nat res" where
  "deref p = (case p of Some q \<Rightarrow> Inr q | None \<Rightarrow> Inl Null_deref)"

definition type_line :: "u16 \<Rightarrow> string" where
  "type_line t = (case type_text t of Some s \<Rightarrow> s @ '' ('' @ dec (unat t) @ '')'' | None \<Rightarrow> ''('' @ dec (unat t) @ '')'') @ [newline]"

definition dns_dump_question :: "u8 list \<Rightarrow> string \<Rightarrow> nat \<Rightarrow> mem \<Rightarrow> nat \<Rightarrow> nat \<Rightarrow> (string \<times> nat) res" where
  "dns_dump_question junk prefix i m fin ptr =
     rbind (dns_name junk 128 ptr fin m) (\<lambda>(p, qname).
     rbind (deref p) (\<lambda>ptr.
     rbind (rd16 m ptr) (\<lambda>qtype. rbind (rd16 m (ptr + 2)) (\<lambda>qclass.
     rbind (str_arg (dns_class_name (ntohs qclass))) (\<lambda>cl.
     rbind (name_arg qname) (\<lambda>name.
       Inr (prefix @ ''qd['' @ dec i @ '']:'' @ [newline] @
            ''  '' @ prefix @ ''qclass:           '' @ cl @ '' ('' @ dec (unat (ntohs qclass)) @ '')'' @ [newline] @
            ''  '' @ prefix @ ''qtype:            '' @ type_line (ntohs qtype) @
            ''  '' @ prefix @ ''qname:            '' @ name @ [newline], ptr + 4)))))))"

text \<open>The last line of an answer, with the position and length after a priority has been skipped.\<close>

definition dump_name :: "u8 list \<Rightarrow> mem \<Rightarrow> nat \<Rightarrow> nat \<Rightarrow> string res" where
  "dump_name name m fin ptr =
     rbind (dns_name name 128 ptr fin m) (\<lambda>(_, name). rbind (name_arg name) (\<lambda>s. Inr (s @ [newline])))"

definition dump_data :: "u8 list \<Rightarrow> mem \<Rightarrow> nat \<Rightarrow> u16 \<Rightarrow> nat \<Rightarrow> u16 \<Rightarrow> (string \<times> nat \<times> u16) res" where
  "dump_data name m fin type ptr rdlen =
     (if type = 1 then rbind (rd32 m ptr) (\<lambda>a. Inr (inet_ntoa a @ [newline], ptr, rdlen))
      else if type = 28 then rbind (rdn m ptr 16) (\<lambda>a. Inr (inet_ntop6 a @ [newline], ptr, rdlen))
      else if type = 15 then
        rbind (rd16 m ptr) (\<lambda>prio. rbind (dump_name name m fin (ptr + 2)) (\<lambda>s.
          Inr (dec (unat (ntohs prio)) @ '' '' @ s, ptr + 2, rdlen - 2)))
      else if type \<in> {2, 5, 6, 12, 16, 99} then
        rbind (dump_name name m fin ptr) (\<lambda>s. Inr (s, ptr, rdlen))
      else Inr ([], ptr, rdlen))"

definition dns_dump_answer :: "u8 list \<Rightarrow> string \<Rightarrow> string \<Rightarrow> nat \<Rightarrow> mem \<Rightarrow> nat \<Rightarrow> nat \<Rightarrow> (string \<times> nat) res" where
  "dns_dump_answer junk prefix sect i m fin ptr =
     rbind (dns_name junk 128 ptr fin m) (\<lambda>(p, name).
     rbind (deref p) (\<lambda>ptr.
     rbind (rd16 m ptr) (\<lambda>type. rbind (rd16 m (ptr + 2)) (\<lambda>cl. rbind (rd32 m (ptr + 4)) (\<lambda>ttl.
     rbind (rd16 m (ptr + 8)) (\<lambda>rdlen.
     rbind (str_arg (dns_class_name (ntohs cl))) (\<lambda>c.
     rbind (name_arg name) (\<lambda>nm.
     rbind (if ntohs cl = 1 then dump_data name m fin (ntohs type) (ptr + 10) (ntohs rdlen)
            else Inr (c @ [newline], ptr + 10, ntohs rdlen)) (\<lambda>(d, ptr, len).
       Inr (prefix @ sect @ ''['' @ dec i @ '']:'' @ [newline] @
            ''  '' @ prefix @ ''class:            '' @ c @ '' ('' @ dec (unat (ntohs cl)) @ '')'' @ [newline] @
            ''  '' @ prefix @ ''type:             '' @ type_line (ntohs type) @
            ''  '' @ prefix @ ''ttl:              '' @ dec_int (sint (ntohl ttl)) @ '' sec'' @ [newline] @
            ''  '' @ prefix @ ''rdlen:            '' @ dec (unat (ntohs rdlen)) @ '' octets'' @ [newline] @
            ''  '' @ prefix @ ''name:             '' @ nm @ [newline] @
            ''  '' @ prefix @ ''rdata:            '' @ d, ptr + unat len))))))))))"

text \<open>A loop over one of the sections, with the function that prints an entry.\<close>

fun dump_loop :: "(nat \<Rightarrow> nat \<Rightarrow> (string \<times> nat) res) \<Rightarrow> nat \<Rightarrow> nat \<Rightarrow> nat \<Rightarrow> (string \<times> nat) res" where
  "dump_loop entry i 0 cur = Inr ([], cur)"
| "dump_loop entry i (Suc n) cur =
     rbind (entry i cur) (\<lambda>(s, cur). rbind (dump_loop entry (i + 1) n cur) (\<lambda>(t, cur). Inr (s @ t, cur)))"

definition dns_dump :: "u8 list \<Rightarrow> header_chunk \<Rightarrow> nat \<Rightarrow> string \<Rightarrow> string res" where
  "dns_dump junk header ptr prefix =
     (let cp = hc_cp header; m = drop ptr (ch_payload cp); fin = unat (ch_caplen cp) - ptr;
          line = (\<lambda>label v. prefix @ label @ v @ [newline]);
          count = (\<lambda>c. unat (ntohs c)) in
      rbind (dns_header_of m) (\<lambda>h.
      rbind (str_arg (dns_opcode_lut (dh_opcode h))) (\<lambda>op.
      emit (line ''id:                 0x'' (hex_pad_upper 4 (count (dh_id h))) @
            line ''flags:              0x'' (hex_pad_upper 4 (unat (dh_flags h))) @
            ''  '' @ line ''qr:               '' (dec (dh_qr h)) @
            ''  '' @ line ''opcode:           '' (op @ '' ('' @ dec (dh_opcode h) @ '')'') @
            ''  '' @ line ''aa:               '' (dec (dh_aa h)) @
            ''  '' @ line ''tc:               '' (dec (dh_tc h)) @
            ''  '' @ line ''rd:               '' (dec (dh_rd h)) @
            ''  '' @ line ''ra:               '' (dec (dh_ra h)) @
            ''  '' @ line ''z:                '' (dec (dh_z h)) @
            ''  '' @ line ''rcode:            '' (dec (dh_rcode h)) @
            line ''qdcount:            '' (dec (count (dh_qdcount h))) @
            line ''ancount:            '' (dec (count (dh_ancount h))) @
            line ''nscount:            '' (dec (count (dh_nscount h))) @
            line ''arcount:            '' (dec (count (dh_arcount h))))
        (if ch_caplen cp < ch_len cp then Inr (prefix @ ''[Packet size limited during capture]'')
         else
           rbind (dump_loop (\<lambda>i. dns_dump_question junk prefix i m fin) 0 (count (dh_qdcount h)) sizeof_dns_header) (\<lambda>(s, cur).
           rbind (dump_loop (\<lambda>i. dns_dump_answer junk prefix ''an'' i m fin) 0 (count (dh_ancount h)) cur) (\<lambda>(t, cur).
           rbind (dump_loop (\<lambda>i. dns_dump_answer junk prefix ''ns'' i m fin) 0 (count (dh_nscount h)) cur) (\<lambda>(u, cur).
           rbind (dump_loop (\<lambda>i. dns_dump_answer junk prefix ''ar'' i m fin) 0 (count (dh_arcount h)) cur) (\<lambda>(v, cur).
             Inr (s @ t @ u @ v)))))))))"

section \<open>Printing what was decoded\<close>

lemma fputs_written:
  assumes "written t buf" "0 \<notin> set t"
  shows "fputs_printable buf None = Inr (concat (map printable t))"
proof -
  obtain r where "buf = t @ 0 # r" using assms(1) by (auto simp: written_def)
  moreover have "takeWhile (\<lambda>b. b \<noteq> 0) (t @ 0 # r) = t" using assms(2) by (subst takeWhile_append2) auto
  ultimately show ?thesis by (simp add: fputs_printable_def)
qed

lemma name_text_no_null:
  assumes "name_at m fin s p k ls q"
  shows "0 \<notin> set (name_text ls)"
  using assms by induction (auto simp: name_text_def)

text \<open>The text of a name: printable characters as they are, the others in hexadecimal.\<close>

definition printed_name :: "u8 list list \<Rightarrow> string" where
  "printed_name ls = concat (map printable (name_text ls))"

text \<open>A question at position \<open>p\<close>: its name, and the position of the type.\<close>

definition question_at :: "mem \<Rightarrow> nat \<Rightarrow> nat \<Rightarrow> u8 list list \<Rightarrow> nat \<Rightarrow> bool" where
  "question_at m fin p ls q \<longleftrightarrow> (\<exists>k\<le>32. name_at m fin p p k ls q) \<and> ls \<noteq> [] \<and> length (name_text ls) < 125 \<and>
     q + 4 \<le> fin \<and> fin \<le> length m"

lemma dns_name_question:
  assumes "question_at m fin p ls q" "length junk = 128"
  shows "\<exists>buf. dns_name junk 128 p fin m = Inr (Some q, buf) \<and> fputs_printable buf None = Inr (printed_name ls)"
proof -
  obtain k where k: "name_at m fin p p k ls q" "k \<le> 32" using assms(1) by (auto simp: question_at_def)
  let ?d = "\<lparr>do_buf = junk, do_pos = 0, do_size = 125\<rparr>"
  obtain d' where "dns_labels m fin (m ! p) (p + 1) ?d (replicate 32 0) = Inr (Some q, d')" "written (name_text ls) (do_buf d')"
    using dns_labels_decodes [OF k(1), of ?d 32 "[]" "[]"] k(2) assms by (auto simp: question_at_def dns_room_def)
  then show ?thesis
    using dns_name_first_label [OF name_at_first(1) [OF k(1)], of m junk 128] assms(1) fputs_written
      name_text_no_null [OF k(1)] by (auto simp: question_at_def printed_name_def)
qed

definition dns_query :: dns_header where
  "dns_query = \<lparr>dh_id = 0, dh_flags = 0, dh_qdcount = 256, dh_ancount = 0, dh_nscount = 0, dh_arcount = 0\<rparr>"

lemma dns_sample_question:
  "26 \<le> fin \<Longrightarrow> fin \<le> 26 + length r \<Longrightarrow> question_at (dns_sample @ r) fin 18 [[120], [97], [98, 99]] 22"
  using dns_sample_name [of fin r] by (auto simp: question_at_def name_text_def dns_sample_def intro!: exI [of _ 1])

section \<open>Properties\<close>

text \<open>
  A query with one question, of class 1 to 4 and followed by at least one more byte, is printed with the
  name that RFC 1035 gives for it, whatever the array for the name held before.
\<close>

lemma dns_query_printed:
  assumes "question_at m fin ptr ls q" "length junk = 128" "q + 4 < fin" "ntohs (dh_qdcount h) = 1"
    and "dns_class_name (ntohs (le16 (m ! (q + 2)) (m ! (q + 3)))) = Some cl"
    and "type_text (ntohs (le16 (m ! q) (m ! (q + 1)))) = Some ty"
  shows "print_query junk h ptr fin m =
    Inr ('' Standard query 0x'' @ hex_pad 4 (unat (ntohs (dh_id h))) @ '' [qdcount='' @ dec 1 @ ''] '' @
      cl @ '' '' @ ty @ '' '' @ printed_name ls)"
proof -
  obtain buf where b: "dns_name junk 128 ptr fin m = Inr (Some q, buf)" "fputs_printable buf None = Inr (printed_name ls)"
    using dns_name_question [OF assms(1,2)] by blast
  have "fin \<le> length m" using assms(1) by (simp add: question_at_def)
  then have "rd16 m q = Inr (le16 (m ! q) (m ! (q + 1)))" "rd16 m (q + 2) = Inr (le16 (m ! (q + 2)) (m ! (q + 3)))"
    using assms(3) by (simp_all add: rd16_def rd8_def numeral_3_eq_3)
  then have "query_loop junk m fin 1 0 ptr = Inr (cl @ '' '' @ ty @ '' '' @ printed_name ls)"
    using b assms(3,5,6) by (simp add: query_loop.simps [of junk m fin "Suc 0"] str_arg_def)
  then show ?thesis using assms(4) by (simp add: print_query_def)
qed

text \<open>
  A query whose only question ends where the captured data ends is complete, and yet it is printed as
  limited: the position behind the question is compared with the end by \<open>>=\<close>.
\<close>

lemma dns_query_exact_fit:
  assumes "question_at m fin ptr ls q" "length junk = 128" "q + 4 = fin" "ntohs (dh_qdcount h) = 1"
  shows "print_query junk h ptr fin m =
    Inr ('' Standard query 0x'' @ hex_pad 4 (unat (ntohs (dh_id h))) @ '' [qdcount='' @ dec 1 @ ''] '' @ size_limited)"
proof -
  obtain buf where "dns_name junk 128 ptr fin m = Inr (Some q, buf)"
    using dns_name_question [OF assms(1,2)] by blast
  then have "query_loop junk m fin 1 0 ptr = Inr size_limited"
    using assms(3) by (simp add: query_loop.simps [of junk m fin "Suc 0"])
  then show ?thesis using assms(4) by (simp add: print_query_def)
qed

text \<open>The long form follows the pointer that is null when a name does not end in the captured data.\<close>

lemma dns_dump_question_null:
  assumes "fin \<le> ptr"
  shows "dns_dump_question junk prefix i m fin ptr = Inl Null_deref"
  using assms by (simp add: dns_dump_question_def dns_name_def dns_name_int_def deref_def)

end
