(* ===== verification/Tcp_Options.thy ===== *)
theory Tcp_Options
  imports Header_Walk
begin

text \<open>
  The flags and the options of a TCP header as \<open>src/protocols/tcp.c\<close> prints them: \<open>tcp_flags\<close>,
  \<open>tcp_option_size\<close> and \<open>tcp_options\<close>. The output is the string that is written; \<open>tcp\<close> is the offset of
  the header in the packet.
\<close>

section \<open>Flags and options\<close>

definition tcp_flags :: "mem \<Rightarrow> nat \<Rightarrow> string res" where
  "tcp_flags m tcp =
     rbind (rd8 m (tcp + 13)) (\<lambda>b.
       Inr ((if bit b 1 then ''S'' else []) @ (if bit b 0 then ''F'' else []) @
            (if bit b 4 then ''A'' else []) @ (if bit b 3 then ''P'' else []) @
            (if bit b 5 then ''U'' else []) @ (if bit b 2 then ''R'' else [])))"

text \<open>The size byte is read only when the kind has one.\<close>

definition tcp_option_size :: "mem \<Rightarrow> nat \<Rightarrow> u8 \<Rightarrow> nat res" where
  "tcp_option_size m ptr kind =
     (if kind = 0 \<or> kind = 1 then Inr 1 else rbind (rd8 m (ptr + 1)) (\<lambda>b. Inr (unat b)))"

definition tcp_option_text :: "mem \<Rightarrow> nat \<Rightarrow> u8 \<Rightarrow> string res" where
  "tcp_option_text m ptr kind =
     (if kind = 2 then rbind (rd16 m (ptr + 2)) (\<lambda>w. Inr (''MSS('' @ dec (unat (ntohs w)) @ '')|''))
      else if kind = 3 then rbind (rd8 m (ptr + 2)) (\<lambda>b. Inr (''WS('' @ dec (unat b) @ '')|''))
      else if kind = 4 \<or> kind = 5 then Inr ''SAC|''
      else if kind = 8 then Inr ''TSS|''
      else Inr (dec (unat kind) @ ''|''))"

abbreviation (input) option_truncated :: string where
  "option_truncated \<equiv> ''tcp option truncated (caplen)''"

text \<open>
  The loop; the case \<open>EOL\<close> of its switch is not reachable, since a zero byte ends the loop before. The
  first of the three tests for truncation comes before any read of the option but after the read in
  the loop condition.
\<close>

function option_loop :: "cap_header \<Rightarrow> nat \<Rightarrow> nat \<Rightarrow> nat \<Rightarrow> string res" where
  "option_loop cp hsize ptr optlen =
     rbind (rd8 (ch_payload cp) ptr) (\<lambda>kind.
       if \<not> (kind \<noteq> 0 \<and> optlen < hsize) then Inr []
       else if ptr + 1 > unat (ch_caplen cp) \<or> ptr + (if kind > 1 then 2 else 1) > unat (ch_caplen cp)
       then Inr option_truncated
       else rbind (tcp_option_size (ch_payload cp) ptr kind) (\<lambda>bsize.
         if ptr + bsize > unat (ch_caplen cp) then Inr option_truncated
         else if bsize = 0 then Inr (''invalid flag size 0 (kind: '' @ dec (unat kind) @ ''), aborting'' @ [CHR 0x0A])
         else if kind = 1 then rbind (option_loop cp hsize (ptr + 1) (optlen + 1)) (\<lambda>s. Inr (''NOP|'' @ s))
         else rbind (tcp_option_text (ch_payload cp) ptr kind) (\<lambda>t.
           rbind (option_loop cp hsize (ptr + bsize) (optlen + bsize)) (\<lambda>s. Inr (t @ s)))))"
  by pat_completeness auto
termination option_loop
  by (relation "measure (\<lambda>(cp, hsize, ptr, optlen). hsize - optlen)") auto

declare option_loop.simps [simp del]

definition tcp_options :: "cap_header \<Rightarrow> nat \<Rightarrow> string res" where
  "tcp_options cp tcp =
     rbind (tcp_doff (ch_payload cp) tcp) (\<lambda>doff.
       if doff \<le> 5 then Inr []
       else rbind (option_loop cp (4 * doff) (tcp + 20) 20) (\<lambda>s. Inr (''|'' @ s)))"

section \<open>Reading the options stays near the captured bytes\<close>

lemma option_text_readable:
  assumes "ptr + 4 \<le> length m"
  shows "\<exists>s. tcp_option_text m ptr kind = Inr s"
  using assms by (simp add: tcp_option_text_def mem_simps)

lemma byte_le_1: "(k :: u8) \<le> 1 \<longleftrightarrow> k = 0 \<or> k = 1"
proof
  assume "k \<le> 1"
  then have "unat k = unat (0 :: u8) \<or> unat k = unat (1 :: u8)" by (auto simp: word_le_nat_alt)
  then show "k = 0 \<or> k = 1" using word_unat_eqI by blast
qed auto

lemma rbind_total: "\<exists>s. r = Inr s \<Longrightarrow> \<exists>s. rbind r (\<lambda>x. Inr (f x)) = Inr s"
  by auto

lemma option_size_readable:
  assumes "kind \<le> 1 \<or> ptr + 2 \<le> length m"
  shows "\<exists>n. tcp_option_size m ptr kind = Inr n"
  using assms by (auto simp: tcp_option_size_def mem_simps byte_le_1)

lemma option_loop_total:
  assumes "unat (ch_caplen cp) + 2 \<le> length (ch_payload cp)" "ptr \<le> unat (ch_caplen cp)"
  shows "\<exists>s. option_loop cp hsize ptr optlen = Inr s"
  using assms
proof (induction cp hsize ptr optlen rule: option_loop.induct)
  case (1 cp hsize ptr optlen)
  obtain kind where k: "rd8 (ch_payload cp) ptr = Inr kind"
    using 1(3,4) by (simp add: rd8_in)
  let ?c = "unat (ch_caplen cp)" and ?m = "ch_payload cp"
  show ?case
  proof (cases "kind \<noteq> 0 \<and> optlen < hsize \<and> ptr + 1 \<le> ?c \<and> ptr + (if kind > 1 then 2 else 1) \<le> ?c")
    case False
    then show ?thesis using k by (auto simp: option_loop.simps)
  next
    case True
    obtain n where n: "tcp_option_size ?m ptr kind = Inr n"
      using option_size_readable [of kind ptr ?m] True 1(3) by (auto split: if_splits)
    have t: "\<exists>t. tcp_option_text ?m ptr kind = Inr t" if "kind \<noteq> 1"
    proof -
      have "kind > 1" using True that byte_le_1 [of kind] by auto
      then show ?thesis using option_text_readable True 1(3) by auto
    qed
    show ?thesis
      using 1(1) [OF k] 1(2) [OF k] True n t 1(3) k
      by (subst option_loop.simps) (auto split: if_splits intro!: rbind_total)
  qed
qed

text \<open>
  Printing the options of a captured TCP header ends and reads at most two bytes behind the captured bytes, whatever
  the options hold; a header without options needs none.
\<close>

lemma tcp_options_total:
  assumes "tcp + 20 \<le> unat (ch_caplen cp)" "unat (ch_caplen cp) \<le> length (ch_payload cp)"
    and "unat (ch_caplen cp) + 2 \<le> length (ch_payload cp) \<or> unat (drop_bit 4 (ch_payload cp ! (tcp + 12))) \<le> 5"
  shows "\<exists>s. tcp_options cp tcp = Inr s"
proof -
  let ?d = "unat (drop_bit 4 (ch_payload cp ! (tcp + 12)))"
  have "tcp_doff (ch_payload cp) tcp = Inr ?d" using assms(1,2) by (simp add: tcp_doff_def mem_simps)
  moreover have "\<exists>s. option_loop cp (4 * ?d) (tcp + 20) 20 = Inr s" if "\<not> ?d \<le> 5"
    using option_loop_total assms(1,3) that by blast
  ultimately show ?thesis by (auto simp: tcp_options_def)
qed

definition option_bytes :: "mem \<Rightarrow> mem" where
  "option_bytes opts = replicate 12 0 @ [0x60] @ replicate 7 0 @ opts"

text \<open>
  The two bytes are needed: a maximum segment size option of size 2 at the end of the captured bytes is
  printed from the bytes behind them.
\<close>

lemma tcp_options_overread:
  "tcp_options (sample_packet (option_bytes [2, 2])) 0 = Inl Out_of_bounds"
  by (simp add: tcp_options_def tcp_doff_def option_bytes_def rd8_def rd16_def nth_append nth_Cons'
      option_loop.simps [of _ _ 20] tcp_option_size_def tcp_option_text_def)

text \<open>
  Well-formed options need a byte, too: the condition of the loop reads the kind of the next option before it
  tests for the end of the header, so options that fill the header, with nothing behind it, are read one byte too far.
\<close>

lemma tcp_options_end_overread:
  "tcp_options (sample_packet (option_bytes [1, 1, 1, 1])) 0 = Inl Out_of_bounds"
  by (simp add: tcp_options_def tcp_doff_def option_bytes_def rd8_def nth_append nth_Cons'
      option_loop.simps [of _ _ 20] option_loop.simps [of _ _ 21] option_loop.simps [of _ _ 22]
      option_loop.simps [of _ _ 23] option_loop.simps [of _ _ 24] tcp_option_size_def)

end
