(* ===== verification/Protocol_Format.thy ===== *)
theory Protocol_Format
  imports Dns_Print Tcp_Options Utils
begin

text \<open>
  What is written for a header on the line of its packet: the \<open>format\<close> function of every protocol under
  \<open>src/protocols/\<close> and \<open>src/format/\<close>, and \<open>header_format\<close> of \<open>src/packet.c\<close>, which calls the one of the header that the
  walk is at. The output is the string that is written; \<open>ptr\<close> is the offset of the header in the packet.
\<close>

section \<open>Tables and flags\<close>

definition FORMAT_LAYER_BIT :: nat where "FORMAT_LAYER_BIT = 29"
definition FORMAT_LAYER_APPLICATION :: u32 where "FORMAT_LAYER_APPLICATION = push_bit FORMAT_LAYER_BIT 4"

text \<open>A table ends with a null pointer; the search does not stop at the end of one that has none.\<close>

fun name_lookup :: "(nat \<times> string option) list \<Rightarrow> nat \<Rightarrow> string \<Rightarrow> string res" where
  "name_lookup [] v def = Inl Out_of_bounds"
| "name_lookup ((k, None) # cur) v def = Inr def"
| "name_lookup ((k, Some name) # cur) v def = (if v = k then Inr name else name_lookup cur v def)"

type_synonym format_fun = "header_chunk \<Rightarrow> nat \<Rightarrow> u32 \<Rightarrow> string res"

abbreviation (input) limited_text :: string where
  "limited_text \<equiv> '' [Packet size limited during capture]''"

text \<open>\<open>%zd\<close> of a \<open>size_t\<close>.\<close>

definition size_text :: "u64 \<Rightarrow> string" where
  "size_text w = dec_int (sint w)"

text \<open>\<open>%0nu\<close> and \<open>%0nd\<close>.\<close>

definition zero_pad :: "nat \<Rightarrow> string \<Rightarrow> string" where
  "zero_pad n s = replicate (n - length s) CHR ''0'' @ s"

section \<open>Link layer\<close>

definition ethernet_format :: format_fun where
  "ethernet_format h ptr flags =
     rbind (rd16 (hc_mem h) (ptr + 12)) (\<lambda>w.
       let h_proto = ntohs w in
       if h_proto = STPBRIDGES then Inr []
       else if unat h_proto < 0x05DC then
         rbind (rdn (hc_mem h) (ptr + 6) 6) (\<lambda>src.
         rbind (rdn (hc_mem h) ptr 6) (\<lambda>dst.
         rbind (rdn (hc_mem h) (ptr + 14) 4) (\<lambda>llc.
           Inr ('': IEEE802.3 [0x'' @ hex_pad 4 (unat h_proto) @ ''] '' @ hexdump_address src @ '' -> '' @ hexdump_address dst @
                '' dsap='' @ hex_pad 2 (unat (llc ! 0)) @ '' ssap='' @ hex_pad 2 (unat (llc ! 1)) @
                '' ctrl1 = '' @ hex_pad 2 (unat (llc ! 2)) @ '' ctrl2 = '' @ hex_pad 2 (unat (llc ! 3))))))
       else Inr (if ethertype_next h_proto = PROTOCOL_DATA then '': Ethernet [h_proto=0x'' @ hex_pad 4 (unat h_proto) @ '']'' else []))"

definition vlan_format :: format_fun where
  "vlan_format h ptr flags =
     rbind (rd16 (hc_mem h) ptr) (\<lambda>w. Inr ('': 802.1Q vlan# '' @ dec (unat (ntohs w AND 0x0FFF))))"

definition arp_format :: format_fun where
  "arp_format h ptr flags =
     (if limited_caplen (hc_cp h) (Some ptr) 28 then Inr ('': ARP'' @ limited_text)
      else
        rbind (rd16 (hc_mem h) ptr) (\<lambda>hrd.
        rbind (rd16 (hc_mem h) (ptr + 6)) (\<lambda>w.
          let op = ntohs w; fin = '', length '' @ size_text (ucast (ch_len (hc_cp h)) - 14) in
          emit '': ARP: '' (
            if ntohs hrd = 1 then
              rbind (rd32 (hc_mem h) (ptr + 14)) (\<lambda>spa.
              rbind (rd32 (hc_mem h) (ptr + 24)) (\<lambda>tpa.
                if op = 1 then Inr (''Request who-has '' @ inet_ntoa tpa @ '' tell '' @ inet_ntoa spa @ fin)
                else if op = 2 then
                  rbind (rdn (hc_mem h) (ptr + 8) 6) (\<lambda>sha.
                    Inr (''Reply '' @ inet_ntoa spa @ '' is-at '' @ hexdump_address sha @ fin))
                else if op = 3 then Inr (''RARP request'' @ fin)
                else if op = 4 then Inr (''RARP reply'' @ fin)
                else Inr (''Unknown op: '' @ dec (unat op) @ fin)))
            else Inr (''Unknown format: '' @ dec (unat (ntohs hrd)) @ fin)))))"

definition cdp_format :: format_fun where
  "cdp_format h ptr flags = Inr '': Cisco-Discovery-Protocol''"

definition stp_format :: format_fun where
  "stp_format h ptr flags = Inr '': STP''"

definition data_format :: format_fun where
  "data_format h ptr flags = Inr []"

section \<open>Network layer and tunnels\<close>

definition ipv4_format :: format_fun where
  "ipv4_format h ptr flags =
     rbind (ip_hl (hc_mem h) ptr) (\<lambda>hl.
       if hl < 5 then Inr '': IPv4 [corrupt]''
       else rbind (ip_p (hc_mem h) ptr) (\<lambda>p.
         Inr ('': IPv4'' @ (if ipproto_next p = PROTOCOL_DATA then '' [ip_p=0x'' @ hex_pad 2 (unat p) @ '']'' else []))))"

text \<open>The protocol is zero when the end of the extension headers was not captured.\<close>

definition ipv6_format :: format_fun where
  "ipv6_format h ptr flags =
     rbind (ipv6_total_header_size (hc_cp h) ptr) (\<lambda>(hsize, payload).
     rbind (if flags AND FORMAT_HEADER \<noteq> 0 then
         rbind (rd16 (hc_mem h) (ptr + 4)) (\<lambda>plen.
         rbind (rd8 (hc_mem h) (ptr + 7)) (\<lambda>hops.
           Inr (''(HDR['' @ dec hsize @ ''])[plen='' @ dec (unat (ntohs plen)) @ '',hops='' @ dec (unat hops) @ '']'')))
       else Inr []) (\<lambda>s.
       let proto = (case payload of Some (_, p) \<Rightarrow> p | None \<Rightarrow> 0) in
       Inr ('' IPv6'' @ s @ (if ipproto_next proto = PROTOCOL_DATA then '' [ip6_next=0x'' @ hex_pad 2 (unat proto) @ '']'' else []))))"

definition gre_format :: format_fun where
  "gre_format h ptr flags =
     rbind (rd32 (hc_mem h) ptr) (\<lambda>w. Inr ('': GRE(0x'' @ hex_pad 2 (unat (ntohl w AND 0xff)) @ '')''))"

definition mpls_format :: format_fun where
  "mpls_format h ptr flags =
     rbind (rd32 (hc_mem h) ptr) (\<lambda>w.
       let val = ntohl w in
       Inr ('': MPLS(label: '' @ dec (unat (drop_bit 12 val)) @ '', Exp: '' @ dec (unat (drop_bit 9 val AND 7)) @
            '', S: '' @ dec (unat (drop_bit 8 val AND 1)) @ '', TTL: '' @ dec (unat (val AND 0xff)) @ '')''))"

definition pw_format :: format_fun where
  "pw_format h ptr flags =
     rbind (rd32 (hc_mem h) ptr) (\<lambda>w. Inr ('': PW(seq: '' @ dec (unat (ntohl w AND 0xffff)) @ '')''))"

definition gtp_version_str :: "gtp_version \<Rightarrow> string" where
  "gtp_version_str v = (case v of GTPv1 \<Rightarrow> ''GTPv1'' | GTPv2 \<Rightarrow> ''GTPv2'' | GTPvP \<Rightarrow> ''GTP'' @ [CHR 0x27])"

definition gtp_format :: format_fun where
  "gtp_format h ptr flags =
     rbind (rd8 (hc_mem h) ptr) (\<lambda>b.
     rbind (gtp_version_of b) (\<lambda>v.
     rbind (gtp_header_size (hc_mem h) ptr) (\<lambda>n. Inr ('': '' @ gtp_version_str v @ ''['' @ dec n @ '']''))))"

section \<open>Control protocols\<close>

definition icmp_unreachable_table :: "(nat \<times> string option) list" where
  "icmp_unreachable_table = [
     (0, Some ''Destination network unreachable''), (1, Some ''Destination host unreachable''),
     (2, Some ''Destination protocol unreachable''), (3, Some ''Destination port unreachable''),
     (4, Some ''Fragmentation required''), (5, Some ''Source route failed''),
     (6, Some ''Destination network unknown''), (7, Some ''Destination host unknown''),
     (8, Some ''Source host isolated''), (9, Some ''Network administratively prohibited''),
     (10, Some ''Host administratively prohibited''), (11, Some ''Network unreachable for TOS''),
     (12, Some ''Host unreachable for TOS''), (13, Some ''Communication administratively prohibited''),
     (14, Some ''Host Precedence Violation''), (15, Some ''Precedence cutoff in effect'')]"

definition endpoints :: "header_chunk \<Rightarrow> string" where
  "endpoints h = net_src (hc_last_net h) @ '' --> '' @ net_dst (hc_last_net h)"

text \<open>The identifier and the sequence number of an echo.\<close>

definition echo_text :: "mem \<Rightarrow> nat \<Rightarrow> string res" where
  "echo_text m ptr =
     rbind (rd16 m (ptr + 4)) (\<lambda>ident. rbind (rd16 m (ptr + 6)) (\<lambda>seq.
       Inr (dec (unat (ntohs ident)) @ '' SEQNR = '' @ dec (unat (ntohs seq)) @ '' '')))"

definition icmp_format :: format_fun where
  "icmp_format h ptr flags =
     rbind (rd8 (hc_mem h) ptr) (\<lambda>type.
     rbind (rd8 (hc_mem h) (ptr + 1)) (\<lambda>code.
       emit ('': ICMP'' @ (if flags AND FORMAT_HEADER \<noteq> 0
             then ''[Type='' @ dec (unat (ntohs (ucast type))) @ '', code='' @ dec (unat (ntohs (ucast code))) @ '']'' else []) @
           '': '' @ endpoints h)
         (if flags < FORMAT_LAYER_APPLICATION then Inr []
          else emit '': '' (
            if type = 0 then emit ''echo reply: '' (echo_text (hc_mem h) ptr)
            else if type = 3 then name_lookup icmp_unreachable_table (unat code) ''Destination Unreachable''
            else if type = 4 then Inr ''source quench''
            else if type = 5 then Inr ''redirect''
            else if type = 8 then emit ''echo reqest: '' (echo_text (hc_mem h) ptr)
            else if type = 11 then Inr ''time exceeded''
            else if type = 13 then Inr ''timestamp request''
            else if type = 14 then Inr ''timestamp reply''
            else Inr (''Type '' @ dec (unat type) @ [CHR 0x0a])))))"

definition igmp_type_name :: "u8 \<Rightarrow> string" where
  "igmp_type_name t =
     (if t = 0x11 then ''Group Membership Query'' else if t = 0x12 then ''V1 Membership Report''
      else if t = 0x13 then ''DVMRP'' else if t = 0x14 then ''PIMv1'' else if t = 0x15 then ''Cisco Trace''
      else if t = 0x16 then ''V2 Membership Report'' else if t = 0x17 then ''V2 Leave Group''
      else if t = 0x1e then ''Multicast Traceroute Report'' else if t = 0x1f then ''Multicast Traceroute''
      else if t = 0x22 then ''V3 Membership Report'' else if t = 0x30 then ''Multicast Router Advertisement''
      else if t = 0x31 then ''Multicast Router Solicitation'' else if t = 0x32 then ''Multicast Router Termination''
      else ''Unknown'')"

definition igmp_format :: format_fun where
  "igmp_format h ptr flags =
     (if limited_caplen (hc_cp h) (Some ptr) 1 then Inr ('': IGMP'' @ limited_text)
      else rbind (rd8 (hc_mem h) ptr) (\<lambda>t.
        Inr ('': IGMP '' @ net_dst (hc_last_net h) @ '' '' @ igmp_type_name t)))"

definition ospf_type_table :: "string option list" where
  "ospf_type_table = [None, Some ''Hello'', Some ''Database Description'', Some ''Link State Request'',
     Some ''Link State Update'', Some ''Link State Acknowledgement'']"

text \<open>The guard is a disjunction and holds for every type.\<close>

definition ospf_type_name :: "u8 \<Rightarrow> string option res" where
  "ospf_type_name t =
     (if unat t > 0 \<or> unat t < 6 then
        if unat t < length ospf_type_table then Inr (ospf_type_table ! unat t) else Inl Out_of_bounds
      else Inr (Some ''Unknown''))"

definition ospf_format :: format_fun where
  "ospf_format h ptr flags =
     (if limited_caplen (hc_cp h) (Some ptr) 1 then Inr ('': OSPF'' @ limited_text)
      else
        rbind (rd8 (hc_mem h) ptr) (\<lambda>v.
        rbind (rd8 (hc_mem h) (ptr + 1)) (\<lambda>t.
        rbind (ospf_type_name t) (\<lambda>name.
        rbind (str_arg name) (\<lambda>s.
          Inr ('': OSPF v'' @ dec (unat v) @ '' '' @ s @ '' '' @ endpoints h))))))"

definition ptpv2_format :: format_fun where
  "ptpv2_format h ptr flags =
     (if limited_caplen (hc_cp h) (Some ptr) 34 then Inr ('': PTPv'' @ limited_text)
      else
        rbind (rd8 (hc_mem h) (ptr + 1)) (\<lambda>ver.
        rbind (rd8 (hc_mem h) ptr) (\<lambda>tspec.
          Inr ('': PTPv'' @ (if flags AND FORMAT_HEADER \<noteq> 0
                 then ''(HDR[34]DATA['' @ size_text (net_plen (hc_last_net h) - 34) @ ''])'' else []) @
               dec (unat ver) @ ''  : (in development)  '' @ hex (unat tspec) @ '' ''))))"

section \<open>Transport layer\<close>

definition ports_text :: "header_chunk \<Rightarrow> u16 \<Rightarrow> u16 \<Rightarrow> string" where
  "ports_text h sport dport =
     net_src (hc_last_net h) @ '':'' @ dec (unat sport) @ '' --> '' @ net_dst (hc_last_net h) @ '':'' @ dec (unat dport)"

definition udp_format :: format_fun where
  "udp_format h ptr flags =
     rbind (rd16 (hc_mem h) ptr) (\<lambda>s.
     rbind (rd16 (hc_mem h) (ptr + 2)) (\<lambda>d.
     rbind (rd16 (hc_mem h) (ptr + 4)) (\<lambda>len.
     rbind (rd16 (hc_mem h) (ptr + 6)) (\<lambda>sum.
       Inr ('': UDP: '' @ ports_text h (ntohs s) (ntohs d) @ '' len='' @ dec (unat (ntohs len)) @ '' check='' @
            dec (unat (ntohs sum)) @ '' '')))))"

text \<open>\<open>strncmp\<close> with a string constant, whose null character is compared as well when the limit lies behind it.\<close>

fun strncmp_at :: "mem \<Rightarrow> nat \<Rightarrow> string \<Rightarrow> nat \<Rightarrow> bool res" where
  "strncmp_at m i s 0 = Inr True"
| "strncmp_at m i [] (Suc n) = rbind (rd8 m i) (\<lambda>b. Inr (b = 0))"
| "strncmp_at m i (c # s) (Suc n) =
     rbind (rd8 m i) (\<lambda>b. if char_of_byte b = c then strncmp_at m (i + 1) s n else Inr False)"

text \<open>\<open>strndup\<close>: the bytes up to the first null character, at most \<open>n\<close>.\<close>

definition strndup_at :: "mem \<Rightarrow> nat \<Rightarrow> nat \<Rightarrow> string res" where
  "strndup_at m i n =
     (let s = takeWhile (\<lambda>b. b \<noteq> 0) (take n (drop i m)) in
      if length s < n \<and> length s = length (drop i m) then Inl Out_of_bounds else Inr (map char_of_byte s))"

definition methods :: "string list" where
  "methods = [''GET'', ''HEAD'', ''POST'', ''PUT'', ''DELETE'', ''TRACE'', ''OPTIONS'', ''PATCH'', ''HTTP/'']"

definition is_eol :: "char \<Rightarrow> bool" where
  "is_eol c \<longleftrightarrow> c = CHR 0x0d \<or> c = CHR 0x0a"

text \<open>The first token of two; nothing when there is no second.\<close>

definition first_line :: "string \<Rightarrow> string option" where
  "first_line buf =
     (let s = dropWhile is_eol buf; line = takeWhile (\<lambda>c. \<not> is_eol c) s; rest = dropWhile is_eol (drop (length line) s)
      in if s \<noteq> [] \<and> rest \<noteq> [] then Some line else None)"

text \<open>The limit of the comparison is an \<open>int\<close> that becomes a \<open>size_t\<close>: when it is negative there is none.\<close>

definition http_limit :: "string \<Rightarrow> u64 \<Rightarrow> nat" where
  "http_limit s bsize =
     (let n = sint (ucast bsize :: u32) in
      if n < 0 then length s + 1 else min (length s) (nat n))"

fun http_loop :: "mem \<Rightarrow> nat \<Rightarrow> u64 \<Rightarrow> string list \<Rightarrow> string res" where
  "http_loop m payload bsize [] = Inr []"
| "http_loop m payload bsize (cur # rest) =
     rbind (strncmp_at m payload cur (http_limit cur bsize)) (\<lambda>eq.
       if \<not> eq then http_loop m payload bsize rest
       else rbind (strndup_at m payload (unat bsize)) (\<lambda>buf.
         Inr (case first_line buf of Some line \<Rightarrow> '' '' @ line | None \<Rightarrow> [])))"

definition print_http :: "mem \<Rightarrow> nat \<Rightarrow> u64 \<Rightarrow> string res" where
  "print_http m payload bsize = http_loop m payload bsize methods"

definition tcp_format :: format_fun where
  "tcp_format h ptr flags =
     (if limited_caplen (hc_cp h) (Some ptr) 20 then Inr ('': TCP'' @ limited_text)
      else
        rbind (tcp_doff (hc_mem h) ptr) (\<lambda>doff.
        rbind (rd16 (hc_mem h) ptr) (\<lambda>s.
        rbind (rd16 (hc_mem h) (ptr + 2)) (\<lambda>d.
        rbind (tcp_flags (hc_mem h) ptr) (\<lambda>fl.
        rbind (rd16 (hc_mem h) (ptr + 14)) (\<lambda>window.
        rbind (rd32 (hc_mem h) (ptr + 4)) (\<lambda>seq.
        rbind (rd32 (hc_mem h) (ptr + 8)) (\<lambda>ack_seq.
          let payload_size = net_plen (hc_last_net h) - word_of_nat (4 * doff) in
          emit ('': TCP'' @ (if flags AND FORMAT_HEADER \<noteq> 0
                then ''(HDR['' @ dec (4 * doff) @ '']DATA['' @ size_text payload_size @ ''])'' else []) @
              '': ['' @ fl @ ''] '' @ ports_text h (ntohs s) (ntohs d) @ '' ws='' @ dec (unat (ntohs window)) @
              '' seq='' @ dec (unat (ntohl seq)) @ '' ack='' @ dec (unat (ntohl ack_seq)) @ '' '')
            (rbind (tcp_options (hc_cp h) ptr) (\<lambda>opts.
               emit opts (if payload_size = 0 then Inr []
                 else if ntohs s = 80 \<or> ntohs d = 80 then print_http (hc_mem h) (ptr + 4 * doff) payload_size
                 else Inr [])))))))))))"

text \<open>
  The chunks of an SCTP packet. The type of a chunk is one byte, to which \<open>ntohs\<close> is applied nevertheless, so that of the
  named types only zero is recognised, and the length is used as it lies in memory to find the next chunk. What has
  been captured is not looked at.
\<close>

definition sctp_chunk_text :: "u8 \<Rightarrow> u16 \<Rightarrow> string" where
  "sctp_chunk_text type len =
     (let t = unat (ntohs (ucast type)); n = dec (unat (ntohs len)) in
      if t < 15 then
        [''DATA'', ''INIT'', ''INIT ACK'', ''SACK'', ''HEARTBEAT'', ''HEARTBEAT ACK'', ''ABORT'', ''SHUTDOWN'', ''SHUTDOWN ACK'',
         ''ERROR'', ''COOKIE ECHO'', ''COOKIE ACK'', ''ECNE'', ''CWR'', ''SHUTDOWN COMPLETE''] ! t @ '' '' @ n @ '' bytes, ''
      else ''Type='' @ dec t @ '', length='' @ n @ '' bytes '')"

function sctp_loop :: "mem \<Rightarrow> nat \<Rightarrow> int \<Rightarrow> int \<Rightarrow> string res" where
  "sctp_loop m ptr chunkread chunksize =
     rbind (rd8 m ptr) (\<lambda>type.
     rbind (rd16 m (ptr + 2)) (\<lambda>len.
       let n = 4 + unat len in
       emit (sctp_chunk_text type len)
         (if chunkread + int n \<ge> chunksize then Inr [] else sctp_loop m (ptr + n) (chunkread + int n) chunksize)))"
  by pat_completeness auto
termination sctp_loop
  by (relation "measure (\<lambda>(m, ptr, _, _). length m - ptr)") (auto simp: rd8_Inr_iff)

declare sctp_loop.simps [simp del]

definition sctp_chunks :: "mem \<Rightarrow> nat \<Rightarrow> int \<Rightarrow> string res" where
  "sctp_chunks m sctp chunksize = emit '': (in development) '' (sctp_loop m (sctp + 12) 0 chunksize)"

definition sctp_format :: format_fun where
  "sctp_format h ptr flags =
     (if limited_caplen (hc_cp h) (Some ptr) 12 then Inr ('': SCTP'' @ limited_text)
      else
        rbind (rd16 (hc_mem h) ptr) (\<lambda>s.
        rbind (rd16 (hc_mem h) (ptr + 2)) (\<lambda>d.
          let payload_size = net_plen (hc_last_net h) - 12 in
          emit ('': SCTP'' @ (if flags AND FORMAT_HEADER \<noteq> 0 then ''(HDR[12]DATA['' @ size_text payload_size @ ''])'' else []) @
              '': '' @ ports_text h (ntohs s) (ntohs d))
            (sctp_chunks (hc_mem h) ptr (sint (ucast payload_size :: u32))))))"

section \<open>The line of a header\<close>

text \<open>The array into which DNS names are decoded is not initialised; \<open>junk\<close> is what it holds.\<close>

fun protocol_format :: "u8 list \<Rightarrow> protocol_type \<Rightarrow> format_fun option" where
  "protocol_format junk PROTOCOL_UNKNOWN = None"
| "protocol_format junk PROTOCOL_DATA = Some data_format"
| "protocol_format junk PROTOCOL_DONE = None"
| "protocol_format junk PROTOCOL_ARP = Some arp_format"
| "protocol_format junk PROTOCOL_CDP = Some cdp_format"
| "protocol_format junk PROTOCOL_DNS = Some (dns_format junk)"
| "protocol_format junk PROTOCOL_ETHERNET = Some ethernet_format"
| "protocol_format junk PROTOCOL_GRE = Some gre_format"
| "protocol_format junk PROTOCOL_GTP = Some gtp_format"
| "protocol_format junk PROTOCOL_ICMP = Some icmp_format"
| "protocol_format junk PROTOCOL_IGMP = Some igmp_format"
| "protocol_format junk PROTOCOL_IPV4 = Some ipv4_format"
| "protocol_format junk PROTOCOL_IPV6 = Some ipv6_format"
| "protocol_format junk PROTOCOL_MPLS = Some mpls_format"
| "protocol_format junk PROTOCOL_OSPF = Some ospf_format"
| "protocol_format junk PROTOCOL_PTPv2 = Some ptpv2_format"
| "protocol_format junk PROTOCOL_PW = Some pw_format"
| "protocol_format junk PROTOCOL_SCTP = Some sctp_format"
| "protocol_format junk PROTOCOL_STP = Some stp_format"
| "protocol_format junk PROTOCOL_TCP = Some tcp_format"
| "protocol_format junk PROTOCOL_UDP = Some udp_format"
| "protocol_format junk PROTOCOL_VLAN = Some vlan_format"

text \<open>No protocol sets \<open>partial_print\<close>.\<close>

definition header_format :: "u8 list \<Rightarrow> header_chunk \<Rightarrow> u32 \<Rightarrow> string res" where
  "header_format junk h flags =
     (case hc_protocol h of
        None \<Rightarrow> Inl Null_deref
      | Some t \<Rightarrow>
          (case protocol_get t of
             None \<Rightarrow> Inl Null_deref
           | Some p \<Rightarrow>
               if hc_truncated h then Inr ('': '' @ pr_name p @ limited_text)
               else case protocol_format junk t of
                   None \<Rightarrow> Inr ('': '' @ pr_name p)
                 | Some f \<Rightarrow>
                     rbind (ptr_sanity (hc_cp h) (hc_ptr h)) (\<lambda>_.
                       case hc_ptr h of None \<Rightarrow> Inl Null_deref | Some ptr \<Rightarrow> f h ptr flags)))"

section \<open>Reading inside the captured bytes\<close>

text \<open>The protocols whose text is made from the bytes of the header alone.\<close>

lemma plain_format_total:
  assumes "protocol_get t = Some p" "protocol_format junk t = Some f"
    and "t \<in> {PROTOCOL_DATA, PROTOCOL_CDP, PROTOCOL_STP, PROTOCOL_GRE, PROTOCOL_IPV4, PROTOCOL_MPLS, PROTOCOL_PW, PROTOCOL_UDP, PROTOCOL_VLAN}"
    and "ptr + pr_size p \<le> length (hc_mem h)"
  shows "\<exists>s. f h ptr flags = Inr s"
  using assms
  by (cases t) (auto simp: proto_entry_def data_format_def cdp_format_def stp_format_def gre_format_def ipv4_format_def
      mpls_format_def pw_format_def udp_format_def vlan_format_def field_defs mem_simps Let_def)

text \<open>The ones that look at the number of captured bytes themselves.\<close>

lemma checked_format_total:
  assumes "unat (ch_caplen (hc_cp h)) \<le> length (hc_mem h)"
  shows "\<exists>s. arp_format h ptr flags = Inr s" "\<exists>s. igmp_format h ptr flags = Inr s" "\<exists>s. ptpv2_format h ptr flags = Inr s"
  using assms
  by (auto simp: arp_format_def igmp_format_def ptpv2_format_def limited_caplen_def mem_simps Let_def)

lemma ext_walk_total:
  "unat (ch_caplen cp) \<le> length (ch_payload cp) \<Longrightarrow> \<exists>r. ipv6_ext_walk cp payload hsize = Inr r"
proof (induction cp payload hsize rule: ipv6_ext_walk.induct)
  case (1 cp payload hsize)
  show ?case
  proof (cases "limited_caplen cp (Some payload) 2")
    case False
    then have l: "payload + 1 < length (ch_payload cp)" using 1(2) by (simp add: limited_caplen_def)
    then have b: "rd8 (ch_payload cp) (payload + 1) = Inr (ch_payload cp ! (payload + 1))" "rd8 (ch_payload cp) payload = Inr (ch_payload cp ! payload)"
      by (simp_all add: rd8_def)
    show ?thesis
      using 1(1) [OF False b(1) _ b(2)] 1(2) b False by (subst ipv6_ext_walk.simps) auto
  qed (subst ipv6_ext_walk.simps, simp)
qed

lemma ipv6_format_total:
  assumes "unat (ch_caplen (hc_cp h)) \<le> length (hc_mem h)" "ptr + 20 \<le> length (hc_mem h)"
  shows "\<exists>s. ipv6_format h ptr flags = Inr s"
proof -
  have "\<exists>r. ipv6_total_header_size (hc_cp h) ptr = Inr r"
    using ext_walk_total [OF assms(1), of "ptr + 40" 40] assms(2) by (auto simp: ipv6_total_header_size_def mem_simps)
  then obtain hsize payload where "ipv6_total_header_size (hc_cp h) ptr = Inr (hsize, payload)" by auto
  then show ?thesis using assms(2) by (simp add: ipv6_format_def mem_simps Let_def)
qed

lemma gtp_format_total:
  assumes "gtp_header_size (hc_mem h) ptr = Inr n"
  shows "\<exists>s. gtp_format h ptr flags = Inr s"
proof -
  obtain b v where "rd8 (hc_mem h) ptr = Inr b" "gtp_version_of b = Inr v"
    using assms unfolding gtp_header_size_def rbind_Inr_iff by blast
  then show ?thesis using assms by (simp add: gtp_format_def)
qed

lemma name_lookup_unreachable: "c < 16 \<Longrightarrow> \<exists>s. name_lookup icmp_unreachable_table c def = Inr s"
proof -
  assume "c < 16"
  then have "c \<in> set [0..<16]" by simp
  then show ?thesis by (auto simp: upt_rec icmp_unreachable_table_def)
qed

text \<open>
  What a header has to hold so that its text is made from captured bytes: an IEEE 802.3 frame is long enough for the
  LLC header, the code of an ICMP message and the type of an OSPF packet are in their tables, and a TCP segment does not belong
  to HTTP and has no options, or two more bytes can be read behind the captured ones. Nothing is said of SCTP and DNS.
\<close>

definition be16_at :: "mem \<Rightarrow> nat \<Rightarrow> nat" where
  "be16_at m i = unat (ntohs (le16 (m ! i) (m ! (i + 1))))"

definition format_safe :: "header_chunk \<Rightarrow> bool" where
  "format_safe h =
     (case (hc_protocol h, hc_ptr h) of
        (Some t, Some ptr) \<Rightarrow>
          hc_truncated h \<or>
          (let m = hc_mem h; k = unat (ch_caplen (hc_cp h)) in
           case t of
             PROTOCOL_ETHERNET \<Rightarrow> ptr + 18 \<le> k \<or> be16_at m (ptr + 12) \<ge> 0x05DC
           | PROTOCOL_ICMP \<Rightarrow> m ! ptr \<noteq> 3 \<or> unat (m ! (ptr + 1)) < 16
           | PROTOCOL_OSPF \<Rightarrow> ptr + 2 \<le> k \<and> 0 < unat (m ! (ptr + 1)) \<and> unat (m ! (ptr + 1)) < 6
           | PROTOCOL_TCP \<Rightarrow>
               (k + 2 \<le> length m \<or> unat (drop_bit 4 (m ! (ptr + 12))) \<le> 5) \<and> be16_at m ptr \<noteq> 80 \<and> be16_at m (ptr + 2) \<noteq> 80
           | PROTOCOL_SCTP \<Rightarrow> False
           | PROTOCOL_DNS \<Rightarrow> False
           | _ \<Rightarrow> True)
      | _ \<Rightarrow> False)"

lemma ethernet_format_total:
  assumes "ptr + 14 \<le> length (hc_mem h)" "ptr + 18 \<le> length (hc_mem h) \<or> be16_at (hc_mem h) (ptr + 12) \<ge> 0x05DC"
  shows "\<exists>s. ethernet_format h ptr flags = Inr s"
  using assms by (auto simp: ethernet_format_def mem_simps Let_def be16_at_def)

lemma icmp_format_total:
  assumes "ptr + 8 \<le> length (hc_mem h)" "hc_mem h ! ptr \<noteq> 3 \<or> unat (hc_mem h ! (ptr + 1)) < 16"
  shows "\<exists>s. icmp_format h ptr flags = Inr s"
proof -
  obtain s where "hc_mem h ! ptr = 3 \<Longrightarrow> name_lookup icmp_unreachable_table (unat (hc_mem h ! (ptr + 1))) ''Destination Unreachable'' = Inr s"
    using name_lookup_unreachable assms(2) by blast
  then show ?thesis using assms(1) by (cases "hc_mem h ! ptr = 3") (auto simp: icmp_format_def echo_text_def mem_simps)
qed

lemma ospf_format_total:
  assumes "ptr + 2 \<le> length (hc_mem h)" "0 < unat (hc_mem h ! (ptr + 1))" "unat (hc_mem h ! (ptr + 1)) < 6"
  shows "\<exists>s. ospf_format h ptr flags = Inr s"
proof -
  have "unat (hc_mem h ! (ptr + 1)) \<in> set [1..<6]" using assms(2,3) by simp
  then show ?thesis
    using assms(1) by (auto simp: upt_rec ospf_format_def ospf_type_name_def ospf_type_table_def str_arg_def mem_simps)
qed

lemma tcp_format_total:
  assumes "ptr + 20 \<le> unat (ch_caplen (hc_cp h))" "unat (ch_caplen (hc_cp h)) \<le> length (hc_mem h)"
    and "be16_at (hc_mem h) ptr \<noteq> 80" "be16_at (hc_mem h) (ptr + 2) \<noteq> 80"
    and "unat (ch_caplen (hc_cp h)) + 2 \<le> length (hc_mem h) \<or> unat (drop_bit 4 (hc_mem h ! (ptr + 12))) \<le> 5"
  shows "\<exists>s. tcp_format h ptr flags = Inr s"
proof -
  obtain s where s: "tcp_options (hc_cp h) ptr = Inr s" using tcp_options_total [OF assms(1,2,5)] by blast
  have l: "ptr + 20 \<le> length (hc_mem h)" using assms(1,2) by simp
  then have w: "rd16 (hc_mem h) ptr = Inr (le16 (hc_mem h ! ptr) (hc_mem h ! (ptr + 1)))"
      "rd16 (hc_mem h) (ptr + 2) = Inr (le16 (hc_mem h ! (ptr + 2)) (hc_mem h ! (ptr + 2 + 1)))"
    by (simp_all add: rd16_in)
  obtain doff fl window seq ack where r: "tcp_doff (hc_mem h) ptr = Inr doff" "tcp_flags (hc_mem h) ptr = Inr fl"
      "rd16 (hc_mem h) (ptr + 14) = Inr window" "rd32 (hc_mem h) (ptr + 4) = Inr seq" "rd32 (hc_mem h) (ptr + 8) = Inr ack"
    using l by (simp add: tcp_doff_def tcp_flags_def mem_simps)
  have "\<not> limited_caplen (hc_cp h) (Some ptr) 20" using assms(1) by (simp add: limited_caplen_def)
  moreover have "ntohs (le16 (hc_mem h ! ptr) (hc_mem h ! (ptr + 1))) \<noteq> 80" "ntohs (le16 (hc_mem h ! (ptr + 2)) (hc_mem h ! (ptr + 2 + 1))) \<noteq> 80"
    using assms(3,4) by (auto simp: be16_at_def)
  ultimately show ?thesis unfolding tcp_format_def w r rbind_Inr Let_def s by simp
qed

section \<open>Properties\<close>



text \<open>
  The exceptions are there in the code. The table of ICMP codes has no end and the guard for the types of OSPF always
  holds; the LLC header is read behind the ethernet header whether it was captured or not; the chunks of SCTP and the
  request line of HTTP are read as far as the packet on the wire went.
\<close>

lemma icmp_code_overread: "16 \<le> c \<Longrightarrow> name_lookup icmp_unreachable_table c def = Inl Out_of_bounds"
  by (simp add: icmp_unreachable_table_def)

lemma ospf_type_overread: "6 \<le> unat t \<Longrightarrow> ospf_type_name t = Inl Out_of_bounds"
  by (simp add: ospf_type_name_def ospf_type_table_def)

lemma ethernet_llc_overread:
  assumes "length (hc_mem h) = ptr + 14" "be16_at (hc_mem h) (ptr + 12) < 0x05DC" "be16_at (hc_mem h) (ptr + 12) \<noteq> 0x26"
  shows "ethernet_format h ptr flags = Inl Out_of_bounds"
proof -
  let ?w = "ntohs (le16 (hc_mem h ! (ptr + 12)) (hc_mem h ! (ptr + 12 + 1)))"
  have w: "rd16 (hc_mem h) (ptr + 12) = Inr (le16 (hc_mem h ! (ptr + 12)) (hc_mem h ! (ptr + 12 + 1)))"
    using assms(1) by (simp add: rd16_in)
  have "?w \<noteq> STPBRIDGES" "unat ?w < 0x05DC" using assms(2,3) by (auto simp: be16_at_def STPBRIDGES_def)
  then show ?thesis unfolding ethernet_format_def w rbind_Inr Let_def using assms(1) by (simp add: rdn_def)
qed

lemma sctp_chunks_overread:
  assumes "length (hc_mem h) = ptr + 12" "ptr + 12 \<le> unat (ch_caplen (hc_cp h))"
  shows "sctp_format h ptr flags = Inl Out_of_bounds"
  using assms
  by (simp add: sctp_format_def limited_caplen_def rd16_in sctp_chunks_def sctp_loop.simps [of _ "ptr + 12"] rd8_def emit_def Let_def)

lemma sctp_type_unnamed:
  assumes "type \<noteq> 0"
  shows "sctp_chunk_text type len = ''Type='' @ dec (256 * unat type) @ '', length='' @ dec (unat (ntohs len)) @ '' bytes ''"
proof -
  have "ucast type = le16 type 0" by (simp add: le16_def)
  then have "unat (ntohs (ucast type)) = 256 * unat type" by (simp add: ntohs_le16 unat_le16)
  moreover have "0 < unat type" using assms by (simp add: unat_gt_0)
  ultimately show ?thesis by (simp add: sctp_chunk_text_def Let_def)
qed

lemma print_http_overread: "print_http (map byte_of_char ''GET'') 0 4 = Inl Out_of_bounds"
  by code_simp

end
