(* ===== verification/Filter_Print.thy ===== *)
theory Filter_Print
  imports Filter_Pack Protocol_Format
begin

text \<open>
  Printing a filter (\<open>filter_print\<close> of \<open>src/filter.c\<close>). The output is the string that is written; \<open>old\<close> is what the
  static buffer of \<open>stream_addr_ntoa\<close> holds.
\<close>

section \<open>Lines\<close>

definition print_line :: "string \<Rightarrow> string \<Rightarrow> string" where
  "print_line label v = CHR 0x09 # label @ '': '' @ v @ [CHR 0x0a]"

text \<open>A criterion that is not enabled is only written when asked for.\<close>

definition print_field :: "bool \<Rightarrow> bool \<Rightarrow> string \<Rightarrow> string \<Rightarrow> string" where
  "print_field verbose enabled label v =
     (if enabled then print_line label v else if verbose then print_line label ''NULL'' else [])"

definition masked_num :: "u16 \<Rightarrow> u16 \<Rightarrow> string" where
  "masked_num v w = dec (unat v) @ '' (MASK: 0x'' @ hex_pad_upper 4 (unat w) @ '')''"

text \<open>
  The names are fields of eight characters without a terminator of their own: \<open>%s\<close> goes on with what follows in the
  structure. Only the fields up to the ethernet addresses are followed.
\<close>

definition behind_iface :: "'b cap_filter \<Rightarrow> char list" where
  "behind_iface flt =
     map char_of_byte (bytes16 (f_vlan_tci flt) @ bytes16 (f_vlan_tci_mask flt) @ bytes16 (f_eth_type flt) @
       bytes16 (f_eth_type_mask flt) @ f_eth_src flt @ f_eth_src_mask flt @ f_eth_dst flt @ f_eth_dst_mask flt)"

definition mampid_arg :: "'b cap_filter \<Rightarrow> string res" where
  "mampid_arg flt = cstr (f_mampid flt @ f_iface flt @ behind_iface flt)"

definition iface_arg :: "'b cap_filter \<Rightarrow> string res" where
  "iface_arg flt = cstr (f_iface flt @ behind_iface flt)"

section \<open>The filter\<close>

text \<open>The first lines and the two names, whose lines for a missing name are never reached.\<close>

definition print_head :: "string \<Rightarrow> 'b cap_filter \<Rightarrow> bool \<Rightarrow> string res" where
  "print_head old flt verbose =
     rbind (stream_addr_ntoa old (f_dest flt)) (\<lambda>dest.
     rbind (if verbose \<or> filter_has flt OFFSET_MAMPID then rbind (mampid_arg flt) (\<lambda>s. Inr (print_line ''MAMPid        '' s))
            else Inr []) (\<lambda>mampid.
     rbind (if verbose \<or> f_index flt AND 512 \<noteq> 0 then rbind (iface_arg flt) (\<lambda>s. Inr (print_line ''CI_ID         '' s))
            else Inr []) (\<lambda>iface.
       Inr (''FILTER {'' @ zero_pad 2 (dec_int (sint (f_filter_id flt))) @ ''}'' @ [CHR 0x0a] @
            print_line (if stream_addr_type (f_dest flt) = address_type_num STREAM_ADDR_CAPFILE then ''DESTFILE      '' else ''DESTADDRESS   '') dest @
            print_line ''CAPLEN        '' (dec_int (sint (f_caplen flt))) @
            print_line ''index         '' (dec_int (sint (f_index flt))) @
            print_line ''mode          '' ((if f_mode flt = FILTER_AND then ''AND'' else ''OR'') @ '' ('' @ dec_int (sint (f_mode flt)) @ '')'') @
            mampid @ iface))))"

text \<open>The line of the VLAN has no end when there is a value.\<close>

definition print_vlan :: "'b cap_filter \<Rightarrow> bool \<Rightarrow> string" where
  "print_vlan flt verbose =
     (if f_index flt AND 256 \<noteq> 0 then
        CHR 0x09 # ''VLAN_TCI      : '' @ dec (unat (f_vlan_tci flt)) @ '' MASK ('' @ dec (unat (f_vlan_tci_mask flt)) @ '')''
      else if verbose then print_line ''VLAN_TCI      '' ''NULL'' else [])"

text \<open>Two addresses are printed into one array, of which the second starts at 19 or 50.\<close>

definition eth_pair :: "u8 list \<Rightarrow> u8 list \<Rightarrow> string" where
  "eth_pair a b = hexdump_address a @ '' (MASK: '' @ hexdump_address b @ '')''"

definition ip_pair :: "u32 \<Rightarrow> u32 \<Rightarrow> string" where
  "ip_pair a b = inet_ntoa a @ '' (MASK: '' @ inet_ntoa b @ '')''"

definition filter_print :: "string \<Rightarrow> 'b cap_filter \<Rightarrow> bool \<Rightarrow> string res" where
  "filter_print old flt verbose =
     rbind (print_head old flt verbose) (\<lambda>s.
       let line = (\<lambda>k. print_field verbose (f_index flt AND k \<noteq> 0)) in
       Inr (s @ print_vlan flt verbose @
            line 128 ''ETH_TYPE      '' (masked_num (f_eth_type flt) (f_eth_type_mask flt)) @
            line 64 ''ETH_SRC       '' (eth_pair (f_eth_src flt) (f_eth_src_mask flt)) @
            line 32 ''ETH_DST       '' (eth_pair (f_eth_dst flt) (f_eth_dst_mask flt)) @
            line 16 ''IP_PROTO      '' (dec (unat (f_ip_proto flt))) @
            line 8 ''IP_SRC        '' (ip_pair (f_ip_src flt) (f_ip_src_mask flt)) @
            line 4 ''IP_DST        '' (ip_pair (f_ip_dst flt) (f_ip_dst_mask flt)) @
            line (filter_bit OFFSET_PORT) ''PORT (s or d) '' (masked_num (f_port flt) (f_port_mask flt)) @
            line 2 ''PORT_SRC      '' (masked_num (f_src_port flt) (f_src_port_mask flt)) @
            line 1 ''PORT_DST      '' (masked_num (f_dst_port flt) (f_dst_port_mask flt)) @
            (case f_bpf_expr flt of
               Some e \<Rightarrow> print_line ''BPF           '' (CHR 0x22 # e @ [CHR 0x22])
             | None \<Rightarrow> if verbose then CHR 0x09 # ''BPF           :'' @ [CHR 0x0a] else [])))"

section \<open>What is printed\<close>

text \<open>The two texts in the array of 100 characters neither overlap nor leave it.\<close>

lemma print_buffer_fits:
  "length (hexdump_address a) + 1 \<le> 19" "19 + (length (hexdump_address b) + 1) \<le> 100"
  "length (inet_ntoa x) + 1 \<le> 50" "50 + (length (inet_ntoa y) + 1) \<le> 100"
proof -
  have "length (hexdump_address c) = 17" for c by (simp add: hexdump_address_def hex2_def upt_rec)
  then show "length (hexdump_address a) + 1 \<le> 19" "19 + (length (hexdump_address b) + 1) \<le> 100" by simp_all
  show "length (inet_ntoa x) + 1 \<le> 50" "50 + (length (inet_ntoa y) + 1) \<le> 100"
    using inet_ntoa_length [of x] inet_ntoa_length [of y] by simp_all
qed

text \<open>A filter whose names are terminated is printed.\<close>

lemma filter_print_total:
  assumes "NUL \<in> set (f_mampid flt)" "NUL \<in> set (f_iface flt)" "stream_addr_ntoa old (f_dest flt) = Inr d"
  shows "\<exists>s. filter_print old flt verbose = Inr s"
proof -
  obtain a b where "mampid_arg flt = Inr a" "iface_arg flt = Inr b"
    using assms(1,2) by (simp add: mampid_arg_def iface_arg_def cstr_def)
  then have "\<exists>s. print_head old flt verbose = Inr s" using assms(3) by (auto simp: print_head_def)
  then show ?thesis by (auto simp: filter_print_def Let_def)
qed

text \<open>A MAMPid that fills its field is printed together with the name of the interface behind it.\<close>

lemma mampid_runs_on:
  assumes "NUL \<notin> set (f_mampid flt)" "f_iface flt = ci @ NUL # rest" "NUL \<notin> set ci"
  shows "mampid_arg flt = Inr (f_mampid flt @ ci)"
proof -
  have "takeWhile (\<lambda>c. c \<noteq> NUL) (f_mampid flt @ ci @ NUL # rest @ behind_iface flt) = f_mampid flt @ ci"
    using assms(1,3) by (subst append_assoc [symmetric], subst takeWhile_append2) auto
  then show ?thesis using assms(2) by (simp add: mampid_arg_def cstr_def)
qed

end
