(* ===== verification/Create_Filter.thy ===== *)
theory Create_Filter
  imports Packet_Filter
begin

text \<open>
  Building filters (\<open>src/createfilter.c\<close>): initialisation, the setters, the parsers of the option
  arguments, the extraction of the filter options from the command line and their application.

  Arguments of the definitions stand for what is not in the sources: the services and protocols
  databases (\<open>getservbyname\<close>, \<open>getprotobyname\<close>), the date parser (\<open>strptime\<close> with \<open>mktime\<close>) and
  \<open>pcap_compile\<close>.
\<close>

section \<open>Initialisation and release\<close>

definition filter_init :: "'b cap_filter" where
  "filter_init = filter_zero\<lparr>f_caplen := - 1, f_mode := FILTER_AND, f_first := True,
     f_frame_num := [], f_frame_counter := 1\<rparr>"

text \<open>\<open>filter_close\<close> releases the list of ranges but leaves the pointer; the field is dead afterwards.\<close>

definition filter_close :: "'b cap_filter \<Rightarrow> 'b cap_filter" where
  "filter_close flt = flt\<lparr>f_bpf_insn := None, f_bpf_expr := None, f_frame_num := []\<rparr>"

section \<open>Scanning numbers as \<open>sscanf\<close> does\<close>

text \<open>\<open>%d\<close>: leading space, a sign, at least one digit. The rest of the input is returned.\<close>

definition take_digits :: "string \<Rightarrow> string \<times> string" where
  "take_digits s = (takeWhile isdigit s, dropWhile isdigit s)"

definition scan_d :: "string \<Rightarrow> (int \<times> string) option" where
  "scan_d s =
     (let s = dropWhile isspace s;
          neg = (at0 s = CHR ''-'');
          r = (if at0 s = CHR ''-'' \<or> at0 s = CHR ''+'' then tl s else s);
          (ds, rest) = take_digits r
      in if ds = [] then None
         else Some (c_int (if neg then max (- (2 ^ 63)) (- int (dec_value ds))
                           else min (2 ^ 63 - 1) (int (dec_value ds))), rest))"

text \<open>\<open>%hi\<close>: the prefix gives the base; the value is cut to 16 bits.\<close>

definition scan_hi :: "string \<Rightarrow> (u16 \<times> string) option" where
  "scan_hi s =
     (let s = dropWhile isspace s;
          neg = (at0 s = CHR ''-'');
          r = (if at0 s = CHR ''-'' \<or> at0 s = CHR ''+'' then tl s else s)
      in if \<not> isdigit (at0 r) then None
         else if at0 r = CHR ''0'' \<and> tolower (at0 (tl r)) = CHR ''x'' \<and> digit_val (at0 (drop 2 r)) = None
         then None
         else let (v, rest) = strtoul0 r in
           Some (word_of_int (if neg then max (- (2 ^ 63)) (- int v) else min (2 ^ 63 - 1) (int v)), rest))"

text \<open>\<open>strtol\<close> in base 10 or 16 of a mask; \<open>0x\<close> has been removed for base 16.\<close>

definition strtol16 :: "string \<Rightarrow> int" where
  "strtol16 s =
     (let s = dropWhile isspace s;
          neg = (at0 s = CHR ''-'');
          r = (if at0 s = CHR ''-'' \<or> at0 s = CHR ''+'' then tl s else s);
          r = (if at0 r = CHR ''0'' \<and> tolower (at0 (tl r)) = CHR ''x'' \<and> digit_val (at0 (drop 2 r)) \<noteq> None
               then drop 2 r else r);
          v = int (fst (scan_base 16 0 r))
      in if neg then max (- (2 ^ 63)) (- v) else min (2 ^ 63 - 1) v)"

definition parse_mask16 :: "string \<Rightarrow> u16" where
  "parse_mask16 tmp =
     (if length tmp \<ge> 2 \<and> strcasecmp_eq (take 2 tmp) ''0x''
      then word_of_int (strtol16 (drop 2 tmp)) else word_of_int (strtoll tmp))"

section \<open>Parsing option arguments\<close>

text \<open>
  Each parser returns whether it succeeded together with the values left in its output parameters,
  which are passed in with their old values.
\<close>

definition split_mask :: "string \<Rightarrow> string \<times> string option" where
  "split_mask str =
     (case strchr_split CHR ''/'' str of None \<Rightarrow> (str, None) | Some (a, m) \<Rightarrow> (a, Some m))"

fun cidr_mask :: "nat \<Rightarrow> u32 \<Rightarrow> u32" where
  "cidr_mask 0 m = m"
| "cidr_mask (Suc bits) m = cidr_mask bits (drop_bit 1 m OR 0x80000000)"

definition parse_inet_mask :: "string \<Rightarrow> u32 option" where
  "parse_inet_mask buf_mask =
     (let bits = unat (word_of_int (atoi buf_mask) :: u32) in
      if CHR ''.'' \<notin> set buf_mask \<and> bits \<le> 32 then Some (htonl (cidr_mask bits 0))
      else inet_aton buf_mask)"

definition parse_inet_addr :: "string \<Rightarrow> u32 \<Rightarrow> u32 \<Rightarrow> bool \<times> u32 \<times> u32" where
  "parse_inet_addr str addr msk =
     (let (buf_addr, m) = split_mask str;
          buf_mask = (case m of None \<Rightarrow> ''255.255.255.255'' | Some m \<Rightarrow> m)
      in case inet_aton buf_addr of
           None \<Rightarrow> (False, addr, msk)
         | Some a \<Rightarrow> (case parse_inet_mask buf_mask of
               None \<Rightarrow> (False, a, msk)
             | Some k \<Rightarrow> (True, a AND k, k)))"

text \<open>\<open>parse_port\<close> reads \<open>optarg\<close> in place of its parameter; the callers pass \<open>optarg\<close>.\<close>

definition parse_port :: "(string \<Rightarrow> u16 option) \<Rightarrow> string \<Rightarrow> u16 \<Rightarrow> u16 \<Rightarrow> bool \<times> u16 \<times> u16" where
  "parse_port getservbyname src port msk =
     (let (name, m) = split_mask src;
          msk = (case m of None \<Rightarrow> 0xFFFF | Some m \<Rightarrow> parse_mask16 m)
      in case getservbyname name of
           Some s_port \<Rightarrow> (True, ntohs s_port AND msk, msk)
         | None \<Rightarrow>
             if isdigit (at0 name) then (True, word_of_int (atoi name) AND msk, msk)
             else (False, port, msk))"

text \<open>An empty argument makes \<open>sscanf\<close> return EOF, which the test for 0 takes for a success.\<close>

definition parse_vlan :: "string \<Rightarrow> u16 \<Rightarrow> u16 \<Rightarrow> bool \<times> u16 \<times> u16" where
  "parse_vlan src vlan_tci msk =
     (if dropWhile isspace src = [] then (True, vlan_tci, 0xFFFF)
      else case scan_hi src of
        None \<Rightarrow> (False, vlan_tci, 0xFFFF)
      | Some (v, rest) \<Rightarrow>
          if at0 rest = CHR ''/'' then
            (case scan_hi (tl rest) of None \<Rightarrow> (True, v, 0xFFFF) | Some (k, _) \<Rightarrow> (True, v, k))
          else (True, v, 0xFFFF))"

definition parse_eth_type :: "string \<Rightarrow> u16 \<Rightarrow> u16 \<Rightarrow> bool \<times> u16 \<times> u16" where
  "parse_eth_type src_orig type msk =
     (let (src, m) = split_mask src_orig;
          msk = (case m of None \<Rightarrow> 0xFFFF | Some m \<Rightarrow> parse_mask16 m)
      in case ethertype_by_name src of
           Some e \<Rightarrow> (True, snd e AND msk, msk)
         | None \<Rightarrow>
             if dropWhile isspace src = [] then (True, type AND msk, msk)
             else case scan_d src of
               None \<Rightarrow> (False, type, msk)
             | Some (v, _) \<Rightarrow> (True, word_of_int v AND msk, msk))"

definition parse_eth_addr :: "string \<Rightarrow> u8 list \<Rightarrow> u8 list \<Rightarrow> bool \<times> u8 list \<times> u8 list" where
  "parse_eth_addr str addr msk =
     (let (buf_addr, m) = split_mask str;
          buf_mask = (case m of None \<Rightarrow> ''FF:FF:FF:FF:FF:FF'' | Some m \<Rightarrow> m)
      in case eth_aton buf_addr of
           None \<Rightarrow> (False, addr, msk)
         | Some a \<Rightarrow> (case eth_aton buf_mask of
               None \<Rightarrow> (False, a, msk)
             | Some k \<Rightarrow> (True, map2 (AND) a k, k)))"

definition parse_ip_proto :: "(string \<Rightarrow> u8 option) \<Rightarrow> string \<Rightarrow> u8 \<Rightarrow> bool \<times> u8" where
  "parse_ip_proto getprotobyname src ip_proto =
     (case getprotobyname src of
        Some p \<Rightarrow> (True, p)
      | None \<Rightarrow>
          if isdigit (at0 src) then (True, word_of_int (atoi src)) else (False, ip_proto))"

text \<open>Frame ranges: \<open>strtok_r\<close> with a comma skips empty tokens.\<close>

function strtok_comma :: "string \<Rightarrow> string list" where
  "strtok_comma s =
     (case strchr_split CHR '','' s of
        None \<Rightarrow> if s = [] then [] else [s]
      | Some (p, r) \<Rightarrow> if p = [] then strtok_comma r else p # strtok_comma r)"
  by pat_completeness auto
termination
  by (relation "measure length") (auto simp: strchr_split_Some_iff)

declare strtok_comma.simps [simp del]

definition parse_range :: "string \<Rightarrow> (int \<times> int) option" where
  "parse_range rng =
     (if CHR ''-'' \<notin> set rng then Some (atoi rng, atoi rng)
      else case scan_d rng of
        None \<Rightarrow> None
      | Some (lower, rest) \<Rightarrow>
          (case (if at0 rest = CHR ''-'' then scan_d (tl rest) else None) of
             Some (upper, _) \<Rightarrow> Some (lower, upper)
           | None \<Rightarrow> if lower < 0 then Some (- 1, c_int (- lower)) else Some (lower, - 1)))"

definition parse_frame_range :: "string \<Rightarrow> 'b cap_filter \<Rightarrow> 'b cap_filter" where
  "parse_frame_range arg flt =
     (let nodes = List.map_filter parse_range (strtok_comma arg)
      in if nodes = [] then flt else flt\<lparr>f_frame_num := nodes\<rparr>)"

definition timepico_from_string ::
  "(string \<Rightarrow> (u32 \<times> string) option) \<Rightarrow> string \<Rightarrow> bool \<times> timepico" where
  "timepico_from_string strptime input =
     (case strptime input of
        None \<Rightarrow> (False, \<lparr>tv_sec = 0, tv_psec = 0\<rparr>)
      | Some (sec, fraction) \<Rightarrow> (True, \<lparr>tv_sec = sec, tv_psec = fraction_psec fraction\<rparr>))"

text \<open>
  \<open>bpf_set\<close> frees the previous program and expression before it compiles the new one. When the
  compilation fails, the fields keep pointing to the freed memory: the last component tells so.
\<close>

definition bpf_set ::
  "(string \<Rightarrow> 'b option) \<Rightarrow> 'b cap_filter \<Rightarrow> string \<Rightarrow> int \<times> 'b cap_filter \<times> bool" where
  "bpf_set pcap_compile flt expr =
     (case pcap_compile expr of
        None \<Rightarrow> (EINVAL, flt, f_bpf_insn flt \<noteq> None \<or> f_bpf_expr flt \<noteq> None)
      | Some insn \<Rightarrow> (0, flt\<lparr>f_bpf_insn := Some insn, f_bpf_expr := Some expr\<rparr>, False))"

section \<open>Setters\<close>

definition filter_enable :: "nat \<Rightarrow> 'b cap_filter \<Rightarrow> 'b cap_filter" where
  "filter_enable off flt = flt\<lparr>f_index := f_index flt OR filter_bit off\<rparr>"

definition filter_ci_set :: "string \<Rightarrow> 'b cap_filter \<Rightarrow> 'b cap_filter" where
  "filter_ci_set str flt = (filter_enable OFFSET_IFACE flt)\<lparr>f_iface := strncpy 8 str\<rparr>"

definition filter_vlan_set :: "string \<Rightarrow> 'b cap_filter \<Rightarrow> 'b cap_filter" where
  "filter_vlan_set str flt =
     (let (_, v, k) = parse_vlan str (f_vlan_tci flt) (f_vlan_tci_mask flt)
      in (filter_enable OFFSET_VLAN flt)\<lparr>f_vlan_tci := v, f_vlan_tci_mask := k\<rparr>)"

definition filter_eth_type_set :: "string \<Rightarrow> 'b cap_filter \<Rightarrow> 'b cap_filter" where
  "filter_eth_type_set str flt =
     (let (_, v, k) = parse_eth_type str (f_eth_type flt) (f_eth_type_mask flt)
      in (filter_enable OFFSET_ETH_TYPE flt)\<lparr>f_eth_type := v, f_eth_type_mask := k\<rparr>)"

definition filter_eth_src_set :: "string \<Rightarrow> 'b cap_filter \<Rightarrow> 'b cap_filter" where
  "filter_eth_src_set str flt =
     (let (_, v, k) = parse_eth_addr str (f_eth_src flt) (f_eth_src_mask flt)
      in (filter_enable OFFSET_ETH_SRC flt)\<lparr>f_eth_src := v, f_eth_src_mask := k\<rparr>)"

definition filter_eth_dst_set :: "string \<Rightarrow> 'b cap_filter \<Rightarrow> 'b cap_filter" where
  "filter_eth_dst_set str flt =
     (let (_, v, k) = parse_eth_addr str (f_eth_dst flt) (f_eth_dst_mask flt)
      in (filter_enable OFFSET_ETH_DST flt)\<lparr>f_eth_dst := v, f_eth_dst_mask := k\<rparr>)"

definition filter_ip_proto_set :: "int \<Rightarrow> 'b cap_filter \<Rightarrow> 'b cap_filter" where
  "filter_ip_proto_set proto flt = (filter_enable OFFSET_IP_PROTO flt)\<lparr>f_ip_proto := word_of_int proto\<rparr>"

definition filter_ip_proto_aton ::
  "(string \<Rightarrow> u8 option) \<Rightarrow> string \<Rightarrow> 'b cap_filter \<Rightarrow> 'b cap_filter" where
  "filter_ip_proto_aton getprotobyname str flt =
     (filter_enable OFFSET_IP_PROTO flt)\<lparr>f_ip_proto := snd (parse_ip_proto getprotobyname str (f_ip_proto flt))\<rparr>"

definition filter_src_port_set :: "u16 \<Rightarrow> u16 \<Rightarrow> 'b cap_filter \<Rightarrow> 'b cap_filter" where
  "filter_src_port_set port msk flt =
     (filter_enable OFFSET_SRC_PORT flt)\<lparr>f_src_port := port AND msk, f_src_port_mask := msk\<rparr>"

definition filter_dst_port_set :: "u16 \<Rightarrow> u16 \<Rightarrow> 'b cap_filter \<Rightarrow> 'b cap_filter" where
  "filter_dst_port_set port msk flt =
     (filter_enable OFFSET_DST_PORT flt)\<lparr>f_dst_port := port AND msk, f_dst_port_mask := msk\<rparr>"

definition filter_tp_port_set :: "u16 \<Rightarrow> u16 \<Rightarrow> 'b cap_filter \<Rightarrow> 'b cap_filter" where
  "filter_tp_port_set port msk flt =
     (filter_enable OFFSET_PORT flt)\<lparr>f_port := port AND msk, f_port_mask := msk\<rparr>"

definition filter_src_ip_set :: "u32 \<Rightarrow> u32 \<Rightarrow> 'b cap_filter \<Rightarrow> 'b cap_filter" where
  "filter_src_ip_set ip msk flt =
     (filter_enable OFFSET_IP_SRC flt)\<lparr>f_ip_src := ip AND msk, f_ip_src_mask := msk\<rparr>"

definition filter_dst_ip_set :: "u32 \<Rightarrow> u32 \<Rightarrow> 'b cap_filter \<Rightarrow> 'b cap_filter" where
  "filter_dst_ip_set ip msk flt =
     (filter_enable OFFSET_IP_DST flt)\<lparr>f_ip_dst := ip AND msk, f_ip_dst_mask := msk\<rparr>"

definition filter_src_ip_aton :: "string \<Rightarrow> 'b cap_filter \<Rightarrow> 'b cap_filter" where
  "filter_src_ip_aton str flt =
     (let (_, a, k) = parse_inet_addr str (f_ip_src flt) (f_ip_src_mask flt)
      in (filter_enable OFFSET_IP_SRC flt)\<lparr>f_ip_src := a, f_ip_src_mask := k\<rparr>)"

definition filter_dst_ip_aton :: "string \<Rightarrow> 'b cap_filter \<Rightarrow> 'b cap_filter" where
  "filter_dst_ip_aton str flt =
     (let (_, a, k) = parse_inet_addr str (f_ip_dst flt) (f_ip_dst_mask flt)
      in (filter_enable OFFSET_IP_DST flt)\<lparr>f_ip_dst := a, f_ip_dst_mask := k\<rparr>)"

definition filter_mampid_set :: "string \<Rightarrow> 'b cap_filter \<Rightarrow> 'b cap_filter" where
  "filter_mampid_set str flt = (filter_enable OFFSET_MAMPID flt)\<lparr>f_mampid := strncpy 8 str\<rparr>"

definition filter_starttime_set :: "timepico \<Rightarrow> 'b cap_filter \<Rightarrow> 'b cap_filter" where
  "filter_starttime_set t flt = (filter_enable OFFSET_START_TIME flt)\<lparr>f_starttime := t\<rparr>"

definition filter_endtime_set :: "timepico \<Rightarrow> 'b cap_filter \<Rightarrow> 'b cap_filter" where
  "filter_endtime_set t flt = (filter_enable OFFSET_END_TIME flt)\<lparr>f_endtime := t\<rparr>"

definition filter_frame_dt_set :: "timepico \<Rightarrow> 'b cap_filter \<Rightarrow> 'b cap_filter" where
  "filter_frame_dt_set t flt = (filter_enable OFFSET_FRAME_MAX_DT flt)\<lparr>f_frame_max_dt := t\<rparr>"

definition filter_frame_num_set :: "string \<Rightarrow> 'b cap_filter \<Rightarrow> 'b cap_filter" where
  "filter_frame_num_set str flt = parse_frame_range str (filter_enable OFFSET_FRAME_NUM flt)"

section \<open>Options on the command line\<close>

datatype filter_op = Op_filter nat | PARAM_CAPLEN | PARAM_MODE | PARAM_BPF

definition options :: "(string \<times> filter_op) list" where
  "options =
     [(''tp.port'', Op_filter OFFSET_PORT), (''starttime'', Op_filter OFFSET_START_TIME),
      (''begin'', Op_filter OFFSET_START_TIME), (''endtime'', Op_filter OFFSET_END_TIME),
      (''end'', Op_filter OFFSET_END_TIME), (''mampid'', Op_filter OFFSET_MAMPID),
      (''mpid'', Op_filter OFFSET_MAMPID), (''iface'', Op_filter OFFSET_IFACE),
      (''if'', Op_filter OFFSET_IFACE), (''eth.vlan'', Op_filter OFFSET_VLAN),
      (''eth.type'', Op_filter OFFSET_ETH_TYPE), (''eth.src'', Op_filter OFFSET_ETH_SRC),
      (''eth.dst'', Op_filter OFFSET_ETH_DST), (''ip.proto'', Op_filter OFFSET_IP_PROTO),
      (''ip.src'', Op_filter OFFSET_IP_SRC), (''ip.dst'', Op_filter OFFSET_IP_DST),
      (''tp.sport'', Op_filter OFFSET_SRC_PORT), (''tp.dport'', Op_filter OFFSET_DST_PORT),
      (''caplen'', PARAM_CAPLEN), (''filter-mode'', PARAM_MODE),
      (''frame-max-dt'', Op_filter OFFSET_FRAME_MAX_DT), (''frame-num'', Op_filter OFFSET_FRAME_NUM),
      (''bpf'', PARAM_BPF)]"

text \<open>
  \<open>split_argv\<close> moves the filter options out of the argument vector. An option is recognised by any
  prefix of its name; \<open>opt_name\<close> is the text between the dashes and the first \<open>=\<close> behind the first
  character.
\<close>

definition opt_len :: "string \<Rightarrow> nat" where
  "opt_len arg = 1 + length (takeWhile (\<lambda>c. c \<noteq> CHR ''='') (tl arg))"

definition is_filter_opt :: "string \<Rightarrow> bool" where
  "is_filter_opt arg \<longleftrightarrow>
     take 2 arg = ''--'' \<and> list_ex (\<lambda>e. is_prefix (drop 2 (take (opt_len arg) arg)) (fst e)) options"

text \<open>
  The state of the loop: \<open>argc\<close> and \<open>argv\<close> of the caller, the index, the pointer as an index into \<open>argv\<close>, and
  the entries stored to \<open>dst_argv\<close>, an array of \<open>cap\<close> entries. A read or a store outside of an array faults.
\<close>

record split_state =
  sp_argc :: nat
  sp_argv :: "string list"
  sp_i :: nat
  sp_ptr :: nat
  sp_dst :: "string list"

definition arg_at :: "string list \<Rightarrow> nat \<Rightarrow> string res" where
  "arg_at argv k = (if k < length argv then Inr (argv ! k) else Inl Out_of_bounds)"

definition dst_push :: "nat \<Rightarrow> string list \<Rightarrow> string \<Rightarrow> string list res" where
  "dst_push cap dst arg = (if length dst < cap then Inr (dst @ [arg]) else Inl Out_of_bounds)"

text \<open>The \<open>memmove\<close> of the entries from \<open>ptr + n\<close> up to \<open>argc\<close> down to \<open>ptr\<close>; what is behind them stays.\<close>

definition shift_argv :: "nat \<Rightarrow> string list \<Rightarrow> nat \<Rightarrow> nat \<Rightarrow> string list res" where
  "shift_argv argc argv ptr n =
     (if ptr + n \<le> argc \<and> argc \<le> length argv
      then Inr (take ptr argv @ take (argc - (ptr + n)) (drop (ptr + n) argv) @ drop (argc - n) argv)
      else Inl Out_of_bounds)"

text \<open>How many entries an option has: two when its value is the next argument.\<close>

definition opt_entries :: "split_state \<Rightarrow> string \<Rightarrow> nat res" where
  "opt_entries s arg =
     (if opt_len arg < length arg then Inr 1
      else if sp_i s + 1 = sp_argc s then Inr 1
      else rbind (arg_at (sp_argv s) (sp_ptr s + 1)) (\<lambda>v. Inr (if at0 v = CHR ''-'' then 1 else 2)))"

definition split_body :: "nat \<Rightarrow> split_state \<Rightarrow> split_state res" where
  "split_body cap s =
     rbind (arg_at (sp_argv s) (sp_ptr s)) (\<lambda>arg.
       if length arg < 3 \<or> \<not> is_filter_opt arg then Inr (s\<lparr>sp_i := sp_i s + 1, sp_ptr := sp_ptr s + 1\<rparr>)
       else
         rbind (opt_entries s arg) (\<lambda>n.
         rbind (dst_push cap (sp_dst s) arg) (\<lambda>dst.
         rbind (if n = 2 then rbind (arg_at (sp_argv s) (sp_ptr s + 1)) (dst_push cap dst) else Inr dst) (\<lambda>dst.
         rbind (shift_argv (sp_argc s) (sp_argv s) (sp_ptr s) n) (\<lambda>argv.
           Inr (s\<lparr>sp_argc := sp_argc s - n, sp_argv := argv, sp_dst := dst\<rparr>))))))"

lemma split_body_progress:
  assumes "split_body cap s = Inr s'" "sp_i s' < sp_argc s'"
  shows "sp_argc s' - sp_i s' < sp_argc s - sp_i s"
  using assms by (auto simp: split_body_def rbind_Inr_iff opt_entries_def split: if_splits)

function split_loop :: "nat \<Rightarrow> split_state \<Rightarrow> split_state res" where
  "split_loop cap s =
     rbind (split_body cap s) (\<lambda>s'. if sp_i s' < sp_argc s' then split_loop cap s' else Inr s')"
  by pat_completeness auto
termination split_loop
  by (relation "measure (\<lambda>(cap, s). sp_argc s - sp_i s)") (auto intro: split_body_progress)

declare split_loop.simps [simp del]

definition split_argv :: "string list \<Rightarrow> (nat \<times> string list \<times> string list) res" where
  "split_argv argv =
     rbind (arg_at argv 0) (\<lambda>prog.
     rbind (dst_push (length argv) [] prog) (\<lambda>dst.
       if length argv = 1 then Inr (1, argv, dst)
       else rbind (split_loop (length argv)
              \<lparr>sp_argc = length argv, sp_argv = argv, sp_i = 1, sp_ptr = 1, sp_dst = dst\<rparr>) (\<lambda>s.
            Inr (sp_argc s, sp_argv s, sp_dst s))))"

text \<open>
  \<open>getopt_long\<close> on the options that have been moved: an exact name, or else a prefix that stands for
  one option only (options that differ in nothing but the name count as one); an option without \<open>=\<close>
  takes the next argument, whatever it is. \<open>None\<close> is the return value \<open>?\<close>.
\<close>

definition find_option :: "string \<Rightarrow> filter_op option" where
  "find_option name =
     (case map_of options name of
        Some op \<Rightarrow> Some op
      | None \<Rightarrow> (case filter (\<lambda>e. is_prefix name (fst e)) options of
            [] \<Rightarrow> None
          | e # es \<Rightarrow> if list_all (\<lambda>x. snd x = snd e) es then Some (snd e) else None))"

fun getopt_long :: "string list \<Rightarrow> (filter_op \<times> string) option list" where
  "getopt_long [] = []"
| "getopt_long (arg # rest) =
     (if take 2 arg \<noteq> ''--'' then getopt_long rest
      else (case strchr_split CHR ''='' (drop 2 arg) of
          Some (name, v) \<Rightarrow> (case find_option name of
              None \<Rightarrow> [None]
            | Some op \<Rightarrow> Some (op, v) # getopt_long rest)
        | None \<Rightarrow> (case find_option (drop 2 arg) of
              None \<Rightarrow> [None]
            | Some op \<Rightarrow> (case rest of [] \<Rightarrow> [None] | v # rest' \<Rightarrow> Some (op, v) # getopt_long rest'))))"

record 'b libs =
  getservbyname :: "string \<Rightarrow> u16 option"
  getprotobyname :: "string \<Rightarrow> u8 option"
  strptime :: "string \<Rightarrow> (u32 \<times> string) option"
  pcap_compile :: "string \<Rightarrow> 'b option"

text \<open>
  The \<open>switch\<close> over the criteria: whether the argument was accepted, and the filter with the values
  the parser stored.
\<close>

definition apply_criterion :: "'b libs \<Rightarrow> nat \<Rightarrow> string \<Rightarrow> 'b cap_filter \<Rightarrow> bool \<times> 'b cap_filter" where
  "apply_criterion libs off optarg flt =
     (if off = OFFSET_PORT then
        (let (ok, v, k) = parse_port (getservbyname libs) optarg (f_port flt) (f_port_mask flt)
         in (ok, flt\<lparr>f_port := v, f_port_mask := k\<rparr>))
      else if off = OFFSET_START_TIME then
        (let (ok, t) = timepico_from_string (strptime libs) optarg in (ok, flt\<lparr>f_starttime := t\<rparr>))
      else if off = OFFSET_END_TIME then
        (let (ok, t) = timepico_from_string (strptime libs) optarg in (ok, flt\<lparr>f_endtime := t\<rparr>))
      else if off = OFFSET_MAMPID then (True, flt\<lparr>f_mampid := strncpy 8 optarg\<rparr>)
      else if off = OFFSET_IFACE then (True, flt\<lparr>f_iface := strncpy 8 optarg\<rparr>)
      else if off = OFFSET_VLAN then
        (let (ok, v, k) = parse_vlan optarg (f_vlan_tci flt) (f_vlan_tci_mask flt)
         in (ok, flt\<lparr>f_vlan_tci := v, f_vlan_tci_mask := k\<rparr>))
      else if off = OFFSET_ETH_TYPE then
        (let (ok, v, k) = parse_eth_type optarg (f_eth_type flt) (f_eth_type_mask flt)
         in (ok, flt\<lparr>f_eth_type := v, f_eth_type_mask := k\<rparr>))
      else if off = OFFSET_ETH_SRC then
        (let (ok, v, k) = parse_eth_addr optarg (f_eth_src flt) (f_eth_src_mask flt)
         in (ok, flt\<lparr>f_eth_src := v, f_eth_src_mask := k\<rparr>))
      else if off = OFFSET_ETH_DST then
        (let (ok, v, k) = parse_eth_addr optarg (f_eth_dst flt) (f_eth_dst_mask flt)
         in (ok, flt\<lparr>f_eth_dst := v, f_eth_dst_mask := k\<rparr>))
      else if off = OFFSET_IP_PROTO then
        (let (ok, v) = parse_ip_proto (getprotobyname libs) optarg (f_ip_proto flt)
         in (ok, flt\<lparr>f_ip_proto := v\<rparr>))
      else if off = OFFSET_IP_SRC then
        (let (ok, v, k) = parse_inet_addr optarg (f_ip_src flt) (f_ip_src_mask flt)
         in (ok, flt\<lparr>f_ip_src := v, f_ip_src_mask := k\<rparr>))
      else if off = OFFSET_IP_DST then
        (let (ok, v, k) = parse_inet_addr optarg (f_ip_dst flt) (f_ip_dst_mask flt)
         in (ok, flt\<lparr>f_ip_dst := v, f_ip_dst_mask := k\<rparr>))
      else if off = OFFSET_SRC_PORT then
        (let (ok, v, k) = parse_port (getservbyname libs) optarg (f_src_port flt) (f_src_port_mask flt)
         in (ok, flt\<lparr>f_src_port := v, f_src_port_mask := k\<rparr>))
      else if off = OFFSET_DST_PORT then
        (let (ok, v, k) = parse_port (getservbyname libs) optarg (f_dst_port flt) (f_dst_port_mask flt)
         in (ok, flt\<lparr>f_dst_port := v, f_dst_port_mask := k\<rparr>))
      else if off = OFFSET_FRAME_MAX_DT then
        (let (ok, t) = timepico_from_string (strptime libs) optarg in (ok, flt\<lparr>f_frame_max_dt := t\<rparr>))
      else if off = OFFSET_FRAME_NUM then (True, parse_frame_range optarg flt)
      else (True, flt))"

definition set_mode :: "string \<Rightarrow> 'b cap_filter \<Rightarrow> 'b cap_filter" where
  "set_mode optarg flt =
     (if strcasecmp_eq optarg ''and'' then flt\<lparr>f_mode := FILTER_AND\<rparr>
      else if strcasecmp_eq optarg ''or'' then flt\<lparr>f_mode := FILTER_OR\<rparr>
      else flt)"

text \<open>The loop: return value, filter, and whether a freed BPF program is still referenced.\<close>

fun apply_options ::
  "'b libs \<Rightarrow> (filter_op \<times> string) option list \<Rightarrow> 'b cap_filter \<Rightarrow> bool \<Rightarrow> int \<times> 'b cap_filter \<times> bool" where
  "apply_options libs [] flt dangling = (0, flt, dangling)"
| "apply_options libs (None # ops) flt dangling = (1, flt, dangling)"
| "apply_options libs (Some (op, optarg) # ops) flt dangling =
     (case op of
        PARAM_CAPLEN \<Rightarrow> apply_options libs ops (flt\<lparr>f_caplen := word_of_int (atoi optarg)\<rparr>) dangling
      | PARAM_MODE \<Rightarrow> apply_options libs ops (set_mode optarg flt) dangling
      | PARAM_BPF \<Rightarrow>
          (let (ret, flt, d) = bpf_set (pcap_compile libs) flt optarg in
           if ret \<noteq> 0 then (ret, flt, dangling \<or> d) else apply_options libs ops flt dangling)
      | Op_filter off \<Rightarrow>
          (let (ok, flt) = apply_criterion libs off optarg flt
           in apply_options libs ops (if ok then filter_enable off flt else flt) dangling))"

definition filter_from_argv ::
  "'b libs \<Rightarrow> string list \<Rightarrow> (int \<times> string list \<times> 'b cap_filter \<times> bool) res" where
  "filter_from_argv libs argv =
     (if argv = [] then Inr (0, [], filter_init, False)
      else rbind (split_argv argv) (\<lambda>(argc, argv, filter_argv).
        let (ret, flt, d) = apply_options libs (getopt_long (tl filter_argv)) filter_init False
        in Inr (ret, take argc argv, flt, d)))"

section \<open>Prefix masks\<close>

lemma bit_cidr_mask:
  "bit (cidr_mask n m) k \<longleftrightarrow> k < 32 \<and> (32 - n \<le> k \<or> bit m (k + n))"
proof (induction n arbitrary: m)
  case 0
  then show ?case by (auto dest: bit_imp_le_length)
next
  case (Suc n)
  have c: "bit (0x80000000 :: u32) j \<longleftrightarrow> j = 31" for j
  proof -
    have "(0x80000000 :: u32) = push_bit 31 1" by simp
    then show ?thesis by (simp only: bit_simps) auto
  qed
  have "bit (drop_bit 1 m OR 0x80000000) j \<longleftrightarrow> bit m (Suc j) \<or> j = 31" for j
    by (simp only: bit_or_iff c bit_drop_bit_eq comp_def) simp
  then have "bit (cidr_mask (Suc n) m) k \<longleftrightarrow> k < 32 \<and> (32 - n \<le> k \<or> bit m (Suc (k + n)) \<or> k + n = 31)"
    by (simp only: cidr_mask.simps Suc)
  moreover have "32 - n \<le> k \<or> k + n = 31 \<longleftrightarrow> 32 - Suc n \<le> k" by linarith
  ultimately show ?case by (simp only: add_Suc_right) blast
qed

lemma cidr_mask_match:
  assumes "n \<le> 32"
  shows "a AND cidr_mask n 0 = b AND cidr_mask n 0 \<longleftrightarrow>
    unat a div 2 ^ (32 - n) = unat b div 2 ^ (32 - n)"
proof -
  have "a AND cidr_mask n 0 = b AND cidr_mask n 0 \<longleftrightarrow>
      (\<forall>k<32. 32 - n \<le> k \<longrightarrow> bit a k = bit b k)"
    unfolding word32_eq_iff by (auto simp: bit_simps bit_cidr_mask)
  also have "\<dots> \<longleftrightarrow> (\<forall>k. bit a (32 - n + k) = bit b (32 - n + k))"
  proof
    assume h: "\<forall>k<32. 32 - n \<le> k \<longrightarrow> bit a k = bit b k"
    show "\<forall>k. bit a (32 - n + k) = bit b (32 - n + k)"
    proof
      fix k
      show "bit a (32 - n + k) = bit b (32 - n + k)"
        using h bit_imp_le_length [of a "32 - n + k"] bit_imp_le_length [of b "32 - n + k"]
        by (cases "32 - n + k < 32") auto
    qed
  next
    assume h: "\<forall>k. bit a (32 - n + k) = bit b (32 - n + k)"
    show "\<forall>k<32. 32 - n \<le> k \<longrightarrow> bit a k = bit b k"
      using h by (metis le_add_diff_inverse)
  qed
  also have "\<dots> \<longleftrightarrow> drop_bit (32 - n) (unat a) = drop_bit (32 - n) (unat b)"
    by (simp add: bit_eq_iff bit_simps bit_unsigned_iff)
  finally show ?thesis by (simp add: drop_bit_eq_div)
qed

lemma split_mask_slash: "CHR ''/'' \<notin> set a \<Longrightarrow> split_mask (a @ CHR ''/'' # m) = (a, Some m)"
  by (simp add: split_mask_def strchr_split_append)

lemma inet_ntoa_no_slash: "CHR ''/'' \<notin> set (inet_ntoa a)"
  by (simp add: inet_ntoa_def Let_def dec_chars)

lemma parse_inet_mask_cidr: "n \<le> 32 \<Longrightarrow> parse_inet_mask (dec n) = Some (htonl (cidr_mask n 0))"
proof -
  assume n: "n \<le> 32"
  have "isdigit CHR ''.'' \<longleftrightarrow> False" by (simp add: isdigit_def)
  then have "CHR ''.'' \<notin> set (dec n)" using isdigit_dec by blast
  moreover have "atoi (dec n) = int n" using n by (intro atoi_dec) simp
  moreover have "unat (word_of_int (int n) :: u32) = n" using n by (simp add: unat_of_nat)
  ultimately show ?thesis using n by (simp add: parse_inet_mask_def)
qed

section \<open>Frame ranges\<close>

definition show_range :: "nat \<times> nat \<Rightarrow> string" where
  "show_range r = dec (fst r) @ CHR ''-'' # dec (snd r)"

fun join_comma :: "string list \<Rightarrow> string" where
  "join_comma [] = []"
| "join_comma [s] = s"
| "join_comma (s # ss) = s @ CHR '','' # join_comma ss"

lemma strtok_comma_join:
  "\<forall>s\<in>set ss. s \<noteq> [] \<and> CHR '','' \<notin> set s \<Longrightarrow> strtok_comma (join_comma ss) = ss"
proof (induction ss rule: join_comma.induct)
  case 1
  then show ?case by (subst strtok_comma.simps) simp
next
  case (2 s)
  then have "strchr_split CHR '','' s = None" by (simp add: strchr_split_None_iff)
  with 2 show ?case by (subst strtok_comma.simps) simp
next
  case (3 s t ss)
  then show ?case by (subst strtok_comma.simps) (simp add: strchr_split_append)
qed

lemma takeWhile_digits:
  assumes "\<forall>c\<in>set s. isdigit c" "r = [] \<or> \<not> isdigit (hd r)"
  shows "take_digits (s @ r) = (s, r)"
  using assms by (cases r) (auto simp: take_digits_def takeWhile_append dropWhile_append)

lemma scan_d_dec:
  assumes "n < 2 ^ 31" "r = [] \<or> \<not> isdigit (hd r)"
  shows "scan_d (dec n @ r) = Some (int n, r)"
proof -
  obtain c s where d: "dec n = c # s" "isdigit c" using dec_head by blast
  then have "\<not> isspace c" "c \<noteq> CHR ''-''" "c \<noteq> CHR ''+''" using isdigit_not_special by blast+
  then have "dropWhile isspace (dec n @ r) = dec n @ r" "at0 (dec n @ r) = c"
    using d by (simp_all add: at0_def)
  moreover have "take_digits (dec n @ r) = (dec n, r)"
    using assms(2) isdigit_dec by (intro takeWhile_digits) auto
  ultimately show ?thesis
    using assms(1) \<open>c \<noteq> CHR ''-''\<close> \<open>c \<noteq> CHR ''+''\<close>
    by (simp add: scan_d_def dec_not_Nil dec_value_dec c_int_id)
qed

lemma parse_range_show:
  assumes "fst r < 2 ^ 31" "snd r < 2 ^ 31"
  shows "parse_range (show_range r) = Some (int (fst r), int (snd r))"
proof -
  have "\<not> isdigit CHR ''-''" by (simp add: isdigit_def)
  then have "scan_d (show_range r) = Some (int (fst r), CHR ''-'' # dec (snd r))"
    unfolding show_range_def using assms(1) by (intro scan_d_dec) simp_all
  moreover have "scan_d (dec (snd r)) = Some (int (snd r), [])"
    using scan_d_dec [OF assms(2), of "[]"] by simp
  ultimately show ?thesis
    by (simp add: parse_range_def at0_def) (simp add: show_range_def)
qed

section \<open>Filters built from options\<close>

text \<open>What the matcher needs of a filter: the conditions of its specification.\<close>

definition filter_built :: "'b cap_filter \<Rightarrow> bool" where
  "filter_built flt \<longleftrightarrow>
     f_mode flt \<in> {FILTER_AND, FILTER_OR} \<and> unat (f_index flt) < 2 ^ 16 \<and>
     (f_frame_num flt \<noteq> [] \<longrightarrow> filter_has flt OFFSET_FRAME_NUM) \<and>
     f_first flt \<and> f_frame_counter flt = 1 \<and> length (f_iface flt) = 8 \<and> length (f_mampid flt) = 8"

lemma filter_built_init: "filter_built filter_init"
  by (simp add: filter_built_def filter_init_def filter_zero_def)

lemma unat_less_iff_bits: "unat (w :: u32) < 2 ^ 16 \<longleftrightarrow> (\<forall>k. bit w k \<longrightarrow> k < 16)"
proof -
  have "unat w < 2 ^ 16 \<longleftrightarrow> take_bit 16 (unat w) = unat w" by (simp add: take_bit_nat_eq_self_iff)
  also have "\<dots> \<longleftrightarrow> (\<forall>k. bit (unat w) k \<longrightarrow> k < 16)"
    unfolding bit_eq_iff bit_take_bit_iff by auto
  finally show ?thesis by (simp add: bit_unsigned_iff)
qed

lemma index_or_bound:
  "unat (w :: u32) < 2 ^ 16 \<Longrightarrow> off < 16 \<Longrightarrow> unat (w OR filter_bit off) < 2 ^ 16"
  unfolding unat_less_iff_bits by (auto simp: bit_or_iff bit_filter_bit)

lemma filter_has_enable:
  "off < 32 \<Longrightarrow> k < 32 \<Longrightarrow> filter_has (filter_enable off flt) k \<longleftrightarrow> k = off \<or> filter_has flt k"
  by (auto simp: filter_has_bit filter_enable_def bit_or_iff bit_filter_bit)

lemma apply_criterion_frame:
  assumes "apply_criterion libs off optarg flt = (ok, flt')" "length (f_iface flt) = 8" "length (f_mampid flt) = 8"
  shows "f_mode flt' = f_mode flt" "f_index flt' = f_index flt" "f_first flt' = f_first flt"
    "f_frame_counter flt' = f_frame_counter flt" "length (f_iface flt') = 8" "length (f_mampid flt') = 8"
    "f_frame_num flt' = f_frame_num flt \<or> off = OFFSET_FRAME_NUM \<and> ok"
proof -
  have "f_mode flt' = f_mode flt \<and> f_index flt' = f_index flt \<and> f_first flt' = f_first flt \<and>
    f_frame_counter flt' = f_frame_counter flt \<and> length (f_iface flt') = 8 \<and> length (f_mampid flt') = 8 \<and>
    (f_frame_num flt' = f_frame_num flt \<or> off = OFFSET_FRAME_NUM \<and> ok)"
  proof -
    have "off = 0 \<or> off = 1 \<or> off = 2 \<or> off = 3 \<or> off = 4 \<or> off = 5 \<or> off = 6 \<or> off = 7 \<or> off = 8 \<or>
      off = 9 \<or> off = 10 \<or> off = 11 \<or> off = 12 \<or> off = 13 \<or> off = 14 \<or> off = 15 \<or> 15 < off"
      by presburger
    then show ?thesis
      using assms by (elim disjE) (auto simp: apply_criterion_def parse_frame_range_def Let_def split: prod.splits if_splits)
  qed
  then show "f_mode flt' = f_mode flt" "f_index flt' = f_index flt" "f_first flt' = f_first flt"
    "f_frame_counter flt' = f_frame_counter flt" "length (f_iface flt') = 8" "length (f_mampid flt') = 8"
    "f_frame_num flt' = f_frame_num flt \<or> off = OFFSET_FRAME_NUM \<and> ok" by simp_all
qed

lemma options_offsets: "(name, Op_filter off) \<in> set options \<Longrightarrow> off < 16"
  by (auto simp: options_def)

lemma find_option_offset: "find_option name = Some (Op_filter off) \<Longrightarrow> off < 16"
proof -
  assume a: "find_option name = Some (Op_filter off)"
  have "\<exists>n. (n, Op_filter off) \<in> set options"
  proof (cases "map_of options name")
    case None
    with a obtain e es where "filter (\<lambda>e. is_prefix name (fst e)) options = e # es" "snd e = Op_filter off"
      by (auto simp: find_option_def split: list.splits if_splits)
    then have "(fst e, Op_filter off) \<in> set options"
      by (metis filter_eq_ConsD in_set_conv_decomp prod.collapse)
    then show ?thesis by blast
  next
    case (Some op)
    with a show ?thesis using map_of_SomeD [OF Some] by (auto simp: find_option_def)
  qed
  then show ?thesis using options_offsets by blast
qed

lemma getopt_long_offset:
  "Some (Op_filter off, v) \<in> set (getopt_long args) \<Longrightarrow> off < 16"
  by (induction args rule: getopt_long.induct)
    (auto split: option.splits if_splits list.splits dest: find_option_offset)

lemma filter_built_enable:
  assumes "filter_built flt" "apply_criterion libs off optarg flt = (ok, flt')" "off < 16"
  shows "filter_built (if ok then filter_enable off flt' else flt')"
proof -
  have l: "length (f_iface flt) = 8" "length (f_mampid flt) = 8" using assms(1) by (simp_all add: filter_built_def)
  note fr = apply_criterion_frame [OF assms(2) l]
  have has: "filter_has flt' k = filter_has flt k" for k using fr(2) by (simp add: filter_has_def)
  have "filter_has (filter_enable off flt') OFFSET_FRAME_NUM \<longleftrightarrow> off = 15 \<or> filter_has flt 15"
    using filter_has_enable [of off 15 flt'] assms(3) has by auto
  moreover have "unat (f_index flt OR filter_bit off) < 2 ^ 16"
    using assms(1,3) index_or_bound [of "f_index flt" off] by (simp add: filter_built_def)
  moreover have "f_frame_num flt' \<noteq> [] \<longrightarrow> filter_has flt 15 \<or> off = 15 \<and> ok"
    using fr(7) assms(1) by (auto simp: filter_built_def)
  ultimately show ?thesis
    using assms(1) fr has by (auto simp: filter_built_def filter_enable_def)
qed

lemma filter_built_set:
  "filter_built flt \<Longrightarrow> filter_built (flt\<lparr>f_caplen := c\<rparr>)" "filter_built flt \<Longrightarrow> filter_built (set_mode m flt)"
  "filter_built flt \<Longrightarrow> filter_built (flt\<lparr>f_bpf_insn := i, f_bpf_expr := e\<rparr>)"
  by (auto simp: filter_built_def set_mode_def filter_has_def)

lemma apply_options_built:
  assumes "filter_built flt" "\<And>off v. Some (Op_filter off, v) \<in> set ops \<Longrightarrow> off < 16"
  shows "filter_built (fst (snd (apply_options libs ops flt d)))"
  using assms
proof (induction libs ops flt d rule: apply_options.induct)
  case (3 libs op optarg ops flt d)
  have rest: "\<And>off v. Some (Op_filter off, v) \<in> set ops \<Longrightarrow> off < 16" using 3(6) by auto
  show ?case
  proof (cases op)
    case (Op_filter off)
    obtain ok flt' where ap: "apply_criterion libs off optarg flt = (ok, flt')" by force
    have "filter_built (if ok then filter_enable off flt' else flt')"
      using 3(5,6) Op_filter ap by (intro filter_built_enable) auto
    then show ?thesis using 3(1) [OF Op_filter refl ap [symmetric] _ rest] ap Op_filter by simp
  next
    case PARAM_CAPLEN
    then show ?thesis using 3 filter_built_set(1) by auto
  next
    case PARAM_MODE
    then show ?thesis using 3 filter_built_set(2) by auto
  next
    case PARAM_BPF
    show ?thesis
    proof (cases "pcap_compile libs optarg")
      case None
      then show ?thesis using PARAM_BPF 3(5) by (simp add: bpf_set_def EINVAL_def)
    next
      case (Some insn)
      let ?f = "flt\<lparr>f_bpf_insn := Some insn, f_bpf_expr := Some optarg\<rparr>"
      have b: "bpf_set (pcap_compile libs) flt optarg = (0, ?f, False)"
        using Some by (simp add: bpf_set_def)
      have "filter_built (fst (snd (apply_options libs ops ?f d)))"
        by (rule 3(4) [OF PARAM_BPF b [symmetric] refl refl _ filter_built_set(3) [OF 3(5)] rest]) simp_all
      then show ?thesis by (simp add: PARAM_BPF b)
    qed
  qed
qed auto

section \<open>Dividing the arguments\<close>

text \<open>
  What an option is, without the indices of the code: two dashes and a prefix of the name of one, alone or with
  an equals sign behind it. An argument is taken when it is an option, or when the one before it is an option
  without an equals sign and it does not start with a dash.
\<close>

definition filter_option :: "string \<Rightarrow> bool" where
  "filter_option a \<longleftrightarrow> 3 \<le> length a \<and>
     (\<exists>p r q. a = ''--'' @ p @ r \<and> CHR ''='' \<notin> set p \<and> (r = [] \<or> hd r = CHR ''='') \<and> p @ q \<in> fst ` set options)"

definition wants_value :: "string \<Rightarrow> bool" where
  "wants_value a \<longleftrightarrow> filter_option a \<and> CHR ''='' \<notin> set a"

definition takes :: "string \<Rightarrow> string \<Rightarrow> bool" where
  "takes prev a \<longleftrightarrow> filter_option a \<or> wants_value prev \<and> at0 a \<noteq> CHR ''-''"

definition taken_args :: "string \<Rightarrow> string list \<Rightarrow> string list" where
  "taken_args prev args = map snd (filter (\<lambda>(p, a). takes p a) (zip (prev # args) args))"

definition left_args :: "string \<Rightarrow> string list \<Rightarrow> string list" where
  "left_args prev args = map snd (filter (\<lambda>(p, a). \<not> takes p a) (zip (prev # args) args))"

lemma args_Cons [simp]:
  "taken_args prev (a # args) = (if takes prev a then a # taken_args a args else taken_args a args)"
  "left_args prev (a # args) = (if takes prev a then left_args a args else a # left_args a args)"
  "taken_args prev [] = []" "left_args prev [] = []"
  by (simp_all add: taken_args_def left_args_def)

lemma filter_option_iff: "filter_option a \<longleftrightarrow> 3 \<le> length a \<and> is_filter_opt a"
proof (cases "take 2 a = ''--''")
  case True
  then obtain t where a: "a = ''--'' @ t" using append_take_drop_id [of 2 a] by metis
  let ?p = "takeWhile (\<lambda>c. c \<noteq> CHR ''='') t" and ?r = "dropWhile (\<lambda>c. c \<noteq> CHR ''='') t"
  have n: "drop 2 (take (opt_len a) a) = ?p"
    by (simp add: a opt_len_def takeWhile_eq_take [symmetric])
  have eq: "t = p @ r \<and> CHR ''='' \<notin> set p \<and> (r = [] \<or> hd r = CHR ''='') \<longleftrightarrow> p = ?p \<and> r = ?r" for p r
  proof
    assume *: "t = p @ r \<and> CHR ''='' \<notin> set p \<and> (r = [] \<or> hd r = CHR ''='')"
    then have c: "\<And>c. c \<in> set p \<Longrightarrow> c \<noteq> CHR ''=''" by auto
    have "takeWhile (\<lambda>c. c \<noteq> CHR ''='') r = []" "dropWhile (\<lambda>c. c \<noteq> CHR ''='') r = r" using * by (cases r; simp)+
    then show "p = ?p \<and> r = ?r" using takeWhile_append2 [of p, OF c] dropWhile_append2 [of p, OF c] * by simp
  next
    assume "p = ?p \<and> r = ?r"
    then show "t = p @ r \<and> CHR ''='' \<notin> set p \<and> (r = [] \<or> hd r = CHR ''='')"
      using hd_dropWhile [of "\<lambda>c. c \<noteq> CHR ''=''" t] by (auto dest: set_takeWhileD)
  qed
  have "filter_option a \<longleftrightarrow> 3 \<le> length a \<and>
      (\<exists>p r. (t = p @ r \<and> CHR ''='' \<notin> set p \<and> (r = [] \<or> hd r = CHR ''='')) \<and> (\<exists>q. p @ q \<in> fst ` set options))"
    unfolding filter_option_def a by (simp only: append_same_eq same_append_eq conj_assoc) blast
  then have "filter_option a \<longleftrightarrow> 3 \<le> length a \<and> (\<exists>q. ?p @ q \<in> fst ` set options)" unfolding eq by blast
  moreover have "is_filter_opt a \<longleftrightarrow> (\<exists>q. ?p @ q \<in> fst ` set options)"
    using True unfolding is_filter_opt_def n list_ex_iff is_prefix_iff by (auto simp: image_iff) (metis fst_conv)+
  ultimately show ?thesis by simp
next
  case False
  then show ?thesis by (auto simp: filter_option_def is_filter_opt_def)
qed

lemma filter_option_dash: "filter_option a \<Longrightarrow> at0 a = CHR ''-''"
  by (auto simp: filter_option_def at0_def)

lemma opt_len_eq: "filter_option a \<Longrightarrow> opt_len a < length a \<longleftrightarrow> CHR ''='' \<in> set a"
proof -
  assume "filter_option a"
  then obtain t where "a = CHR ''-'' # t" by (auto simp: filter_option_def)
  moreover have "length (takeWhile (\<lambda>c. c \<noteq> CHR ''='') t) < length t \<longleftrightarrow> CHR ''='' \<in> set t" for t :: string
    by (induction t) auto
  ultimately show ?thesis by (simp add: opt_len_def)
qed

lemma shift_argv_spec:
  assumes "i + n \<le> argc" "argc \<le> length argv"
  shows "\<exists>argv'. shift_argv argc argv i n = Inr argv' \<and> length argv' = length argv \<and> take i argv' = take i argv \<and>
    drop i (take (argc - n) argv') = drop (i + n) (take argc argv)"
proof -
  obtain k where "argc = i + n + k" using le_Suc_ex [OF assms(1)] by blast
  then show ?thesis using assms(2) by (simp add: shift_argv_def drop_take)
qed

text \<open>
  One round at an argument that is not the value of the option before it: a number \<open>n\<close> of arguments are done,
  which were all left or all taken, and the next one is not a value either.
\<close>

definition split_inv :: "nat \<Rightarrow> split_state \<Rightarrow> string \<Rightarrow> string list \<Rightarrow> bool" where
  "split_inv cap s prev rest \<longleftrightarrow> sp_ptr s = sp_i s \<and> sp_i s \<le> sp_argc s \<and> sp_argc s \<le> length (sp_argv s) \<and>
     length (sp_dst s) + (sp_argc s - sp_i s) \<le> cap \<and> rest = drop (sp_i s) (take (sp_argc s) (sp_argv s)) \<and>
     (wants_value prev \<and> rest \<noteq> [] \<longrightarrow> at0 (hd rest) = CHR ''-'')"

lemma split_inv_head:
  assumes "split_inv cap s prev (arg # rest)"
  shows "sp_i s < sp_argc s" "arg_at (sp_argv s) (sp_i s) = Inr arg"
    "take (Suc (sp_i s)) (sp_argv s) = take (sp_i s) (sp_argv s) @ [arg]"
    "drop (Suc (sp_i s)) (take (sp_argc s) (sp_argv s)) = rest" "sp_argc s = Suc (sp_i s) + length rest"
proof -
  let ?a = "take (sp_argc s) (sp_argv s)"
  have d: "drop (sp_i s) ?a = arg # rest" and l: "sp_argc s \<le> length (sp_argv s)"
    using assms by (auto simp: split_inv_def)
  have i: "sp_i s < length ?a" using d by (cases "sp_i s < length ?a") auto
  then show "sp_i s < sp_argc s" by simp
  have nth: "?a ! sp_i s = arg" "drop (Suc (sp_i s)) ?a = rest" using d Cons_nth_drop_Suc [OF i] by auto
  then show "arg_at (sp_argv s) (sp_i s) = Inr arg" "take (Suc (sp_i s)) (sp_argv s) = take (sp_i s) (sp_argv s) @ [arg]"
    "drop (Suc (sp_i s)) ?a = rest" using i by (auto simp: arg_at_def take_Suc_conv_app_nth)
  show "sp_argc s = Suc (sp_i s) + length rest" using i l unfolding nth(2) [symmetric] by simp
qed

lemma opt_entries_cases:
  assumes "split_inv cap s prev (arg # rest)" "filter_option arg"
  obtains (one) "opt_entries s arg = Inr 1" "wants_value arg \<and> rest \<noteq> [] \<longrightarrow> at0 (hd rest) = CHR ''-''"
  | (two) v rest' where "opt_entries s arg = Inr 2" "rest = v # rest'" "wants_value arg" "at0 v \<noteq> CHR ''-''"
      "arg_at (sp_argv s) (Suc (sp_i s)) = Inr v" "drop (Suc (Suc (sp_i s))) (take (sp_argc s) (sp_argv s)) = rest'"
proof (cases rest)
  case Nil
  then show ?thesis using one split_inv_head(5) [OF assms(1)] by (simp add: opt_entries_def)
next
  case (Cons v rest')
  let ?a = "take (sp_argc s) (sp_argv s)" and ?i = "Suc (sp_i s)"
  note h = split_inv_head [OF assms(1)]
  have i: "?i < length ?a" using h(4) Cons by (cases "?i < length ?a") auto
  then have "?a ! ?i = v" "drop (Suc ?i) ?a = rest'" using h(4) Cons Cons_nth_drop_Suc [OF i] by auto
  then have v: "arg_at (sp_argv s) ?i = Inr v" "drop (Suc ?i) ?a = rest'" using i by (auto simp: arg_at_def)
  have "sp_i s + 1 \<noteq> sp_argc s" "sp_ptr s = sp_i s" using h(5) Cons assms(1) by (auto simp: split_inv_def)
  then have "opt_entries s arg = Inr (if CHR ''='' \<in> set arg \<or> at0 v = CHR ''-'' then 1 else 2)"
    using v(1) opt_len_eq [OF assms(2)] by (simp add: opt_entries_def)
  then show ?thesis using one two [OF _ Cons _ _ v] Cons assms(2) by (auto simp: wants_value_def split: if_splits)
qed

lemma split_body_spec:
  assumes "split_inv cap s prev (arg # rest)"
  shows "\<exists>s' prev' rest'. split_body cap s = Inr s' \<and> split_inv cap s' prev' rest' \<and>
    length (sp_argv s') = length (sp_argv s) \<and>
    take (sp_i s') (sp_argv s') @ left_args prev' rest' = take (sp_i s) (sp_argv s) @ left_args prev (arg # rest) \<and>
    sp_dst s' @ taken_args prev' rest' = sp_dst s @ taken_args prev (arg # rest)"
proof -
  note h = split_inv_head [OF assms]
  have b: "sp_argc s \<le> length (sp_argv s)" "sp_ptr s = sp_i s" "length (sp_dst s) + (sp_argc s - sp_i s) \<le> cap"
    and p: "\<not> (wants_value prev \<and> at0 arg \<noteq> CHR ''-'')"
    using assms by (auto simp: split_inv_def)
  show ?thesis
  proof (cases "filter_option arg")
    case False
    let ?s = "s\<lparr>sp_i := sp_i s + 1, sp_ptr := sp_ptr s + 1\<rparr>"
    have "split_body cap s = Inr ?s" using False h(2) b(2) by (auto simp: split_body_def filter_option_iff)
    moreover have "split_inv cap ?s arg rest" using False b h by (auto simp: split_inv_def wants_value_def)
    ultimately show ?thesis using False p h(3)
      by (intro exI [of _ ?s] exI [of _ arg] exI [of _ rest]) (simp add: takes_def)
  next
    case True
    have t: "takes prev arg" using True by (simp add: takes_def)
    have body: "split_body cap s = Inr (s\<lparr>sp_argc := sp_argc s - n, sp_argv := argv', sp_dst := dst\<rparr>)"
      if "opt_entries s arg = Inr n" "shift_argv (sp_argc s) (sp_argv s) (sp_i s) n = Inr argv'"
        "(if n = 2 then rbind (arg_at (sp_argv s) (Suc (sp_i s))) (dst_push cap (sp_dst s @ [arg])) else Inr (sp_dst s @ [arg])) = Inr dst"
      for n argv' dst
      using that True h(1,2) b by (auto simp: split_body_def filter_option_iff dst_push_def)
    from assms True show ?thesis
    proof (cases rule: opt_entries_cases)
      case one
      obtain argv' where m: "shift_argv (sp_argc s) (sp_argv s) (sp_i s) 1 = Inr argv'" "length argv' = length (sp_argv s)"
        "take (sp_i s) argv' = take (sp_i s) (sp_argv s)" "drop (sp_i s) (take (sp_argc s - 1) argv') = rest"
        using shift_argv_spec [of "sp_i s" 1 "sp_argc s" "sp_argv s"] h b(1) by auto
      let ?s = "s\<lparr>sp_argc := sp_argc s - 1, sp_argv := argv', sp_dst := sp_dst s @ [arg]\<rparr>"
      have "split_inv cap ?s arg rest" using one(2) m h(5) b by (auto simp: split_inv_def)
      then show ?thesis using body [OF one(1) m(1)] m t
        by (intro exI [of _ ?s] exI [of _ arg] exI [of _ rest]) simp
    next
      case (two v rest')
      obtain argv' where m: "shift_argv (sp_argc s) (sp_argv s) (sp_i s) 2 = Inr argv'" "length argv' = length (sp_argv s)"
        "take (sp_i s) argv' = take (sp_i s) (sp_argv s)" "drop (sp_i s) (take (sp_argc s - 2) argv') = rest'"
        using shift_argv_spec [of "sp_i s" 2 "sp_argc s" "sp_argv s"] h(5) two(2,6) b(1) by auto
      let ?s = "s\<lparr>sp_argc := sp_argc s - 2, sp_argv := argv', sp_dst := sp_dst s @ [arg, v]\<rparr>"
      have "dst_push cap (sp_dst s @ [arg]) v = Inr (sp_dst s @ [arg, v])" using h(5) two(2) b(3) by (simp add: dst_push_def)
      moreover have "split_inv cap ?s v rest'"
        using two(2,4) m h(5) b filter_option_dash [of v] by (auto simp: split_inv_def wants_value_def)
      moreover have "takes arg v" using two(3,4) by (simp add: takes_def)
      ultimately show ?thesis using body [OF two(1) m(1)] m t two(2,5)
        by (intro exI [of _ ?s] exI [of _ v] exI [of _ rest']) simp
    qed
  qed
qed

lemma split_loop_spec:
  assumes "split_inv cap s prev rest" "rest \<noteq> []"
  shows "\<exists>s'. split_loop cap s = Inr s' \<and> length (sp_argv s') = length (sp_argv s) \<and>
    take (sp_argc s') (sp_argv s') = take (sp_i s) (sp_argv s) @ left_args prev rest \<and>
    sp_dst s' = sp_dst s @ taken_args prev rest"
  using assms
proof (induction cap s arbitrary: prev rest rule: split_loop.induct)
  case (1 cap s)
  obtain s1 prev1 rest1 where b: "split_body cap s = Inr s1" and inv: "split_inv cap s1 prev1 rest1"
    and r: "length (sp_argv s1) = length (sp_argv s)"
    "take (sp_i s1) (sp_argv s1) @ left_args prev1 rest1 = take (sp_i s) (sp_argv s) @ left_args prev rest"
    "sp_dst s1 @ taken_args prev1 rest1 = sp_dst s @ taken_args prev rest"
    using split_body_spec [of cap s prev "hd rest" "tl rest"] 1(2,3) by auto
  show ?case
  proof (cases "sp_i s1 < sp_argc s1")
    case True
    then have "rest1 \<noteq> []" using inv by (auto simp: split_inv_def)
    with 1(1) [OF b True inv] r True b show ?thesis by (subst split_loop.simps) auto
  next
    case False
    then have "rest1 = []" "sp_argc s1 = sp_i s1" using inv by (auto simp: split_inv_def)
    with r False b show ?thesis by (subst split_loop.simps) auto
  qed
qed

lemma split_argv_spec:
  "\<exists>argc argv'. split_argv (prog # args) = Inr (argc, argv', prog # taken_args [] args) \<and>
     length argv' = length (prog # args) \<and> take argc argv' = prog # left_args [] args"
proof (cases args)
  case Nil
  then show ?thesis by (simp add: split_argv_def arg_at_def dst_push_def)
next
  case (Cons a as)
  let ?s = "\<lparr>sp_argc = length (prog # args), sp_argv = prog # args, sp_i = 1, sp_ptr = 1, sp_dst = [prog]\<rparr>"
  have "\<not> wants_value []" by (simp add: wants_value_def filter_option_def)
  then obtain s' where "split_loop (length (prog # args)) ?s = Inr s'" "length (sp_argv s') = length (prog # args)"
    "take (sp_argc s') (sp_argv s') = prog # left_args [] args" "sp_dst s' = prog # taken_args [] args"
    using split_loop_spec [of "length (prog # args)" ?s "[]" args] Cons by (auto simp: split_inv_def)
  then show ?thesis using Cons by (simp add: split_argv_def arg_at_def dst_push_def)
qed

section \<open>Properties\<close>

text \<open>
  Claim C30. Every filter that \<open>filter_from_argv\<close> builds satisfies what the matcher relies on: the
  mode is AND or OR, the index has only known bits, frame ranges are present only when they are
  enabled, and the counters are at their start, whatever the arguments are.
\<close>

theorem filter_from_argv_built:
  "\<exists>ret keep flt d. filter_from_argv libs argv = Inr (ret, keep, flt, d) \<and> filter_built flt"
proof (cases argv)
  case Nil
  then show ?thesis by (auto simp: filter_from_argv_def filter_built_init)
next
  case (Cons prog args)
  obtain argc argv' dst where "split_argv argv = Inr (argc, argv', dst)" using split_argv_spec Cons by blast
  moreover obtain ret flt d where "apply_options libs (getopt_long (tl dst)) filter_init False = (ret, flt, d)"
    by (rule prod_cases3)
  moreover from this have "filter_built flt"
    using apply_options_built [of filter_init "getopt_long (tl dst)" libs False] filter_built_init getopt_long_offset by fastforce
  ultimately show ?thesis using Cons by (simp add: filter_from_argv_def)
qed

text \<open>
  Claim C37. \<open>split_argv\<close> moves exactly the filter options and their values out of the argument vector, in place and
  without an access outside of the two arrays: what the caller is left with are the name of the program and the
  other arguments, what goes to \<open>getopt\<close> are the name and the taken ones, each in the original order. An
  argument is taken when it is \<open>--\<close> and a prefix of an option's name, alone or followed by \<open>=\<close>, or when it stands
  behind such an option without \<open>=\<close> and does not start with a dash.
\<close>

theorem split_argv_in_place:
  "\<exists>argc argv'. split_argv (prog # args) = Inr (argc, argv', prog # taken_args [] args) \<and>
     length argv' = length (prog # args) \<and> take argc argv' = prog # left_args [] args"
  using split_argv_spec by blast

text \<open>Behind the new end of the vector are copies of what was shifted, not the arguments that were taken.\<close>

lemma split_argv_stale:
  "split_argv [''p'', ''--tp.port=80'', ''x''] = Inr (2, [''p'', ''x'', ''x''], [''p'', ''--tp.port=80''])"
  by code_simp

text \<open>
  An address with a prefix length, as in \<open>10.0.0.0/8\<close>, is accepted for every length up to
  32, and the resulting address and mask match exactly the addresses that agree with it in that many
  leading bits.
\<close>

lemma parse_inet_addr_cidr:
  assumes "n \<le> 32"
  shows "\<exists>net msk. parse_inet_addr (inet_ntoa a @ ''/'' @ dec n) old_addr old_mask = (True, net, msk) \<and>
    (\<forall>b. b AND msk = net \<longleftrightarrow> unat (ntohl b) div 2 ^ (32 - n) = unat (ntohl a) div 2 ^ (32 - n))"
proof -
  let ?m = "htonl (cidr_mask n 0)"
  have "parse_inet_addr (inet_ntoa a @ ''/'' @ dec n) old_addr old_mask = (True, a AND ?m, ?m)"
    using split_mask_slash [OF inet_ntoa_no_slash, of a "dec n"]
    by (simp add: parse_inet_addr_def inet_aton_ntoa parse_inet_mask_cidr [OF assms])
  moreover have "b AND ?m = a AND ?m \<longleftrightarrow> unat (ntohl b) div 2 ^ (32 - n) = unat (ntohl a) div 2 ^ (32 - n)" for b
  proof -
    have "b AND ?m = a AND ?m \<longleftrightarrow> ntohl (b AND ?m) = ntohl (a AND ?m)" by simp
    also have "\<dots> \<longleftrightarrow> ntohl b AND cidr_mask n 0 = ntohl a AND cidr_mask n 0"
      unfolding ntohl_AND by simp
    finally show ?thesis using cidr_mask_match [OF assms] by blast
  qed
  ultimately show ?thesis by blast
qed

text \<open>
  Claim C39. A comma-separated list of ranges \<open>lower-upper\<close> is parsed to the list of those ranges, in
  order.
\<close>

theorem parse_frame_range_roundtrip:
  assumes "rs \<noteq> []" "\<forall>r\<in>set rs. fst r < 2 ^ 31 \<and> snd r < 2 ^ 31"
  shows "f_frame_num (parse_frame_range (join_comma (map show_range rs)) flt) =
    map (\<lambda>r. (int (fst r), int (snd r))) rs"
proof -
  have "isdigit CHR '','' \<longleftrightarrow> False" by (simp add: isdigit_def)
  then have "CHR '','' \<notin> set (dec n)" for n using isdigit_dec by blast
  then have "strtok_comma (join_comma (map show_range rs)) = map show_range rs"
    by (intro strtok_comma_join) (auto simp: show_range_def)
  moreover have "List.map_filter parse_range (map show_range rs) = map (\<lambda>r. (int (fst r), int (snd r))) rs"
    using assms(2) by (induction rs) (auto simp: List.map_filter_simps parse_range_show)
  ultimately show ?thesis using assms(1) by (simp add: parse_frame_range_def)
qed

theorem parse_frame_range_roundtrip_witness:
  "f_frame_num (parse_frame_range (join_comma (map show_range [(1, 3), (7, 9)])) (filter_init :: unit cap_filter)) =
    [(1, 3), (7, 9)]"
  using parse_frame_range_roundtrip [of "[(1, 3), (7, 9)]" "filter_init :: unit cap_filter"] by simp

text \<open>
  The VLAN parser is the only one that does not mask the value: a filter whose VLAN value has
  bits outside of its mask never matches a frame on that criterion.
\<close>

lemma vlan_unmasked_never_matches:
  assumes "f_vlan_tci flt AND f_vlan_tci_mask flt \<noteq> f_vlan_tci flt"
  shows "filter_vlan_tci flt pkt vlan \<noteq> Inr True"
proof
  assume "filter_vlan_tci flt pkt vlan = Inr True"
  then obtain tci :: u16 where "ntohs tci AND f_vlan_tci_mask flt = f_vlan_tci flt"
    by (auto simp: filter_vlan_tci_def rand_True rbind_Inr_iff split: option.splits)
  then have "f_vlan_tci flt AND f_vlan_tci_mask flt = f_vlan_tci flt"
    by (metis and.assoc and.idem)
  with assms show False by simp
qed

end
