(* ===== verification/Cap_Stream.thy ===== *)
theory Cap_Stream
  imports Packet_Filter
begin

text \<open>
  Buffered streams (\<open>src/stream.h\<close>, \<open>src/stream.c\<close>): the byte buffer between a source of bytes and
  the reader of packets, \<open>stream_read\<close> and \<open>stream_peek\<close> on top of it, and the checks of measurement
  frames.

  The callback \<open>fill_buffer\<close> of a stream is an argument; the contract under which the reader works is
  the locale \<open>byte_source\<close>, and the file stream interprets it.
\<close>

section \<open>The capture header in memory\<close>

definition sizeof_cap_header :: nat where "sizeof_cap_header = 36"

text \<open>The packed structure: \<open>nic\<close>, \<open>mampid\<close>, \<open>ts\<close>, \<open>len\<close>, \<open>caplen\<close>.\<close>

definition cap_header_bytes :: "cap_header \<Rightarrow> u8 list" where
  "cap_header_bytes h = map byte_of_char (ch_nic h) @ map byte_of_char (ch_mampid h) @
     bytes32 (tv_sec (ch_ts h)) @ bytes64 (tv_psec (ch_ts h)) @ bytes32 (ch_len h) @ bytes32 (ch_caplen h)"

text \<open>Reading the structure through a pointer to position \<open>i\<close>; the payload is the memory behind it.\<close>

definition cap_at :: "mem \<Rightarrow> nat \<Rightarrow> cap_header res" where
  "cap_at m i =
     rbind (rdn m i 8) (\<lambda>nic. rbind (rdn m (i + 8) 8) (\<lambda>mp.
     rbind (rd32 m (i + 16)) (\<lambda>sec. rbind (rd64 m (i + 20)) (\<lambda>psec.
     rbind (rd32 m (i + 28)) (\<lambda>l. rbind (rd32 m (i + 32)) (\<lambda>cl.
       Inr \<lparr>ch_nic = map char_of_byte nic, ch_mampid = map char_of_byte mp,
            ch_ts = \<lparr>tv_sec = sec, tv_psec = psec\<rparr>, ch_len = l, ch_caplen = cl,
            ch_payload = drop (i + sizeof_cap_header) m\<rparr>))))))"

definition caplen_at :: "mem \<Rightarrow> nat \<Rightarrow> nat res" where
  "caplen_at m i = rbind (rd32 m (i + 32)) (\<lambda>w. Inr (unat w))"

section \<open>The stream\<close>

datatype fill_result = Fill_bytes "u8 list" | Fill_error int

type_synonym 's fill = "'s \<Rightarrow> timeval option \<Rightarrow> nat \<Rightarrow> fill_result \<times> 's"

datatype protocol_t =
    PROTOCOL_LOCAL_FILE | PROTOCOL_ETHERNET_MULTICAST | PROTOCOL_UDP_MULTICAST | PROTOCOL_TCP_UNICAST

record file_header_t =
  fh_magic :: u64
  fh_major :: u16
  fh_minor :: u16
  fh_header_offset :: u16
  fh_comment_size :: u16
  fh_mpid :: "char list"   \<comment> \<open>200 bytes\<close>

record 's stream =
  st_type :: protocol_t
  st_addr :: stream_addr
  st_FH :: file_header_t
  st_comment :: "string option"
  st_num_addresses :: nat
  st_if_mtu :: nat
  st_buffer :: mem
  st_buffer_size :: nat
  st_writePos :: nat
  st_readPos :: nat
  st_flushed :: bool
  st_expSeqnr :: nat
  st_if_loopback :: bool
  st_stat_read :: nat
  st_stat_recv :: nat
  st_stat_matched :: nat
  st_stat_buffer_usage :: nat
  st_src :: 's             \<comment> \<open>the file or socket behind the callback\<close>

definition fh_zero :: file_header_t where
  "fh_zero = \<lparr>fh_magic = 0, fh_major = 0, fh_minor = 0, fh_header_offset = 0, fh_comment_size = 0,
     fh_mpid = replicate 200 NUL\<rparr>"

definition stream_alloc :: "protocol_t \<Rightarrow> nat \<Rightarrow> nat \<Rightarrow> 's \<Rightarrow> 's stream" where
  "stream_alloc protocol bsize mtu src =
     (let buffer_size = (if bsize = 0 then 175000 else bsize) in
      \<lparr>st_type = protocol, st_addr = sa_zero, st_FH = fh_zero, st_comment = None, st_num_addresses = 0,
       st_if_mtu = mtu, st_buffer = replicate buffer_size 0, st_buffer_size = buffer_size, st_writePos = 0, st_readPos = 0,
       st_flushed = False, st_expSeqnr = 0, st_if_loopback = False, st_stat_read = 0, st_stat_recv = 0,
       st_stat_matched = 0, st_stat_buffer_usage = 0, st_src = src\<rparr>)"

definition EAGAIN :: int where "EAGAIN = 11"
definition ERROR_CAPFILE_INVALID :: int where "ERROR_CAPFILE_INVALID = 0x8001"

section \<open>Filling the buffer\<close>

definition drained :: "'s stream \<Rightarrow> bool res" where
  "drained st =
     (let available = st_buffer_size st - st_writePos st; left = st_buffer_size st - st_readPos st in
      if available = 0 \<and> left > sizeof_cap_header
      then rbind (caplen_at (st_buffer st) (st_readPos st)) (\<lambda>cl.
             Inr (\<not> left > sizeof_cap_header + cl))
      else Inr True)"

definition compact_buffer :: "'s stream \<Rightarrow> 's stream" where
  "compact_buffer st =
     (if st_readPos st > 0 then
        let bytes = st_writePos st - st_readPos st in
        st\<lparr>st_buffer := take bytes (drop (st_readPos st) (st_buffer st)) @ drop bytes (st_buffer st),
           st_writePos := bytes, st_readPos := 0\<rparr>
      else st)"

definition fill_buffer :: "'s fill \<Rightarrow> 's stream \<Rightarrow> timeval option \<Rightarrow> (int \<times> 's stream) res" where
  "fill_buffer fill st timeout =
     (if st_flushed st then Inr (- 1, st)
      else rbind (drained st) (\<lambda>d.
        if \<not> d then Inr (0, st)
        else
          let st = compact_buffer st; available = st_buffer_size st - st_writePos st in
          case fill (st_src st) timeout available of
            (Fill_error errno, src) \<Rightarrow> Inr (errno, st\<lparr>st_src := src\<rparr>)
          | (Fill_bytes bs, src) \<Rightarrow>
              if bs = [] then Inr (- 1, st\<lparr>st_src := src\<rparr>)
              else if length bs > available then Inl Out_of_bounds
              else Inr (0, st\<lparr>st_src := src, st_writePos := st_writePos st + length bs,
                     st_buffer := take (st_writePos st) (st_buffer st) @ bs @
                       drop (st_writePos st + length bs) (st_buffer st)\<rparr>)))"

section \<open>Reading packets\<close>

datatype 'x outcome = Again 'x | Done int "(nat \<times> cap_header) option" 'x

text \<open>One round of the loop of \<open>stream_read\<close>; the state is the stream and the filter.\<close>

definition tv_sec1 :: "timeval option" where "tv_sec1 = Some \<lparr>tval_sec = 1, tval_usec = 0\<rparr>"
definition tv_zero :: "timeval option" where "tv_zero = Some \<lparr>tval_sec = 0, tval_usec = 0\<rparr>"

definition match_opt ::
  "('b \<Rightarrow> mem \<Rightarrow> u32 \<Rightarrow> u32 \<Rightarrow> u32) \<Rightarrow> 'b cap_filter option \<Rightarrow> cap_header \<Rightarrow> (bool \<times> 'b cap_filter option) res" where
  "match_opt bpf flt cp =
     (case flt of
        None \<Rightarrow> Inr (True, None)
      | Some f \<Rightarrow> rbind (filter_match bpf f (ch_payload cp) cp) (\<lambda>(m, f). Inr (m, Some f)))"

definition read_step ::
  "'s fill \<Rightarrow> ('b \<Rightarrow> mem \<Rightarrow> u32 \<Rightarrow> u32 \<Rightarrow> u32) \<Rightarrow> timeval option \<Rightarrow> 's stream \<times> 'b cap_filter option \<Rightarrow>
   ('s stream \<times> 'b cap_filter option) outcome res" where
  "read_step fill bpf timeout = (\<lambda>(st, flt).
     if st_writePos st - st_readPos st < sizeof_cap_header then
       rbind (fill_buffer fill st (case timeout of None \<Rightarrow> tv_sec1 | Some _ \<Rightarrow> timeout)) (\<lambda>(ret, st).
         if ret = 0 then Inr (Again (st, flt))
         else if ret = EAGAIN \<and> (st_writePos st - st_readPos st \<ge> sizeof_cap_header \<or> timeout = None)
         then Inr (Again (st, flt))
         else Inr (Done ret None (st, flt)))
     else
       rbind (fill_buffer fill st tv_zero) (\<lambda>(ret, st).
         if ret \<noteq> 0 \<and> ret \<noteq> EAGAIN \<and> ret \<noteq> - 1 then Inr (Done ret None (st, flt))
         else rbind (cap_at (st_buffer st) (st_readPos st)) (\<lambda>cp.
           let packet_size = sizeof_cap_header + unat (ch_caplen cp);
               start_pos = st_readPos st; end_pos = start_pos + packet_size in
           if end_pos > st_writePos st then
             rbind (fill_buffer fill st timeout) (\<lambda>(ret, st).
               if ret \<noteq> 0 then Inr (Done ret None (st, flt)) else Inr (Again (st, flt)))
           else
             let st = st\<lparr>st_readPos := end_pos, st_stat_read := st_stat_read st + 1,
                        st_stat_buffer_usage := st_writePos st - end_pos\<rparr> in
             rbind (match_opt bpf flt cp) (\<lambda>(m, flt).
               if m then Inr (Done 0 (Some (start_pos, cp))
                               (st\<lparr>st_stat_matched := st_stat_matched st + 1\<rparr>, flt))
               else Inr (Again (st, flt))))))"

text \<open>
  Loops that may wait for a source forever run on fuel: \<open>None\<close> is a loop that has not ended.
\<close>

fun iterate :: "nat \<Rightarrow> ('x \<Rightarrow> 'x outcome res) \<Rightarrow> 'x \<Rightarrow> (int \<times> (nat \<times> cap_header) option \<times> 'x) res option" where
  "iterate 0 f x = None"
| "iterate (Suc n) f x =
     (case f x of
        Inl e \<Rightarrow> Some (Inl e)
      | Inr (Done ret cp y) \<Rightarrow> Some (Inr (ret, cp, y))
      | Inr (Again y) \<Rightarrow> iterate n f y)"

definition stream_read ::
  "nat \<Rightarrow> 's fill \<Rightarrow> ('b \<Rightarrow> mem \<Rightarrow> u32 \<Rightarrow> u32 \<Rightarrow> u32) \<Rightarrow> timeval option \<Rightarrow> 's stream \<times> 'b cap_filter option \<Rightarrow>
   (int \<times> (nat \<times> cap_header) option \<times> 's stream \<times> 'b cap_filter option) res option" where
  "stream_read fuel fill bpf timeout x = iterate fuel (read_step fill bpf timeout) x"

definition EINTR :: int where "EINTR = 4"

text \<open>
  \<open>stream_read_cb\<close>: the callback's value, or the mapped error. The callback gets the stream and changes a state of
  its own; it may contain a loop that has not ended.
\<close>

definition stream_read_cb ::
  "nat \<Rightarrow> 's fill \<Rightarrow> ('b \<Rightarrow> mem \<Rightarrow> u32 \<Rightarrow> u32 \<Rightarrow> u32) \<Rightarrow> ('s stream \<Rightarrow> cap_header \<Rightarrow> 'u \<Rightarrow> (int \<times> 'u) res option) \<Rightarrow>
   timeval option \<Rightarrow> 'u \<Rightarrow> 's stream \<times> 'b cap_filter option \<Rightarrow> (int \<times> 'u \<times> 's stream \<times> 'b cap_filter option) res option" where
  "stream_read_cb fuel fill bpf callback timeout u x =
     (case stream_read fuel fill bpf (case timeout of None \<Rightarrow> tv_sec1 | Some _ \<Rightarrow> timeout) x of
        None \<Rightarrow> None
      | Some (Inl e) \<Rightarrow> Some (Inl e)
      | Some (Inr (ret, cp, x)) \<Rightarrow>
          if ret = EAGAIN then Some (Inr (0, u, x))
          else if ret \<noteq> 0 then Some (Inr (ret, u, x))
          else case cp of
              None \<Rightarrow> Some (Inl Null_deref)
            | Some (_, cp) \<Rightarrow> map_option (\<lambda>r. rbind r (\<lambda>(ret, u). Inr (ret, u, x))) (callback (fst x) cp u))"

definition peek_step ::
  "'s fill \<Rightarrow> ('b \<Rightarrow> mem \<Rightarrow> u32 \<Rightarrow> u32 \<Rightarrow> u32) \<Rightarrow> 's stream \<times> 'b cap_filter option \<Rightarrow>
   ('s stream \<times> 'b cap_filter option) outcome res" where
  "peek_step fill bpf = (\<lambda>(st, flt).
     if st_writePos st - st_readPos st < sizeof_cap_header then
       rbind (fill_buffer fill st tv_zero) (\<lambda>(ret, st).
         if ret = 0 then Inr (Again (st, flt)) else Inr (Done ret None (st, flt)))
     else
       rbind (cap_at (st_buffer st) (st_readPos st)) (\<lambda>cp.
         let end_pos = st_readPos st + sizeof_cap_header + unat (ch_caplen cp) in
         if ch_caplen cp = 0 then Inr (Done ERROR_CAPFILE_INVALID None (st, flt))
         else if end_pos > st_writePos st then
           rbind (fill_buffer fill st tv_zero) (\<lambda>(ret, st).
             if ret = 0 then Inr (Again (st, flt)) else Inr (Done ret None (st, flt)))
         else
           rbind (match_opt bpf flt cp) (\<lambda>(m, flt).
             if m then Inr (Done 0 (Some (st_readPos st, cp)) (st, flt)) else Inr (Again (st, flt)))))"

definition stream_peek ::
  "nat \<Rightarrow> 's fill \<Rightarrow> ('b \<Rightarrow> mem \<Rightarrow> u32 \<Rightarrow> u32 \<Rightarrow> u32) \<Rightarrow> 's stream \<times> 'b cap_filter option \<Rightarrow>
   (int \<times> (nat \<times> cap_header) option \<times> 's stream \<times> 'b cap_filter option) res option" where
  "stream_peek fuel fill bpf x = iterate fuel (peek_step fill bpf) x"

section \<open>Memory layout of packets\<close>

definition header_wf :: "cap_header \<Rightarrow> bool" where
  "header_wf h \<longleftrightarrow> length (ch_nic h) = 8 \<and> length (ch_mampid h) = 8"

lemma length_cap_header_bytes: "header_wf h \<Longrightarrow> length (cap_header_bytes h) = 36"
  by (simp add: cap_header_bytes_def header_wf_def)

lemma rdn_append: "length b = n \<Longrightarrow> rdn (xs @ b @ ys) (length xs) n = Inr b"
  by (simp add: rdn_def)

lemma cap_at_bytes:
  assumes "header_wf h" "i = length xs"
  shows "cap_at (xs @ cap_header_bytes h @ ys) i = Inr (h\<lparr>ch_payload := ys\<rparr>)"
proof -
  let ?n = "map byte_of_char (ch_nic h)" and ?m = "map byte_of_char (ch_mampid h)"
  let ?s = "bytes32 (tv_sec (ch_ts h))" and ?p = "bytes64 (tv_psec (ch_ts h))"
  let ?l = "bytes32 (ch_len h)" and ?c = "bytes32 (ch_caplen h)"
  let ?M = "xs @ ?n @ ?m @ ?s @ ?p @ ?l @ ?c @ ys"
  have e: "xs @ cap_header_bytes h @ ys = ?M" by (simp add: cap_header_bytes_def)
  have l: "length ?n = 8" "length ?m = 8" using assms(1) by (simp_all add: header_wf_def)
  have "rdn ?M i 8 = Inr ?n" "rdn ?M (i + 8) 8 = Inr ?m"
    using rdn_append [OF l(1), of xs] rdn_append [OF l(2), of "xs @ ?n"] l assms(2) by simp_all
  moreover have "rd32 ?M (i + 16) = Inr (tv_sec (ch_ts h))"
    using rd32_bytes32 [of "xs @ ?n @ ?m"] l assms(2) by simp
  moreover have "rd64 ?M (i + 20) = Inr (tv_psec (ch_ts h))"
    using rd64_bytes64 [of "xs @ ?n @ ?m @ ?s"] l assms(2) by simp
  moreover have "rd32 ?M (i + 28) = Inr (ch_len h)"
    using rd32_bytes32 [of "xs @ ?n @ ?m @ ?s @ ?p"] l assms(2) by simp
  moreover have "rd32 ?M (i + 32) = Inr (ch_caplen h)"
    using rd32_bytes32 [of "xs @ ?n @ ?m @ ?s @ ?p @ ?l"] l assms(2) by simp
  moreover have "drop (i + sizeof_cap_header) ?M = ys"
    using l assms(2) by (simp add: sizeof_cap_header_def)
  ultimately show ?thesis
    unfolding e by (simp add: cap_at_def comp_def)
qed

lemma caplen_at_bytes:
  assumes "header_wf h" "i = length xs"
  shows "caplen_at (xs @ cap_header_bytes h @ ys) i = Inr (unat (ch_caplen h))"
proof -
  let ?P = "xs @ map byte_of_char (ch_nic h) @ map byte_of_char (ch_mampid h) @
    bytes32 (tv_sec (ch_ts h)) @ bytes64 (tv_psec (ch_ts h)) @ bytes32 (ch_len h)"
  have "rd32 (?P @ bytes32 (ch_caplen h) @ ys) (length ?P) = Inr (ch_caplen h)" by (rule rd32_bytes32)
  moreover have "length ?P = i + 32" using assms by (simp add: header_wf_def)
  ultimately have "rd32 (?P @ bytes32 (ch_caplen h) @ ys) (i + 32) = Inr (ch_caplen h)" by metis
  then show ?thesis by (simp add: caplen_at_def cap_header_bytes_def)
qed

section \<open>The window of a stream\<close>

definition window :: "'s stream \<Rightarrow> u8 list" where
  "window st = take (st_writePos st - st_readPos st) (drop (st_readPos st) (st_buffer st))"

definition stream_wf :: "'s stream \<Rightarrow> bool" where
  "stream_wf st \<longleftrightarrow> length (st_buffer st) = st_buffer_size st \<and>
     st_readPos st \<le> st_writePos st \<and> st_writePos st \<le> st_buffer_size st"

text \<open>What the reader will still get: the window and the bytes the source has not delivered.\<close>

definition pending :: "('s \<Rightarrow> u8 list) \<Rightarrow> 's stream \<Rightarrow> u8 list" where
  "pending rest st = window st @ rest (st_src st)"

lemma stream_alloc_wf: "stream_wf (stream_alloc proto n mtu src)"
  by (simp add: stream_wf_def stream_alloc_def Let_def)

lemma stream_alloc_pending: "pending rest (stream_alloc proto n mtu src) = rest src"
  by (simp add: pending_def window_def stream_alloc_def Let_def)

lemma length_window: "stream_wf st \<Longrightarrow> length (window st) = st_writePos st - st_readPos st"
  by (auto simp: window_def stream_wf_def)

lemma window_split:
  assumes "stream_wf st"
  shows "st_buffer st = take (st_readPos st) (st_buffer st) @ window st @ drop (st_writePos st) (st_buffer st)"
proof -
  have "drop (st_readPos st) (st_buffer st) = window st @ drop (st_writePos st) (st_buffer st)"
    using assms append_take_drop_id [of "st_writePos st - st_readPos st" "drop (st_readPos st) (st_buffer st)"]
    by (auto simp: window_def stream_wf_def)
  then show ?thesis by (metis append_take_drop_id)
qed

lemma compact_facts:
  assumes "stream_wf st"
  shows "stream_wf (compact_buffer st)" "window (compact_buffer st) = window st" "st_readPos (compact_buffer st) = 0"
    "st_buffer_size (compact_buffer st) = st_buffer_size st" "st_src (compact_buffer st) = st_src st"
    "st_flushed (compact_buffer st) = st_flushed st" "st_writePos (compact_buffer st) = length (window st)"
proof -
  have w: "length (window st) = st_writePos st - st_readPos st" using length_window [OF assms] .
  have "take (st_writePos st - st_readPos st) (drop (st_readPos st) (st_buffer st)) = window st"
    by (simp add: window_def)
  then show "stream_wf (compact_buffer st)" "window (compact_buffer st) = window st" "st_readPos (compact_buffer st) = 0"
    "st_buffer_size (compact_buffer st) = st_buffer_size st" "st_src (compact_buffer st) = st_src st"
    "st_flushed (compact_buffer st) = st_flushed st" "st_writePos (compact_buffer st) = length (window st)"
    using assms w by (auto simp: compact_buffer_def Let_def stream_wf_def window_def)
qed

text \<open>Storing bytes behind the window extends it.\<close>

lemma append_window:
  assumes "stream_wf st" "st_writePos st + length bs \<le> st_buffer_size st"
    and "st' = st\<lparr>st_src := src, st_writePos := st_writePos st + length bs,
           st_buffer := take (st_writePos st) (st_buffer st) @ bs @
             drop (st_writePos st + length bs) (st_buffer st)\<rparr>"
  shows "stream_wf st' \<and> window st' = window st @ bs"
proof -
  obtain A D where b: "st_buffer st = A @ window st @ D" and A: "length A = st_readPos st"
    using window_split [OF assms(1)] assms(1) by (metis length_take min.absorb2 order_trans stream_wf_def)
  have wp: "st_writePos st = length A + length (window st)"
    using length_window [OF assms(1)] A assms(1) by (simp add: stream_wf_def)
  have "st_buffer st' = A @ window st @ bs @ drop (length bs) D"
    by (simp add: assms(3) b wp)
  moreover have "st_readPos st' = length A" "st_writePos st' = length A + length (window st @ bs)"
    by (simp_all add: assms(3) A wp)
  ultimately have "window st' = window st @ bs" by (simp add: window_def [of st'])
  moreover have "stream_wf st'"
    using assms by (auto simp: stream_wf_def)
  ultimately show ?thesis by simp
qed

section \<open>The contract of a source\<close>

text \<open>
  A source delivers the bytes of \<open>rest\<close> in order, at most as many as it is asked for; it delivers
  none only at the end, or when it is asked for none; an error leaves the bytes.
\<close>

locale byte_source =
  fixes fill :: "'s fill"
    and rest :: "'s \<Rightarrow> u8 list"
  assumes fill_bytes: "fill s t n = (Fill_bytes bs, s') \<Longrightarrow> rest s = bs @ rest s' \<and> length bs \<le> n"
    and fill_end: "fill s t n = (Fill_bytes [], s') \<Longrightarrow> n = 0 \<or> rest s = []"
    and fill_error: "fill s t n = (Fill_error e, s') \<Longrightarrow> rest s' = rest s \<and> e \<noteq> 0"
begin

lemma drained_total: "stream_wf st \<Longrightarrow> \<exists>d. drained st = Inr d"
  by (auto simp: drained_def Let_def caplen_at_def rd32_in stream_wf_def sizeof_cap_header_def)

lemma drained_False:
  assumes "stream_wf st" "drained st = Inr False"
  shows "st_writePos st = st_buffer_size st"
    "\<exists>cl. caplen_at (st_buffer st) (st_readPos st) = Inr cl \<and> length (window st) > sizeof_cap_header + cl"
proof -
  show wp: "st_writePos st = st_buffer_size st"
    using assms by (auto simp: drained_def Let_def stream_wf_def split: if_splits)
  show "\<exists>cl. caplen_at (st_buffer st) (st_readPos st) = Inr cl \<and> length (window st) > sizeof_cap_header + cl"
    using assms length_window [OF assms(1)] wp
    by (auto simp: drained_def Let_def rbind_Inr_iff split: if_splits)
qed

text \<open>Filling keeps the pending bytes and never shrinks the window.\<close>

lemma fill_buffer_spec:
  assumes "stream_wf st" "\<not> st_flushed st"
  shows "\<exists>ret st'. fill_buffer fill st t = Inr (ret, st') \<and> stream_wf st' \<and> \<not> st_flushed st' \<and>
    st_buffer_size st' = st_buffer_size st \<and> pending rest st' = pending rest st \<and>
    (\<exists>bs. window st' = window st @ bs) \<and>
    (ret = 0 \<longrightarrow> length (rest (st_src st')) < length (rest (st_src st)) \<or>
       (drained st = Inr False \<and> st' = st)) \<and>
    (ret = - 1 \<longrightarrow> (\<exists>e s'. fill (st_src st) t (st_buffer_size st - length (window st)) = (Fill_error e, s')) \<or>
       window st' = window st \<and> (rest (st_src st) = [] \<or> length (window st) = st_buffer_size st))"
proof -
  obtain d where d: "drained st = Inr d" using drained_total [OF assms(1)] by blast
  show ?thesis
  proof (cases d)
    case False
    then have "fill_buffer fill st t = Inr (0, st)" using assms(2) d by (simp add: fill_buffer_def)
    then show ?thesis using assms d False by auto
  next
    case True
    note cf = compact_facts [OF assms(1)]
    let ?av = "st_buffer_size st - length (window st)"
    obtain r src where f: "fill (st_src st) t ?av = (r, src)" by force
    have full: "length (window st) \<le> st_buffer_size st"
      using length_window [OF assms(1)] assms(1) by (auto simp: stream_wf_def)
    show ?thesis
    proof (cases r)
      case (Fill_error e)
      have "rest src = rest (st_src st)" "e \<noteq> 0" using fill_error f Fill_error by blast+
      moreover have "fill_buffer fill st t = Inr (e, compact_buffer st\<lparr>st_src := src\<rparr>)"
        using assms(2) d True f Fill_error cf by (simp add: fill_buffer_def)
      ultimately show ?thesis
        using cf assms(2) f Fill_error by (auto simp: stream_wf_def pending_def window_def)
    next
      case (Fill_bytes bs)
      note fb = fill_bytes [OF f [unfolded Fill_bytes]]
      show ?thesis
      proof (cases "bs = []")
        case True
        have "?av = 0 \<or> rest (st_src st) = []" using fill_end f Fill_bytes True by blast
        moreover have "fill_buffer fill st t = Inr (- 1, compact_buffer st\<lparr>st_src := src\<rparr>)"
          using assms(2) d \<open>d\<close> f Fill_bytes True cf by (simp add: fill_buffer_def)
        ultimately show ?thesis
          using cf assms(2) fb True full by (auto simp: stream_wf_def pending_def window_def)
      next
        case False
        let ?c = "compact_buffer st"
        let ?st = "?c\<lparr>st_src := src, st_writePos := st_writePos ?c + length bs,
           st_buffer := take (st_writePos ?c) (st_buffer ?c) @ bs @
             drop (st_writePos ?c + length bs) (st_buffer ?c)\<rparr>"
        have le: "st_writePos ?c + length bs \<le> st_buffer_size ?c" using fb full cf by auto
        have "fill_buffer fill st t = Inr (0, ?st)"
          using assms(2) d \<open>d\<close> f Fill_bytes False cf fb by (simp add: fill_buffer_def Let_def)
        moreover have "stream_wf ?st \<and> window ?st = window ?c @ bs"
          by (rule append_window [OF cf(1) le refl])
        ultimately show ?thesis
          using cf assms(2) fb False by (auto simp: pending_def)
      qed
    qed
  qed
qed

end

text \<open>A source without errors, as a file that can be read.\<close>

locale reliable_source = byte_source +
  assumes no_error: "fst (fill s t n) \<noteq> Fill_error e"
begin

lemma fill_never_error: "fill s t n \<noteq> (Fill_error e, s')"
  using no_error [of s t n e] by auto

lemma fill_buffer_reliable:
  assumes "stream_wf st" "\<not> st_flushed st" "fill_buffer fill st t = Inr (ret, st')"
  shows "ret = 0 \<or> ret = - 1"
  using assms fill_never_error
  by (auto simp: fill_buffer_def Let_def rbind_Inr_iff split: if_splits prod.splits fill_result.splits)

text \<open>
  A packet at the head of the pending bytes that is not complete in the window: a fill makes
  progress.
\<close>

lemma fill_progress:
  assumes "stream_wf st" "\<not> st_flushed st" "header_wf h"
    and "pending rest st = cap_header_bytes h @ tail" "36 + unat (ch_caplen h) \<le> st_buffer_size st"
    and "length (window st) < 36 + unat (ch_caplen h)" "36 + unat (ch_caplen h) \<le> length (pending rest st)"
  shows "\<exists>st'. fill_buffer fill st t = Inr (0, st') \<and> stream_wf st' \<and> \<not> st_flushed st' \<and>
    st_buffer_size st' = st_buffer_size st \<and> pending rest st' = pending rest st \<and>
    length (rest (st_src st')) < length (rest (st_src st))"
proof -
  have nd: "drained st \<noteq> Inr False"
  proof
    assume dr: "drained st = Inr False"
    obtain cl where cl: "caplen_at (st_buffer st) (st_readPos st) = Inr cl"
      "length (window st) > sizeof_cap_header + cl"
      using drained_False(2) [OF assms(1) dr] by blast
    then have "36 \<le> length (window st)" by (simp add: sizeof_cap_header_def)
    then obtain w where w: "window st = cap_header_bytes h @ w"
      using assms(4) length_cap_header_bytes [OF assms(3)]
      by (metis append_eq_append_conv_if append_take_drop_id pending_def)
    have "caplen_at (st_buffer st) (st_readPos st) = Inr (unat (ch_caplen h))"
    proof -
      have "length (take (st_readPos st) (st_buffer st)) = st_readPos st"
        using assms(1) by (auto simp: stream_wf_def)
      then show ?thesis
        using caplen_at_bytes [OF assms(3), of "st_readPos st" "take (st_readPos st) (st_buffer st)"]
          window_split [OF assms(1)] w by (metis append_assoc)
    qed
    with cl assms(6) show False by (simp add: sizeof_cap_header_def)
  qed
  obtain ret st' where f: "fill_buffer fill st t = Inr (ret, st')" and wf: "stream_wf st'"
    and fl: "\<not> st_flushed st'" and sz: "st_buffer_size st' = st_buffer_size st"
    and pe: "pending rest st' = pending rest st"
    and r0: "ret = 0 \<longrightarrow> length (rest (st_src st')) < length (rest (st_src st)) \<or>
       (drained st = Inr False \<and> st' = st)"
    and r1: "ret = - 1 \<longrightarrow> (\<exists>e s'. fill (st_src st) t (st_buffer_size st - length (window st)) = (Fill_error e, s')) \<or>
       window st' = window st \<and> (rest (st_src st) = [] \<or> length (window st) = st_buffer_size st)"
    using fill_buffer_spec [OF assms(1,2), of t] by blast
  have "rest (st_src st) \<noteq> []" using assms(6,7) by (auto simp: pending_def)
  then have "ret \<noteq> - 1" using r1 fill_never_error assms(5,6) by auto
  then have "ret = 0" using fill_buffer_reliable [OF assms(1,2) f] by simp
  with f wf fl sz pe r0 nd show ?thesis by blast
qed

text \<open>One round of \<open>stream_read\<close> without a filter returns the packet or makes progress.\<close>

lemma read_step_packet:
  assumes "stream_wf st" "\<not> st_flushed st" "header_wf h"
    and "pending rest st = cap_header_bytes h @ body @ tail" "length body = unat (ch_caplen h)"
    and "36 + unat (ch_caplen h) \<le> st_buffer_size st"
  shows "(\<exists>st'. read_step fill bpf timeout (st, None) = Inr (Again (st', None)) \<and> stream_wf st' \<and>
      \<not> st_flushed st' \<and> st_buffer_size st' = st_buffer_size st \<and> pending rest st' = pending rest st \<and>
      length (rest (st_src st')) < length (rest (st_src st))) \<or>
    (\<exists>pos more st'. read_step fill bpf timeout (st, None) =
        Inr (Done 0 (Some (pos, h\<lparr>ch_payload := body @ more\<rparr>)) (st', None)) \<and> stream_wf st' \<and>
      \<not> st_flushed st' \<and> st_buffer_size st' = st_buffer_size st \<and> pending rest st' = tail)"
proof (cases "st_writePos st - st_readPos st < sizeof_cap_header")
  case True
  then have "length (window st) < 36 + unat (ch_caplen h)"
    using length_window [OF assms(1)] by (simp add: sizeof_cap_header_def)
  moreover have "36 + unat (ch_caplen h) \<le> length (pending rest st)"
    using length_cap_header_bytes [OF assms(3)] assms(4,5) by simp
  ultimately obtain st' where "fill_buffer fill st (case timeout of None \<Rightarrow> tv_sec1 | Some _ \<Rightarrow> timeout) = Inr (0, st')"
    "stream_wf st'" "\<not> st_flushed st'" "st_buffer_size st' = st_buffer_size st"
    "pending rest st' = pending rest st" "length (rest (st_src st')) < length (rest (st_src st))"
    using fill_progress [OF assms(1,2,3,4,6)] by blast
  with True show ?thesis by (simp add: read_step_def)
next
  case False
  obtain ret st1 bs where f: "fill_buffer fill st tv_zero = Inr (ret, st1)" and wf: "stream_wf st1"
    and fl: "\<not> st_flushed st1" and sz: "st_buffer_size st1 = st_buffer_size st"
    and pe: "pending rest st1 = pending rest st" and win: "window st1 = window st @ bs"
    using fill_buffer_spec [OF assms(1,2), of tv_zero] by blast
  have r: "ret = 0 \<or> ret = - 1" using fill_buffer_reliable [OF assms(1,2) f] .
  have "36 \<le> length (window st1)"
    using False length_window [OF assms(1)] win by (simp add: sizeof_cap_header_def)
  then obtain w where w: "window st1 = cap_header_bytes h @ w"
    using assms(4) pe length_cap_header_bytes [OF assms(3)]
    by (metis append_eq_append_conv_if append_take_drop_id pending_def)
  let ?A = "take (st_readPos st1) (st_buffer st1)" and ?D = "drop (st_writePos st1) (st_buffer st1)"
  have A: "length ?A = st_readPos st1" using wf by (auto simp: stream_wf_def)
  have "st_buffer st1 = ?A @ cap_header_bytes h @ w @ ?D" using window_split [OF wf] w by simp
  then have cp: "cap_at (st_buffer st1) (st_readPos st1) = Inr (h\<lparr>ch_payload := w @ ?D\<rparr>)"
    using cap_at_bytes [OF assms(3) A [symmetric]] by metis
  have wr: "w @ rest (st_src st1) = body @ tail"
    using w pe assms(4) by (simp add: pending_def)
  have lw: "st_writePos st1 = st_readPos st1 + 36 + length w"
    using length_window [OF wf] w length_cap_header_bytes [OF assms(3)] wf by (simp add: stream_wf_def)
  show ?thesis
  proof (cases "length w < unat (ch_caplen h)")
    case True
    have p: "pending rest st1 = cap_header_bytes h @ body @ tail" using pe assms(4) by simp
    have "\<exists>st'. fill_buffer fill st1 timeout = Inr (0, st') \<and> stream_wf st' \<and> \<not> st_flushed st' \<and>
      st_buffer_size st' = st_buffer_size st1 \<and> pending rest st' = pending rest st1 \<and>
      length (rest (st_src st')) < length (rest (st_src st1))"
      using length_cap_header_bytes [OF assms(3)] True w assms(5,6) sz p
      by (intro fill_progress [OF wf fl assms(3) p]) simp_all
    moreover have "rest (st_src st) = bs @ rest (st_src st1)" using pe win by (simp add: pending_def)
    then have "length (rest (st_src st1)) \<le> length (rest (st_src st))" by simp
    ultimately show ?thesis
      using False f r cp True lw sz pe
      by (auto simp: read_step_def Let_def sizeof_cap_header_def EAGAIN_def)
  next
    case enough: False
    then obtain more where m: "w = body @ more" "tail = more @ rest (st_src st1)"
      using wr assms(5) by (metis append_eq_append_conv_if append_take_drop_id linorder_not_less)
    let ?e = "st_readPos st1 + (36 + unat (ch_caplen h))"
    let ?st = "st1\<lparr>st_readPos := ?e, st_stat_read := st_stat_read st1 + 1,
        st_stat_buffer_usage := st_writePos st1 - ?e, st_stat_matched := st_stat_matched st1 + 1\<rparr>"
    have "read_step fill bpf timeout (st, None) =
        Inr (Done 0 (Some (st_readPos st1, h\<lparr>ch_payload := body @ more @ ?D\<rparr>)) (?st, None))"
      using False f r cp enough lw m(1)
      by (auto simp: read_step_def Let_def sizeof_cap_header_def EAGAIN_def match_opt_def)
    moreover have "stream_wf ?st" using wf lw enough by (auto simp: stream_wf_def)
    moreover have "window ?st = more"
    proof -
      let ?X = "?A @ cap_header_bytes h @ body"
      have "st_buffer st1 = ?X @ more @ ?D"
        using \<open>st_buffer st1 = ?A @ cap_header_bytes h @ w @ ?D\<close> m(1) by simp
      then have "drop (length ?X) (st_buffer st1) = more @ ?D" by (metis append_eq_conv_conj)
      moreover have "length ?X = ?e"
        using A assms(5) length_cap_header_bytes [OF assms(3)] by simp
      ultimately have "drop ?e (st_buffer st1) = more @ ?D" by metis
      then show ?thesis using lw m(1) assms(5) by (simp add: window_def)
    qed
    ultimately show ?thesis using fl sz m(2) by (auto simp: pending_def)
  qed
qed

lemma stream_read_packet:
  assumes "stream_wf st" "\<not> st_flushed st" "header_wf h"
    and "pending rest st = cap_header_bytes h @ body @ tail" "length body = unat (ch_caplen h)"
    and "36 + unat (ch_caplen h) \<le> st_buffer_size st" "length (rest (st_src st)) < fuel"
  shows "\<exists>pos more st'. stream_read fuel fill bpf timeout (st, None) =
      Some (Inr (0, Some (pos, h\<lparr>ch_payload := body @ more\<rparr>), st', None)) \<and> stream_wf st' \<and>
    \<not> st_flushed st' \<and> st_buffer_size st' = st_buffer_size st \<and> pending rest st' = tail"
  using assms
proof (induction fuel arbitrary: st)
  case 0
  then show ?case by simp
next
  case (Suc fuel)
  from read_step_packet [OF Suc.prems(1-6), of bpf timeout] show ?case
  proof
    assume "\<exists>st'. read_step fill bpf timeout (st, None) = Inr (Again (st', None)) \<and> stream_wf st' \<and>
      \<not> st_flushed st' \<and> st_buffer_size st' = st_buffer_size st \<and> pending rest st' = pending rest st \<and>
      length (rest (st_src st')) < length (rest (st_src st))"
    then obtain st' where st': "read_step fill bpf timeout (st, None) = Inr (Again (st', None))" "stream_wf st'"
      "\<not> st_flushed st'" "st_buffer_size st' = st_buffer_size st" "pending rest st' = pending rest st"
      "length (rest (st_src st')) < length (rest (st_src st))" by blast
    then show ?thesis using Suc.IH [of st'] Suc.prems by (simp add: stream_read_def)
  qed (auto simp: stream_read_def)
qed

text \<open>At the end of the source the reader gets the return value -1.\<close>

lemma stream_read_end:
  assumes "stream_wf st" "\<not> st_flushed st" "pending rest st = []"
  shows "\<exists>st'. stream_read (Suc fuel) fill bpf timeout (st, None) = Some (Inr (- 1, None, st', None))"
proof -
  have w: "window st = []" "rest (st_src st) = []" using assms(3) by (simp_all add: pending_def)
  let ?t = "case timeout of None \<Rightarrow> tv_sec1 | Some _ \<Rightarrow> timeout"
  obtain ret st' where f: "fill_buffer fill st ?t = Inr (ret, st')"
    and r0: "ret = 0 \<longrightarrow> length (rest (st_src st')) < length (rest (st_src st)) \<or> (drained st = Inr False \<and> st' = st)"
    using fill_buffer_spec [OF assms(1,2), of ?t] by blast
  have "drained st \<noteq> Inr False" using drained_False(2) [OF assms(1)] w by auto
  then have "ret = - 1" using r0 w fill_buffer_reliable [OF assms(1,2) f] by auto
  moreover have "st_writePos st - st_readPos st < sizeof_cap_header"
    using length_window [OF assms(1)] w by (simp add: sizeof_cap_header_def)
  ultimately show ?thesis using f by (simp add: stream_read_def read_step_def EAGAIN_def)
qed

end

section \<open>Reading a whole stream\<close>

text \<open>Repeated \<open>stream_read\<close> without a filter, until it returns an error; the packets and that value.\<close>

fun read_all :: "nat \<Rightarrow> nat \<Rightarrow> 's fill \<Rightarrow> 's stream \<Rightarrow> (cap_header list \<times> int) res option" where
  "read_all 0 fuel fill st = None"
| "read_all (Suc n) fuel fill st =
     (case stream_read fuel fill (\<lambda>_ _ _ _. 0) None (st, None :: unit cap_filter option) of
        None \<Rightarrow> None
      | Some (Inl e) \<Rightarrow> Some (Inl e)
      | Some (Inr (ret, cp, st, _)) \<Rightarrow>
          (case cp of
             None \<Rightarrow> Some (Inr ([], ret))
           | Some (_, h) \<Rightarrow> map_option (\<lambda>r. rbind r (\<lambda>(hs, ret). Inr (h # hs, ret))) (read_all n fuel fill st)))"

text \<open>A stored packet: the header and \<open>caplen\<close> bytes of payload.\<close>

definition packet_wf :: "cap_header \<Rightarrow> bool" where
  "packet_wf h \<longleftrightarrow> header_wf h \<and> length (ch_payload h) = unat (ch_caplen h)"

definition packet_bytes :: "cap_header \<Rightarrow> u8 list" where
  "packet_bytes h = cap_header_bytes h @ ch_payload h"

text \<open>The packet as it was captured: what lies behind \<open>caplen\<close> bytes is the rest of the buffer.\<close>

definition captured :: "cap_header \<Rightarrow> cap_header" where
  "captured h = h\<lparr>ch_payload := take (unat (ch_caplen h)) (ch_payload h)\<rparr>"

context reliable_source
begin

lemma read_all_packets:
  assumes "\<forall>h\<in>set hs. packet_wf h \<and> 36 + unat (ch_caplen h) \<le> st_buffer_size st"
    and "stream_wf st" "\<not> st_flushed st" "pending rest st = concat (map packet_bytes hs)"
    and "length (pending rest st) < fuel"
  shows "\<exists>gs. read_all (Suc (length hs)) fuel fill st = Some (Inr (gs, - 1)) \<and> map captured gs = hs"
  using assms
proof (induction hs arbitrary: st)
  case Nil
  obtain f where "fuel = Suc f" using Nil.prems(5) by (cases fuel) auto
  moreover obtain st' where "stream_read (Suc f) fill (\<lambda>_ _ _ _. 0) None (st, None :: unit cap_filter option) =
      Some (Inr (- 1, None, st', None))"
    using stream_read_end [OF Nil.prems(2,3)] Nil.prems(4) by (metis concat.simps(1) list.map(1))
  ultimately show ?case by simp
next
  case (Cons h hs)
  have h: "header_wf h" "length (ch_payload h) = unat (ch_caplen h)"
    using Cons.prems(1) by (simp_all add: packet_wf_def)
  have p: "pending rest st = cap_header_bytes h @ ch_payload h @ concat (map packet_bytes hs)"
    using Cons.prems(4) packet_bytes_def [of h] by simp
  have "length (rest (st_src st)) < fuel" using Cons.prems(5) by (simp add: pending_def)
  then obtain pos more st' where rd: "stream_read fuel fill (\<lambda>_ _ _ _. 0) None (st, None :: unit cap_filter option) =
      Some (Inr (0, Some (pos, h\<lparr>ch_payload := ch_payload h @ more\<rparr>), st', None))"
    and st': "stream_wf st'" "\<not> st_flushed st'" "st_buffer_size st' = st_buffer_size st"
      "pending rest st' = concat (map packet_bytes hs)"
    using stream_read_packet [OF Cons.prems(2,3) h(1) p h(2), of fuel "(\<lambda>_ _ _ _. 0) :: unit \<Rightarrow> _" None]
      Cons.prems(1) by (auto simp: packet_wf_def)
  have "length (pending rest st') < fuel" using p st'(4) Cons.prems(5) by simp
  then obtain gs where "read_all (Suc (length hs)) fuel fill st' = Some (Inr (gs, - 1))" "map captured gs = hs"
    using Cons.IH [of st'] Cons.prems(1) st' by auto
  moreover have "captured (h\<lparr>ch_payload := ch_payload h @ more\<rparr>) = h" using h(2) by (simp add: captured_def)
  moreover have "read_all (Suc (length (h # hs))) fuel fill st =
      map_option (\<lambda>r. rbind r (\<lambda>(hs, ret). Inr ((h\<lparr>ch_payload := ch_payload h @ more\<rparr>) # hs, ret)))
        (read_all (Suc (length hs)) fuel fill st')"
    by (subst read_all.simps(2)) (simp add: rd del: read_all.simps)
  ultimately show ?case by (simp del: read_all.simps)
qed

end

end
