(* ===== verification/Measurement_Frame.thy ===== *)
theory Measurement_Frame
  imports Cap_Stream
begin

text \<open>
  Measurement frames (\<open>caputils/send.h\<close>, \<open>src/stream.c\<close>): the header that a measurement point puts in
  front of a batch of packets, the check of the frame size, and the sequence numbers.
\<close>

section \<open>The send header\<close>

text \<open>The fields are in network order.\<close>

record sendhead =
  sh_sequencenr :: u32
  sh_nopkts :: u32
  sh_flags :: u32
  sh_major :: u16
  sh_minor :: u16

definition SENDER_FLUSH :: u32 where "SENDER_FLUSH = 1"

definition sizeof_sendhead :: nat where "sizeof_sendhead = 16"
definition sizeof_ethhdr :: nat where "sizeof_ethhdr = 14"

definition sendhead_bytes :: "sendhead \<Rightarrow> u8 list" where
  "sendhead_bytes sh = bytes32 (sh_sequencenr sh) @ bytes32 (sh_nopkts sh) @ bytes32 (sh_flags sh) @
     bytes16 (sh_major sh) @ bytes16 (sh_minor sh)"

definition sendhead_at :: "mem \<Rightarrow> nat \<Rightarrow> sendhead res" where
  "sendhead_at m i =
     rbind (rd32 m i) (\<lambda>sq. rbind (rd32 m (i + 4)) (\<lambda>np. rbind (rd32 m (i + 8)) (\<lambda>fl.
     rbind (rd16 m (i + 12)) (\<lambda>ma. rbind (rd16 m (i + 14)) (\<lambda>mi.
       Inr \<lparr>sh_sequencenr = sq, sh_nopkts = np, sh_flags = fl, sh_major = ma, sh_minor = mi\<rparr>)))))"

definition nopkts :: "sendhead \<Rightarrow> nat" where
  "nopkts sh = unat (ntohl (sh_nopkts sh))"

section \<open>Checking the size of a frame\<close>

text \<open>
  The loop of \<open>sendheader_bytes\<close> over the packets; the counter is an \<open>int\<close>, so a number of packets
  with the sign bit makes no round.
\<close>

fun sendheader_walk :: "mem \<Rightarrow> nat \<Rightarrow> nat \<Rightarrow> nat \<Rightarrow> nat res" where
  "sendheader_walk m 0 ptr expected = Inr expected"
| "sendheader_walk m (Suc n) ptr expected =
     rbind (caplen_at m ptr) (\<lambda>caplen.
       if caplen = 0 then Inr 0
       else sendheader_walk m n (ptr + (sizeof_cap_header + caplen)) (expected + (sizeof_cap_header + caplen)))"

definition sendheader_bytes :: "mem \<Rightarrow> nat \<Rightarrow> nat res" where
  "sendheader_bytes m sh =
     rbind (sendhead_at m sh) (\<lambda>h.
       sendheader_walk m (nat (sint (ntohl (sh_nopkts h)))) (sh + sizeof_sendhead) (sizeof_ethhdr + sizeof_sendhead))"

definition valid_framesize :: "nat \<Rightarrow> mem \<Rightarrow> nat \<Rightarrow> bool res" where
  "valid_framesize actual m sh = rbind (sendheader_bytes m sh) (\<lambda>expected. Inr (actual = expected))"

section \<open>Sequence numbers\<close>

text \<open>
  \<open>match_inc_seqnr\<close>: the new expected number; a mismatch calls \<open>abort\<close>. The two numbers are compared as
  \<open>int\<close>.
\<close>

definition match_inc_seqnr :: "bool \<Rightarrow> u64 \<Rightarrow> sendhead \<Rightarrow> u64 res" where
  "match_inc_seqnr if_loopback seq sh =
     (let expected = sint (ucast seq :: u32); got = sint (ntohl (sh_sequencenr sh)) in
      if if_loopback \<and> expected = c_int (got + 1) then Inr seq
      else if expected \<noteq> got then Inl Aborted
      else Inr (if seq + 1 \<ge> 0xFFFF then 0 else seq + 1))"

section \<open>Frames as packets\<close>

text \<open>The bytes of a frame that carries the packets \<open>ps\<close> behind \<open>off\<close> bytes of lower headers.\<close>

definition frame_bytes :: "sendhead \<Rightarrow> cap_header list \<Rightarrow> u8 list" where
  "frame_bytes sh ps = sendhead_bytes sh @ concat (map packet_bytes ps)"

definition slot_frame :: "nat \<Rightarrow> mem \<Rightarrow> cap_header list \<Rightarrow> bool" where
  "slot_frame off slot ps \<longleftrightarrow> ps \<noteq> [] \<and> (\<forall>p\<in>set ps. packet_wf p) \<and>
     (\<exists>pre sh junk. slot = pre @ frame_bytes sh ps @ junk \<and> length pre = off \<and> nopkts sh = length ps)"

lemma length_sendhead_bytes [simp]: "length (sendhead_bytes sh) = 16"
  by (simp add: sendhead_bytes_def)

lemma sendhead_at_bytes:
  assumes "i = length xs"
  shows "sendhead_at (xs @ sendhead_bytes sh @ ys) i = Inr sh"
proof -
  let ?a = "bytes32 (sh_sequencenr sh)" and ?b = "bytes32 (sh_nopkts sh)" and ?c = "bytes32 (sh_flags sh)"
  let ?d = "bytes16 (sh_major sh)" and ?e = "bytes16 (sh_minor sh)"
  let ?M = "xs @ ?a @ ?b @ ?c @ ?d @ ?e @ ys"
  have "rd32 ?M i = Inr (sh_sequencenr sh)" using rd32_bytes32 [of xs] assms by simp
  moreover have "rd32 ?M (i + 4) = Inr (sh_nopkts sh)" using rd32_bytes32 [of "xs @ ?a"] assms by simp
  moreover have "rd32 ?M (i + 8) = Inr (sh_flags sh)" using rd32_bytes32 [of "xs @ ?a @ ?b"] assms by simp
  moreover have "rd16 ?M (i + 12) = Inr (sh_major sh)" using rd16_bytes16 [of "xs @ ?a @ ?b @ ?c"] assms by simp
  moreover have "rd16 ?M (i + 14) = Inr (sh_minor sh)" using rd16_bytes16 [of "xs @ ?a @ ?b @ ?c @ ?d"] assms by simp
  ultimately show ?thesis by (simp add: sendhead_at_def sendhead_bytes_def)
qed

lemma length_packet_bytes: "packet_wf p \<Longrightarrow> length (packet_bytes p) = 36 + unat (ch_caplen p)"
  by (simp add: packet_wf_def packet_bytes_def length_cap_header_bytes)

lemma walk_packets:
  assumes "\<forall>p\<in>set ps. packet_wf p \<and> ch_caplen p \<noteq> 0" "ptr = length xs"
  shows "sendheader_walk (xs @ concat (map packet_bytes ps) @ ys) (length ps) ptr expected =
    Inr (expected + length (concat (map packet_bytes ps)))"
  using assms
proof (induction ps arbitrary: xs ptr expected)
  case (Cons p ps)
  have p: "packet_wf p" "ch_caplen p \<noteq> 0" using Cons.prems(1) by simp_all
  let ?m = "xs @ concat (map packet_bytes (p # ps)) @ ys"
  have "caplen_at ?m ptr = Inr (unat (ch_caplen p))"
    using caplen_at_bytes [OF _ Cons.prems(2), of p "ch_payload p @ concat (map packet_bytes ps) @ ys"] p
    by (simp add: packet_wf_def packet_bytes_def)
  moreover have "unat (ch_caplen p) \<noteq> 0" using p(2) by (simp add: unat_eq_zero)
  moreover have "sendheader_walk ?m (length ps) (ptr + (36 + unat (ch_caplen p))) (expected + (36 + unat (ch_caplen p))) =
      Inr (expected + (36 + unat (ch_caplen p)) + length (concat (map packet_bytes ps)))"
    using Cons.IH [of "ptr + (36 + unat (ch_caplen p))" "xs @ packet_bytes p"] Cons.prems length_packet_bytes [OF p(1)]
    by simp
  ultimately show ?case
    using length_packet_bytes [OF p(1)] by (simp add: sizeof_cap_header_def)
qed simp

text \<open>Conversely, a walk that reaches the number of bytes received has passed over whole packets.\<close>

lemma cap_at_take:
  assumes "cap_at m i = Inr h"
  shows "header_wf h \<and> cap_header_bytes h = take 36 (drop i m) \<and> i + 36 \<le> length m \<and>
    caplen_at m i = Inr (unat (ch_caplen h))"
proof -
  obtain nic mp sec psec l cl where r: "rdn m i 8 = Inr nic" "rdn m (i + 8) 8 = Inr mp" "rd32 m (i + 16) = Inr sec"
    "rd64 m (i + 20) = Inr psec" "rd32 m (i + 28) = Inr l" "rd32 m (i + 32) = Inr cl"
    and h: "h = \<lparr>ch_nic = map char_of_byte nic, ch_mampid = map char_of_byte mp,
      ch_ts = \<lparr>tv_sec = sec, tv_psec = psec\<rparr>, ch_len = l, ch_caplen = cl, ch_payload = drop (i + sizeof_cap_header) m\<rparr>"
    using assms by (auto simp: cap_at_def rbind_Inr_iff)
  have "take 36 (drop i m) = take 8 (drop i m) @ take 8 (drop (i + 8) m) @ take 4 (drop (i + 16) m) @
      take 8 (drop (i + 20) m) @ take 4 (drop (i + 28) m) @ take 4 (drop (i + 32) m)"
    using take_drop_split [of 8 28 i m] take_drop_split [of 8 20 "i + 8" m] take_drop_split [of 4 16 "i + 16" m]
      take_drop_split [of 8 8 "i + 20" m] take_drop_split [of 4 4 "i + 28" m] by (simp add: add.assoc)
  moreover have "nic = take 8 (drop i m)" "mp = take 8 (drop (i + 8) m)" "length nic = 8" "length mp = 8"
    using r(1,2) by (auto simp: rdn_def split: if_splits)
  moreover have "caplen_at m i = Inr (unat cl)" using r(6) by (simp add: caplen_at_def)
  moreover have "i + 36 \<le> length m" using rd32_Inr_bound [OF r(6)] by simp
  ultimately show ?thesis
    using rd32_take [OF r(3)] rd64_take [OF r(4)] rd32_take [OF r(5)] rd32_take [OF r(6)]
    by (simp add: h cap_header_bytes_def header_wf_def comp_def)
qed

lemma cap_at_total: "i + 36 \<le> length m \<Longrightarrow> \<exists>h. cap_at m i = Inr h"
  by (simp add: cap_at_def rdn_in rd32_in rd64_in)

lemma packet_at:
  assumes "caplen_at m i = Inr cl" "i + (36 + cl) \<le> length m"
  shows "\<exists>p. packet_wf p \<and> packet_bytes p = take (36 + cl) (drop i m) \<and> unat (ch_caplen p) = cl"
proof -
  have "i + 36 \<le> length m" using assms(2) by simp
  then obtain h where h: "cap_at m i = Inr h" using cap_at_total by blast
  let ?p = "h\<lparr>ch_payload := take cl (drop (i + 36) m)\<rparr>"
  have cl: "unat (ch_caplen h) = cl" using cap_at_take [OF h] assms(1) by simp
  have "packet_wf ?p"
    using cap_at_take [OF h] cl assms(2) by (simp add: packet_wf_def header_wf_def)
  moreover have "packet_bytes ?p = take (36 + cl) (drop i m)"
    using cap_at_take [OF h] take_drop_split [of 36 cl i m] by (simp add: packet_bytes_def cap_header_bytes_def)
  ultimately show ?thesis using cl by auto
qed

lemma walk_mono: "sendheader_walk m n ptr expected = Inr tot \<Longrightarrow> tot \<noteq> 0 \<Longrightarrow> expected \<le> tot"
  by (induction n arbitrary: ptr expected) (fastforce simp: rbind_Inr_iff split: if_splits)+

lemma walk_sound:
  assumes "sendheader_walk m n ptr expected = Inr tot" "tot \<noteq> 0" "ptr + (tot - expected) \<le> length m"
  shows "expected \<le> tot \<and> (\<exists>ps. length ps = n \<and> (\<forall>p\<in>set ps. packet_wf p \<and> ch_caplen p \<noteq> 0) \<and>
    concat (map packet_bytes ps) = take (tot - expected) (drop ptr m))"
  using assms
proof (induction n arbitrary: ptr expected)
  case 0
  then show ?case by simp
next
  case (Suc n)
  obtain cl where cl: "caplen_at m ptr = Inr cl" "cl \<noteq> 0"
    and w: "sendheader_walk m n (ptr + (36 + cl)) (expected + (36 + cl)) = Inr tot"
    using Suc.prems(1,2) by (auto simp: rbind_Inr_iff sizeof_cap_header_def split: if_splits)
  have le: "expected + (36 + cl) \<le> tot" by (rule walk_mono [OF w Suc.prems(2)])
  then have b: "ptr + (36 + cl) + (tot - (expected + (36 + cl))) \<le> length m" using Suc.prems(3) by simp
  from Suc.IH [OF w Suc.prems(2) b] obtain ps where
    ps: "length ps = n" "\<forall>p\<in>set ps. packet_wf p \<and> ch_caplen p \<noteq> 0"
    "concat (map packet_bytes ps) = take (tot - (expected + (36 + cl))) (drop (ptr + (36 + cl)) m)" by blast
  have "ptr + (36 + cl) \<le> length m" using b by simp
  from packet_at [OF cl(1) this] obtain p where p: "packet_wf p" "packet_bytes p = take (36 + cl) (drop ptr m)"
    "unat (ch_caplen p) = cl" by blast
  have "packet_bytes p @ concat (map packet_bytes ps) = take (tot - expected) (drop ptr m)"
    using p(2) ps(3) take_drop_split [of "36 + cl" "tot - (expected + (36 + cl))" ptr m] le by simp
  moreover have "ch_caplen p \<noteq> 0" using p(3) cl(2) by auto
  ultimately show ?case using le ps(1,2) p(1) by (intro conjI exI [of _ "p # ps"]) auto
qed

lemma sendhead_at_take:
  assumes "sendhead_at m i = Inr sh"
  shows "sendhead_bytes sh = take 16 (drop i m) \<and> i + 16 \<le> length m"
proof -
  obtain r: "rd32 m i = Inr (sh_sequencenr sh)" "rd32 m (i + 4) = Inr (sh_nopkts sh)" "rd32 m (i + 8) = Inr (sh_flags sh)"
    "rd16 m (i + 12) = Inr (sh_major sh)" "rd16 m (i + 14) = Inr (sh_minor sh)"
    using assms by (auto simp: sendhead_at_def rbind_Inr_iff)
  have "take 4 (drop (i + 12) m) = take 2 (drop (i + 12) m) @ take 2 (drop (i + 14) m)"
    using take_drop_split [of 2 2 "i + 12" m] by (simp add: ac_simps)
  then have "take 16 (drop i m) = take 4 (drop i m) @ take 4 (drop (i + 4) m) @ take 4 (drop (i + 8) m) @
      take 2 (drop (i + 12) m) @ take 2 (drop (i + 14) m)"
    using take_drop_split [of 4 12 i m] take_drop_split [of 4 8 "i + 4" m] take_drop_split [of 4 4 "i + 8" m]
    by (simp add: add.assoc)
  then show ?thesis
    using rd32_take [OF r(1)] rd32_take [OF r(2)] rd32_take [OF r(3)] rd16_take [OF r(4)] rd16_take [OF r(5)]
      rd16_Inr_bound [OF r(5)] by (simp add: sendhead_bytes_def)
qed

lemma sint_negative:
  fixes w :: u32
  assumes "2 ^ 31 \<le> unat w"
  shows "sint w < 0"
proof -
  have "int (2 ^ 31) \<le> int (unat w)" "int (unat w) < int 4294967296"
    using assms unat_lt_u32 [of w] by (simp_all only: of_nat_less_iff of_nat_le_iff)
  then have "0 \<le> uint w - 2 ^ 31" "uint w - 2 ^ 31 < 2 ^ 31" by simp_all
  moreover from this have "(uint w - 2 ^ 31 + 2 ^ 32) mod 2 ^ 32 = uint w - 2 ^ 31" by (subst mod_add_self2) (simp add: mod_pos_pos_trivial)
  moreover have "uint w - 2 ^ 31 + 2 ^ 32 = uint w + 2 ^ 31" by simp
  ultimately have "(uint w + 2 ^ 31) mod 2 ^ 32 < 2 ^ 31" by metis
  then show ?thesis by (simp add: sint_uint signed_take_bit_eq_take_bit_shift take_bit_eq_mod)
qed

lemma sint_nopkts: "nopkts sh < 2 ^ 31 \<Longrightarrow> nat (sint (ntohl (sh_nopkts sh))) = nopkts sh"
  by (simp add: nopkts_def sint_small)

lemma valid_framesize_sound:
  assumes "sendhead_at m off = Inr sh" "nopkts sh < 2 ^ 31" "0 < actual" "off \<le> 14" "actual \<le> length m"
    and "valid_framesize actual m off = Inr True"
  shows "30 \<le> actual \<and> (\<exists>ps junk. (\<forall>p\<in>set ps. packet_wf p \<and> ch_caplen p \<noteq> 0) \<and> length ps = nopkts sh \<and>
    drop off m = frame_bytes sh ps @ junk \<and> actual = 14 + length (frame_bytes sh ps))"
proof -
  have w: "sendheader_walk m (nopkts sh) (off + 16) 30 = Inr actual"
    using assms(1,6) sint_nopkts [OF assms(2)]
    by (simp add: valid_framesize_def sendheader_bytes_def rbind_Inr_iff sizeof_ethhdr_def sizeof_sendhead_def)
  note sh = sendhead_at_take [OF assms(1)]
  have le: "30 \<le> actual" using walk_mono [OF w] assms(3) by simp
  have "off + 16 + (actual - 30) \<le> length m" using assms(4,5) le by simp
  then obtain ps where ps: "length ps = nopkts sh" "\<forall>p\<in>set ps. packet_wf p \<and> ch_caplen p \<noteq> 0"
    "concat (map packet_bytes ps) = take (actual - 30) (drop (off + 16) m)"
    using walk_sound [OF w] assms(3) by blast
  have "drop off m = take 16 (drop off m) @ take (actual - 30) (drop (off + 16) m) @ drop (actual - 30) (drop (off + 16) m)"
    by (metis add.commute append_take_drop_id drop_drop)
  then have "drop off m = frame_bytes sh ps @ drop (actual - 30) (drop (off + 16) m)"
    using sh ps(3) by (simp add: frame_bytes_def)
  moreover have "actual = 14 + length (frame_bytes sh ps)"
    using ps(3) le \<open>off + 16 + (actual - 30) \<le> length m\<close> by (simp add: frame_bytes_def)
  ultimately show ?thesis using ps le by blast
qed

lemma valid_framesize_complete:
  assumes "length pre = off" "nopkts sh = length ps" "length ps < 2 ^ 31"
    and "\<forall>p\<in>set ps. packet_wf p \<and> ch_caplen p \<noteq> 0"
  shows "valid_framesize (14 + length (frame_bytes sh ps)) (pre @ frame_bytes sh ps @ junk) off = Inr True"
proof -
  have "sendhead_at (pre @ frame_bytes sh ps @ junk) off = Inr sh"
    using sendhead_at_bytes [of off pre sh] assms(1) by (simp add: frame_bytes_def)
  moreover have "sendheader_walk (pre @ frame_bytes sh ps @ junk) (length ps) (off + 16) 30 =
      Inr (30 + length (concat (map packet_bytes ps)))"
    using walk_packets [OF assms(4), of "off + 16" "pre @ sendhead_bytes sh" junk 30] assms(1)
    by (simp add: frame_bytes_def)
  moreover have "nat (sint (ntohl (sh_nopkts sh))) = length ps"
    using sint_nopkts [of sh] assms(2,3) by simp
  ultimately show ?thesis
    by (simp add: valid_framesize_def sendheader_bytes_def sizeof_ethhdr_def sizeof_sendhead_def frame_bytes_def)
qed

section \<open>Decoding a frame\<close>

text \<open>A complete decoder of measurement frames, independent of the code: the packets of a datagram.\<close>

fun decode_packets :: "nat \<Rightarrow> u8 list \<Rightarrow> cap_header list option" where
  "decode_packets 0 bs = (if bs = [] then Some [] else None)"
| "decode_packets (Suc n) bs =
     (case cap_at bs 0 of
        Inl _ \<Rightarrow> None
      | Inr h \<Rightarrow>
          if ch_caplen h = 0 \<or> length (ch_payload h) < unat (ch_caplen h) then None
          else map_option ((#) (captured h)) (decode_packets n (drop (unat (ch_caplen h)) (ch_payload h))))"

definition decode_frame :: "nat \<Rightarrow> u8 list \<Rightarrow> (sendhead \<times> cap_header list) option" where
  "decode_frame off bs =
     (case sendhead_at bs off of
        Inl _ \<Rightarrow> None
      | Inr sh \<Rightarrow> if 2 ^ 31 \<le> nopkts sh then None
                   else map_option (Pair sh) (decode_packets (nopkts sh) (drop (off + 16) bs)))"

lemma decode_packets_sound:
  "decode_packets n bs = Some ps \<Longrightarrow> length ps = n \<and> (\<forall>p\<in>set ps. packet_wf p \<and> ch_caplen p \<noteq> 0) \<and>
     bs = concat (map packet_bytes ps)"
proof (induction n arbitrary: bs ps)
  case 0
  then show ?case by (simp split: if_splits)
next
  case (Suc n)
  obtain h qs where h: "cap_at bs 0 = Inr h" "ch_caplen h \<noteq> 0" "unat (ch_caplen h) \<le> length (ch_payload h)"
    and qs: "decode_packets n (drop (unat (ch_caplen h)) (ch_payload h)) = Some qs" "ps = captured h # qs"
    using Suc.prems by (auto split: sum.splits if_splits)
  have pl: "ch_payload h = drop 36 bs" using h(1) by (auto simp: cap_at_def rbind_Inr_iff sizeof_cap_header_def)
  have "packet_wf (captured h)" "ch_caplen (captured h) \<noteq> 0"
    using cap_at_take [OF h(1)] h by (simp_all add: captured_def packet_wf_def header_wf_def)
  moreover have "bs = packet_bytes (captured h) @ drop (unat (ch_caplen h)) (ch_payload h)"
  proof -
    let ?c = "unat (ch_caplen h)"
    have "bs = take 36 bs @ take ?c (drop 36 bs) @ drop ?c (drop 36 bs)"
      using append_take_drop_id [of 36 bs] append_take_drop_id [of ?c "drop 36 bs"] by metis
    moreover have "packet_bytes (captured h) = take 36 bs @ take ?c (drop 36 bs)"
      using cap_at_take [OF h(1)] pl by (simp add: captured_def packet_bytes_def cap_header_bytes_def)
    ultimately show ?thesis using pl by (metis append_assoc)
  qed
  ultimately show ?case using Suc.IH [OF qs(1)] qs(2) by simp
qed

lemma decode_frame_sound:
  assumes "decode_frame off bs = Some (sh, ps)"
  shows "\<exists>pre. bs = pre @ frame_bytes sh ps \<and> length pre = off \<and> nopkts sh = length ps \<and> length ps < 2 ^ 31 \<and>
    (\<forall>p\<in>set ps. packet_wf p \<and> ch_caplen p \<noteq> 0)"
proof -
  have d: "sendhead_at bs off = Inr sh" "nopkts sh < 2 ^ 31" "decode_packets (nopkts sh) (drop (off + 16) bs) = Some ps"
    using assms by (auto simp: decode_frame_def split: sum.splits if_splits)
  have "bs = take off bs @ take 16 (drop off bs) @ drop (off + 16) bs"
    using append_take_drop_id [of off bs] append_take_drop_id [of 16 "drop off bs"] by (simp add: add.commute)
  then have "bs = take off bs @ frame_bytes sh ps"
    using sendhead_at_take [OF d(1)] decode_packets_sound [OF d(3)] by (simp add: frame_bytes_def)
  then show ?thesis
    using sendhead_at_take [OF d(1)] decode_packets_sound [OF d(3)] d(2) by (intro exI [of _ "take off bs"]) auto
qed

lemma decode_packets_complete:
  "\<forall>p\<in>set ps. packet_wf p \<and> ch_caplen p \<noteq> 0 \<Longrightarrow> decode_packets (length ps) (concat (map packet_bytes ps)) = Some ps"
proof (induction ps)
  case (Cons p ps)
  then have p: "header_wf p" "length (ch_payload p) = unat (ch_caplen p)" "ch_caplen p \<noteq> 0" by (simp_all add: packet_wf_def)
  let ?h = "p\<lparr>ch_payload := ch_payload p @ concat (map packet_bytes ps)\<rparr>"
  have "cap_at (concat (map packet_bytes (p # ps))) 0 = Inr ?h"
    using cap_at_bytes [OF p(1), of 0 "[]"] by (simp add: packet_bytes_def)
  moreover have "captured ?h = p" using p(2) by (simp add: captured_def)
  ultimately show ?case using p Cons by simp
qed simp

lemma decode_frame_complete:
  assumes "length pre = off" "nopkts sh = length ps" "length ps < 2 ^ 31" "\<forall>p\<in>set ps. packet_wf p \<and> ch_caplen p \<noteq> 0"
  shows "decode_frame off (pre @ frame_bytes sh ps) = Some (sh, ps)"
proof -
  have "sendhead_at (pre @ frame_bytes sh ps) off = Inr sh"
    using sendhead_at_bytes [of off pre sh] assms(1) by (simp add: frame_bytes_def)
  moreover have "drop (off + 16) (pre @ frame_bytes sh ps) = concat (map packet_bytes ps)"
    using assms(1) by (simp add: frame_bytes_def)
  ultimately show ?thesis using assms(2,3) decode_packets_complete [OF assms(4)] by (simp add: decode_frame_def)
qed

section \<open>Properties\<close>

text \<open>
  Claim C28. For a frame that announces fewer than \<open>2^31\<close> packets, \<open>valid_framesize\<close> accepts the number
  of bytes received exactly when the frame consists of the ethernet header, the send header and the
  announced number of complete packets, none of them empty, and nothing more.
\<close>

theorem valid_framesize_iff:
  assumes "sendhead_at m 14 = Inr sh" "nopkts sh < 2 ^ 31" "0 < actual" "actual \<le> length m"
  shows "valid_framesize actual m 14 = Inr True \<longleftrightarrow>
    (\<exists>ps junk. (\<forall>p\<in>set ps. packet_wf p \<and> ch_caplen p \<noteq> 0) \<and> length ps = nopkts sh \<and>
      drop 14 m = frame_bytes sh ps @ junk \<and> actual = 14 + length (frame_bytes sh ps))"
proof
  assume "valid_framesize actual m 14 = Inr True"
  from valid_framesize_sound [OF assms(1-3) _ assms(4) this] show "\<exists>ps junk. (\<forall>p\<in>set ps. packet_wf p \<and> ch_caplen p \<noteq> 0) \<and>
      length ps = nopkts sh \<and> drop 14 m = frame_bytes sh ps @ junk \<and> actual = 14 + length (frame_bytes sh ps)" by simp
next
  assume "\<exists>ps junk. (\<forall>p\<in>set ps. packet_wf p \<and> ch_caplen p \<noteq> 0) \<and> length ps = nopkts sh \<and>
      drop 14 m = frame_bytes sh ps @ junk \<and> actual = 14 + length (frame_bytes sh ps)"
  then obtain ps junk where ps: "\<forall>p\<in>set ps. packet_wf p \<and> ch_caplen p \<noteq> 0" "nopkts sh = length ps"
    "drop 14 m = frame_bytes sh ps @ junk" "actual = 14 + length (frame_bytes sh ps)" by auto
  have "m = take 14 m @ frame_bytes sh ps @ junk" using ps(3) by (metis append_take_drop_id)
  moreover have "length (take 14 m) = 14" using assms(4) ps(4) by simp
  ultimately show "valid_framesize actual m 14 = Inr True"
    using valid_framesize_complete [of "take 14 m" 14 sh ps junk] ps assms(2) by simp
qed

definition sample_head :: "u32 \<Rightarrow> sendhead" where
  "sample_head n = \<lparr>sh_sequencenr = 0, sh_nopkts = n, sh_flags = 0, sh_major = 0, sh_minor = 0\<rparr>"

lemma nopkts_sample: "nopkts (sample_head (htonl n)) = unat n"
  by (simp add: nopkts_def sample_head_def)

theorem valid_framesize_iff_witness:
  "valid_framesize 30 (replicate 14 0 @ sendhead_bytes (sample_head (htonl 0)) @ []) 14 = Inr True \<longleftrightarrow>
    (\<exists>ps junk. (\<forall>p\<in>set ps. packet_wf p \<and> ch_caplen p \<noteq> 0) \<and> length ps = nopkts (sample_head (htonl 0)) \<and>
      drop 14 (replicate 14 0 @ sendhead_bytes (sample_head (htonl 0)) @ []) = frame_bytes (sample_head (htonl 0)) ps @ junk \<and>
      30 = 14 + length (frame_bytes (sample_head (htonl 0)) ps))"
  by (rule valid_framesize_iff) (rule sendhead_at_bytes, simp_all add: nopkts_sample del: append_Nil2)

text \<open>
  A frame of 30 bytes, the two headers alone, is accepted with any announced number of
  packets from \<open>2^31\<close> on, although it has none.
\<close>

lemma valid_framesize_sign:
  assumes "2 ^ 31 \<le> nopkts sh"
  shows "valid_framesize 30 (pre @ sendhead_bytes sh @ junk) (length pre) = Inr True"
proof -
  have "nat (sint (ntohl (sh_nopkts sh))) = 0"
    using sint_negative [of "ntohl (sh_nopkts sh)"] assms by (simp add: nopkts_def)
  then show ?thesis
    using sendhead_at_bytes [of "length pre" pre sh junk]
    by (simp add: valid_framesize_def sendheader_bytes_def sizeof_ethhdr_def sizeof_sendhead_def)
qed

end
