(* ===== verification/Frame_Buffer.thy ===== *)
theory Frame_Buffer
  imports Measurement_Frame
begin

text \<open>
  The frame buffer (\<open>src/stream_buffer.h\<close>, \<open>src/stream_buffer.c\<close>): a ring of frame slots between the
  network and the reader of a datagram stream. \<open>readPos\<close> and \<open>writePos\<close> of the stream count slots here.

  The buffer refines a queue: what it holds is a list of frames, each the list of its packets not yet
  returned; receiving appends a frame and reading takes the first packet. The callback that receives a
  frame is the interface \<open>frame_source\<close>, interpreted by the ethernet and the UDP stream.

  A slot is an object of its own: an access behind its end is a fault.
\<close>

section \<open>The buffer\<close>

record frame_buffer =
  fb_frame :: "mem list"        \<comment> \<open>the slots\<close>
  fb_frame_size :: nat
  fb_num_frames :: nat
  fb_num_packets :: nat
  fb_header_offset :: nat
  fb_read_ptr :: "nat option"   \<comment> \<open>offset in the slot \<open>readPos\<close>\<close>

type_synonym 's read_frame_cb = "'s stream \<Rightarrow> mem \<Rightarrow> timeval option \<Rightarrow> (int \<times> mem \<times> 's stream) res"

definition stream_frame_buffer_size :: "nat \<Rightarrow> nat \<Rightarrow> nat" where
  "stream_frame_buffer_size num_frames mtu = num_frames * mtu + 8 * num_frames"

text \<open>The address of slot \<open>i\<close> relative to the start of the stream buffer.\<close>

definition frame_address :: "nat \<Rightarrow> nat \<Rightarrow> nat \<Rightarrow> nat" where
  "frame_address num_frames frame_size i = 8 * num_frames + i * frame_size"

definition stream_frame_init :: "nat \<Rightarrow> nat \<Rightarrow> frame_buffer" where
  "stream_frame_init num_frames frame_size =
     \<lparr>fb_frame = replicate num_frames (replicate frame_size 0), fb_frame_size = frame_size,
      fb_num_frames = num_frames, fb_num_packets = 0, fb_header_offset = 0, fb_read_ptr = None\<rparr>"

definition read_frame ::
  "'s read_frame_cb \<Rightarrow> 's stream \<Rightarrow> frame_buffer \<Rightarrow> timeval option \<Rightarrow> (bool \<times> 's stream \<times> frame_buffer) res" where
  "read_frame rf st fb timeout =
     (let w = st_writePos st in
      if \<not> w < length (fb_frame fb) then Inl Out_of_bounds
      else rbind (rf st (fb_frame fb ! w) timeout) (\<lambda>(ret, slot, st).
        let fb = fb\<lparr>fb_frame := (fb_frame fb)[w := slot]\<rparr> in
        if ret = 0 then Inr (False, st, fb)
        else Inr (True, st\<lparr>st_writePos := (st_writePos st + 1) mod fb_num_frames fb\<rparr>, fb)))"

text \<open>Pointing at the first packet of the slot \<open>readPos\<close>.\<close>

definition enter_frame :: "'s stream \<Rightarrow> frame_buffer \<Rightarrow> frame_buffer res" where
  "enter_frame st fb =
     (if \<not> st_readPos st < length (fb_frame fb) then Inl Out_of_bounds
      else rbind (sendhead_at (fb_frame fb ! st_readPos st) (fb_header_offset fb)) (\<lambda>sh.
        Inr (fb\<lparr>fb_read_ptr := Some (fb_header_offset fb + sizeof_sendhead),
                fb_num_packets := unat (ntohl (sh_nopkts sh))\<rparr>)))"

text \<open>The part of \<open>stream_frame_buffer_read\<close> from the first line to the end of the frame advance.\<close>

definition next_packet ::
  "'s stream \<Rightarrow> frame_buffer \<Rightarrow> (nat \<times> cap_header \<times> 's stream \<times> frame_buffer) res" where
  "next_packet st fb =
     (if fb_num_packets fb = 0 then Inl Aborted
      else case fb_read_ptr fb of
        None \<Rightarrow> Inl Null_deref
      | Some ptr \<Rightarrow>
          rbind (cap_at (fb_frame fb ! st_readPos st) ptr) (\<lambda>cp.
            let packet_size = sizeof_cap_header + unat (ch_caplen cp);
                fb = fb\<lparr>fb_num_packets := fb_num_packets fb - 1, fb_read_ptr := Some (ptr + packet_size)\<rparr> in
            if fb_num_packets fb = 0 then
              let st = st\<lparr>st_readPos := (st_readPos st + 1) mod fb_num_frames fb\<rparr> in
              if st_readPos st = st_writePos st then Inr (ptr, cp, st, fb\<lparr>fb_read_ptr := None\<rparr>)
              else rbind (enter_frame st fb) (\<lambda>fb. Inr (ptr, cp, st, fb))
            else Inr (ptr, cp, st, fb)))"

text \<open>One round of \<open>stream_frame_buffer_read\<close>, up to the \<open>goto retry\<close> for a packet the filter rejects.\<close>

definition frame_read_step ::
  "'s read_frame_cb \<Rightarrow> ('b \<Rightarrow> mem \<Rightarrow> u32 \<Rightarrow> u32 \<Rightarrow> u32) \<Rightarrow> timeval option \<Rightarrow>
   's stream \<times> frame_buffer \<times> 'b cap_filter option \<Rightarrow> ('s stream \<times> frame_buffer \<times> 'b cap_filter option) outcome res" where
  "frame_read_step rf bpf timeout = (\<lambda>(st, fb, flt).
     rbind (if fb_read_ptr fb = None
            then rbind (read_frame rf st fb timeout) (\<lambda>(ok, st, fb).
                   if ok then rbind (enter_frame st fb) (\<lambda>fb. Inr (True, st, fb)) else Inr (False, st, fb))
            else Inr (True, st, fb)) (\<lambda>(ok, st, fb).
       if \<not> ok then Inr (Done EAGAIN None (st, fb, flt))
       else
         rbind (if st_writePos st \<noteq> st_readPos st
                then rbind (read_frame rf st fb tv_zero) (\<lambda>(_, st, fb). Inr (st, fb)) else Inr (st, fb)) (\<lambda>(st, fb).
           rbind (next_packet st fb) (\<lambda>(ptr, cp, st, fb).
             let st = st\<lparr>st_stat_read := st_stat_read st + 1, st_stat_buffer_usage := 0\<rparr> in
             rbind (match_opt bpf flt cp) (\<lambda>(m, flt).
               if m then Inr (Done 0 (Some (ptr, cp)) (st\<lparr>st_stat_matched := st_stat_matched st + 1\<rparr>, fb, flt))
               else Inr (Again (st, fb, flt)))))))"

definition stream_frame_buffer_read ::
  "nat \<Rightarrow> 's read_frame_cb \<Rightarrow> ('b \<Rightarrow> mem \<Rightarrow> u32 \<Rightarrow> u32 \<Rightarrow> u32) \<Rightarrow> timeval option \<Rightarrow>
   's stream \<times> frame_buffer \<times> 'b cap_filter option \<Rightarrow>
   (int \<times> (nat \<times> cap_header) option \<times> 's stream \<times> frame_buffer \<times> 'b cap_filter option) res option" where
  "stream_frame_buffer_read fuel rf bpf timeout x = iterate fuel (frame_read_step rf bpf timeout) x"

section \<open>The queue of frames\<close>

text \<open>
  The slots in use, from \<open>readPos\<close> on, hold the frames \<open>qs\<close>; of the first one the packets from
  \<open>read_ptr\<close> on are left. The ring is full when both positions agree and \<open>read_ptr\<close> is set.
\<close>

definition ring :: "nat \<Rightarrow> nat \<Rightarrow> nat \<Rightarrow> nat" where
  "ring n r j = (r + j) mod n"

definition slot_rest :: "mem \<Rightarrow> nat \<Rightarrow> cap_header list \<Rightarrow> bool" where
  "slot_rest slot ptr ps \<longleftrightarrow> ps \<noteq> [] \<and> (\<forall>p\<in>set ps. packet_wf p) \<and> ptr \<le> length slot \<and>
     (\<exists>junk. drop ptr slot = concat (map packet_bytes ps) @ junk)"

definition fb_queue :: "'s stream \<Rightarrow> frame_buffer \<Rightarrow> cap_header list list \<Rightarrow> bool" where
  "fb_queue st fb qs \<longleftrightarrow>
     fb_num_frames fb = length (fb_frame fb) \<and> st_readPos st < length (fb_frame fb) \<and>
     (\<forall>s\<in>set (fb_frame fb). length s = fb_frame_size fb) \<and>
     length qs \<le> length (fb_frame fb) \<and> st_writePos st = ring (length (fb_frame fb)) (st_readPos st) (length qs) \<and>
     (\<forall>j. 0 < j \<longrightarrow> j < length qs \<longrightarrow>
        slot_frame (fb_header_offset fb) (fb_frame fb ! ring (length (fb_frame fb)) (st_readPos st) j) (qs ! j)) \<and>
     (case qs of
        [] \<Rightarrow> fb_read_ptr fb = None
      | ps # _ \<Rightarrow> (\<exists>ptr. fb_read_ptr fb = Some ptr \<and> slot_rest (fb_frame fb ! st_readPos st) ptr ps) \<and>
                  fb_num_packets fb = length ps)"

lemma fb_queue_cong:
  "st_readPos st' = st_readPos st \<Longrightarrow> st_writePos st' = st_writePos st \<Longrightarrow> fb_queue st' fb qs = fb_queue st fb qs"
  by (cases qs) (simp_all add: fb_queue_def)

section \<open>Ring arithmetic\<close>

lemma ring_0 [simp]: "r < n \<Longrightarrow> ring n r 0 = r"
  by (simp add: ring_def)

lemma ring_less [simp]: "0 < n \<Longrightarrow> ring n r j < n"
  by (simp add: ring_def)

lemma ring_ring: "ring n (ring n r i) j = ring n r (i + j)"
  by (simp add: ring_def mod_add_left_eq add.assoc)

lemma ring_Suc: "Suc (ring n r i) mod n = ring n r (Suc i)" "Suc r mod n = ring n r (Suc 0)"
  by (simp_all add: ring_def mod_Suc_eq)

lemma ring_self: "r < n \<Longrightarrow> ring n r n = r"
  by (simp add: ring_def)

lemma ring_inj:
  assumes "i < n" "j < n" "ring n r i = ring n r j"
  shows "i = j"
proof -
  have "(int r + int i) mod int n = (int r + int j) mod int n"
    using assms(3) unfolding ring_def by (metis of_nat_add zmod_int)
  then have "int i mod int n = int j mod int n" by (metis add_diff_cancel_left' mod_diff_left_eq)
  then show ?thesis using assms(1,2) by simp
qed

section \<open>Operations on the queue\<close>

lemma fb_queue_free:
  assumes "fb_queue st fb qs" "qs \<noteq> []"
  shows "st_writePos st \<noteq> st_readPos st \<longleftrightarrow> length qs < length (fb_frame fb)"
proof -
  let ?n = "length (fb_frame fb)"
  have q: "st_readPos st < ?n" "length qs \<le> ?n" "st_writePos st = ring ?n (st_readPos st) (length qs)"
    using assms(1) by (simp_all add: fb_queue_def)
  show ?thesis
  proof (cases "length qs = ?n")
    case True
    then show ?thesis using q ring_self by simp
  next
    case False
    then have l: "length qs < ?n" using q(2) by simp
    then have "ring ?n (st_readPos st) (length qs) \<noteq> ring ?n (st_readPos st) 0"
      using ring_inj [of "length qs" ?n 0 "st_readPos st"] assms(2) by fastforce
    with l q show ?thesis by simp
  qed
qed

lemma enter_frame_rest:
  assumes "st_readPos st < length (fb_frame fb)" "slot_frame (fb_header_offset fb) (fb_frame fb ! st_readPos st) ps"
  shows "\<exists>ptr. enter_frame st fb = Inr (fb\<lparr>fb_read_ptr := Some ptr, fb_num_packets := length ps\<rparr>) \<and>
    slot_rest (fb_frame fb ! st_readPos st) ptr ps"
proof -
  obtain pre sh junk where s: "fb_frame fb ! st_readPos st = pre @ frame_bytes sh ps @ junk"
    "length pre = fb_header_offset fb" "nopkts sh = length ps" "ps \<noteq> []" "\<forall>p\<in>set ps. packet_wf p"
    using assms(2) by (auto simp: slot_frame_def)
  have "sendhead_at (fb_frame fb ! st_readPos st) (fb_header_offset fb) = Inr sh"
    using sendhead_at_bytes [of "fb_header_offset fb" pre sh] s(1,2) by (simp add: frame_bytes_def)
  then have "enter_frame st fb = Inr (fb\<lparr>fb_read_ptr := Some (fb_header_offset fb + 16), fb_num_packets := length ps\<rparr>)"
    using assms(1) s(3) by (simp add: enter_frame_def sizeof_sendhead_def nopkts_def)
  moreover have "slot_rest (fb_frame fb ! st_readPos st) (fb_header_offset fb + 16) ps"
    using s by (simp add: slot_rest_def frame_bytes_def)
  ultimately show ?thesis by blast
qed

lemma next_packet_queue:
  assumes "fb_queue st fb ((p # ps) # qs)"
  shows "\<exists>ptr more st' fb'. next_packet st fb = Inr (ptr, p\<lparr>ch_payload := ch_payload p @ more\<rparr>, st', fb') \<and>
    fb_queue st' fb' (if ps = [] then qs else ps # qs) \<and> st' = st\<lparr>st_readPos := st_readPos st'\<rparr> \<and>
    fb_header_offset fb' = fb_header_offset fb \<and> fb_frame_size fb' = fb_frame_size fb"
proof -
  let ?n = "length (fb_frame fb)" and ?slot = "fb_frame fb ! st_readPos st"
  obtain ptr junk where ptr: "fb_read_ptr fb = Some ptr" "drop ptr ?slot = packet_bytes p @ concat (map packet_bytes ps) @ junk"
    "ptr \<le> length ?slot" and wf: "packet_wf p" "\<forall>p\<in>set ps. packet_wf p" and np: "fb_num_packets fb = Suc (length ps)"
    using assms by (auto simp: fb_queue_def slot_rest_def)
  have q: "fb_num_frames fb = ?n" "st_readPos st < ?n" "Suc (length qs) \<le> ?n"
    "st_writePos st = ring ?n (st_readPos st) (Suc (length qs))" "\<forall>s\<in>set (fb_frame fb). length s = fb_frame_size fb"
    using assms by (simp_all add: fb_queue_def)
  have fr: "slot_frame (fb_header_offset fb) (fb_frame fb ! ring ?n (st_readPos st) j) (((p # ps) # qs) ! j)"
    if "0 < j" "j < Suc (length qs)" for j using assms that unfolding fb_queue_def by simp
  let ?more = "concat (map packet_bytes ps) @ junk"
  let ?cp = "p\<lparr>ch_payload := ch_payload p @ ?more\<rparr>"
  have "?slot = take ptr ?slot @ cap_header_bytes p @ ch_payload p @ ?more"
    using ptr(2) append_take_drop_id [of ptr ?slot] by (simp add: packet_bytes_def)
  then have cp: "cap_at ?slot ptr = Inr ?cp"
    using cap_at_bytes [of p ptr "take ptr ?slot" "ch_payload p @ ?more"] wf(1) ptr(3) by (simp add: packet_wf_def)
  let ?fb = "fb\<lparr>fb_num_packets := length ps, fb_read_ptr := Some (ptr + (36 + unat (ch_caplen p)))\<rparr>"
  show ?thesis
  proof (cases "ps = []")
    case False
    have d: "drop (ptr + (36 + unat (ch_caplen p))) ?slot = concat (map packet_bytes ps) @ junk"
    proof -
      have "drop (ptr + (36 + unat (ch_caplen p))) ?slot = drop (36 + unat (ch_caplen p)) (drop ptr ?slot)"
        by (simp add: ac_simps)
      then show ?thesis unfolding ptr(2) using length_packet_bytes [OF wf(1)] by simp
    qed
    moreover have "ptr + (36 + unat (ch_caplen p)) \<le> length ?slot"
      using arg_cong [OF ptr(2), of length] length_packet_bytes [OF wf(1)] by simp
    ultimately have "slot_rest ?slot (ptr + (36 + unat (ch_caplen p))) ps"
      using False wf(2) by (simp add: slot_rest_def)
    then have "fb_queue st ?fb (ps # qs)"
      using q fr by (auto simp: fb_queue_def nth_Cons')
    moreover have "next_packet st fb = Inr (ptr, ?cp, st, ?fb)"
      using False np ptr(1) cp by (simp add: next_packet_def Let_def sizeof_cap_header_def)
    ultimately show ?thesis using False by force
  next
    case True
    let ?r = "ring ?n (st_readPos st) 1"
    let ?st = "st\<lparr>st_readPos := ?r\<rparr>"
    have w: "st_writePos st = ring ?n ?r (length qs)" using q(4) by (simp add: ring_ring)
    have r: "?r < ?n" using q(2) by (intro ring_less) linarith
    show ?thesis
    proof (cases qs)
      case Nil
      have "next_packet st fb = Inr (ptr, ?cp, ?st, ?fb\<lparr>fb_read_ptr := None\<rparr>)"
        using True np ptr(1) cp q(1) w Nil r
        by (simp add: next_packet_def Let_def ring_Suc(2))
      moreover have "fb_queue ?st (?fb\<lparr>fb_read_ptr := None\<rparr>) []"
        using q w r Nil by (simp add: fb_queue_def)
      ultimately show ?thesis using True Nil by force
    next
      case (Cons q1 qs')
      have "?r \<noteq> st_writePos st"
        using ring_inj [of "length qs" ?n 0 ?r] w r q(3) Cons by fastforce
      have "slot_frame (fb_header_offset ?fb) (fb_frame ?fb ! st_readPos ?st) q1" using fr [of 1] Cons by simp
      from enter_frame_rest [OF _ this] r obtain ptr' where
        e: "enter_frame ?st ?fb = Inr (?fb\<lparr>fb_read_ptr := Some ptr', fb_num_packets := length q1\<rparr>)"
        and sr: "slot_rest (fb_frame fb ! ?r) ptr' q1" by auto
      have "next_packet st fb = Inr (ptr, ?cp, ?st, ?fb\<lparr>fb_read_ptr := Some ptr', fb_num_packets := length q1\<rparr>)"
        using True np ptr(1) cp q(1) e \<open>?r \<noteq> st_writePos st\<close>
        by (simp add: next_packet_def Let_def ring_Suc(2) sizeof_cap_header_def)
      moreover have "fb_queue ?st (?fb\<lparr>fb_read_ptr := Some ptr', fb_num_packets := length q1\<rparr>) qs"
      proof -
        have "slot_frame (fb_header_offset fb) (fb_frame fb ! ring ?n ?r j) (qs ! j)" if "0 < j" "j < length qs" for j
          using fr [of "Suc j"] that by (simp add: ring_ring)
        then show ?thesis using q w r Cons sr by (simp add: fb_queue_def)
      qed
      ultimately show ?thesis using True by force
    qed
  qed
qed

section \<open>The contract of a source of frames\<close>

text \<open>
  \<open>rest\<close> is what the source will still deliver, one list of packets for each frame. Receiving takes the
  first frame and leaves its bytes in the slot, or delivers nothing. \<open>good\<close> is the invariant of the
  source; both depend on the source, the number of addresses, the loopback flag
  and the MTU only.
\<close>

locale frame_source =
  fixes rf :: "'s read_frame_cb"
    and hdr fsz :: nat
    and good :: "'s stream \<Rightarrow> bool"
    and rest :: "'s stream \<Rightarrow> cap_header list list"
  assumes rf_total: "good st \<Longrightarrow> length slot = fsz \<Longrightarrow> \<exists>r. rf st slot t = Inr r"
    and rf_keeps: "good st \<Longrightarrow> length slot = fsz \<Longrightarrow> rf st slot t = Inr (ret, slot', st') \<Longrightarrow>
      good st' \<and> length slot' = fsz \<and> st_readPos st' = st_readPos st \<and> st_writePos st' = st_writePos st"
    and rf_none: "good st \<Longrightarrow> length slot = fsz \<Longrightarrow> rf st slot t = Inr (0, slot', st') \<Longrightarrow> rest st' = rest st"
    and rf_frame: "good st \<Longrightarrow> length slot = fsz \<Longrightarrow> rf st slot t = Inr (ret, slot', st') \<Longrightarrow> ret \<noteq> 0 \<Longrightarrow>
      \<exists>ps. rest st = ps # rest st' \<and> slot_frame hdr slot' ps"
    and rf_base: "st_src st = st_src st' \<Longrightarrow> st_num_addresses st = st_num_addresses st' \<Longrightarrow>
      st_if_loopback st = st_if_loopback st' \<Longrightarrow> st_if_mtu st = st_if_mtu st' \<Longrightarrow> good st = good st' \<and> rest st = rest st'"
begin

definition fb_ok :: "'s stream \<Rightarrow> frame_buffer \<Rightarrow> cap_header list list \<Rightarrow> bool" where
  "fb_ok st fb qs \<longleftrightarrow> good st \<and> fb_header_offset fb = hdr \<and> fb_frame_size fb = fsz \<and> fb_queue st fb qs"

text \<open>The packets that the reader will get.\<close>

definition backlog :: "'s stream \<Rightarrow> cap_header list list \<Rightarrow> cap_header list" where
  "backlog st qs = concat qs @ concat (rest st)"

lemma read_frame_slot:
  assumes "good st" "fb_frame_size fb = fsz" "fb_num_frames fb = length (fb_frame fb)"
    and "\<forall>s\<in>set (fb_frame fb). length s = fb_frame_size fb" "st_writePos st < length (fb_frame fb)"
  shows "\<exists>b slot st' fb'. read_frame rf st fb t = Inr (b, st', fb') \<and> good st' \<and> length slot = fsz \<and>
    fb' = fb\<lparr>fb_frame := (fb_frame fb)[st_writePos st := slot]\<rparr> \<and> st_readPos st' = st_readPos st \<and>
    (if b then st_writePos st' = (st_writePos st + 1) mod length (fb_frame fb) \<and>
               (\<exists>ps. rest st = ps # rest st' \<and> slot_frame hdr slot ps)
     else st_writePos st' = st_writePos st \<and> rest st' = rest st)"
proof -
  have l: "length (fb_frame fb ! st_writePos st) = fsz" using assms(2,4,5) by simp
  obtain ret slot st1 where r: "rf st (fb_frame fb ! st_writePos st) t = Inr (ret, slot, st1)"
    using rf_total [OF assms(1) l] by (metis prod_cases3)
  note k = rf_keeps [OF assms(1) l r]
  show ?thesis
  proof (cases "ret = 0")
    case True
    then have "read_frame rf st fb t = Inr (False, st1, fb\<lparr>fb_frame := (fb_frame fb)[st_writePos st := slot]\<rparr>)"
      using r assms(5) by (simp add: read_frame_def Let_def)
    then show ?thesis using k rf_none [OF assms(1) l, of t slot st1] r True
      by (intro exI [of _ False] exI [of _ slot] exI [of _ st1]) simp
  next
    case False
    let ?st = "st1\<lparr>st_writePos := (st_writePos st + 1) mod length (fb_frame fb)\<rparr>"
    have "read_frame rf st fb t = Inr (True, ?st, fb\<lparr>fb_frame := (fb_frame fb)[st_writePos st := slot]\<rparr>)"
      using r assms(3,5) False k by (simp add: read_frame_def Let_def)
    moreover have "good ?st = good st1 \<and> rest ?st = rest st1" by (rule rf_base) simp_all
    ultimately show ?thesis using k rf_frame [OF assms(1) l r False]
      by (intro exI [of _ True] exI [of _ slot] exI [of _ ?st]) auto
  qed
qed

text \<open>Receiving while frames are left: the new frame becomes the last one.\<close>

lemma read_frame_more:
  assumes "fb_ok st fb qs" "qs \<noteq> []" "length qs < length (fb_frame fb)"
  shows "\<exists>b st' fb' qs'. read_frame rf st fb t = Inr (b, st', fb') \<and> fb_ok st' fb' qs' \<and> qs' \<noteq> [] \<and> hd qs' = hd qs \<and>
    backlog st' qs' = backlog st qs"
proof -
  let ?n = "length (fb_frame fb)"
  have q: "fb_queue st fb qs" "good st" "fb_header_offset fb = hdr" "fb_frame_size fb = fsz"
    using assms(1) by (simp_all add: fb_ok_def)
  have w: "st_writePos st = ring ?n (st_readPos st) (length qs)" "st_readPos st < ?n"
    using q(1) by (simp_all add: fb_queue_def)
  have wl: "st_writePos st < ?n" unfolding w(1) using w(2) by (intro ring_less) linarith
  obtain b slot st' fb' where r: "read_frame rf st fb t = Inr (b, st', fb')" and g: "good st'" "length slot = fsz"
    "fb' = fb\<lparr>fb_frame := (fb_frame fb)[st_writePos st := slot]\<rparr>" "st_readPos st' = st_readPos st"
    and c: "if b then st_writePos st' = (st_writePos st + 1) mod ?n \<and> (\<exists>ps. rest st = ps # rest st' \<and> slot_frame hdr slot ps)
     else st_writePos st' = st_writePos st \<and> rest st' = rest st"
    using read_frame_slot [of st fb t] q wl unfolding fb_queue_def by blast
  have other: "(fb_frame fb)[st_writePos st := slot] ! ring ?n (st_readPos st) j = fb_frame fb ! ring ?n (st_readPos st) j"
    if "j < length qs" for j
    using ring_inj [of j ?n "length qs" "st_readPos st"] that assms(3) w(1) by (metis less_irrefl nth_list_update_neq order.strict_trans)
  have first: "(fb_frame fb)[st_writePos st := slot] ! st_readPos st = fb_frame fb ! st_readPos st"
    using other [of 0] assms(2) w(2) by simp
  have sz: "\<forall>s\<in>set ((fb_frame fb)[st_writePos st := slot]). length s = fsz"
    using q(1,4) g(2) by (auto simp: fb_queue_def dest: set_update_subset_insert [THEN subsetD])
  show ?thesis
  proof (cases b)
    case False
    have "fb_queue st' fb' qs"
      using q(1,4) c False g(3,4) sz other first by (cases qs) (simp_all add: fb_queue_def)
    moreover have "fb_header_offset fb' = hdr" "fb_frame_size fb' = fsz" using g(3) q(3,4) by simp_all
    ultimately show ?thesis using r g(1) c False assms(2) by (auto simp: fb_ok_def backlog_def)
  next
    case True
    then obtain ps where ps: "rest st = ps # rest st'" "slot_frame hdr slot ps" using c by auto
    have "slot_frame hdr ((fb_frame fb)[st_writePos st := slot] ! ring ?n (st_readPos st) j) ((qs @ [ps]) ! j)"
      if "0 < j" "j < Suc (length qs)" for j
    proof (cases "j = length qs")
      case True
      then show ?thesis using ps(2) w(1) wl by simp
    next
      case False
      then show ?thesis using that other [of j] q(1,3) by (simp add: fb_queue_def nth_append)
    qed
    moreover have "st_writePos st' = ring ?n (st_readPos st) (Suc (length qs))"
      using c True w(1) ring_Suc(1) by simp
    moreover obtain p qs' where "qs = p # qs'" using assms(2) by (cases qs) auto
    ultimately have "fb_queue st' fb' (qs @ [ps])"
      using q(1,3,4) g(3,4) sz first assms(3) by (simp add: fb_queue_def)
    moreover have "fb_header_offset fb' = hdr" "fb_frame_size fb' = fsz" using g(3) q(3,4) by simp_all
    ultimately show ?thesis using r g(1) ps(1) assms(2) by (auto simp: fb_ok_def backlog_def)
  qed
qed

text \<open>Receiving into the empty buffer, and entering the frame.\<close>

lemma read_frame_first:
  assumes "fb_ok st fb []"
  shows "\<exists>b st' fb' qs'. rbind (read_frame rf st fb t) (\<lambda>(ok, st, fb).
      if ok then rbind (enter_frame st fb) (\<lambda>fb. Inr (True, st, fb)) else Inr (False, st, fb)) = Inr (b, st', fb') \<and>
    fb_ok st' fb' qs' \<and> (b \<longleftrightarrow> qs' \<noteq> []) \<and> backlog st' qs' = backlog st []"
proof -
  let ?n = "length (fb_frame fb)"
  have q: "fb_queue st fb []" "good st" "fb_header_offset fb = hdr" "fb_frame_size fb = fsz"
    using assms(1) by (simp_all add: fb_ok_def)
  have w: "st_writePos st = st_readPos st" "st_readPos st < ?n" using q(1) by (simp_all add: fb_queue_def)
  obtain b slot st' fb' where r: "read_frame rf st fb t = Inr (b, st', fb')" and g: "good st'" "length slot = fsz"
    "fb' = fb\<lparr>fb_frame := (fb_frame fb)[st_writePos st := slot]\<rparr>" "st_readPos st' = st_readPos st"
    and c: "if b then st_writePos st' = (st_writePos st + 1) mod ?n \<and> (\<exists>ps. rest st = ps # rest st' \<and> slot_frame hdr slot ps)
     else st_writePos st' = st_writePos st \<and> rest st' = rest st"
    using read_frame_slot [of st fb t] q w unfolding fb_queue_def by auto
  have sz: "\<forall>s\<in>set ((fb_frame fb)[st_writePos st := slot]). length s = fsz"
    using q(1,4) g(2) by (auto simp: fb_queue_def dest: set_update_subset_insert [THEN subsetD])
  show ?thesis
  proof (cases b)
    case False
    have "fb_queue st' fb' []" using q(1,4) c False g sz w by (auto simp: fb_queue_def)
    moreover have "fb_header_offset fb' = hdr" "fb_frame_size fb' = fsz" using g(3) q(3,4) by simp_all
    ultimately show ?thesis using r g(1) c False
      by (intro exI [of _ False] exI [of _ st'] exI [of _ fb'] exI [of _ "[]"]) (simp add: fb_ok_def backlog_def)
  next
    case True
    then obtain ps where ps: "rest st = ps # rest st'" "slot_frame hdr slot ps" using c by auto
    have s: "fb_frame fb' ! st_readPos st' = slot" using g(3,4) w by simp
    obtain ptr where e: "enter_frame st' fb' = Inr (fb'\<lparr>fb_read_ptr := Some ptr, fb_num_packets := length ps\<rparr>)"
      "slot_rest slot ptr ps"
      using enter_frame_rest [of st' fb' ps] s ps(2) g(3,4) w(2) q(3) by auto
    have "fb_queue st' (fb'\<lparr>fb_read_ptr := Some ptr, fb_num_packets := length ps\<rparr>) [ps]"
      using q(1,4) c True g sz w s e(2) by (auto simp: fb_queue_def ring_Suc)
    moreover have "fb_header_offset fb' = hdr" "fb_frame_size fb' = fsz" using g(3) q(3,4) by simp_all
    ultimately show ?thesis using r True e(1) g(1) ps(1)
      by (intro exI [of _ True] exI [of _ st'] exI [of _ "fb'\<lparr>fb_read_ptr := Some ptr, fb_num_packets := length ps\<rparr>"]
          exI [of _ "[ps]"]) (auto simp: fb_ok_def backlog_def)
  qed
qed

text \<open>Updating the statistics does not touch the queue.\<close>

lemma fb_ok_stat:
  assumes "fb_ok st fb qs"
  shows "fb_ok (st\<lparr>st_stat_read := a, st_stat_buffer_usage := b, st_stat_matched := c\<rparr>) fb qs"
    "rest (st\<lparr>st_stat_read := a, st_stat_buffer_usage := b, st_stat_matched := c\<rparr>) = rest st"
  using assms rf_base [of "st\<lparr>st_stat_read := a, st_stat_buffer_usage := b, st_stat_matched := c\<rparr>" st]
    fb_queue_cong [of "st\<lparr>st_stat_read := a, st_stat_buffer_usage := b, st_stat_matched := c\<rparr>" st fb qs]
  by (simp_all add: fb_ok_def)

lemma next_packet_ok:
  assumes "fb_ok st fb (q # qs)" "q \<noteq> []"
  shows "\<exists>ptr p more st' fb' qs'. next_packet st fb = Inr (ptr, p\<lparr>ch_payload := ch_payload p @ more\<rparr>, st', fb') \<and>
    fb_ok st' fb' qs' \<and> backlog st (q # qs) = p # backlog st' qs' \<and> packet_wf p"
proof -
  obtain p ps where q: "q = p # ps" using assms(2) by (cases q) auto
  have fq: "fb_queue st fb ((p # ps) # qs)" using assms(1) q by (simp add: fb_ok_def)
  from next_packet_queue [OF fq] obtain ptr more st' fb' where
    n: "next_packet st fb = Inr (ptr, p\<lparr>ch_payload := ch_payload p @ more\<rparr>, st', fb')"
    "fb_queue st' fb' (if ps = [] then qs else ps # qs)" "st' = st\<lparr>st_readPos := st_readPos st'\<rparr>"
    "fb_header_offset fb' = fb_header_offset fb" "fb_frame_size fb' = fb_frame_size fb" by blast
  have "st_src st' = st_src st" "st_num_addresses st' = st_num_addresses st" "st_if_loopback st' = st_if_loopback st"
    "st_if_mtu st' = st_if_mtu st" by (subst n(3), simp)+
  then have "good st' = good st" "rest st' = rest st" using rf_base [of st' st] by auto
  then have "fb_ok st' fb' (if ps = [] then qs else ps # qs)" "backlog st (q # qs) = p # backlog st' (if ps = [] then qs else ps # qs)"
    using n(2,4,5) assms(1) q by (simp_all add: fb_ok_def backlog_def)
  moreover have "packet_wf p" using fq by (auto simp: fb_queue_def slot_rest_def)
  ultimately show ?thesis using n(1) by blast
qed

lemma fb_ok_head:
  assumes "fb_ok st fb (q # qs)"
  shows "q \<noteq> []" "fb_read_ptr fb \<noteq> None"
  using assms by (auto simp: fb_ok_def fb_queue_def slot_rest_def)

lemma read_more_ok:
  assumes "fb_ok st fb qs" "qs \<noteq> []"
  shows "\<exists>st' fb' qs'. (if st_writePos st \<noteq> st_readPos st
      then rbind (read_frame rf st fb t) (\<lambda>(_, st, fb). Inr (st, fb)) else Inr (st, fb)) = Inr (st', fb') \<and>
    fb_ok st' fb' qs' \<and> qs' \<noteq> [] \<and> backlog st' qs' = backlog st qs"
proof (cases "st_writePos st \<noteq> st_readPos st")
  case True
  then have "length qs < length (fb_frame fb)" using fb_queue_free assms by (auto simp: fb_ok_def)
  from read_frame_more [OF assms this, of t] obtain b st' fb' qs' where
    "read_frame rf st fb t = Inr (b, st', fb')" "fb_ok st' fb' qs'" "qs' \<noteq> []" "backlog st' qs' = backlog st qs" by blast
  with True show ?thesis by auto
qed (use assms in auto)

lemma start_ok:
  assumes "fb_ok st fb qs"
  shows "\<exists>b st' fb' qs'. (if fb_read_ptr fb = None
            then rbind (read_frame rf st fb t) (\<lambda>(ok, st, fb).
                   if ok then rbind (enter_frame st fb) (\<lambda>fb. Inr (True, st, fb)) else Inr (False, st, fb))
            else Inr (True, st, fb)) = Inr (b, st', fb') \<and>
    fb_ok st' fb' qs' \<and> (b \<longleftrightarrow> qs' \<noteq> []) \<and> backlog st' qs' = backlog st qs"
proof (cases qs)
  case Nil
  then have "fb_read_ptr fb = None" using assms by (simp add: fb_ok_def fb_queue_def)
  with read_frame_first [OF assms [unfolded Nil], of t] Nil show ?thesis by simp
next
  case (Cons q qs')
  with fb_ok_head assms have "fb_read_ptr fb \<noteq> None" by blast
  with assms Cons show ?thesis by auto
qed

lemma frame_read_queue:
  assumes "fb_ok st fb qs"
  shows "\<exists>st' fb' qs'. fb_ok st' fb' qs' \<and>
    ((qs' = [] \<and> frame_read_step rf bpf t (st, fb, None) = Inr (Done EAGAIN None (st', fb', None)) \<and>
      backlog st' qs' = backlog st qs) \<or>
     (\<exists>ptr p more. frame_read_step rf bpf t (st, fb, None) =
        Inr (Done 0 (Some (ptr, p\<lparr>ch_payload := ch_payload p @ more\<rparr>)) (st', fb', None)) \<and>
      packet_wf p \<and> backlog st qs = p # backlog st' qs'))"
proof -
  obtain b st1 fb1 qs1 where 1: "(if fb_read_ptr fb = None
            then rbind (read_frame rf st fb t) (\<lambda>(ok, st, fb).
                   if ok then rbind (enter_frame st fb) (\<lambda>fb. Inr (True, st, fb)) else Inr (False, st, fb))
            else Inr (True, st, fb)) = Inr (b, st1, fb1)" "fb_ok st1 fb1 qs1" "b \<longleftrightarrow> qs1 \<noteq> []" "backlog st1 qs1 = backlog st qs"
    using start_ok [OF assms] by blast
  show ?thesis
  proof (cases b)
    case False
    then have "frame_read_step rf bpf t (st, fb, None) = Inr (Done EAGAIN None (st1, fb1, None))"
      unfolding frame_read_step_def by (simp only: prod.case 1(1) rbind_Inr) simp
    then show ?thesis using 1 False by blast
  next
    case True
    obtain st2 fb2 qs2 where 2: "(if st_writePos st1 \<noteq> st_readPos st1
      then rbind (read_frame rf st1 fb1 tv_zero) (\<lambda>(_, st, fb). Inr (st, fb)) else Inr (st1, fb1)) = Inr (st2, fb2)"
      "fb_ok st2 fb2 qs2" "qs2 \<noteq> []" "backlog st2 qs2 = backlog st1 qs1"
      using read_more_ok [OF 1(2), of tv_zero] 1(3) True by blast
    obtain q qs2' where q: "qs2 = q # qs2'" using 2(3) by (cases qs2) auto
    obtain ptr p more st3 fb3 qs3 where 3: "next_packet st2 fb2 = Inr (ptr, p\<lparr>ch_payload := ch_payload p @ more\<rparr>, st3, fb3)"
      "fb_ok st3 fb3 qs3" "backlog st2 qs2 = p # backlog st3 qs3" "packet_wf p"
      using next_packet_ok [of st2 fb2 q qs2'] 2(2) q fb_ok_head by blast
    let ?st = "st3\<lparr>st_stat_read := st_stat_read st3 + 1, st_stat_buffer_usage := 0, st_stat_matched := st_stat_matched st3 + 1\<rparr>"
    have "frame_read_step rf bpf t (st, fb, None) =
        Inr (Done 0 (Some (ptr, p\<lparr>ch_payload := ch_payload p @ more\<rparr>)) (?st, fb3, None))"
      unfolding frame_read_step_def
      by (simp only: prod.case 1(1) True 2(1) 3(1) rbind_Inr Let_def match_opt_def) simp
    moreover have "fb_ok ?st fb3 qs3" "backlog ?st qs3 = backlog st3 qs3"
      using fb_ok_stat [OF 3(2)] by (simp_all add: backlog_def)
    ultimately show ?thesis using 1(4) 2(4) 3(3,4) by metis
  qed
qed

end

section \<open>Runs of the reader\<close>

text \<open>
  A run of the reader without a filter, with any timeouts: the packets returned, in order. A call that
  returns \<open>EAGAIN\<close> adds no packet.
\<close>

inductive fb_run :: "'s read_frame_cb \<Rightarrow> 's stream \<times> frame_buffer \<Rightarrow> cap_header list \<Rightarrow> 's stream \<times> frame_buffer \<Rightarrow> bool"
  for rf x where
  run_start: "fb_run rf x [] x"
| run_again: "fb_run rf x gs (st, fb) \<Longrightarrow>
    stream_frame_buffer_read 1 rf (\<lambda>_ _ _ _. 0) t (st, fb, None :: unit cap_filter option) =
      Some (Inr (EAGAIN, None, st', fb', None)) \<Longrightarrow> fb_run rf x gs (st', fb')"
| run_packet: "fb_run rf x gs (st, fb) \<Longrightarrow>
    stream_frame_buffer_read 1 rf (\<lambda>_ _ _ _. 0) t (st, fb, None :: unit cap_filter option) =
      Some (Inr (0, Some (ptr, h), st', fb', None)) \<Longrightarrow> fb_run rf x (gs @ [h]) (st', fb')"

inductive_cases fb_run_emptyE: "fb_run rf x [] y"

context frame_source
begin

text \<open>The invariant of all reachable states: what was returned and what is left is what the source had.\<close>

lemma fb_run_invariant:
  assumes "fb_run rf x gs y" "x = (st0, fb0)" "fb_ok st0 fb0 []"
  shows "\<exists>qs. fb_ok (fst y) (snd y) qs \<and> map captured gs @ backlog (fst y) qs = concat (rest st0)"
  using assms
proof (induction rule: fb_run.induct)
  case run_start
  then show ?case by (auto simp: backlog_def)
next
  case (run_again gs st fb t st' fb')
  from run_again.IH run_again.prems obtain qs where qs: "fb_ok st fb qs" "map captured gs @ backlog st qs = concat (rest st0)"
    by auto
  from frame_read_queue [OF qs(1), of "(\<lambda>_ _ _ _. 0) :: unit \<Rightarrow> _" t] run_again.hyps(2) obtain qs' where
    "fb_ok st' fb' qs'" "backlog st' qs' = backlog st qs"
    by (auto simp: stream_frame_buffer_read_def)
  then show ?case using qs(2) by auto
next
  case (run_packet gs st fb t ptr h st' fb')
  from run_packet.IH run_packet.prems obtain qs where qs: "fb_ok st fb qs" "map captured gs @ backlog st qs = concat (rest st0)"
    by auto
  from frame_read_queue [OF qs(1), of "(\<lambda>_ _ _ _. 0) :: unit \<Rightarrow> _" t] run_packet.hyps(2) obtain qs' p more where
    "fb_ok st' fb' qs'" "h = p\<lparr>ch_payload := ch_payload p @ more\<rparr>" "packet_wf p" "backlog st qs = p # backlog st' qs'"
    by (auto simp: stream_frame_buffer_read_def EAGAIN_def)
  moreover from this have "captured h = p" by (simp add: captured_def packet_wf_def)
  ultimately show ?case using qs(2) by auto
qed

lemma fb_run_total:
  assumes "fb_run rf x gs (st, fb)" "x = (st0, fb0)" "fb_ok st0 fb0 []"
  shows "\<exists>ret h y. stream_frame_buffer_read 1 rf (\<lambda>_ _ _ _. 0) t (st, fb, None :: unit cap_filter option) = Some (Inr (ret, h, y))"
  using fb_run_invariant [OF assms] frame_read_queue [of st fb _ "(\<lambda>_ _ _ _. 0) :: unit \<Rightarrow> _" t]
  by (fastforce simp: stream_frame_buffer_read_def)

end

section \<open>The initial buffer\<close>

lemma init_queue:
  assumes "0 < n" "st_readPos st = 0" "st_writePos st = 0"
  shows "fb_queue st ((stream_frame_init n fsz)\<lparr>fb_header_offset := off\<rparr>) []"
  using assms by (simp add: fb_queue_def stream_frame_init_def)

section \<open>Properties\<close>

text \<open>
  The slots that \<open>stream_frame_init\<close> lays out lie behind the array of slot pointers, inside of
  the memory that \<open>stream_frame_buffer_size\<close> asks for, and two of them do not overlap.
\<close>

lemma frame_slots_fit:
  assumes "i < num_frames"
  shows "8 * num_frames \<le> frame_address num_frames frame_size i \<and>
    frame_address num_frames frame_size i + frame_size \<le> stream_frame_buffer_size num_frames frame_size \<and>
    (\<forall>j<i. frame_address num_frames frame_size j + frame_size \<le> frame_address num_frames frame_size i)"
proof -
  have "i * frame_size + frame_size \<le> num_frames * frame_size"
    using mult_le_mono1 [of "Suc i" num_frames frame_size] assms by simp
  moreover have "j * frame_size + frame_size \<le> i * frame_size" if "j < i" for j
    using mult_le_mono1 [of "Suc j" i frame_size] that by simp
  ultimately show ?thesis by (simp add: frame_address_def stream_frame_buffer_size_def)
qed

text \<open>
  A frame that announces no packets ends the program: when it arrives in the empty buffer the
  reader enters it, finds no packet and calls \<open>abort\<close>.
\<close>

lemma empty_frame_aborts:
  assumes "fb_queue st fb []" "timeout \<noteq> tv_zero"
    and "rf st (fb_frame fb ! st_writePos st) timeout = Inr (1, pre @ sendhead_bytes sh @ junk, st)"
    and "\<forall>st' slot. rf st' slot tv_zero = Inr (0, slot, st')"
    and "length pre = fb_header_offset fb" "nopkts sh = 0"
  shows "stream_frame_buffer_read (Suc fuel) rf bpf timeout (st, fb, flt) = Some (Inl Aborted)"
proof -
  let ?n = "length (fb_frame fb)" and ?w = "st_writePos st" and ?s = "pre @ sendhead_bytes sh @ junk"
  have q: "fb_read_ptr fb = None" "?w = st_readPos st" "?w < ?n" "fb_num_frames fb = ?n"
    using assms(1) by (simp_all add: fb_queue_def)
  let ?st = "st\<lparr>st_writePos := Suc ?w mod ?n\<rparr>" and ?fb = "fb\<lparr>fb_frame := (fb_frame fb)[?w := ?s]\<rparr>"
  have 1: "read_frame rf st fb timeout = Inr (True, ?st, ?fb)"
    using assms(3) q by (simp add: read_frame_def Let_def)
  let ?fb1 = "?fb\<lparr>fb_read_ptr := Some (fb_header_offset fb + 16), fb_num_packets := 0\<rparr>"
  have 2: "enter_frame ?st ?fb = Inr ?fb1"
    using q sendhead_at_bytes [of "fb_header_offset fb" pre sh junk] assms(5,6)
    by (simp add: enter_frame_def sizeof_sendhead_def nopkts_def)
  define st1 where "st1 = ?st"
  define fb1 where "fb1 = ?fb1"
  have n1: "fb_num_packets fb1 = 0" by (simp add: fb1_def)
  have "Suc ?w mod ?n < ?n" using q(3) by (intro mod_less_divisor) linarith
  then have 3: "\<exists>fb'. read_frame rf st1 fb1 tv_zero = Inr (False, st1, fb') \<and> fb_num_packets fb' = 0"
    using assms(4) by (simp add: read_frame_def Let_def st1_def fb1_def)
  then obtain fb' where 4: "read_frame rf st1 fb1 tv_zero = Inr (False, st1, fb')" "fb_num_packets fb' = 0" by blast
  have "frame_read_step rf bpf timeout (st, fb, flt) = Inl Aborted"
    unfolding frame_read_step_def
    by (simp only: prod.case q(1) if_True 1 [folded st1_def] 2 [folded st1_def fb1_def] rbind_Inr)
      (simp add: next_packet_def 4 n1)
  then show ?thesis by (simp add: stream_frame_buffer_read_def)
qed

definition empty_frame_source :: "unit read_frame_cb" where
  "empty_frame_source st slot t =
     (if t = tv_zero then Inr (0, slot, st) else Inr (1, [] @ sendhead_bytes (sample_head 0) @ [], st))"

end
