(* ===== verification/Stream_File.thy ===== *)
theory Stream_File
  imports Cap_Stream
begin

text \<open>
  Capture files (\<open>caputils/file.h\<close>, \<open>src/stream_file.c\<close>): the C library's \<open>FILE\<close> as far as the
  code uses it, the file header with its two legacy forms and the chain of extension headers, opening,
  creating, filling and writing. The file stream is the provider of the contract \<open>reliable_source\<close> of
  the stream reader.
\<close>

section \<open>Files\<close>

text \<open>
  An open file is its bytes and the position. The medium says at which offsets reading and writing
  fails, and with which \<open>errno\<close>; the error indicator is the one of the last call, as the callers
  stop at the first error.
\<close>

record cfile =
  cf_data :: "u8 list"
  cf_pos :: nat

record medium =
  rd_errno :: "nat \<Rightarrow> int option"
  wr_errno :: "nat \<Rightarrow> int option"

definition good_medium :: medium where
  "good_medium = \<lparr>rd_errno = (\<lambda>_. None), wr_errno = (\<lambda>_. None)\<rparr>"

fun good_prefix :: "(nat \<Rightarrow> int option) \<Rightarrow> nat \<Rightarrow> nat \<Rightarrow> nat" where
  "good_prefix bad pos 0 = 0"
| "good_prefix bad pos (Suc n) = (if bad pos = None then Suc (good_prefix bad (Suc pos) n) else 0)"

text \<open>\<open>fread(dst, 1, n, fp)\<close>: the bytes read, the error indicator, the file.\<close>

definition fread :: "medium \<Rightarrow> nat \<Rightarrow> cfile \<Rightarrow> u8 list \<times> int option \<times> cfile" where
  "fread med n f =
     (let want = take n (drop (cf_pos f) (cf_data f));
          k = good_prefix (rd_errno med) (cf_pos f) (length want) in
      (take k want, if k < length want then rd_errno med (cf_pos f + k) else None,
       f\<lparr>cf_pos := cf_pos f + k\<rparr>))"

text \<open>\<open>fwrite(data, 1, n, fp)\<close>: the number of bytes written, the error indicator, the file.\<close>

definition put_at :: "nat \<Rightarrow> u8 list \<Rightarrow> u8 list \<Rightarrow> u8 list" where
  "put_at pos bs xs = take pos xs @ replicate (pos - length xs) 0 @ bs @ drop (pos + length bs) xs"

definition fwrite :: "medium \<Rightarrow> u8 list \<Rightarrow> cfile \<Rightarrow> nat \<times> int option \<times> cfile" where
  "fwrite med bs f =
     (let k = good_prefix (wr_errno med) (cf_pos f) (length bs) in
      (k, if k < length bs then wr_errno med (cf_pos f + k) else None,
       \<lparr>cf_data = put_at (cf_pos f) (take k bs) (cf_data f), cf_pos = cf_pos f + k\<rparr>))"

definition fseek_set :: "nat \<Rightarrow> cfile \<Rightarrow> cfile" where
  "fseek_set n f = f\<lparr>cf_pos := n\<rparr>"

section \<open>The stream over a file\<close>

record stream_file =
  sf_file :: cfile
  sf_force_flush :: bool

definition EIO :: int where "EIO = 5"
definition ENOENT :: int where "ENOENT = 2"
definition ERROR_CAPFILE_TRUNCATED :: int where "ERROR_CAPFILE_TRUNCATED = 0x8002"

definition CAPUTILS_FILE_MAGIC :: u64 where "CAPUTILS_FILE_MAGIC = 0x8f1ae247c53d9b6e"
definition VERSION_MAJOR :: u16 where "VERSION_MAJOR = 0"
definition VERSION_MINOR :: u16 where "VERSION_MINOR = 7"
definition BUFSIZ :: nat where "BUFSIZ = 8192"

definition stream_file_fillbuffer :: "medium \<Rightarrow> stream_file fill" where
  "stream_file_fillbuffer med s timeout mx =
     (case fread med mx (sf_file s) of
        (bs, err, f) \<Rightarrow>
          (case err of
             Some errno \<Rightarrow> if length bs < mx then (Fill_error errno, s\<lparr>sf_file := f\<rparr>)
                           else (Fill_bytes bs, s\<lparr>sf_file := f\<rparr>)
           | None \<Rightarrow> (Fill_bytes bs, s\<lparr>sf_file := f\<rparr>)))"

text \<open>Writing a block; a short write sets the error indicator of the file, never the end of file.\<close>

definition stream_file_write :: "medium \<Rightarrow> u8 list \<Rightarrow> stream_file stream \<Rightarrow> (int \<times> stream_file stream) res" where
  "stream_file_write med data st =
     (if data = [] then Inl Aborted
      else (case fwrite med data (sf_file (st_src st)) of
        (k, err, f) \<Rightarrow>
          let st = st\<lparr>st_src := (st_src st)\<lparr>sf_file := f\<rparr>\<rparr> in
          if k < length data then Inr (case err of Some errno \<Rightarrow> errno | None \<Rightarrow> EINVAL, st)
          else Inr (0, st)))"

section \<open>File headers\<close>

definition sizeof_file_header_t :: nat where "sizeof_file_header_t = 216"
definition sizeof_file_header_05 :: nat where "sizeof_file_header_05 = 212"
definition sizeof_file_header_06 :: nat where "sizeof_file_header_06 = 208"

definition file_header_bytes :: "file_header_t \<Rightarrow> u8 list" where
  "file_header_bytes h = bytes64 (fh_magic h) @ bytes16 (fh_major h) @ bytes16 (fh_minor h) @
     bytes16 (fh_header_offset h) @ bytes16 (fh_comment_size h) @ map byte_of_char (fh_mpid h)"

definition file_header_of :: "u8 list \<Rightarrow> file_header_t res" where
  "file_header_of m =
     rbind (rd64 m 0) (\<lambda>mg. rbind (rd16 m 8) (\<lambda>ma. rbind (rd16 m 10) (\<lambda>mi.
     rbind (rd16 m 12) (\<lambda>ho. rbind (rd16 m 14) (\<lambda>cs. rbind (rdn m 16 200) (\<lambda>mp.
       Inr \<lparr>fh_magic = mg, fh_major = ma, fh_minor = mi, fh_header_offset = ho,
            fh_comment_size = cs, fh_mpid = map char_of_byte mp\<rparr>))))))"

text \<open>
  The legacy headers: \<open>comment_size\<close> is a 32-bit field that is stored to a 16-bit one; version 0.5 has
  two 32-bit version numbers, 0.6 two bytes.
\<close>

definition load_legacy_05 :: "u8 list \<Rightarrow> file_header_t \<Rightarrow> file_header_t option res" where
  "load_legacy_05 m fh =
     rbind (rd32 m 0) (\<lambda>cs. rbind (rd32 m 4) (\<lambda>ma. rbind (rd32 m 8) (\<lambda>mi.
       if ma = 0 \<and> mi = 5
       then rbind (rdn m 12 200) (\<lambda>mp.
              Inr (Some (fh\<lparr>fh_comment_size := ucast cs, fh_major := 0, fh_minor := 5,
                 fh_header_offset := word_of_nat sizeof_file_header_05, fh_mpid := map char_of_byte mp\<rparr>)))
       else Inr None)))"

definition load_legacy_06 :: "u8 list \<Rightarrow> file_header_t \<Rightarrow> file_header_t option res" where
  "load_legacy_06 m fh =
     rbind (rd32 m 0) (\<lambda>cs. rbind (rd8 m 4) (\<lambda>ma. rbind (rd8 m 5) (\<lambda>mi.
       if ma = 0 \<and> mi = 6
       then rbind (rdn m 6 200) (\<lambda>mp.
              Inr (Some (fh\<lparr>fh_comment_size := ucast cs, fh_major := 0, fh_minor := 6,
                 fh_header_offset := word_of_nat sizeof_file_header_06, fh_mpid := map char_of_byte mp\<rparr>)))
       else Inr None)))"

definition load_legacy :: "medium \<Rightarrow> cfile \<Rightarrow> file_header_t \<Rightarrow> (file_header_t option \<times> cfile) res" where
  "load_legacy med f fh =
     (case fread med sizeof_file_header_05 (fseek_set 0 f) of
        (m05, _, f) \<Rightarrow>
          rbind (load_legacy_05 m05 fh) (\<lambda>r.
            case r of
              Some fh \<Rightarrow> Inr (Some fh, f)
            | None \<Rightarrow>
                (case fread med sizeof_file_header_06 (fseek_set 0 f) of
                   (m06, _, f) \<Rightarrow> rbind (load_legacy_06 m06 fh) (\<lambda>r. Inr (r, f)))))"

text \<open>\<open>is_valid_version\<close> of \<open>stream.c\<close>.\<close>

definition is_valid_version :: "file_header_t \<Rightarrow> bool" where
  "is_valid_version fh \<longleftrightarrow> fh_major fh \<le> VERSION_MAJOR \<and> fh_minor fh \<le> VERSION_MINOR"

subsection \<open>Extension headers\<close>

definition HEADER_EXT_NONE :: u16 where "HEADER_EXT_NONE = 0"
definition HEADER_EXT_PADDING :: u16 where "HEADER_EXT_PADDING = 1"
definition sizeof_file_extension :: nat where "sizeof_file_extension = 4"

lemma good_prefix_le: "good_prefix bad pos n \<le> n"
  by (induction bad pos n rule: good_prefix.induct) auto

lemma fread_pos:
  assumes "fread med n f = (bs, err, f')"
  shows "cf_pos f' = cf_pos f + length bs" "cf_data f' = cf_data f" "cf_pos f + length bs \<le> length (cf_data f) \<or> bs = []"
  using assms good_prefix_le [of "rd_errno med" "cf_pos f" "length (take n (drop (cf_pos f) (cf_data f)))"]
  by (auto simp: fread_def Let_def)

lemma extension_progress:
  assumes "(ext, err, f') = fread med sizeof_file_extension f" "\<not> length ext < sizeof_file_extension"
    and "\<not> n < sizeof_file_extension"
  shows "length (cf_data f') + sizeof_file_extension - (cf_pos f' + n) < length (cf_data f) - cf_pos f"
  using fread_pos [OF assms(1) [symmetric]] assms(2,3) by (auto simp: sizeof_file_extension_def not_less)

text \<open>
  The loop over the extension headers: the return value (0 when the last one was found) and the
  file. Every round reads four bytes and moves on by at least as many, so the loop ends.
\<close>

function read_extensions :: "medium \<Rightarrow> u16 \<Rightarrow> cfile \<Rightarrow> int \<times> cfile" where
  "read_extensions med header_offset f =
     (case fread med sizeof_file_extension f of
        (ext, err, f') \<Rightarrow>
          if length ext < sizeof_file_extension then (ERROR_CAPFILE_TRUNCATED, f')
          else
            let type = le16 (ext ! 0) (ext ! 1); next_offset = le16 (ext ! 2) (ext ! 3) in
            if type = HEADER_EXT_NONE then (0, f')
            else if unat next_offset < sizeof_file_extension \<or> next_offset > header_offset
            then (ERROR_CAPFILE_INVALID, f')
            else read_extensions med header_offset
                   (fseek_set (cf_pos f' + (unat next_offset - sizeof_file_extension)) f'))"
  by pat_completeness auto

termination read_extensions
  by (relation "measure (\<lambda>(med, ho, f). length (cf_data f) - cf_pos f)")
    (auto simp: fseek_set_def intro!: extension_progress)

declare read_extensions.simps [simp del]

section \<open>Opening and creating\<close>

text \<open>
  \<open>fp\<close> is the given \<open>FILE*\<close> if any, \<open>fopen\<close> what opening the name gives; \<open>Inl\<close> is the error of
  \<open>fopen\<close>. The stream is returned also on errors: the code has stored it in \<open>stptr\<close> by then.
\<close>

definition open_file :: "cfile option \<Rightarrow> (int + cfile) option \<Rightarrow> int + cfile" where
  "open_file fp fopen =
     (case fp of
        Some f \<Rightarrow> Inr f
      | None \<Rightarrow> (case fopen of None \<Rightarrow> Inl ENOENT | Some r \<Rightarrow> r))"

text \<open>
  Memory from \<open>malloc\<close>: a byte is \<open>None\<close> until something is stored to it. Storing outside of the block
  faults, and so does reading a string when the block ends, or a byte was never stored, before the
  terminator.
\<close>

definition malloc :: "nat \<Rightarrow> u8 option list" where
  "malloc n = replicate n None"

definition store_bytes :: "u8 option list \<Rightarrow> nat \<Rightarrow> u8 list \<Rightarrow> u8 option list res" where
  "store_bytes b i bs =
     (if i + length bs \<le> length b then Inr (take i b @ map Some bs @ drop (i + length bs) b) else Inl Out_of_bounds)"

fun block_string :: "u8 option list \<Rightarrow> string res" where
  "block_string [] = Inl Out_of_bounds"
| "block_string (None # b) = Inl Out_of_bounds"
| "block_string (Some x # b) = (if x = 0 then Inr [] else rbind (block_string b) (\<lambda>s. Inr (char_of_byte x # s)))"

text \<open>
  The comment: \<open>comment_size + 1\<close> bytes are allocated, \<open>fread\<close> stores what the file has, and the
  terminator goes behind it. The stream keeps the string that is in the block then; on a short read, where
  opening fails, it keeps none. The number of bytes that were read is returned with it.
\<close>

definition read_comment :: "medium \<Rightarrow> nat \<Rightarrow> cfile \<Rightarrow> (nat \<times> string option \<times> cfile) res" where
  "read_comment med comment_size f =
     (case fread med comment_size f of
        (c, _, f) \<Rightarrow>
          rbind (store_bytes (malloc (comment_size + 1)) 0 c) (\<lambda>b.
            if length c < comment_size then Inr (length c, None, f)
            else rbind (store_bytes b (length c) [0]) (\<lambda>b.
              rbind (block_string b) (\<lambda>s. Inr (length c, Some s, f)))))"

definition finish_open ::
  "medium \<Rightarrow> file_header_t \<Rightarrow> cfile \<Rightarrow> stream_file stream \<Rightarrow> (int \<times> stream_file stream) res" where
  "finish_open med fh f st =
     (case (if fh_header_offset fh > 216 then read_extensions med (fh_header_offset fh) f else (0, f)) of
        (ret, f) \<Rightarrow>
          if ret \<noteq> 0 then Inr (ret, st\<lparr>st_FH := fh, st_src := (st_src st)\<lparr>sf_file := f\<rparr>\<rparr>)
          else
            rbind (read_comment med (unat (fh_comment_size fh)) (fseek_set (unat (fh_header_offset fh)) f)) (\<lambda>(i, c, f).
              let st = st\<lparr>st_FH := fh, st_src := (st_src st)\<lparr>sf_file := f\<rparr>\<rparr> in
              if i < unat (fh_comment_size fh) then Inr (ERROR_CAPFILE_TRUNCATED, st)
              else
                let st = st\<lparr>st_comment := c\<rparr> in
                if is_valid_version fh then Inr (0, st) else Inr (EINVAL, st)))"

definition stream_file_open ::
  "medium \<Rightarrow> cfile option \<Rightarrow> (int + cfile) option \<Rightarrow> nat \<Rightarrow> (int \<times> stream_file stream option) res" where
  "stream_file_open med fp fopen buffer_size =
     (case open_file fp fopen of
        Inl e \<Rightarrow> Inr (e, None)
      | Inr f \<Rightarrow>
          let st = stream_alloc PROTOCOL_LOCAL_FILE (if buffer_size = 0 then BUFSIZ else buffer_size) BUFSIZ
                     \<lparr>sf_file = f, sf_force_flush = False\<rparr>;
              st = st\<lparr>st_num_addresses := 1\<rparr> in
          case fread med sizeof_file_header_t f of
            (m, _, f) \<Rightarrow>
              let st = st\<lparr>st_src := (st_src st)\<lparr>sf_file := f\<rparr>\<rparr> in
              if length m < sizeof_file_header_t then Inr (ERROR_CAPFILE_INVALID, Some st)
              else rbind (file_header_of m) (\<lambda>fh.
                rbind (if fh_magic fh = CAPUTILS_FILE_MAGIC then Inr (Some fh, f) else load_legacy med f fh) (\<lambda>(r, f).
                  case r of
                    None \<Rightarrow> Inr (ERROR_CAPFILE_INVALID, Some (st\<lparr>st_FH := fh, st_src := (st_src st)\<lparr>sf_file := f\<rparr>\<rparr>))
                  | Some fh \<Rightarrow> rbind (finish_open med fh f st) (\<lambda>(ret, st). Inr (ret, Some st)))))"

definition stream_file_create ::
  "medium \<Rightarrow> cfile option \<Rightarrow> (int + cfile) option \<Rightarrow> string \<Rightarrow> string option \<Rightarrow> u16 \<Rightarrow>
   int \<times> stream_file stream option" where
  "stream_file_create med fp fopen mpid comment flags =
     (case open_file fp fopen of
        Inl e \<Rightarrow> (e, None)
      | Inr f \<Rightarrow>
          let comment = (case comment of None \<Rightarrow> [] | Some c \<Rightarrow> c);
              fh = \<lparr>fh_magic = CAPUTILS_FILE_MAGIC, fh_major = VERSION_MAJOR, fh_minor = VERSION_MINOR,
                    fh_header_offset = word_of_nat sizeof_file_header_t,
                    fh_comment_size = word_of_nat (length comment), fh_mpid = strncpy 200 mpid\<rparr>;
              st = (stream_alloc PROTOCOL_LOCAL_FILE 0 BUFSIZ
                     \<lparr>sf_file = f, sf_force_flush = (flags AND STREAM_ADDR_FLUSH \<noteq> 0)\<rparr>)
                     \<lparr>st_num_addresses := 1, st_comment := Some comment, st_FH := fh\<rparr> in
          case fwrite med (file_header_bytes fh) f of
            (n, _, f) \<Rightarrow>
              let st = st\<lparr>st_src := (st_src st)\<lparr>sf_file := f\<rparr>\<rparr> in
              if n < sizeof_file_header_t then (EIO, Some st)
              else
                case fwrite med (map byte_of_char comment) f of
                  (n, _, f) \<Rightarrow>
                    let st = st\<lparr>st_src := (st_src st)\<lparr>sf_file := f\<rparr>\<rparr> in
                    if n < length comment then (EIO, Some st) else (0, Some st))"

text \<open>\<open>stream_write\<close> and \<open>stream_copy\<close> of \<open>stream.c\<close> on a file stream.\<close>

definition stream_write ::
  "('s stream \<Rightarrow> u8 list \<Rightarrow> (int \<times> 's stream) res) \<Rightarrow> 's stream \<Rightarrow> u8 list \<Rightarrow> (int \<times> 's stream) res" where
  "stream_write wr st data = (if data = [] then Inr (EINVAL, st) else wr st data)"

definition stream_write_separate ::
  "('s stream \<Rightarrow> u8 list \<Rightarrow> (int \<times> 's stream) res) \<Rightarrow> 's stream \<Rightarrow> cap_header \<Rightarrow> u8 list \<Rightarrow> (int \<times> 's stream) res" where
  "stream_write_separate wr st head data =
     (if data = [] then Inr (EINVAL, st)
      else rbind (wr st (cap_header_bytes head)) (\<lambda>(ret, st).
             if ret \<noteq> 0 then Inr (ret, st) else wr st data))"

definition stream_copy ::
  "('s stream \<Rightarrow> u8 list \<Rightarrow> (int \<times> 's stream) res) \<Rightarrow> 's stream \<Rightarrow> cap_header \<Rightarrow> (int \<times> 's stream) res" where
  "stream_copy wr st head =
     rbind (rdn (ch_payload head) 0 (unat (ch_caplen head))) (\<lambda>body.
       stream_write wr st (cap_header_bytes head @ body))"

definition file_write :: "medium \<Rightarrow> stream_file stream \<Rightarrow> u8 list \<Rightarrow> (int \<times> stream_file stream) res" where
  "file_write med st data = stream_file_write med data st"

fun copy_all ::
  "('s stream \<Rightarrow> u8 list \<Rightarrow> (int \<times> 's stream) res) \<Rightarrow> 's stream \<Rightarrow> cap_header list \<Rightarrow> (int \<times> 's stream) res" where
  "copy_all wr st [] = Inr (0, st)"
| "copy_all wr st (h # hs) =
     rbind (stream_copy wr st h) (\<lambda>(ret, st). if ret \<noteq> 0 then Inr (ret, st) else copy_all wr st hs)"

section \<open>Files on a medium without errors\<close>

lemma good_prefix_all: "(\<And>i. bad i = None) \<Longrightarrow> good_prefix bad pos n = n"
  by (induction n arbitrary: pos) auto

lemma fread_good: "fread good_medium n f =
  (take n (drop (cf_pos f) (cf_data f)), None, f\<lparr>cf_pos := cf_pos f + min n (length (cf_data f) - cf_pos f)\<rparr>)"
  by (simp add: fread_def good_medium_def good_prefix_all Let_def min.commute)

lemma fwrite_end:
  "cf_pos f = length (cf_data f) \<Longrightarrow> fwrite good_medium bs f =
     (length bs, None, \<lparr>cf_data = cf_data f @ bs, cf_pos = length (cf_data f @ bs)\<rparr>)"
  by (simp add: fwrite_def good_medium_def good_prefix_all Let_def put_at_def)

definition file_rest :: "stream_file \<Rightarrow> u8 list" where
  "file_rest s = drop (cf_pos (sf_file s)) (cf_data (sf_file s))"

interpretation file_stream: reliable_source "stream_file_fillbuffer good_medium" file_rest
proof (unfold_locales, goal_cases)
  case (1 s t n bs s')
  then have "bs = take n (file_rest s)" "file_rest s' = drop n (file_rest s)"
    by (auto simp: stream_file_fillbuffer_def fread_good file_rest_def add.commute min_def)
  then show ?case by simp
next
  case (2 s t n s')
  then show ?case by (auto simp: stream_file_fillbuffer_def fread_good file_rest_def)
next
  case (3 s t n e s')
  then show ?case by (simp add: stream_file_fillbuffer_def fread_good)
next
  case (4 s t n e)
  then show ?case by (simp add: stream_file_fillbuffer_def fread_good)
qed

section \<open>Writing a file and reading it back\<close>

lemma length_file_header_bytes: "length (fh_mpid fh) = 200 \<Longrightarrow> length (file_header_bytes fh) = 216"
  by (simp add: file_header_bytes_def)

lemma file_header_of_bytes:
  assumes "length (fh_mpid fh) = 200"
  shows "file_header_of (file_header_bytes fh) = Inr fh"
proof -
  let ?a = "bytes64 (fh_magic fh)" and ?b = "bytes16 (fh_major fh)" and ?c = "bytes16 (fh_minor fh)"
  let ?d = "bytes16 (fh_header_offset fh)" and ?e = "bytes16 (fh_comment_size fh)"
  let ?m = "map byte_of_char (fh_mpid fh)"
  let ?M = "?a @ ?b @ ?c @ ?d @ ?e @ ?m"
  have "rd64 ?M 0 = Inr (fh_magic fh)" using rd64_bytes64 [of "[]"] by simp
  moreover have "rd16 ?M 8 = Inr (fh_major fh)" using rd16_bytes16 [of ?a] by simp
  moreover have "rd16 ?M 10 = Inr (fh_minor fh)" using rd16_bytes16 [of "?a @ ?b"] by simp
  moreover have "rd16 ?M 12 = Inr (fh_header_offset fh)" using rd16_bytes16 [of "?a @ ?b @ ?c"] by simp
  moreover have "rd16 ?M 14 = Inr (fh_comment_size fh)" using rd16_bytes16 [of "?a @ ?b @ ?c @ ?d"] by simp
  moreover have "rdn ?M 16 200 = Inr ?m"
    using rdn_append [of ?m 200 "?a @ ?b @ ?c @ ?d @ ?e" "[]"] assms by simp
  ultimately show ?thesis by (simp add: file_header_of_def file_header_bytes_def comp_def)
qed

text \<open>The header that \<open>stream_file_create\<close> writes.\<close>

definition new_header :: "string \<Rightarrow> string \<Rightarrow> file_header_t" where
  "new_header mpid comment =
     \<lparr>fh_magic = CAPUTILS_FILE_MAGIC, fh_major = VERSION_MAJOR, fh_minor = VERSION_MINOR,
      fh_header_offset = word_of_nat sizeof_file_header_t,
      fh_comment_size = word_of_nat (length comment), fh_mpid = strncpy 200 mpid\<rparr>"

definition file_image :: "string \<Rightarrow> string \<Rightarrow> u8 list \<Rightarrow> u8 list" where
  "file_image mpid comment body = file_header_bytes (new_header mpid comment) @ map byte_of_char comment @ body"

definition at_end :: "u8 list \<Rightarrow> stream_file stream \<Rightarrow> bool" where
  "at_end bs st \<longleftrightarrow> sf_file (st_src st) = \<lparr>cf_data = bs, cf_pos = length bs\<rparr>"

definition empty_file :: cfile where "empty_file = \<lparr>cf_data = [], cf_pos = 0\<rparr>"

lemma create_image:
  "\<exists>st. stream_file_create good_medium None (Some (Inr empty_file)) mpid (Some comment) flags = (0, Some st) \<and>
     at_end (file_image mpid comment []) st"
  by (simp add: stream_file_create_def open_file_def empty_file_def Let_def fwrite_end
      length_file_header_bytes new_header_def [symmetric] at_end_def file_image_def sizeof_file_header_t_def)
    (simp add: new_header_def length_file_header_bytes sizeof_file_header_t_def)

lemma file_write_end:
  "at_end bs st \<Longrightarrow> xs \<noteq> [] \<Longrightarrow> \<exists>st'. file_write good_medium st xs = Inr (0, st') \<and> at_end (bs @ xs) st'"
  by (auto simp: file_write_def stream_file_write_def at_end_def fwrite_end)

lemma stream_copy_end:
  assumes "packet_wf p" "at_end bs dst"
  shows "\<exists>dst'. stream_copy (file_write good_medium) dst p = Inr (0, dst') \<and> at_end (bs @ packet_bytes p) dst'"
proof -
  have "packet_bytes p \<noteq> []"
    using assms(1) length_cap_header_bytes [of p] by (auto simp: packet_wf_def packet_bytes_def)
  moreover have "rdn (ch_payload p) 0 (unat (ch_caplen p)) = Inr (ch_payload p)"
    using assms(1) by (simp add: packet_wf_def rdn_def)
  ultimately show ?thesis
    using file_write_end [OF assms(2), of "packet_bytes p"] by (auto simp: stream_copy_def stream_write_def packet_bytes_def)
qed

lemma copy_all_end:
  assumes "\<forall>h\<in>set hs. packet_wf h" "at_end bs st"
  shows "\<exists>st'. copy_all (file_write good_medium) st hs = Inr (0, st') \<and> at_end (bs @ concat (map packet_bytes hs)) st'"
  using assms
proof (induction hs arbitrary: bs st)
  case (Cons h hs)
  obtain st' where "stream_copy (file_write good_medium) st h = Inr (0, st')" "at_end (bs @ packet_bytes h) st'"
    using stream_copy_end [OF _ Cons.prems(2), of h] Cons.prems(1) by auto
  with Cons.IH [of "bs @ packet_bytes h" st'] Cons.prems(1) show ?case by simp
qed simp

lemma block_string_terminated:
  "block_string (map Some bs @ Some 0 # b) = Inr (takeWhile (\<lambda>ch. ch \<noteq> NUL) (map char_of_byte bs))"
proof (induction bs)
  case (Cons x bs)
  have "byte_of_char NUL = 0" by (simp add: byte_of_char_def)
  then have "char_of_byte x = NUL \<longleftrightarrow> x = 0" by (metis byte_char_inverse char_byte_inverse)
  with Cons show ?case by simp
qed simp

text \<open>The block is exactly large enough for a comment that is complete, and for a truncated one.\<close>

lemma read_comment_good:
  "read_comment good_medium n f =
     (let c = take n (drop (cf_pos f) (cf_data f)) in
      Inr (length c, if length c < n then None else Some (takeWhile (\<lambda>ch. ch \<noteq> NUL) (map char_of_byte c)),
        f\<lparr>cf_pos := cf_pos f + min n (length (cf_data f) - cf_pos f)\<rparr>))"
  by (simp add: read_comment_def fread_good store_bytes_def malloc_def block_string_terminated Let_def min_def)

lemma open_image:
  assumes "length comment < 2 ^ 16" "NUL \<notin> set comment"
    and "f = \<lparr>cf_data = file_image mpid comment body, cf_pos = 0\<rparr>"
  shows "\<exists>st. stream_file_open good_medium None (Some (Inr f)) n = Inr (0, Some st) \<and>
    stream_wf st \<and> \<not> st_flushed st \<and> st_buffer_size st = (if n = 0 then BUFSIZ else n) \<and>
    pending file_rest st = body \<and> st_comment st = Some comment \<and> st_FH st = new_header mpid comment"
proof -
  let ?h = "new_header mpid comment"
  have l: "length (file_header_bytes ?h) = 216" by (rule length_file_header_bytes) (simp add: new_header_def)
  have hd: "file_header_of (file_header_bytes ?h) = Inr ?h"
    by (rule file_header_of_bytes) (simp add: new_header_def)
  have cs: "unat (fh_comment_size ?h) = length comment" "unat (fh_header_offset ?h) = 216"
    "\<not> fh_header_offset ?h > 216"
    using assms(1) by (simp_all add: new_header_def unat_of_nat sizeof_file_header_t_def)
  have ok: "fh_magic ?h = CAPUTILS_FILE_MAGIC" "is_valid_version ?h"
    by (simp_all add: new_header_def is_valid_version_def)
  have tw: "takeWhile (\<lambda>ch. ch \<noteq> NUL) (map char_of_byte (map byte_of_char comment)) = comment"
    using assms(2) by (auto simp: comp_def takeWhile_eq_all_conv)
  show ?thesis
    using l hd cs ok tw
    by (simp add: stream_file_open_def open_file_def assms(3) file_image_def Let_def fread_good sizeof_file_header_t_def
        finish_open_def read_comment_good fseek_set_def stream_wf_def pending_def window_def stream_alloc_def file_rest_def
        BUFSIZ_def comp_def)
qed

section \<open>Extension headers\<close>

text \<open>A well-formed extension: its type, and the data behind the four bytes of its header.\<close>

definition extension_bytes :: "u16 \<times> u8 list \<Rightarrow> u8 list" where
  "extension_bytes e = bytes16 (fst e) @ bytes16 (word_of_nat (4 + length (snd e))) @ snd e"

lemma fread_extension:
  assumes "cf_data f = pre @ extension_bytes e @ xs" "cf_pos f = length pre"
  shows "fread good_medium sizeof_file_extension f =
    (bytes16 (fst e) @ bytes16 (word_of_nat (4 + length (snd e))), None, f\<lparr>cf_pos := length pre + 4\<rparr>)"
  using assms by (simp add: fread_good extension_bytes_def sizeof_file_extension_def del: of_nat_add)

lemma le16_nth: "le16 ((bytes16 w @ xs) ! 0) ((bytes16 w @ xs) ! 1) = w"
  using rd16_bytes16 [of "[]" w xs] by (simp add: rd16_in)

lemma le16_nth2: "le16 ((bytes16 v @ bytes16 w) ! 2) ((bytes16 v @ bytes16 w) ! 3) = w"
  using rd16_bytes16 [of "bytes16 v" w "[]"] by (simp add: rd16_in nth_append)

lemma read_extensions_chain:
  assumes "\<forall>e\<in>set es. fst e \<noteq> HEADER_EXT_NONE \<and> 4 + length (snd e) \<le> unat header_offset"
    and "cf_data f = pre @ concat (map extension_bytes es) @ extension_bytes (HEADER_EXT_NONE, d) @ post"
    and "cf_pos f = length pre"
  shows "\<exists>f'. read_extensions good_medium header_offset f = (0, f') \<and> cf_data f' = cf_data f"
  using assms
proof (induction es arbitrary: pre f)
  case Nil
  then have "cf_data f = pre @ extension_bytes (HEADER_EXT_NONE, d) @ post" by simp
  from fread_extension [OF this Nil.prems(3)] show ?case
    using le16_nth [of HEADER_EXT_NONE "bytes16 (word_of_nat (4 + length d))"]
    by (subst read_extensions.simps) (simp add: sizeof_file_extension_def Let_def del: of_nat_add)
next
  case (Cons e es)
  have e: "fst e \<noteq> HEADER_EXT_NONE" "4 + length (snd e) \<le> unat header_offset" using Cons.prems(1) by simp_all
  let ?n = "word_of_nat (4 + length (snd e)) :: u16"
  have n: "unat ?n = 4 + length (snd e)"
    using e(2) unat_lt_65536 [of header_offset] by (simp add: unat_of_nat del: of_nat_add)
  then have le: "\<not> ?n > header_offset" using e(2) by (simp add: word_less_nat_alt not_less)
  have len: "length (extension_bytes e) = 4 + length (snd e)" by (simp add: extension_bytes_def)
  let ?f = "f\<lparr>cf_pos := length (pre @ extension_bytes e)\<rparr>"
  have d: "cf_data f = pre @ extension_bytes e @ concat (map extension_bytes es) @
    extension_bytes (HEADER_EXT_NONE, d) @ post" using Cons.prems(2) by simp
  have "read_extensions good_medium header_offset f = read_extensions good_medium header_offset ?f"
    using fread_extension [OF d Cons.prems(3)] e n le le16_nth [of "fst e" "bytes16 ?n"] le16_nth2 [of "fst e" ?n]
    by (subst read_extensions.simps) (simp add: sizeof_file_extension_def Let_def fseek_set_def len add.assoc del: of_nat_add)
  moreover have "\<exists>f'. read_extensions good_medium header_offset ?f = (0, f') \<and> cf_data f' = cf_data ?f"
    by (rule Cons.IH [of ?f "pre @ extension_bytes e"]) (use Cons.prems in simp_all)
  ultimately show ?case by simp
qed

section \<open>Opening an arbitrary file\<close>

lemma stream_alloc_src [simp]: "st_src (stream_alloc proto n mtu src) = src"
  by (simp add: stream_alloc_def Let_def)

lemma file_header_of_total: "length m = 216 \<Longrightarrow> \<exists>fh. file_header_of m = Inr fh"
  by (simp add: file_header_of_def rd64_in rd16_in rdn_in)

lemma load_legacy_total:
  assumes "216 \<le> length (cf_data f)"
  shows "\<exists>r f'. load_legacy good_medium f fh = Inr (r, f') \<and> cf_data f' = cf_data f"
proof -
  have "\<exists>r. load_legacy_05 (take 212 (cf_data f)) fh = Inr r" "\<exists>r. load_legacy_06 (take 208 (cf_data f)) fh = Inr r"
    using assms by (simp_all add: load_legacy_05_def load_legacy_06_def rd32_in rd8_in rdn_in)
  then show ?thesis
    by (auto simp: load_legacy_def fread_good fseek_set_def sizeof_file_header_05_def sizeof_file_header_06_def
        split: option.split)
qed

lemma read_extensions_data: "cf_data (snd (read_extensions med ho f)) = cf_data f"
proof (induction med ho f rule: read_extensions.induct)
  case (1 med ho f)
  obtain ext err f' where fr: "fread med sizeof_file_extension f = (ext, err, f')" by (metis prod_cases3)
  with 1 fread_pos(2) [OF fr] show ?case
    by (subst read_extensions.simps) (auto simp: Let_def fseek_set_def)
qed

lemma finish_open_total: "\<exists>ret s. finish_open good_medium fh f st = Inr (ret, s)"
  by (auto simp: finish_open_def read_comment_good Let_def split: prod.split)

lemma finish_open_rest:
  assumes "finish_open good_medium fh f st = Inr (0, st')" "stream_wf st" "window st = []" "\<not> st_flushed st"
  shows "stream_wf st' \<and> \<not> st_flushed st' \<and> is_valid_version (st_FH st') \<and> st_FH st' = fh \<and>
    st_comment st' = Some (takeWhile (\<lambda>ch. ch \<noteq> NUL)
      (map char_of_byte (take (unat (fh_comment_size fh)) (drop (unat (fh_header_offset fh)) (cf_data f))))) \<and>
    pending file_rest st' = drop (unat (fh_header_offset fh) + unat (fh_comment_size fh)) (cf_data f)"
proof -
  obtain ret f' where e: "(if fh_header_offset fh > 216 then read_extensions good_medium (fh_header_offset fh) f else (0, f)) = (ret, f')"
    by force
  then have d: "cf_data f' = cf_data f"
    using read_extensions_data [of good_medium "fh_header_offset fh" f] by (auto split: if_splits)
  have "ERROR_CAPFILE_TRUNCATED \<noteq> 0" "EINVAL \<noteq> 0"
    by (simp_all add: ERROR_CAPFILE_TRUNCATED_def EINVAL_def)
  with assms e d show ?thesis
    by (auto simp: finish_open_def read_comment_good fseek_set_def Let_def stream_wf_def pending_def window_def file_rest_def
        min_def add.commute split: if_splits)
qed

lemma load_header_total:
  assumes "216 \<le> length (cf_data f)"
  shows "\<exists>r f'. (if fh_magic fh = CAPUTILS_FILE_MAGIC then Inr (Some fh, f) else load_legacy good_medium f fh) = Inr (r, f') \<and>
    cf_data f' = cf_data f"
  using load_legacy_total [OF assms] by (cases "fh_magic fh = CAPUTILS_FILE_MAGIC") fastforce+

section \<open>Properties\<close>

text \<open>
  Claim C1. Packets that are copied to a new capture file are read back from it: the reader gets the
  same headers and captured bytes in the same order and then the end of the stream, for every buffer
  that holds the largest packet, with \<open>fuel\<close> bounded by the size of the file; the comment and the
  MAMPid are those given to \<open>stream_file_create\<close>.
\<close>

theorem stream_file_roundtrip:
  assumes "length comment < 2 ^ 16" "NUL \<notin> set comment"
    and "\<forall>h\<in>set hs. packet_wf h \<and> 36 + unat (ch_caplen h) \<le> (if n = 0 then BUFSIZ else n)"
  shows "\<exists>st0 st1 st2 gs.
    stream_file_create good_medium None (Some (Inr empty_file)) mpid (Some comment) flags = (0, Some st0) \<and>
    copy_all (file_write good_medium) st0 hs = Inr (0, st1) \<and>
    stream_file_open good_medium None (Some (Inr (fseek_set 0 (sf_file (st_src st1))))) n = Inr (0, Some st2) \<and>
    st_comment st2 = Some comment \<and> fh_mpid (st_FH st2) = strncpy 200 mpid \<and>
    read_all (Suc (length hs)) (Suc (length (cf_data (sf_file (st_src st1))))) (stream_file_fillbuffer good_medium) st2 =
      Some (Inr (gs, - 1)) \<and> map captured gs = hs"
proof -
  let ?B = "concat (map packet_bytes hs)"
  obtain st0 where c: "stream_file_create good_medium None (Some (Inr empty_file)) mpid (Some comment) flags = (0, Some st0)"
    "at_end (file_image mpid comment []) st0" using create_image by blast
  have "\<forall>h\<in>set hs. packet_wf h" using assms(3) by blast
  then obtain st1 where w: "copy_all (file_write good_medium) st0 hs = Inr (0, st1)"
    "at_end (file_image mpid comment [] @ ?B) st1" using copy_all_end c(2) by blast
  then have f: "fseek_set 0 (sf_file (st_src st1)) = \<lparr>cf_data = file_image mpid comment ?B, cf_pos = 0\<rparr>"
    by (simp add: at_end_def fseek_set_def file_image_def)
  obtain st2 where o: "stream_file_open good_medium None (Some (Inr (fseek_set 0 (sf_file (st_src st1))))) n = Inr (0, Some st2)"
    "stream_wf st2" "\<not> st_flushed st2" "st_buffer_size st2 = (if n = 0 then BUFSIZ else n)"
    "pending file_rest st2 = ?B" "st_comment st2 = Some comment" "st_FH st2 = new_header mpid comment"
    using open_image [OF assms(1,2) f] by blast
  have "length (pending file_rest st2) < Suc (length (cf_data (sf_file (st_src st1))))"
    using o(5) w(2) by (simp add: at_end_def)
  with o(2-5) assms(3) have "\<exists>gs. read_all (Suc (length hs)) (Suc (length (cf_data (sf_file (st_src st1)))))
      (stream_file_fillbuffer good_medium) st2 = Some (Inr (gs, - 1)) \<and> map captured gs = hs"
    by (intro file_stream.read_all_packets) simp_all
  with c(1) w(1) o show ?thesis by (auto simp: new_header_def)
qed

theorem stream_file_roundtrip_witness:
  "\<exists>st0 st1 st2 gs.
    stream_file_create good_medium None (Some (Inr empty_file)) ''mp'' (Some ''test'') 0 = (0, Some st0) \<and>
    copy_all (file_write good_medium) st0 [captured (zero_packet (timepico_new 1 2))] = Inr (0, st1) \<and>
    stream_file_open good_medium None (Some (Inr (fseek_set 0 (sf_file (st_src st1))))) 0 = Inr (0, Some st2) \<and>
    st_comment st2 = Some ''test'' \<and> fh_mpid (st_FH st2) = strncpy 200 ''mp'' \<and>
    read_all (Suc (length [captured (zero_packet (timepico_new 1 2))])) (Suc (length (cf_data (sf_file (st_src st1)))))
      (stream_file_fillbuffer good_medium) st2 = Some (Inr (gs, - 1)) \<and>
    map captured gs = [captured (zero_packet (timepico_new 1 2))]"
  by (rule stream_file_roundtrip)
    (simp_all add: captured_def zero_packet_def packet_wf_def header_wf_def BUFSIZ_def)

text \<open>
  A chain of extension headers of any kinds, each at most \<open>header_offset\<close> bytes long, is
  skipped up to the terminating one, whatever data it carries.
\<close>

lemma read_extensions_skips:
  assumes "\<forall>e\<in>set es. fst e \<noteq> HEADER_EXT_NONE \<and> 4 + length (snd e) \<le> unat header_offset"
  shows "\<exists>f'. read_extensions good_medium header_offset
      \<lparr>cf_data = pre @ concat (map extension_bytes es) @ extension_bytes (HEADER_EXT_NONE, d) @ post, cf_pos = length pre\<rparr>
    = (0, f')"
  using read_extensions_chain [OF assms, of _ pre d post] by force

text \<open>
  Claim C10. Opening is safe for every content of the file, every position of a given \<open>FILE\<close> and every
  buffer size: it reads no byte of a header it does not have and stores nothing outside of the block
  allocated for the comment, whatever size the header gives. When it succeeds the stream is well-formed,
  the version is one the library knows, the comment is the string of \<open>comment_size\<close> bytes at
  \<open>header_offset\<close>, and the reader continues behind it.
\<close>

theorem stream_file_open_safe:
  assumes "open_file fp fopen = Inr f"
  shows "\<exists>ret s. stream_file_open good_medium fp fopen n = Inr (ret, Some s) \<and>
    (ret = 0 \<longrightarrow> stream_wf s \<and> \<not> st_flushed s \<and> is_valid_version (st_FH s) \<and>
       st_comment s = Some (takeWhile (\<lambda>ch. ch \<noteq> NUL) (map char_of_byte
         (take (unat (fh_comment_size (st_FH s))) (drop (unat (fh_header_offset (st_FH s))) (cf_data f))))) \<and>
       pending file_rest s =
         drop (unat (fh_header_offset (st_FH s)) + unat (fh_comment_size (st_FH s))) (cf_data f))"
proof -
  let ?st = "(stream_alloc PROTOCOL_LOCAL_FILE (if n = 0 then BUFSIZ else n) BUFSIZ
      \<lparr>sf_file = f, sf_force_flush = False\<rparr>)\<lparr>st_num_addresses := 1\<rparr>"
  let ?m = "take 216 (drop (cf_pos f) (cf_data f))"
  let ?f = "f\<lparr>cf_pos := cf_pos f + min 216 (length (cf_data f) - cf_pos f)\<rparr>"
  let ?st1 = "?st\<lparr>st_src := \<lparr>sf_file = ?f, sf_force_flush = False\<rparr>\<rparr>"
  have st: "stream_wf ?st1" "window ?st1 = []" "\<not> st_flushed ?st1"
    by (simp_all add: stream_wf_def window_def stream_alloc_def Let_def)
  have inv: "ERROR_CAPFILE_INVALID \<noteq> 0" by (simp add: ERROR_CAPFILE_INVALID_def)
  show ?thesis
  proof (cases "length ?m < 216")
    case True
    then have "stream_file_open good_medium fp fopen n = Inr (ERROR_CAPFILE_INVALID, Some ?st1)"
      unfolding stream_file_open_def assms Let_def fread_good sizeof_file_header_t_def
      by (simp only: sum.case prod.case True if_True) simp
    then show ?thesis using inv by blast
  next
    case False
    then obtain fh where fh: "file_header_of ?m = Inr fh" using file_header_of_total [of ?m] by auto
    have "216 \<le> length (cf_data ?f)" using False by simp
    from load_header_total [OF this, of fh] obtain r f' where
      r: "(if fh_magic fh = CAPUTILS_FILE_MAGIC then Inr (Some fh, ?f) else load_legacy good_medium ?f fh) = Inr (r, f')"
      and d: "cf_data f' = cf_data f" by auto
    have o: "stream_file_open good_medium fp fopen n =
      (case r of None \<Rightarrow> Inr (ERROR_CAPFILE_INVALID, Some (?st1\<lparr>st_FH := fh, st_src := (st_src ?st1)\<lparr>sf_file := f'\<rparr>\<rparr>))
       | Some fh \<Rightarrow> rbind (finish_open good_medium fh f' ?st1) (\<lambda>(ret, st). Inr (ret, Some st)))"
      unfolding stream_file_open_def assms Let_def fread_good sizeof_file_header_t_def
      by (simp only: sum.case prod.case False if_False fh r rbind_Inr) (cases r; simp)
    show ?thesis
    proof (cases r)
      case None
      with o inv show ?thesis by simp
    next
      case (Some fh')
      obtain ret s where fo: "finish_open good_medium fh' f' ?st1 = Inr (ret, s)" using finish_open_total by blast
      with o Some have "stream_file_open good_medium fp fopen n = Inr (ret, Some s)" by simp
      with finish_open_rest [OF _ st(1,2,3)] fo d show ?thesis by auto
    qed
  qed
qed

theorem stream_file_open_safe_witness:
  "\<exists>s. stream_file_open good_medium (Some \<lparr>cf_data = file_image ''mp'' ''c'' [1, 2, 3], cf_pos = 0\<rparr>) None 0 = Inr (0, Some s) \<and>
    stream_wf s \<and> is_valid_version (st_FH s) \<and> st_comment s = Some ''c'' \<and> pending file_rest s = [1, 2, 3]"
proof -
  let ?f = "\<lparr>cf_data = file_image ''mp'' ''c'' [1, 2, 3], cf_pos = 0\<rparr>"
  have same: "stream_file_open good_medium (Some ?f) None 0 = stream_file_open good_medium None (Some (Inr ?f)) 0"
    by (simp add: stream_file_open_def open_file_def)
  obtain s where s: "stream_file_open good_medium (Some ?f) None 0 = Inr (0, Some s)" "st_FH s = new_header ''mp'' ''c''"
    using open_image [of "''c''" ?f "''mp''" "[1, 2, 3]" 0] unfolding same by auto
  have h: "unat (fh_comment_size (st_FH s)) = 1" "unat (fh_header_offset (st_FH s)) = 216"
    "length (file_header_bytes (new_header ''mp'' ''c'')) = 216"
    using s(2) length_file_header_bytes [of "new_header ''mp'' ''c''"] by (simp_all add: new_header_def sizeof_file_header_t_def)
  have "open_file (Some ?f) None = Inr ?f" by (simp add: open_file_def)
  from stream_file_open_safe [OF this, of 0] s(1) h show ?thesis
    by (auto simp: file_image_def)
qed

end
