(* ===== verification/Stream_Ethernet.thy ===== *)
theory Stream_Ethernet
  imports Frame_Buffer Stream_File
begin

text \<open>
  Ethernet multicast streams (\<open>src/stream_ethernet.c\<close>): receiving measurement frames from a raw socket,
  the checks on each frame, adding addresses and the arithmetic of the buffer sizes. The stream is a
  provider of the contract \<open>frame_source\<close> of the frame buffer.

  The socket is the list of what \<open>select\<close> and \<open>recvfrom\<close> will give; a list that is used up times out.
\<close>

section \<open>State\<close>

definition MAX_ADDRESS :: nat where "MAX_ADDRESS = 100"
definition ETHERTYPE_MP :: u16 where "ETHERTYPE_MP = 0x0810"

definition EBUSY :: int where "EBUSY = 16"
definition ERROR_INVALID_PROTOCOL :: int where "ERROR_INVALID_PROTOCOL = 0x8004"
definition ERROR_INVALID_MULTICAST :: int where "ERROR_INVALID_MULTICAST = 0x8006"
definition ERROR_BUFFER_LENGTH :: int where "ERROR_BUFFER_LENGTH = 0x8008"
definition ERROR_BUFFER_MULTIPLE :: int where "ERROR_BUFFER_MULTIPLE = 0x8009"

datatype rx = Rx_timeout | Rx_error | Rx_closed | Rx "u8 list"

record stream_ethernet =
  se_events :: "rx list"
  se_sent :: "u8 list list"        \<comment> \<open>what \<open>sendto\<close> was given\<close>
  se_if_index :: int
  se_address :: "u8 list list"
  se_seqnum :: "u64 list"

section \<open>Receiving\<close>

text \<open>The index of the address among those from \<open>i\<close> on.\<close>

fun address_index :: "nat \<Rightarrow> 'a list \<Rightarrow> 'a \<Rightarrow> nat option" where
  "address_index i [] a = None"
| "address_index i (x # xs) a = (if x = a then Some i else address_index (Suc i) xs a)"

definition match_ma_pkt :: "u8 list list \<Rightarrow> mem \<Rightarrow> nat option res" where
  "match_ma_pkt addresses m =
     rbind (rd16 m 12) (\<lambda>proto.
       if ntohs proto \<noteq> ETHERTYPE_MP then Inr None
       else rbind (rdn m 0 6) (\<lambda>dest. Inr (address_index 0 addresses dest)))"

text \<open>
  The version check and the sequence number of the sender \<open>i\<close>: whether the frame is delivered, and the
  numbers. A frame with a bad version leaves the loop.
\<close>

definition check_sequence :: "bool \<Rightarrow> u64 list \<Rightarrow> nat \<Rightarrow> sendhead \<Rightarrow> (bool \<times> u64 list) res" where
  "check_sequence if_loopback seqnum i sh =
     (if seqnum ! i = 0 \<and>
         \<not> is_valid_version (fh_zero\<lparr>fh_major := ntohs (sh_major sh), fh_minor := ntohs (sh_minor sh)\<rparr>)
      then Inr (False, seqnum)
      else
        let seq = (if seqnum ! i = 0 then ucast (ntohl (sh_sequencenr sh)) else seqnum ! i) in
        rbind (match_inc_seqnr if_loopback seq sh) (\<lambda>seq. Inr (True, seqnum[i := seq])))"

datatype verdict = Skip | Stop | Accept

definition ethernet_frame ::
  "stream_ethernet stream \<Rightarrow> mem \<Rightarrow> nat \<Rightarrow> (verdict \<times> stream_ethernet stream) res" where
  "ethernet_frame st dst bytes =
     rbind (match_ma_pkt (take (st_num_addresses st) (se_address (st_src st))) dst) (\<lambda>match.
       case match of
         None \<Rightarrow> Inr (Skip, st)
       | Some i \<Rightarrow>
           rbind (valid_framesize bytes dst sizeof_ethhdr) (\<lambda>valid.
             if \<not> valid then Inr (Skip, st)
             else rbind (sendhead_at dst sizeof_ethhdr) (\<lambda>sh.
               let st = st\<lparr>st_stat_recv := st_stat_recv st + unat (ntohl (sh_nopkts sh))\<rparr> in
               rbind (check_sequence (st_if_loopback st) (se_seqnum (st_src st)) i sh) (\<lambda>(ok, seqnum).
                 if \<not> ok then Inr (Stop, st)
                 else Inr (Accept, st\<lparr>st_src := (st_src st)\<lparr>se_seqnum := seqnum\<rparr>,
                        st_flushed := (st_flushed st \<or> ntohl (sh_flags sh) AND SENDER_FLUSH \<noteq> 0)\<rparr>)))))"

text \<open>The loop over the datagrams; \<open>frame_size\<close> bytes are received at most.\<close>

fun ethernet_loop ::
  "nat \<Rightarrow> rx list \<Rightarrow> stream_ethernet stream \<Rightarrow> mem \<Rightarrow> (int \<times> mem \<times> stream_ethernet stream) res" where
  "ethernet_loop frame_size [] st dst = Inr (0, dst, st\<lparr>st_src := (st_src st)\<lparr>se_events := []\<rparr>\<rparr>)"
| "ethernet_loop frame_size (Rx data # es) st dst =
     (let data = take frame_size data; dst = data @ drop (length data) dst in
      if data = [] then Inr (0, dst, st\<lparr>st_src := (st_src st)\<lparr>se_events := es\<rparr>\<rparr>)
      else rbind (ethernet_frame st dst (length data)) (\<lambda>(v, st).
        case v of
          Skip \<Rightarrow> ethernet_loop frame_size es st dst
        | Stop \<Rightarrow> Inr (0, dst, st\<lparr>st_src := (st_src st)\<lparr>se_events := es\<rparr>\<rparr>)
        | Accept \<Rightarrow> Inr (1, dst, st\<lparr>st_src := (st_src st)\<lparr>se_events := es\<rparr>\<rparr>)))"
| "ethernet_loop frame_size (_ # es) st dst = Inr (0, dst, st\<lparr>st_src := (st_src st)\<lparr>se_events := es\<rparr>\<rparr>)"

definition stream_ethernet_read_frame :: "nat \<Rightarrow> stream_ethernet read_frame_cb" where
  "stream_ethernet_read_frame frame_size st dst timeout = ethernet_loop frame_size (se_events (st_src st)) st dst"

definition stream_ethernet_read ::
  "nat \<Rightarrow> nat \<Rightarrow> ('b \<Rightarrow> mem \<Rightarrow> u32 \<Rightarrow> u32 \<Rightarrow> u32) \<Rightarrow> timeval option \<Rightarrow>
   stream_ethernet stream \<times> frame_buffer \<times> 'b cap_filter option \<Rightarrow>
   (int \<times> (nat \<times> cap_header) option \<times> stream_ethernet stream \<times> frame_buffer \<times> 'b cap_filter option) res option" where
  "stream_ethernet_read fuel frame_size bpf timeout x =
     stream_frame_buffer_read fuel (stream_ethernet_read_frame frame_size) bpf timeout x"

section \<open>Sending, adding addresses, opening\<close>

text \<open>
  \<open>payload_size\<close> is a \<open>size_t\<close>: for data shorter than the ethernet header it wraps around and the packet
  is refused as too large. \<open>sendto\<close> is the error it gives, if any.
\<close>

definition stream_ethernet_write ::
  "int option \<Rightarrow> stream_ethernet stream \<Rightarrow> u8 list \<Rightarrow> int \<times> stream_ethernet stream" where
  "stream_ethernet_write sendto st data =
     (let payload_size = (int (length data) - 14) mod 2 ^ 64 in
      if payload_size > int (st_if_mtu st) then (EINVAL, st)
      else case sendto of
        Some errno \<Rightarrow> (errno, st)
      | None \<Rightarrow> (0, st\<lparr>st_src := (st_src st)\<lparr>se_sent := se_sent (st_src st) @ [data]\<rparr>\<rparr>))"

definition stream_ethernet_add ::
  "int option \<Rightarrow> stream_ethernet stream \<Rightarrow> u8 list \<Rightarrow> int \<times> stream_ethernet stream" where
  "stream_ethernet_add setsockopt st addr =
     (if st_num_addresses st = MAX_ADDRESS then (EBUSY, st)
      else if addr ! 0 AND 1 = 0 then (ERROR_INVALID_MULTICAST, st)
      else
        let st = st\<lparr>st_src := (st_src st)\<lparr>se_address := (se_address (st_src st))[st_num_addresses st := addr]\<rparr>\<rparr> in
        case setsockopt of
          Some errno \<Rightarrow> (errno, st)
        | None \<Rightarrow> (0, st\<lparr>st_num_addresses := st_num_addresses st + 1\<rparr>))"

text \<open>What the calls of the operating system give to \<open>stream_ethernet_init\<close>.\<close>

record iface =
  if_index :: int
  if_mtu :: nat
  if_hwaddr :: "u8 list"
  if_loopback :: bool

record eth_calls =
  ec_iface_get :: "int + iface"
  ec_socket :: "int option"
  ec_bind :: "int option"
  ec_setsockopt :: "int option"
  ec_events :: "rx list"

definition stream_ethernet_init ::
  "eth_calls \<Rightarrow> u8 list option \<Rightarrow> string option \<Rightarrow> nat \<Rightarrow> int \<times> (stream_ethernet stream \<times> frame_buffer) option" where
  "stream_ethernet_init calls addr iface buffer_size =
     (case (addr, iface) of
        (Some addr, Some _) \<Rightarrow>
          (case ec_iface_get calls of
             Inl ret \<Rightarrow> (ret, None)
           | Inr ifstat \<Rightarrow>
               let frame_size = if_mtu ifstat + sizeof_ethhdr;
                   buffer_size = (if buffer_size = 0 then 250 * frame_size else buffer_size) in
               if buffer_size < frame_size then (ERROR_BUFFER_LENGTH, None)
               else if buffer_size mod frame_size \<noteq> 0 then (ERROR_BUFFER_MULTIPLE, None)
               else
                 let num_frames = buffer_size div frame_size;
                     st = stream_alloc PROTOCOL_ETHERNET_MULTICAST (stream_frame_buffer_size num_frames frame_size)
                            (if_mtu ifstat)
                            \<lparr>se_events = ec_events calls, se_sent = [], se_if_index = 0,
                             se_address = replicate MAX_ADDRESS (replicate 6 0), se_seqnum = replicate MAX_ADDRESS 0\<rparr>;
                     fb = stream_frame_init num_frames frame_size in
                 case ec_socket calls of
                   Some errno \<Rightarrow> (errno, Some (st, fb))
                 | None \<Rightarrow>
                     let fb = fb\<lparr>fb_header_offset := sizeof_ethhdr\<rparr>;
                         st = st\<lparr>st_if_loopback := if_loopback ifstat,
                                 st_src := (st_src st)\<lparr>se_if_index := if_index ifstat\<rparr>\<rparr> in
                     (case ec_bind calls of
                        Some errno \<Rightarrow> (errno, Some (st, fb))
                      | None \<Rightarrow> (case stream_ethernet_add (ec_setsockopt calls) st addr of
                          (ret, st) \<Rightarrow> (ret, Some (st, fb)))))
      | _ \<Rightarrow> (EINVAL, None))"

definition stream_ethernet_create ::
  "eth_calls \<Rightarrow> u8 list option \<Rightarrow> string option \<Rightarrow> string \<Rightarrow> int \<times> (stream_ethernet stream \<times> frame_buffer) option" where
  "stream_ethernet_create calls addr iface comment =
     (case stream_ethernet_init calls addr iface 0 of
        (ret, Some (st, fb)) \<Rightarrow>
          if ret \<noteq> 0 then (ret, Some (st, fb))
          else (0, Some (st\<lparr>st_FH := (st_FH st)\<lparr>fh_comment_size := word_of_nat (length comment)\<rparr>,
                            st_comment := Some comment\<rparr>, fb))
      | (ret, None) \<Rightarrow> (ret, None))"

definition stream_ethernet_open ::
  "eth_calls \<Rightarrow> u8 list option \<Rightarrow> string option \<Rightarrow> nat \<Rightarrow> int \<times> (stream_ethernet stream \<times> frame_buffer) option" where
  "stream_ethernet_open calls addr iface buffer_size =
     (case stream_ethernet_init calls addr iface buffer_size of
        (ret, Some (st, fb)) \<Rightarrow>
          if ret \<noteq> 0 then (ret, Some (st, fb))
          else (0, Some (st\<lparr>st_type := PROTOCOL_ETHERNET_MULTICAST, st_FH := (st_FH st)\<lparr>fh_comment_size := 0\<rparr>,
                            st_comment := None\<rparr>, fb))
      | (ret, None) \<Rightarrow> (ret, None))"

section \<open>What a socket will deliver\<close>

text \<open>
  The frames that will be delivered, when every datagram for this stream is a well-formed frame with at
  least one packet and the sequence numbers are in order; \<open>None\<close> otherwise.
\<close>

fun eth_future :: "nat \<Rightarrow> bool \<Rightarrow> u8 list list \<Rightarrow> rx list \<Rightarrow> u64 list \<Rightarrow> cap_header list list option" where
  "eth_future fsz lb addrs [] seqs = Some []"
| "eth_future fsz lb addrs (Rx bs # es) seqs =
     (if length bs < 14 \<or> fsz < length bs then None
      else case match_ma_pkt addrs bs of
        Inl _ \<Rightarrow> None
      | Inr None \<Rightarrow> eth_future fsz lb addrs es seqs
      | Inr (Some i) \<Rightarrow>
          (case decode_frame 14 bs of
             None \<Rightarrow> None
           | Some (sh, ps) \<Rightarrow>
               if ps = [] then None
               else case check_sequence lb seqs i sh of
                 Inl _ \<Rightarrow> None
               | Inr (ok, seqs') \<Rightarrow>
                   if ok then map_option ((#) ps) (eth_future fsz lb addrs es seqs')
                   else eth_future fsz lb addrs es seqs))"
| "eth_future fsz lb addrs (_ # es) seqs = eth_future fsz lb addrs es seqs"

definition eth_rest :: "nat \<Rightarrow> stream_ethernet stream \<Rightarrow> cap_header list list option" where
  "eth_rest fsz st = eth_future fsz (st_if_loopback st) (take (st_num_addresses st) (se_address (st_src st)))
     (se_events (st_src st)) (se_seqnum (st_src st))"

lemma rd16_append: "i + 1 < length xs \<Longrightarrow> rd16 (xs @ ys) i = rd16 xs i"
  by (simp add: rd16_in nth_append)

lemma match_ma_pkt_append: "14 \<le> length xs \<Longrightarrow> match_ma_pkt addrs (xs @ ys) = match_ma_pkt addrs xs"
  by (simp add: match_ma_pkt_def rd16_append rdn_in cong: if_cong)

lemma ethernet_frame_ok:
  assumes "addrs = take (st_num_addresses st) (se_address (st_src st))" "match_ma_pkt addrs bs = Inr (Some i)"
    and "decode_frame 14 bs = Some (sh, ps)"
    and "check_sequence (st_if_loopback st) (se_seqnum (st_src st)) i sh = Inr (ok, seqs)"
  shows "\<exists>st'. ethernet_frame st (bs @ junk) (length bs) = Inr (if ok then Accept else Stop, st') \<and>
    st_readPos st' = st_readPos st \<and> st_writePos st' = st_writePos st \<and> st_num_addresses st' = st_num_addresses st \<and>
    st_if_loopback st' = st_if_loopback st \<and>
    st_src st' = (if ok then (st_src st)\<lparr>se_seqnum := seqs\<rparr> else st_src st)"
proof -
  obtain pre where b: "bs = pre @ frame_bytes sh ps" "length pre = 14" "nopkts sh = length ps" "length ps < 2 ^ 31"
    "\<forall>p\<in>set ps. packet_wf p \<and> ch_caplen p \<noteq> 0" using decode_frame_sound [OF assms(3)] by blast
  have "14 \<le> length bs" using b(1,2) by simp
  then have "match_ma_pkt addrs (bs @ junk) = Inr (Some i)" using assms(2) match_ma_pkt_append by simp
  moreover have "valid_framesize (length bs) (bs @ junk) 14 = Inr True"
    using valid_framesize_complete [OF b(2,3,4,5), of junk] b(1,2) by simp
  moreover have "sendhead_at (bs @ junk) 14 = Inr sh"
    using sendhead_at_bytes [of 14 pre sh] b(1,2) by (simp add: frame_bytes_def)
  ultimately show ?thesis
    using assms(1,4) by (simp add: ethernet_frame_def sizeof_ethhdr_def Let_def)
qed

lemma ethernet_loop_ok:
  assumes "eth_future fsz (st_if_loopback st) (take (st_num_addresses st) (se_address (st_src st))) es (se_seqnum (st_src st)) = Some fs"
    and "length dst = fsz"
  shows "\<exists>ret slot st'. ethernet_loop fsz es st dst = Inr (ret, slot, st') \<and> length slot = fsz \<and>
    st_readPos st' = st_readPos st \<and> st_writePos st' = st_writePos st \<and>
    (if ret = 0 then eth_rest fsz st' = Some fs
     else \<exists>ps gs. fs = ps # gs \<and> eth_rest fsz st' = Some gs \<and> slot_frame 14 slot ps)"
  using assms
proof (induction fsz es st dst arbitrary: fs rule: ethernet_loop.induct)
  case (1 fsz st dst)
  then show ?case by (simp add: eth_rest_def)
next
  case (2 fsz bs es st dst)
  let ?addrs = "take (st_num_addresses st) (se_address (st_src st))"
  have l: "14 \<le> length bs" "length bs \<le> fsz" using 2(2) by (auto split: if_splits)
  then have t: "take fsz bs = bs" "bs \<noteq> []" by auto
  let ?dst = "bs @ drop (length bs) dst"
  have ld: "length ?dst = fsz" using l 2(3) by simp
  obtain r where m: "match_ma_pkt ?addrs bs = Inr r" using 2(2) by (auto split: sum.splits if_splits)
  show ?case
  proof (cases r)
    case None
    have "ethernet_frame st ?dst (length bs) = Inr (Skip, st)"
      using m None match_ma_pkt_append [OF l(1)] by (simp add: ethernet_frame_def)
    moreover have "eth_future fsz (st_if_loopback st) ?addrs es (se_seqnum (st_src st)) = Some fs"
      using 2(2) m None l by simp
    ultimately show ?thesis using 2(1) [OF refl refl, of "(Skip, st)"] t ld by (simp add: Let_def)
  next
    case (Some i)
    obtain sh ps where d: "decode_frame 14 bs = Some (sh, ps)" "ps \<noteq> []"
      using 2(2) m Some l by (auto split: option.splits if_splits)
    obtain ok seqs where c: "check_sequence (st_if_loopback st) (se_seqnum (st_src st)) i sh = Inr (ok, seqs)"
      using 2(2) m Some l d by (auto split: sum.splits)
    obtain st' where st': "ethernet_frame st ?dst (length bs) = Inr (if ok then Accept else Stop, st')"
      "st_readPos st' = st_readPos st" "st_writePos st' = st_writePos st" "st_num_addresses st' = st_num_addresses st"
      "st_if_loopback st' = st_if_loopback st" "st_src st' = (if ok then (st_src st)\<lparr>se_seqnum := seqs\<rparr> else st_src st)"
      using ethernet_frame_ok [OF refl m [unfolded Some] d(1) c] by blast
    let ?st = "st'\<lparr>st_src := (st_src st')\<lparr>se_events := es\<rparr>\<rparr>"
    have e: "ethernet_loop fsz (Rx bs # es) st dst = Inr (if ok then 1 else 0, ?dst, ?st)"
      using st'(1) t by (cases ok) (simp_all add: Let_def)
    have "slot_frame 14 ?dst ps"
      using decode_frame_sound [OF d(1)] d(2) unfolding slot_frame_def by fastforce
    moreover have "eth_rest fsz ?st = Some fs" if "\<not> ok"
      using 2(2) m Some l d c st'(4-6) that by (simp add: eth_rest_def)
    moreover have "\<exists>gs. fs = ps # gs \<and> eth_rest fsz ?st = Some gs" if ok
      using 2(2) m Some l d c st'(4-6) that by (auto simp: eth_rest_def)
    ultimately show ?thesis unfolding e using ld st'(2,3) by (cases ok) auto
  qed
qed (simp_all add: eth_rest_def)

definition eth_good :: "nat \<Rightarrow> stream_ethernet stream \<Rightarrow> bool" where
  "eth_good fsz st \<longleftrightarrow> eth_rest fsz st \<noteq> None"

definition eth_frames :: "nat \<Rightarrow> stream_ethernet stream \<Rightarrow> cap_header list list" where
  "eth_frames fsz st = the (eth_rest fsz st)"

text \<open>The ethernet stream keeps the contract of the frame buffer.\<close>

interpretation eth: frame_source "stream_ethernet_read_frame fsz" 14 fsz "eth_good fsz" "eth_frames fsz" for fsz
proof (unfold_locales, goal_cases)
  case (1 st slot t)
  then show ?case using ethernet_loop_ok [of fsz st "se_events (st_src st)" _ slot]
    by (auto simp: eth_good_def eth_frames_def eth_rest_def stream_ethernet_read_frame_def)
next
  case (2 st slot t ret slot' st')
  then obtain fs where "eth_rest fsz st = Some fs" by (auto simp: eth_good_def)
  then show ?case using ethernet_loop_ok [of fsz st "se_events (st_src st)" fs slot] 2
    by (auto simp: eth_good_def eth_frames_def eth_rest_def stream_ethernet_read_frame_def split: if_splits)
next
  case (3 st slot t slot' st')
  then obtain fs where "eth_rest fsz st = Some fs" by (auto simp: eth_good_def)
  then show ?case using ethernet_loop_ok [of fsz st "se_events (st_src st)" fs slot] 3
    by (auto simp: eth_good_def eth_frames_def eth_rest_def stream_ethernet_read_frame_def)
next
  case (4 st slot t ret slot' st')
  then obtain fs where "eth_rest fsz st = Some fs" by (auto simp: eth_good_def)
  then show ?case using ethernet_loop_ok [of fsz st "se_events (st_src st)" fs slot] 4
    by (auto simp: eth_good_def eth_frames_def eth_rest_def stream_ethernet_read_frame_def)
next
  case (5 st st')
  then show ?case by (simp add: eth_good_def eth_frames_def eth_rest_def)
qed

section \<open>Opening\<close>

text \<open>\<open>errno\<close> is not 0 after a call that failed.\<close>

definition calls_wf :: "eth_calls \<Rightarrow> bool" where
  "calls_wf calls \<longleftrightarrow> ec_iface_get calls \<noteq> Inl 0 \<and> ec_socket calls \<noteq> Some 0 \<and> ec_bind calls \<noteq> Some 0 \<and>
     ec_setsockopt calls \<noteq> Some 0"

definition eth_state :: "stream_ethernet stream \<Rightarrow> frame_buffer \<Rightarrow> bool" where
  "eth_state st fb \<longleftrightarrow> fb_header_offset fb = 14 \<and> 14 \<le> fb_frame_size fb \<and>
    length (se_address (st_src st)) = MAX_ADDRESS \<and> length (se_seqnum (st_src st)) = MAX_ADDRESS \<and>
    st_num_addresses st \<le> MAX_ADDRESS \<and>
    stream_frame_buffer_size (length (fb_frame fb)) (fb_frame_size fb) = st_buffer_size st"

lemma ethernet_add_state:
  assumes "stream_ethernet_add setsockopt st a = (ret, st')" "eth_state st fb"
  shows "eth_state st' fb \<and> st_readPos st' = st_readPos st \<and> st_writePos st' = st_writePos st \<and>
    se_events (st_src st') = se_events (st_src st) \<and> se_seqnum (st_src st') = se_seqnum (st_src st)"
  using assms by (auto simp: stream_ethernet_add_def eth_state_def Let_def MAX_ADDRESS_def split: if_splits option.splits)

lemma ethernet_init_state:
  assumes "stream_ethernet_init calls addr iface n = (0, Some (st, fb))" "calls_wf calls"
  shows "fb_queue st fb [] \<and> eth_state st fb \<and> se_seqnum (st_src st) = replicate MAX_ADDRESS 0"
proof -
  obtain a i ifs where a: "addr = Some a" "iface = Some i" "ec_iface_get calls = Inr ifs"
    using assms by (auto simp: stream_ethernet_init_def EINVAL_def calls_wf_def split: option.splits sum.splits)
  define fs where "fs = if_mtu ifs + 14"
  define bs where "bs = (if n = 0 then 250 * fs else n)"
  have b: "fs \<le> bs" "bs mod fs = 0"
    using assms a by (auto simp: stream_ethernet_init_def Let_def sizeof_ethhdr_def
        fs_def [symmetric] bs_def [symmetric] ERROR_BUFFER_LENGTH_def ERROR_BUFFER_MULTIPLE_def split: if_splits option.splits)
  then have nf: "0 < bs div fs" by (simp add: div_greater_zero_iff fs_def)
  define st0 where "st0 = (stream_alloc PROTOCOL_ETHERNET_MULTICAST (stream_frame_buffer_size (bs div fs) fs) (if_mtu ifs)
      \<lparr>se_events = ec_events calls, se_sent = [], se_if_index = if_index ifs,
       se_address = replicate MAX_ADDRESS (replicate 6 0), se_seqnum = replicate MAX_ADDRESS 0\<rparr>)
      \<lparr>st_if_loopback := if_loopback ifs\<rparr>"
  let ?fb = "(stream_frame_init (bs div fs) fs)\<lparr>fb_header_offset := 14\<rparr>"
  obtain ret where ad: "stream_ethernet_add (ec_setsockopt calls) st0 a = (ret, st)" "fb = ?fb"
    using assms a b
    by (auto simp: stream_ethernet_init_def Let_def sizeof_ethhdr_def calls_wf_def st0_def stream_alloc_def
        fs_def [symmetric] bs_def [symmetric] split: option.splits prod.splits)
  have "0 < stream_frame_buffer_size (bs div fs) fs" using nf by (simp add: stream_frame_buffer_size_def)
  then have "eth_state st0 ?fb" "st_readPos st0 = 0" "st_writePos st0 = 0" "se_seqnum (st_src st0) = replicate MAX_ADDRESS 0"
    by (auto simp: eth_state_def st0_def stream_alloc_def stream_frame_init_def fs_def Let_def)
  moreover from ethernet_add_state [OF ad(1) this(1)] this have "eth_state st ?fb" "st_readPos st = 0" "st_writePos st = 0"
    "se_seqnum (st_src st) = replicate MAX_ADDRESS 0" by simp_all
  ultimately show ?thesis using ad(2) init_queue [OF nf, of st 14 fs] by simp
qed

lemma ethernet_open_state:
  assumes "stream_ethernet_open calls addr iface n = (0, Some (st, fb))" "calls_wf calls"
  shows "fb_queue st fb [] \<and> eth_state st fb \<and> se_seqnum (st_src st) = replicate MAX_ADDRESS 0"
proof -
  obtain ret st0 fb0 where i: "stream_ethernet_init calls addr iface n = (ret, Some (st0, fb0))"
    using assms(1) by (auto simp: stream_ethernet_open_def split: prod.splits option.splits)
  then have r: "ret = 0" and st: "st = st0\<lparr>st_type := PROTOCOL_ETHERNET_MULTICAST,
      st_FH := (st_FH st0)\<lparr>fh_comment_size := 0\<rparr>, st_comment := None\<rparr>" "fb = fb0"
    using assms(1) by (auto simp: stream_ethernet_open_def split: if_splits)
  show ?thesis
    using ethernet_init_state [OF i [unfolded r] assms(2)] fb_queue_cong [of st st0 fb "[]"]
    by (simp add: st eth_state_def)
qed

section \<open>Sequence numbers of a sender\<close>

fun seq_run :: "bool \<Rightarrow> u64 list \<Rightarrow> nat \<Rightarrow> sendhead list \<Rightarrow> (bool list \<times> u64 list) res" where
  "seq_run lb seqs i [] = Inr ([], seqs)"
| "seq_run lb seqs i (sh # shs) =
     rbind (check_sequence lb seqs i sh) (\<lambda>(ok, seqs). rbind (seq_run lb seqs i shs) (\<lambda>(oks, seqs). Inr (ok # oks, seqs)))"

definition good_version :: "sendhead \<Rightarrow> bool" where
  "good_version sh \<longleftrightarrow> is_valid_version (fh_zero\<lparr>fh_major := ntohs (sh_major sh), fh_minor := ntohs (sh_minor sh)\<rparr>)"

lemma match_inc_same:
  assumes "ucast seq = ntohl (sh_sequencenr sh)"
  shows "match_inc_seqnr lb seq sh = Inr (if seq + 1 \<ge> 0xFFFF then 0 else seq + 1)"
proof -
  let ?g = "sint (ntohl (sh_sequencenr sh))"
  have "?g \<noteq> c_int (?g + 1)"
  proof (cases "?g = 2 ^ 31 - 1")
    case True
    then show ?thesis by (simp add: c_int_def)
  next
    case False
    then have "c_int (?g + 1) = ?g + 1"
      using sint_less [of "ntohl (sh_sequencenr sh)"] sint_ge [of "ntohl (sh_sequencenr sh)"] by (intro c_int_id) auto
    then show ?thesis by simp
  qed
  then show ?thesis using assms by (simp add: match_inc_seqnr_def Let_def)
qed

text \<open>The next expected number is the successor, or 0 for "any".\<close>

lemma check_sequence_in_order:
  assumes "good_version sh" "i < length seqs" "unat (ntohl (sh_sequencenr sh)) = n" "n + 1 < 2 ^ 32"
    and "seqs ! i = 0 \<or> unat (seqs ! i) = n"
  shows "\<exists>s. check_sequence lb seqs i sh = Inr (True, seqs[i := s]) \<and> (s = 0 \<or> unat s = n + 1) \<and> unat s < 0xFFFF"
proof -
  define seq where "seq = (if seqs ! i = 0 then ucast (ntohl (sh_sequencenr sh)) else seqs ! i)"
  have u: "unat seq = n"
    using assms(3,5) unat_lt_u32 [of "ntohl (sh_sequencenr sh)"]
    by (auto simp: seq_def unsigned_ucast_eq take_bit_nat_eq_self_iff)
  then have "ucast seq = ntohl (sh_sequencenr sh)"
    using assms(3,4) by (intro word_unat_eqI) (simp add: unsigned_ucast_eq take_bit_nat_eq_self_iff)
  from match_inc_same [OF this, of lb] have m: "match_inc_seqnr lb seq sh = Inr (if seq + 1 \<ge> 0xFFFF then 0 else seq + 1)" .
  have "unat (seq + 1) = n + 1" using u assms(4) by (simp add: unat_word_ariths)
  then have "unat (if seq + 1 \<ge> 0xFFFF then 0 else seq + 1) < 0xFFFF \<and>
      ((if seq + 1 \<ge> 0xFFFF then 0 else seq + 1) = 0 \<or> unat (if seq + 1 \<ge> 0xFFFF then 0 else seq + 1) = n + 1)"
    by (auto simp: word_le_nat_alt)
  moreover have "check_sequence lb seqs i sh = Inr (True, seqs[i := if seq + 1 \<ge> 0xFFFF then 0 else seq + 1])"
    using m assms(1) by (simp add: check_sequence_def good_version_def seq_def [symmetric] Let_def)
  ultimately show ?thesis by blast
qed

section \<open>Properties\<close>

text \<open>
  Claim C2. The reader of an ethernet stream refines a queue. In every state that reads can reach after
  a successful open, when the datagrams for the stream are well-formed frames in sequence, the packets
  returned so far, the packets in the ring of slots and the packets still in the network are together
  the packets that were sent, in order; and the next read neither faults nor hangs.
\<close>

theorem ethernet_reader_fifo:
  assumes "stream_ethernet_open calls addr iface n = (0, Some (st0, fb0))" "calls_wf calls"
    and "eth_rest (fb_frame_size fb0) st0 = Some sent"
    and "fb_run (stream_ethernet_read_frame (fb_frame_size fb0)) (st0, fb0) gs (st, fb)"
  shows "\<exists>qs coming ret h y. fb_queue st fb qs \<and> eth_rest (fb_frame_size fb0) st = Some coming \<and>
    map captured gs @ concat qs @ concat coming = concat sent \<and>
    stream_ethernet_read 1 (fb_frame_size fb0) (\<lambda>_ _ _ _. 0) timeout (st, fb, None :: unit cap_filter option) =
      Some (Inr (ret, h, y))"
proof -
  let ?z = "fb_frame_size fb0"
  note o = ethernet_open_state [OF assms(1,2)]
  have ok: "eth.fb_ok ?z st0 fb0 []"
    using o assms(3) by (simp add: eth.fb_ok_def eth_state_def eth_good_def)
  obtain qs where qs: "eth.fb_ok ?z st fb qs" "map captured gs @ eth.backlog ?z st qs = concat sent"
    using eth.fb_run_invariant [OF assms(4) refl ok] assms(3) by (auto simp: eth_frames_def)
  then obtain coming where "eth_rest ?z st = Some coming" by (auto simp: eth.fb_ok_def eth_good_def)
  with qs show ?thesis
    using eth.fb_run_total [OF assms(4) refl ok, of timeout]
    by (auto simp: eth.fb_ok_def eth.backlog_def eth_frames_def stream_ethernet_read_def)
qed

definition sample_calls :: eth_calls where
  "sample_calls = \<lparr>ec_iface_get = Inr \<lparr>if_index = 2, if_mtu = 1500, if_hwaddr = replicate 6 2, if_loopback = False\<rparr>,
     ec_socket = None, ec_bind = None, ec_setsockopt = None,
     ec_events = [Rx_timeout, Rx ([1, 0, 0, 0, 0, 1] @ replicate 6 2 @ [8, 0x10] @
       frame_bytes (sample_head (htonl 1)) [captured (zero_packet (timepico_new 1 2))])]\<rparr>"

lemma sample_open:
  "\<exists>st fb. stream_ethernet_open sample_calls (Some [1, 0, 0, 0, 0, 1]) (Some ''eth0'') 0 = (0, Some (st, fb)) \<and>
    eth_rest (fb_frame_size fb) st = Some [[captured (zero_packet (timepico_new 1 2))]]"
proof -
  let ?p = "captured (zero_packet (timepico_new 1 2))" and ?pre = "[1, 0, 0, 0, 0, 1] @ replicate 6 2 @ [8, 0x10] :: u8 list"
  let ?bs = "?pre @ frame_bytes (sample_head (htonl 1)) [?p]"
  have p: "packet_wf ?p" "ch_caplen ?p = 82" by (simp_all add: packet_wf_def header_wf_def captured_def zero_packet_def)
  have d: "decode_frame 14 ?bs = Some (sample_head (htonl 1), [?p])"
    by (rule decode_frame_complete) (use p in \<open>simp_all add: nopkts_sample\<close>)
  have len: "length ?bs = 14 + 16 + 118" using length_packet_bytes [OF p(1)] p(2) by (simp add: frame_bytes_def)
  have "rd16 ?bs 12 = Inr (le16 8 0x10)" by (simp add: rd16_in nth_append)
  moreover have "rdn ?bs 0 6 = Inr [1, 0, 0, 0, 0, 1]" by (simp add: rdn_def)
  ultimately have m: "match_ma_pkt [[1, 0, 0, 0, 0, 1]] ?bs = Inr (Some 0)"
    by (simp add: match_ma_pkt_def ntohs_def ETHERTYPE_MP_def le16_def)
  have c: "\<exists>s. check_sequence False (replicate MAX_ADDRESS 0) 0 (sample_head (htonl 1)) = Inr (True, s)"
    using check_sequence_in_order [of "sample_head (htonl 1)" 0 "replicate MAX_ADDRESS 0" 0 False]
    by (auto simp: good_version_def is_valid_version_def sample_head_def VERSION_MAJOR_def VERSION_MINOR_def
        MAX_ADDRESS_def ntohs_def le16_def ntohl_def le32_def)
  then have f: "eth_future 1514 False [[1, 0, 0, 0, 0, 1]] [Rx_timeout, Rx ?bs] (replicate MAX_ADDRESS 0) = Some [[?p]]"
    using d len m by (auto simp del: append.simps)
  have t: "take (Suc 0) ((replicate 100 z)[0 := x]) = [x]" for x z :: "u8 list"
    by (simp add: take_Suc hd_conv_nth)
  show ?thesis
    using f t
    by (auto simp: stream_ethernet_open_def stream_ethernet_init_def sample_calls_def Let_def sizeof_ethhdr_def
        stream_ethernet_add_def stream_alloc_def MAX_ADDRESS_def eth_rest_def stream_frame_init_def)
qed

theorem ethernet_reader_fifo_witness:
  "\<exists>st fb qs coming. stream_ethernet_open sample_calls (Some [1, 0, 0, 0, 0, 1]) (Some ''eth0'') 0 = (0, Some (st, fb)) \<and>
    fb_queue st fb qs \<and> eth_rest (fb_frame_size fb) st = Some coming \<and>
    concat qs @ concat coming = [captured (zero_packet (timepico_new 1 2))]"
proof -
  obtain st fb where o: "stream_ethernet_open sample_calls (Some [1, 0, 0, 0, 0, 1]) (Some ''eth0'') 0 = (0, Some (st, fb))"
    "eth_rest (fb_frame_size fb) st = Some [[captured (zero_packet (timepico_new 1 2))]]" using sample_open by blast
  have "calls_wf sample_calls" by (simp add: calls_wf_def sample_calls_def)
  from ethernet_reader_fifo [OF o(1) this o(2) run_start, of None] o(1) show ?thesis by auto
qed

text \<open>
  Claim C35. Frames of one sender with consecutive sequence numbers, from any start, are all delivered: no
  number is reported as a gap, although the expected number is kept below \<open>0xFFFF\<close> and wraps to 0, where
  any number is accepted next.
\<close>

theorem ethernet_in_order:
  assumes "\<forall>k<length shs. good_version (shs ! k) \<and> unat (ntohl (sh_sequencenr (shs ! k))) = n + k"
    and "i < length seqs" "seqs ! i = 0 \<or> unat (seqs ! i) = n" "n + length shs < 2 ^ 32"
  shows "\<exists>seqs'. seq_run lb seqs i shs = Inr (replicate (length shs) True, seqs') \<and> length seqs' = length seqs"
  using assms
proof (induction shs arbitrary: n seqs)
  case Nil
  then show ?case by simp
next
  case (Cons sh shs)
  have sh: "good_version sh" "unat (ntohl (sh_sequencenr sh)) = n" using Cons.prems(1) by force+
  have rest: "\<forall>k<length shs. good_version (shs ! k) \<and> unat (ntohl (sh_sequencenr (shs ! k))) = (n + 1) + k"
    using Cons.prems(1) by force
  have "n + 1 < 2 ^ 32" using Cons.prems(4) by simp
  from check_sequence_in_order [OF sh(1) Cons.prems(2) sh(2) this Cons.prems(3), of lb] obtain s where
    s: "check_sequence lb seqs i sh = Inr (True, seqs[i := s])" "s = 0 \<or> unat s = n + 1" by blast
  from Cons.IH [OF rest, of "seqs[i := s]"] s(2) Cons.prems(2,4) obtain seqs' where
    "seq_run lb (seqs[i := s]) i shs = Inr (replicate (length shs) True, seqs')" "length seqs' = length seqs" by auto
  with s(1) show ?case by simp
qed

theorem ethernet_in_order_witness:
  "\<exists>seqs'. seq_run False (replicate MAX_ADDRESS 0) 3 [sample_head 1] = Inr (replicate (length [sample_head 1]) True, seqs') \<and>
    length seqs' = length (replicate MAX_ADDRESS (0 :: u64))"
  by (rule ethernet_in_order [where n = 0])
    (simp_all add: MAX_ADDRESS_def good_version_def is_valid_version_def sample_head_def VERSION_MAJOR_def VERSION_MINOR_def
      ntohs_def le16_def ntohl_def le32_def)

text \<open>
  On a loopback interface the copy of a frame that was just received is delivered to the reader
  a second time: only the sequence number is left alone. Without the loopback flag any other number
  than the expected one ends the program.
\<close>

lemma ethernet_duplicate:
  assumes "seqs ! i \<noteq> 0" "sint (ucast (seqs ! i) :: u32) = c_int (sint (ntohl (sh_sequencenr sh)) + 1)" "i < length seqs"
  shows "check_sequence True seqs i sh = Inr (True, seqs) \<and>
    (sint (ucast (seqs ! i) :: u32) \<noteq> sint (ntohl (sh_sequencenr sh)) \<longrightarrow> check_sequence False seqs i sh = Inl Aborted)"
  using assms by (simp add: check_sequence_def match_inc_seqnr_def Let_def)

end
