(* ===== verification/Stream_Udp.thy ===== *)
theory Stream_Udp
  imports Stream_Ethernet
begin

text \<open>
  UDP streams (\<open>src/stream_udp.c\<close>): the second provider of the contract of the frame buffer. A datagram
  is a measurement frame without lower headers; unlike the ethernet stream nothing about it is checked.
\<close>

section \<open>State\<close>

datatype urx = Urx_timeout | Urx_error | Urx_closed | Urx u32 "u8 list"   \<comment> \<open>sender and data\<close>

record stream_udp =
  su_events :: "urx list"
  su_sent :: "u8 list list"
  su_if_index :: int
  su_address :: "u32 list"
  su_seqnum :: "u32 list"

definition is_multicast :: "u32 \<Rightarrow> bool" where
  "is_multicast addr \<longleftrightarrow> addr AND htonl 0xf0000000 = htonl 0xe0000000"

section \<open>Reading and writing\<close>

definition udp_match_ma_pkt :: "stream_udp stream \<Rightarrow> u32 \<Rightarrow> int" where
  "udp_match_ma_pkt st src =
     (case address_index 0 (take (st_num_addresses st) (su_address (st_src st))) src of
        Some i \<Rightarrow> int i
      | None \<Rightarrow> - 1)"

definition udp_next :: "urx list \<Rightarrow> stream_udp stream \<Rightarrow> stream_udp stream" where
  "udp_next es st = st\<lparr>st_src := (st_src st)\<lparr>su_events := es\<rparr>\<rparr>"

text \<open>A datagram that matches no address gives \<open>EAGAIN\<close>, which the caller takes for success.\<close>

definition stream_udp_read_frame :: "stream_udp read_frame_cb" where
  "stream_udp_read_frame st dst timeout =
     (case su_events (st_src st) of
        Urx src data # es \<Rightarrow>
          let data = take (st_if_mtu st) data; dst = data @ drop (length data) dst in
          if data = [] then Inr (0, dst, udp_next es st)
          else if udp_match_ma_pkt st src = - 1 then Inr (EAGAIN, dst, udp_next es st)
          else Inr (1, dst, udp_next es st)
      | _ # es \<Rightarrow> Inr (0, dst, udp_next es st)
      | [] \<Rightarrow> Inr (0, dst, st))"

definition stream_udp_read ::
  "nat \<Rightarrow> ('b \<Rightarrow> mem \<Rightarrow> u32 \<Rightarrow> u32 \<Rightarrow> u32) \<Rightarrow> timeval option \<Rightarrow>
   stream_udp stream \<times> frame_buffer \<times> 'b cap_filter option \<Rightarrow>
   (int \<times> (nat \<times> cap_header) option \<times> stream_udp stream \<times> frame_buffer \<times> 'b cap_filter option) res option" where
  "stream_udp_read fuel bpf timeout x = stream_frame_buffer_read fuel stream_udp_read_frame bpf timeout x"

definition stream_udp_write :: "int option \<Rightarrow> stream_udp stream \<Rightarrow> u8 list \<Rightarrow> int \<times> stream_udp stream" where
  "stream_udp_write send st data =
     (if length data > st_if_mtu st then (EINVAL, st)
      else case send of
        Some errno \<Rightarrow> (errno, st)
      | None \<Rightarrow> (0, st\<lparr>st_src := (st_src st)\<lparr>su_sent := su_sent (st_src st) @ [data]\<rparr>\<rparr>))"

section \<open>Opening\<close>

definition stream_udp_add :: "int option \<Rightarrow> stream_udp stream \<Rightarrow> u32 \<Rightarrow> int \<times> stream_udp stream" where
  "stream_udp_add setsockopt st addr =
     (if st_num_addresses st = MAX_ADDRESS then (EBUSY, st)
      else if \<not> is_multicast addr then (ERROR_INVALID_MULTICAST, st)
      else
        let st = st\<lparr>st_src := (st_src st)\<lparr>su_address := (su_address (st_src st))[st_num_addresses st := addr]\<rparr>\<rparr> in
        case setsockopt of
          Some errno \<Rightarrow> (errno, st)
        | None \<Rightarrow> (0, st\<lparr>st_num_addresses := st_num_addresses st + 1\<rparr>))"

record udp_calls =
  uc_iface_get :: "int + iface"
  uc_getsockopt :: "int + nat"     \<comment> \<open>the MTU of a connected socket\<close>
  uc_socket :: "int option"
  uc_bind :: "int option"
  uc_connect :: "int option"
  uc_setsockopt :: "int option"
  uc_events :: "urx list"

definition estimate_mtu :: "udp_calls \<Rightarrow> string option \<Rightarrow> nat" where
  "estimate_mtu calls iface =
     (case iface of
        Some _ \<Rightarrow> (case uc_iface_get calls of Inr ifstat \<Rightarrow> if_mtu ifstat | Inl _ \<Rightarrow> 1500)
      | None \<Rightarrow> (case uc_getsockopt calls of Inr mtu \<Rightarrow> mtu | Inl _ \<Rightarrow> 1500))"

definition stream_udp_init :: "udp_calls \<Rightarrow> nat \<Rightarrow> int \<times> (stream_udp stream \<times> frame_buffer) option" where
  "stream_udp_init calls mtu =
     (case uc_socket calls of
        Some errno \<Rightarrow> (errno, None)
      | None \<Rightarrow>
          let num_frames = 250;
              st = stream_alloc PROTOCOL_UDP_MULTICAST (stream_frame_buffer_size num_frames mtu) mtu
                     \<lparr>su_events = uc_events calls, su_sent = [], su_if_index = 0,
                      su_address = replicate MAX_ADDRESS 0, su_seqnum = replicate MAX_ADDRESS 0\<rparr> in
          (0, Some (st, stream_frame_init num_frames mtu)))"

definition stream_udp_create :: "udp_calls \<Rightarrow> string option \<Rightarrow> int \<times> (stream_udp stream \<times> frame_buffer) option" where
  "stream_udp_create calls iface =
     (case stream_udp_init calls (estimate_mtu calls iface) of
        (ret, None) \<Rightarrow> (ret, None)
      | (ret, Some (st, fb)) \<Rightarrow> (case uc_connect calls of Some _ \<Rightarrow> (- 1, None) | None \<Rightarrow> (0, Some (st, fb))))"

definition stream_udp_open ::
  "udp_calls \<Rightarrow> u32 \<Rightarrow> string option \<Rightarrow> int \<times> (stream_udp stream \<times> frame_buffer) option" where
  "stream_udp_open calls addr iface =
     (if is_multicast addr \<and> iface = None then (EINVAL, None)
      else case stream_udp_init calls (estimate_mtu calls iface) of
        (ret, None) \<Rightarrow> (ret, None)
      | (ret, Some (st, fb)) \<Rightarrow>
          (case uc_bind calls of
             Some _ \<Rightarrow> (- 1, None)
           | None \<Rightarrow>
               if is_multicast addr
               then (case stream_udp_add (uc_setsockopt calls) st addr of (ret, st) \<Rightarrow> (ret, Some (st, fb)))
               else (0, Some (st, fb))))"

section \<open>What a socket will deliver\<close>

fun udp_future :: "nat \<Rightarrow> urx list \<Rightarrow> cap_header list list option" where
  "udp_future mtu [] = Some []"
| "udp_future mtu (Urx src bs # es) =
     (if mtu < length bs then None
      else case decode_frame 0 bs of
        None \<Rightarrow> None
      | Some (sh, ps) \<Rightarrow> if ps = [] then None else map_option ((#) ps) (udp_future mtu es))"
| "udp_future mtu (_ # es) = udp_future mtu es"

definition udp_good :: "nat \<Rightarrow> stream_udp stream \<Rightarrow> bool" where
  "udp_good mtu st \<longleftrightarrow> st_if_mtu st = mtu \<and> udp_future mtu (su_events (st_src st)) \<noteq> None"

definition udp_frames :: "nat \<Rightarrow> stream_udp stream \<Rightarrow> cap_header list list" where
  "udp_frames mtu st = the (udp_future mtu (su_events (st_src st)))"

lemma udp_read_frame_ok:
  assumes "udp_future mtu (su_events (st_src st)) = Some fs" "st_if_mtu st = mtu" "length dst = mtu"
  shows "\<exists>ret slot es. stream_udp_read_frame st dst t = Inr (ret, slot, udp_next es st) \<and> length slot = mtu \<and>
    (if ret = 0 then udp_future mtu es = Some fs
     else \<exists>ps gs. fs = ps # gs \<and> udp_future mtu es = Some gs \<and> slot_frame 0 slot ps)"
proof (cases "su_events (st_src st)")
  case Nil
  then have "st = udp_next [] st" by (simp add: udp_next_def)
  with Nil show ?thesis using assms
    by (intro exI [of _ 0] exI [of _ dst] exI [of _ "[]"]) (simp add: stream_udp_read_frame_def)
next
  case (Cons e es)
  show ?thesis
  proof (cases e)
    case (Urx src bs)
    obtain sh ps gs where d: "decode_frame 0 bs = Some (sh, ps)" "ps \<noteq> []" "udp_future mtu es = Some gs" "fs = ps # gs"
      "length bs \<le> mtu"
      using assms(1) Cons Urx by (auto split: if_splits option.splits)
    obtain b: "bs = frame_bytes sh ps" "nopkts sh = length ps" "\<forall>p\<in>set ps. packet_wf p"
      using decode_frame_sound [OF d(1)] by auto
    then have ne: "bs \<noteq> []" by (simp add: frame_bytes_def sendhead_bytes_def bytes32_def)
    have "slot_frame 0 (bs @ drop (length bs) dst) ps"
      using b d(2) by (auto simp: slot_frame_def)
    moreover have "\<exists>r. r \<noteq> 0 \<and> stream_udp_read_frame st dst t = Inr (r, bs @ drop (length bs) dst, udp_next es st)"
      using Cons Urx ne d(5) assms(2) length_greater_0_conv [of bs] by (auto simp: stream_udp_read_frame_def Let_def EAGAIN_def simp del: length_greater_0_conv)
    ultimately show ?thesis using d assms(3) by fastforce
  qed (use assms Cons in \<open>auto simp: stream_udp_read_frame_def\<close>)
qed

text \<open>The UDP stream keeps the contract of the frame buffer, as long as the senders do.\<close>

interpretation udp: frame_source stream_udp_read_frame 0 mtu "udp_good mtu" "udp_frames mtu" for mtu
proof (unfold_locales, goal_cases)
  case (1 st slot t)
  then obtain fs where "udp_future mtu (su_events (st_src st)) = Some fs" "st_if_mtu st = mtu" by (auto simp: udp_good_def)
  then show ?case using udp_read_frame_ok [of mtu st fs slot t] 1(2) by auto
next
  case (2 st slot t ret slot' st')
  then obtain fs where "udp_future mtu (su_events (st_src st)) = Some fs" "st_if_mtu st = mtu" by (auto simp: udp_good_def)
  then show ?case using udp_read_frame_ok [of mtu st fs slot t] 2(2,3)
    by (auto simp: udp_good_def udp_next_def split: if_splits)
next
  case (3 st slot t slot' st')
  then obtain fs where "udp_future mtu (su_events (st_src st)) = Some fs" "st_if_mtu st = mtu" by (auto simp: udp_good_def)
  then show ?case using udp_read_frame_ok [of mtu st fs slot t] 3(2,3) by (auto simp: udp_frames_def udp_next_def)
next
  case (4 st slot t ret slot' st')
  then obtain fs where "udp_future mtu (su_events (st_src st)) = Some fs" "st_if_mtu st = mtu" by (auto simp: udp_good_def)
  then show ?case using udp_read_frame_ok [of mtu st fs slot t] 4(2,3,4) by (auto simp: udp_frames_def udp_next_def)
next
  case (5 st st')
  then show ?case by (simp add: udp_good_def udp_frames_def)
qed

section \<open>Properties\<close>

definition sample_udp :: udp_calls where
  "sample_udp = \<lparr>uc_iface_get = Inl 19, uc_getsockopt = Inr 1500, uc_socket = None, uc_bind = None, uc_connect = None,
     uc_setsockopt = None, uc_events = [Urx 7 (frame_bytes (sample_head (htonl 1)) [captured (zero_packet (timepico_new 1 2))])]\<rparr>"

text \<open>
  Claim C26. The UDP reader delivers in order, too: in every state that reads can reach from the initial
  one, when all datagrams are well-formed frames, returned, buffered and coming packets are together the
  packets that were sent. The senders play no role: the frames of every sender are delivered, whatever
  addresses the stream was opened with.
\<close>

theorem udp_reader_fifo:
  assumes "stream_udp_open calls addr iface = (0, Some (st0, fb0))" "uc_setsockopt calls \<noteq> Some 0"
    and "udp_future (st_if_mtu st0) (uc_events calls) = Some sent"
    and "fb_run stream_udp_read_frame (st0, fb0) gs (st, fb)"
  shows "\<exists>qs coming. fb_queue st fb qs \<and> udp_future (st_if_mtu st0) (su_events (st_src st)) = Some coming \<and>
    map captured gs @ concat qs @ concat coming = concat sent"
proof -
  let ?m = "estimate_mtu calls iface"
  have i: "st_if_mtu st0 = ?m" "fb0 = stream_frame_init 250 ?m" "st_readPos st0 = 0" "st_writePos st0 = 0"
    "su_events (st_src st0) = uc_events calls"
    using assms(1,2)
    by (auto simp: stream_udp_open_def stream_udp_init_def stream_udp_add_def stream_alloc_def Let_def EINVAL_def EBUSY_def
        ERROR_INVALID_MULTICAST_def split: if_splits option.splits prod.splits)
  have "fb_queue st0 fb0 []"
    using init_queue [of 250 st0 0 ?m] i(2-4) by (simp add: stream_frame_init_def)
  then have ok: "udp.fb_ok ?m st0 fb0 []"
    using i assms(3) by (simp add: udp.fb_ok_def udp_good_def stream_frame_init_def)
  from udp.fb_run_invariant [OF assms(4) refl ok] obtain qs where
    "udp.fb_ok ?m st fb qs" "map captured gs @ udp.backlog ?m st qs = concat sent"
    using i assms(3) by (auto simp: udp_frames_def)
  then show ?thesis using i(1) by (auto simp: udp.fb_ok_def udp.backlog_def udp_good_def udp_frames_def)
qed

theorem udp_reader_fifo_witness:
  "\<exists>st fb qs coming. stream_udp_open sample_udp 0 None = (0, Some (st, fb)) \<and> fb_queue st fb qs \<and>
    udp_future (st_if_mtu st) (su_events (st_src st)) = Some coming \<and>
    concat qs @ concat coming = [captured (zero_packet (timepico_new 1 2))]"
proof -
  let ?p = "captured (zero_packet (timepico_new 1 2))"
  have p: "packet_wf ?p" "ch_caplen ?p = 82" by (simp_all add: packet_wf_def header_wf_def captured_def zero_packet_def)
  have d: "decode_frame 0 ([] @ frame_bytes (sample_head (htonl 1)) [?p]) = Some (sample_head (htonl 1), [?p])"
    by (rule decode_frame_complete) (use p in \<open>simp_all add: nopkts_sample\<close>)
  have "length (frame_bytes (sample_head (htonl 1)) [?p]) = 134"
    using length_packet_bytes [OF p(1)] p(2) by (simp add: frame_bytes_def)
  with d have f: "udp_future 1500 (uc_events sample_udp) = Some [[?p]]" by (simp add: sample_udp_def)
  have "\<not> is_multicast 0" by (simp add: is_multicast_def ntohl_def le32_def)
  then obtain st fb where o: "stream_udp_open sample_udp 0 None = (0, Some (st, fb))" "st_if_mtu st = 1500"
    by (simp add: stream_udp_open_def stream_udp_init_def sample_udp_def estimate_mtu_def Let_def stream_alloc_def)
  with f have "udp_future (st_if_mtu st) (uc_events sample_udp) = Some [[?p]]" by simp
  moreover have "uc_setsockopt sample_udp \<noteq> Some 0" by (simp add: sample_udp_def)
  ultimately show ?thesis using udp_reader_fifo [OF o(1) _ _ run_start] o(1) by force
qed

end
