(* ===== verification/Stream_Peek.thy ===== *)
theory Stream_Peek
  imports Stream_File
begin

text \<open>
  Looking at the next packet (\<open>stream_peek\<close> of \<open>src/stream.c\<close>) against reading it: without a filter
  peeking gives the packet that the next read returns and consumes nothing. With a filter that rejects
  the packet it does not return.
\<close>

section \<open>Peeking without a filter\<close>

lemma window_packet:
  assumes "stream_wf st" "header_wf h" "window st = cap_header_bytes h @ w"
  shows "cap_at (st_buffer st) (st_readPos st) =
      Inr (h\<lparr>ch_payload := w @ drop (st_writePos st) (st_buffer st)\<rparr>)"
    "st_writePos st = st_readPos st + 36 + length w"
proof -
  have A: "st_readPos st = length (take (st_readPos st) (st_buffer st))"
    using assms(1) by (auto simp: stream_wf_def)
  then show "cap_at (st_buffer st) (st_readPos st) =
      Inr (h\<lparr>ch_payload := w @ drop (st_writePos st) (st_buffer st)\<rparr>)"
    using cap_at_bytes [OF assms(2) A, of "w @ drop (st_writePos st) (st_buffer st)"]
      window_split [OF assms(1)] assms(3) by simp
  show "st_writePos st = st_readPos st + 36 + length w"
    using length_window [OF assms(1)] assms length_cap_header_bytes [OF assms(2)] by (simp add: stream_wf_def)
qed

lemma window_header:
  assumes "pending rst st = cap_header_bytes h @ tail" "header_wf h" "36 \<le> length (window st)"
  shows "\<exists>w. window st = cap_header_bytes h @ w"
proof -
  have "take 36 (window st @ rst (st_src st)) = cap_header_bytes h"
    using assms(1) length_cap_header_bytes [OF assms(2)] by (simp add: pending_def)
  then have "take 36 (window st) = cap_header_bytes h" using assms(3) by simp
  then show ?thesis by (metis append_take_drop_id)
qed

context reliable_source
begin

lemma peek_step_packet:
  assumes "stream_wf st" "\<not> st_flushed st" "header_wf h" "ch_caplen h \<noteq> 0"
    and "pending rest st = cap_header_bytes h @ body @ tail" "length body = unat (ch_caplen h)"
    and "36 + unat (ch_caplen h) \<le> st_buffer_size st"
  shows "(\<exists>st'. peek_step fill bpf (st, None) = Inr (Again (st', None)) \<and> stream_wf st' \<and>
      \<not> st_flushed st' \<and> st_buffer_size st' = st_buffer_size st \<and> pending rest st' = pending rest st \<and>
      length (rest (st_src st')) < length (rest (st_src st))) \<or>
    (\<exists>more. peek_step fill bpf (st, None) =
        Inr (Done 0 (Some (st_readPos st, h\<lparr>ch_payload := body @ more\<rparr>)) (st, None)))"
proof (cases "length (window st) < 36 + unat (ch_caplen h)")
  case True
  have "36 + unat (ch_caplen h) \<le> length (pending rest st)"
    using length_cap_header_bytes [OF assms(3)] assms(5,6) by simp
  then obtain st' where f: "fill_buffer fill st tv_zero = Inr (0, st')" and st': "stream_wf st'" "\<not> st_flushed st'"
    "st_buffer_size st' = st_buffer_size st" "pending rest st' = pending rest st"
    "length (rest (st_src st')) < length (rest (st_src st))"
    using fill_progress [OF assms(1,2,3,5,7) True] by blast
  have "peek_step fill bpf (st, None) = Inr (Again (st', None))"
  proof (cases "length (window st) < 36")
    case True
    then show ?thesis using f length_window [OF assms(1)] by (simp add: peek_step_def sizeof_cap_header_def)
  next
    case False
    then obtain w where w: "window st = cap_header_bytes h @ w"
      using window_header [OF assms(5,3)] by auto
    from window_packet [OF assms(1,3) w] show ?thesis
      using False True f length_window [OF assms(1)] assms(4) w length_cap_header_bytes [OF assms(3)]
      by (simp add: peek_step_def sizeof_cap_header_def Let_def)
  qed
  with st' show ?thesis by blast
next
  case False
  then obtain w where w: "window st = cap_header_bytes h @ w"
    using window_header [OF assms(5,3)] by auto
  have wr: "w @ rest (st_src st) = body @ tail" using w assms(5) by (simp add: pending_def)
  have "unat (ch_caplen h) \<le> length w" using False w length_cap_header_bytes [OF assms(3)] by simp
  then obtain more where m: "w = body @ more"
    using wr assms(6) by (metis append_eq_append_conv_if append_take_drop_id)
  from window_packet [OF assms(1,3) w] show ?thesis
    using assms(4,6) m by (intro disjI2 exI [of _ "more @ drop (st_writePos st) (st_buffer st)"])
      (simp add: peek_step_def sizeof_cap_header_def Let_def match_opt_def)
qed

lemma stream_peek_packet:
  assumes "stream_wf st" "\<not> st_flushed st" "header_wf h" "ch_caplen h \<noteq> 0"
    and "pending rest st = cap_header_bytes h @ body @ tail" "length body = unat (ch_caplen h)"
    and "36 + unat (ch_caplen h) \<le> st_buffer_size st" "length (rest (st_src st)) < fuel"
  shows "\<exists>pos more st'. stream_peek fuel fill bpf (st, None) =
      Some (Inr (0, Some (pos, h\<lparr>ch_payload := body @ more\<rparr>), st', None)) \<and> stream_wf st' \<and>
    \<not> st_flushed st' \<and> st_buffer_size st' = st_buffer_size st \<and> pending rest st' = pending rest st \<and>
    length (rest (st_src st')) < fuel"
  using assms
proof (induction fuel arbitrary: st)
  case 0
  then show ?case by simp
next
  case (Suc fuel)
  from peek_step_packet [OF Suc.prems(1-7), of bpf] show ?case
  proof
    assume "\<exists>st'. peek_step fill bpf (st, None) = Inr (Again (st', None)) \<and> stream_wf st' \<and>
      \<not> st_flushed st' \<and> st_buffer_size st' = st_buffer_size st \<and> pending rest st' = pending rest st \<and>
      length (rest (st_src st')) < length (rest (st_src st))"
    then obtain st' where st': "peek_step fill bpf (st, None) = Inr (Again (st', None))" "stream_wf st'"
      "\<not> st_flushed st'" "st_buffer_size st' = st_buffer_size st" "pending rest st' = pending rest st"
      "length (rest (st_src st')) < length (rest (st_src st))" by blast
    from Suc.IH [of st'] st' Suc.prems obtain pos more st'' where
      "stream_peek fuel fill bpf (st', None) = Some (Inr (0, Some (pos, h\<lparr>ch_payload := body @ more\<rparr>), st'', None))"
      "stream_wf st''" "\<not> st_flushed st''" "st_buffer_size st'' = st_buffer_size st"
      "pending rest st'' = pending rest st" "length (rest (st_src st'')) < fuel" by auto
    with st'(1) show ?thesis by (auto simp: stream_peek_def)
  qed (use Suc.prems in \<open>auto simp: stream_peek_def\<close>)
qed

lemma stream_peek_end:
  assumes "stream_wf st" "\<not> st_flushed st" "pending rest st = []"
  shows "\<exists>st'. stream_peek (Suc fuel) fill bpf (st, None) = Some (Inr (- 1, None, st', None))"
proof -
  have w: "window st = []" "rest (st_src st) = []" using assms(3) by (simp_all add: pending_def)
  obtain ret st' where f: "fill_buffer fill st tv_zero = Inr (ret, st')"
    and r0: "ret = 0 \<longrightarrow> length (rest (st_src st')) < length (rest (st_src st)) \<or> (drained st = Inr False \<and> st' = st)"
    using fill_buffer_spec [OF assms(1,2), of tv_zero] by blast
  have "drained st \<noteq> Inr False" using drained_False(2) [OF assms(1)] w by auto
  then have "ret = - 1" using r0 w fill_buffer_reliable [OF assms(1,2) f] by auto
  moreover have "st_writePos st - st_readPos st < sizeof_cap_header"
    using length_window [OF assms(1)] w by (simp add: sizeof_cap_header_def)
  ultimately show ?thesis using f by (simp add: stream_peek_def peek_step_def)
qed

end

section \<open>Peeking with a filter\<close>

text \<open>A filter without criteria on the frames seen before.\<close>

definition frame_free :: "'b cap_filter \<Rightarrow> bool" where
  "frame_free flt \<longleftrightarrow> f_frame_num flt = [] \<and> \<not> filter_has flt OFFSET_FRAME_MAX_DT"

text \<open>The filters that differ in the state of the frames seen only.\<close>

definition same_criteria :: "'b cap_filter \<Rightarrow> 'b cap_filter \<Rightarrow> bool" where
  "same_criteria flt flt' \<longleftrightarrow> (\<exists>t b c. flt' = flt\<lparr>f_frame_last_ts := t, f_first := b, f_frame_counter := c\<rparr>)"

lemma same_criteria_upd [simp, intro]:
  assumes "same_criteria flt g"
  shows "same_criteria flt (g\<lparr>f_frame_last_ts := t\<rparr>)" "same_criteria flt (g\<lparr>f_first := b\<rparr>)"
    "same_criteria flt (g\<lparr>f_frame_counter := c\<rparr>)"
proof -
  obtain t' b' c' where g: "g = flt\<lparr>f_frame_last_ts := t', f_first := b', f_frame_counter := c'\<rparr>"
    using assms by (auto simp: same_criteria_def)
  have "g\<lparr>f_frame_last_ts := t\<rparr> = flt\<lparr>f_frame_last_ts := t, f_first := b', f_frame_counter := c'\<rparr>"
    "g\<lparr>f_first := b\<rparr> = flt\<lparr>f_frame_last_ts := t', f_first := b, f_frame_counter := c'\<rparr>"
    "g\<lparr>f_frame_counter := c\<rparr> = flt\<lparr>f_frame_last_ts := t', f_first := b', f_frame_counter := c\<rparr>"
    by (simp_all add: g)
  then show "same_criteria flt (g\<lparr>f_frame_last_ts := t\<rparr>)" "same_criteria flt (g\<lparr>f_first := b\<rparr>)"
    "same_criteria flt (g\<lparr>f_frame_counter := c\<rparr>)"
    unfolding same_criteria_def by blast+
qed

lemma same_criteria_facts:
  assumes "same_criteria flt g" "frame_free flt"
  shows "f_frame_num g = []" "f_index g = f_index flt" "filter_core g pkt head = filter_core flt pkt head"
proof -
  obtain t b c where g: "g = flt\<lparr>f_frame_last_ts := t, f_first := b, f_frame_counter := c\<rparr>"
    using assms(1) by (auto simp: same_criteria_def)
  have "filter_tests g pkt head v = filter_tests flt pkt head v" for v
    using assms(2) unfolding g
    by (simp add: test_defs filter_frame_dt_def filter_frame_num_def filter_has_def frame_free_def cong: option.case_cong)
  moreover have "f_mode g = f_mode flt" "f_index g = f_index flt" unfolding g by simp_all
  ultimately show "filter_core g pkt head = filter_core flt pkt head" by (simp add: filter_core_def cong: if_cong)
  show "f_frame_num g = []" "f_index g = f_index flt" using assms(2) unfolding g frame_free_def by simp_all
qed

lemma filter_match_rejects:
  assumes "frame_free flt" "f_index flt \<noteq> 0" "filter_core flt pkt head = Inr False" "same_criteria flt g"
  shows "\<exists>g'. filter_match bpf g pkt head = Inr (False, g') \<and> same_criteria flt g'"
proof -
  define g1 where "g1 = (if f_first g then g\<lparr>f_frame_last_ts := ch_ts head, f_first := False\<rparr> else g)"
  have s: "same_criteria flt g1" using assms(4) by (simp add: g1_def)
  note f = same_criteria_facts [OF s assms(1)]
  have "prune_ranges g1 = g1" using f(1) by (simp add: prune_ranges_def)
  then have "filter_match bpf g pkt head = Inr (False, g1\<lparr>f_frame_counter := c_int (f_frame_counter g1 + 1)\<rparr>)"
    using f(2,3) assms(2,3) by (simp add: filter_match_def g1_def [symmetric])
  with s show ?thesis by blast
qed

lemma peek_step_rejects:
  assumes "36 \<le> st_writePos st - st_readPos st" "cap_at (st_buffer st) (st_readPos st) = Inr cp" "ch_caplen cp \<noteq> 0"
    and "st_readPos st + 36 + unat (ch_caplen cp) \<le> st_writePos st"
    and "frame_free flt" "f_index flt \<noteq> 0" "filter_core flt (ch_payload cp) cp = Inr False" "same_criteria flt g"
  shows "\<exists>g'. peek_step fill bpf (st, Some g) = Inr (Again (st, Some g')) \<and> same_criteria flt g'"
  using filter_match_rejects [OF assms(5-8), of bpf] assms(1-4)
  by (auto simp: peek_step_def sizeof_cap_header_def Let_def match_opt_def)

lemma peek_rejects_forever:
  assumes "36 \<le> st_writePos st - st_readPos st" "cap_at (st_buffer st) (st_readPos st) = Inr cp" "ch_caplen cp \<noteq> 0"
    and "st_readPos st + 36 + unat (ch_caplen cp) \<le> st_writePos st"
    and "frame_free flt" "f_index flt \<noteq> 0" "filter_core flt (ch_payload cp) cp = Inr False" "same_criteria flt g"
  shows "stream_peek fuel fill bpf (st, Some g) = None"
  using assms(8)
proof (induction fuel arbitrary: g)
  case (Suc fuel)
  from peek_step_rejects [OF assms(1-7) Suc.prems, of fill bpf] Suc.IH show ?case
    by (auto simp: stream_peek_def)
qed (simp add: stream_peek_def)

section \<open>Properties\<close>

text \<open>
  Claim C7. On a file stream, peeking without a filter returns the next packet and consumes nothing:
  reading afterwards returns the same packet, and what is left is what follows it.
\<close>

theorem peek_then_read:
  assumes "stream_wf st" "\<not> st_flushed st" "packet_wf h" "ch_caplen h \<noteq> 0"
    and "pending file_rest st = packet_bytes h @ tail"
    and "36 + unat (ch_caplen h) \<le> st_buffer_size st" "length (file_rest (st_src st)) < fuel"
  shows "\<exists>p g st1 q g' st2.
    stream_peek fuel (stream_file_fillbuffer good_medium) bpf (st, None) = Some (Inr (0, Some (p, g), st1, None)) \<and>
    stream_read fuel (stream_file_fillbuffer good_medium) bpf timeout (st1, None) = Some (Inr (0, Some (q, g'), st2, None)) \<and>
    captured g = h \<and> captured g' = h \<and> pending file_rest st1 = pending file_rest st \<and> pending file_rest st2 = tail"
proof -
  have h: "header_wf h" "length (ch_payload h) = unat (ch_caplen h)" using assms(3) by (simp_all add: packet_wf_def)
  have p: "pending file_rest st = cap_header_bytes h @ ch_payload h @ tail" using assms(5) by (simp add: packet_bytes_def)
  obtain pos more st1 where 1: "stream_peek fuel (stream_file_fillbuffer good_medium) bpf (st, None) =
      Some (Inr (0, Some (pos, h\<lparr>ch_payload := ch_payload h @ more\<rparr>), st1, None))" "stream_wf st1" "\<not> st_flushed st1"
    "st_buffer_size st1 = st_buffer_size st" "pending file_rest st1 = pending file_rest st"
    "length (file_rest (st_src st1)) < fuel"
    using file_stream.stream_peek_packet [OF assms(1,2) h(1) assms(4) p h(2) assms(6,7), of bpf] by blast
  have p1: "pending file_rest st1 = cap_header_bytes h @ ch_payload h @ tail" using 1(5) p by simp
  obtain pos' more' st2 where 2: "stream_read fuel (stream_file_fillbuffer good_medium) bpf timeout (st1, None) =
      Some (Inr (0, Some (pos', h\<lparr>ch_payload := ch_payload h @ more'\<rparr>), st2, None))" "pending file_rest st2 = tail"
    using file_stream.stream_read_packet [OF 1(2,3) h(1) p1 h(2) _ 1(6), of bpf timeout] 1(4) assms(6) by auto
  have "captured (h\<lparr>ch_payload := ch_payload h @ m\<rparr>) = h" for m using h(2) by (simp add: captured_def)
  with 1 2 show ?thesis by blast
qed

definition peek_stream :: "stream_file stream" where
  "peek_stream = stream_alloc PROTOCOL_LOCAL_FILE 200 0
     \<lparr>sf_file = \<lparr>cf_data = packet_bytes (zero_packet (timepico_new 1 2)), cf_pos = 0\<rparr>, sf_force_flush = False\<rparr>"

lemma peek_stream_facts:
  "stream_wf peek_stream" "\<not> st_flushed peek_stream" "packet_wf (zero_packet t)" "ch_caplen (zero_packet t) \<noteq> 0"
  "pending file_rest peek_stream = packet_bytes (zero_packet (timepico_new 1 2)) @ []" "st_buffer_size peek_stream = 200"
  "unat (ch_caplen (zero_packet t)) = 82"
  by (simp_all add: peek_stream_def stream_alloc_wf stream_alloc_pending file_rest_def)
    (simp_all add: stream_alloc_def packet_wf_def header_wf_def zero_packet_def Let_def)

theorem peek_then_read_witness:
  "\<exists>p g st1 q g' st2.
    stream_peek 200 (stream_file_fillbuffer good_medium) (\<lambda>_ _ _ _. 0) (peek_stream, None :: unit cap_filter option) =
      Some (Inr (0, Some (p, g), st1, None)) \<and>
    stream_read 200 (stream_file_fillbuffer good_medium) (\<lambda>_ _ _ _. 0) None (st1, None :: unit cap_filter option) =
      Some (Inr (0, Some (q, g'), st2, None)) \<and>
    captured g = zero_packet (timepico_new 1 2) \<and> captured g' = zero_packet (timepico_new 1 2) \<and>
    pending file_rest st1 = pending file_rest peek_stream \<and> pending file_rest st2 = []"
  by (rule peek_then_read)
    (use peek_stream_facts length_cap_header_bytes [of "zero_packet (timepico_new 1 2)"] in
      \<open>simp_all add: packet_wf_def peek_stream_def file_rest_def packet_bytes_def\<close>)

text \<open>
  Claim C40. Peeking with a filter that rejects the packet at the head of the buffer never returns,
  whatever the source: the packet is tested again and again, since nothing advances the read position.
\<close>

theorem stream_peek_filter_diverges:
  assumes "36 \<le> st_writePos st - st_readPos st" "cap_at (st_buffer st) (st_readPos st) = Inr cp" "ch_caplen cp \<noteq> 0"
    and "st_readPos st + 36 + unat (ch_caplen cp) \<le> st_writePos st"
    and "f_frame_num flt = []" "\<not> filter_has flt OFFSET_FRAME_MAX_DT" "f_index flt \<noteq> 0"
    and "filter_core flt (ch_payload cp) cp = Inr False"
  shows "\<forall>fuel. stream_peek fuel fill bpf (st, Some flt) = None"
proof -
  have "same_criteria flt flt"
    unfolding same_criteria_def by (intro exI [of _ "f_frame_last_ts flt"] exI [of _ "f_first flt"]
        exI [of _ "f_frame_counter flt"]) simp
  then show ?thesis
    using peek_rejects_forever [OF assms(1-4) _ assms(7,8)] assms(5,6) by (simp add: frame_free_def)
qed

definition peeked_stream :: "unit stream" where
  "peeked_stream = (stream_alloc PROTOCOL_LOCAL_FILE 118 0 ())
     \<lparr>st_buffer := packet_bytes (zero_packet (timepico_new 1 2)), st_writePos := 118\<rparr>"

abbreviation port80 :: "unit cap_filter" where
  "port80 \<equiv> filter_zero\<lparr>f_mode := FILTER_AND, f_index := filter_bit OFFSET_SRC_PORT, f_src_port := 80\<rparr>"

lemma port80_has: "k < 32 \<Longrightarrow> filter_has port80 k \<longleftrightarrow> k = OFFSET_SRC_PORT"
  by (rule filter_has_only) simp_all

lemma port80_rejects: "filter_core port80 (replicate 82 0) (zero_packet t) = Inr False"
proof -
  obtain v where v: "filter_view (replicate 82 0) = Inr v" "v_vlan v \<in> {None, Some 0}"
    "\<forall>off. v_ip v = Some off \<longrightarrow> off \<le> 18" using filter_view_readable [OF zero_packet_readable] by blast
  have "no_fault (filter_tests port80 (replicate 82 0) (zero_packet t) v)"
    by (rule tests_readable [OF zero_packet_readable v(2,3)]) (simp_all add: zero_packet_def filter_zero_def)
  then have c: "filter_core port80 (replicate 82 0) (zero_packet t) = Inr (\<forall>off<16. filter_has port80 off \<longrightarrow>
      (Inr True, off) \<in> set (filter_tests port80 (replicate 82 0) (zero_packet t) v))"
    by (intro filter_core_spec(1) [OF v(1)]) (simp_all add: filter_bit_def, simp add: filter_zero_def)
  have "(Inr True, OFFSET_SRC_PORT) \<notin> set (filter_tests port80 (replicate 82 0) (zero_packet t) v)"
    by (simp add: filter_tests_def filter_src_port_def filter_zero_def)
  moreover have "filter_has port80 OFFSET_SRC_PORT" "OFFSET_SRC_PORT < (16 :: nat)" using port80_has by simp_all
  ultimately show ?thesis unfolding c sum.inject by blast
qed

theorem stream_peek_filter_diverges_witness:
  "\<forall>fuel. stream_peek fuel (\<lambda>s _ _. (Fill_bytes [], s)) (\<lambda>_ _ _ _. 0) (peeked_stream, Some port80) = None"
proof (rule stream_peek_filter_diverges)
  let ?z = "zero_packet (timepico_new 1 2)"
  show "cap_at (st_buffer peeked_stream) (st_readPos peeked_stream) = Inr ?z"
    using cap_at_bytes [of ?z 0 "[]" "ch_payload ?z"] peek_stream_facts(3) [of "timepico_new 1 2"]
    by (simp add: peeked_stream_def packet_bytes_def stream_alloc_def packet_wf_def)
  show "filter_core port80 (ch_payload ?z) ?z = Inr False"
    using port80_rejects [of "timepico_new 1 2"] by (simp add: zero_packet_def)
  show "\<not> filter_has port80 OFFSET_FRAME_MAX_DT" using port80_has [of OFFSET_FRAME_MAX_DT] by simp
  show "f_index port80 \<noteq> 0" by (simp add: filter_bit_def)
qed (simp_all add: peeked_stream_def stream_alloc_def peek_stream_facts filter_zero_def)

end
