(* ===== verification/Stream_Api.thy ===== *)
theory Stream_Api
  imports Stream_Udp Stream_Peek
begin

text \<open>
  The interface of the streams (\<open>src/stream.c\<close>, \<open>src/error.c\<close>): opening, creating and closing by
  address type, dispatch to the kind of stream, opening from a command line, and the descriptions of
  error codes.

  What the operating system does is the record \<open>sysenv\<close>; \<open>fs_unlinked\<close> collects the names that
  were removed.
\<close>

section \<open>Errors\<close>

definition ERROR_FIRST :: u32 where "ERROR_FIRST = 0x8000"
definition ERROR_CAPFILE_FIFO_EXIST :: int where "ERROR_CAPFILE_FIFO_EXIST = 0x8003"
definition ERROR_NOT_IMPLEMENTED :: int where "ERROR_NOT_IMPLEMENTED = 0x800A"
definition EEXIST :: int where "EEXIST = 17"

definition errstr :: "string option list" where
  "errstr =
     [None,
      Some ''not a valid capfile.'',
      Some ''file is truncated.'',
      Some ''filename already exists, ensure no other process is using this FIFO already'',
      Some ''unsupported protocol'',
      Some ''failed to parse hwaddr'',
      Some ''invalid address, expected multicast'',
      Some ''invalid interface'',
      Some ''read buffer must be greater than MTU'',
      Some ''buffer size must be a multiple of MTU'',
      Some ''feature not implemented.'']"

text \<open>\<open>None\<close> is the null pointer; an index outside of the table is out of bounds.\<close>

definition caputils_error_string :: "(int \<Rightarrow> string) \<Rightarrow> int \<Rightarrow> string option res" where
  "caputils_error_string strerror code =
     (if code = - 1 then Inr (Some ''stream eof\<newline>'')
      else
        let w = word_of_int code :: u32 in
        if w AND ERROR_FIRST \<noteq> 0 then
          let i = unat (w XOR ERROR_FIRST) in
          if i < length errstr then Inr (errstr ! i) else Inl Out_of_bounds
        else Inr (Some (strerror code)))"

section \<open>Kinds of streams\<close>

datatype any_stream =
    File_stream "stream_file stream"
  | Eth_stream "stream_ethernet stream" frame_buffer
  | Udp_stream "stream_udp stream" frame_buffer

record sysenv =
  sys_medium :: medium
  sys_mkfifo :: "string \<Rightarrow> int option"
  sys_fopen :: "string \<Rightarrow> int + cfile"
  sys_fp :: "nat \<Rightarrow> cfile"
  sys_eth :: eth_calls
  sys_udp :: udp_calls
  sys_isatty :: bool

fun set_addr :: "stream_addr \<Rightarrow> any_stream \<Rightarrow> any_stream" where
  "set_addr a (File_stream st) = File_stream (st\<lparr>st_addr := a\<rparr>)"
| "set_addr a (Eth_stream st fb) = Eth_stream (st\<lparr>st_addr := a\<rparr>) fb"
| "set_addr a (Udp_stream st fb) = Udp_stream (st\<lparr>st_addr := a\<rparr>) fb"

text \<open>The field \<open>filename\<close> of the union, or \<open>local_filename\<close>, by the flag.\<close>

definition sa_filename :: "stream_addr \<Rightarrow> string res" where
  "sa_filename dest =
     (if stream_addr_have_flag dest STREAM_ADDR_LOCAL then sa_string dest
      else rbind (sa_bytes dest) (\<lambda>b. cstr (map char_of_byte (take 22 b))))"

definition sa_file_pointer :: "stream_addr \<Rightarrow> nat res" where
  "sa_file_pointer dest = (case sa_data dest of Sa_fp n \<Rightarrow> Inr n | _ \<Rightarrow> Inl Dangling)"

definition file_result :: "int \<times> stream_file stream option \<Rightarrow> int \<times> any_stream option" where
  "file_result = (\<lambda>(ret, st). (ret, map_option File_stream st))"

definition eth_result :: "int \<times> (stream_ethernet stream \<times> frame_buffer) option \<Rightarrow> int \<times> any_stream option" where
  "eth_result = (\<lambda>(ret, r). (ret, map_option (\<lambda>(st, fb). Eth_stream st fb) r))"

definition udp_result :: "int \<times> (stream_udp stream \<times> frame_buffer) option \<Rightarrow> int \<times> any_stream option" where
  "udp_result = (\<lambda>(ret, r). (ret, map_option (\<lambda>(st, fb). Udp_stream st fb) r))"

text \<open>A stream that was opened gets the address; the third component is the name that was unlinked.\<close>

definition store_addr ::
  "stream_addr \<Rightarrow> int \<times> any_stream option \<Rightarrow> string option \<Rightarrow> (int \<times> any_stream option \<times> string option) res" where
  "store_addr dest r unlinked =
     (case r of
        (ret, st) \<Rightarrow>
          if ret = 0 then
            (case st of None \<Rightarrow> Inl Null_deref | Some s \<Rightarrow> Inr (0, Some (set_addr dest s), unlinked))
          else Inr (ret, st, unlinked))"

text \<open>
  The type of an address is unsigned, so the label \<open>STREAM_ADDR_GUESS\<close>, which is -1, is never taken: an
  unknown type leaves the initial value of \<open>ret\<close>.
\<close>

definition stream_open ::
  "sysenv \<Rightarrow> stream_addr \<Rightarrow> string option \<Rightarrow> nat \<Rightarrow> (int \<times> any_stream option \<times> string option) res" where
  "stream_open sys dest iface buffer_size =
     (let type = stream_addr_type dest in
      if type = address_type_num STREAM_ADDR_ETHERNET then
        rbind (sa_ether_addr dest) (\<lambda>addr.
          store_addr dest (eth_result (stream_ethernet_open (sys_eth sys) (Some addr) iface buffer_size)) None)
      else if type = address_type_num STREAM_ADDR_FIFO then
        rbind (sa_string dest) (\<lambda>name.
          case sys_mkfifo sys name of
            Some errno \<Rightarrow> Inr (if errno = EEXIST then ERROR_CAPFILE_FIFO_EXIST else errno, None, None)
          | None \<Rightarrow>
              rbind (stream_file_open (sys_medium sys) None (Some (sys_fopen sys name)) buffer_size) (\<lambda>r.
                store_addr dest (file_result r) (if fst r \<noteq> 0 then Some name else None)))
      else if type = address_type_num STREAM_ADDR_CAPFILE then
        rbind (sa_filename dest) (\<lambda>name.
          rbind (stream_file_open (sys_medium sys) None (Some (sys_fopen sys name)) buffer_size) (\<lambda>r.
            store_addr dest (file_result r) None))
      else if type = address_type_num STREAM_ADDR_FP then
        rbind (sa_file_pointer dest) (\<lambda>fp.
          rbind (stream_file_open (sys_medium sys) (Some (sys_fp sys fp)) None buffer_size) (\<lambda>r.
            store_addr dest (file_result r) None))
      else if type = address_type_num STREAM_ADDR_UDP then
        rbind (sin_addr dest) (\<lambda>addr.
          store_addr dest (udp_result (stream_udp_open (sys_udp sys) addr iface)) None)
      else if type = address_type_num STREAM_ADDR_TCP then Inr (ERROR_NOT_IMPLEMENTED, None, None)
      else Inr (EINVAL, None, None))"

definition stream_create ::
  "sysenv \<Rightarrow> stream_addr \<Rightarrow> string option \<Rightarrow> string \<Rightarrow> string option \<Rightarrow> (int \<times> any_stream option \<times> string option) res" where
  "stream_create sys dest nic mpid comment =
     (let type = stream_addr_type dest; flags = stream_addr_flags dest in
      if type = address_type_num STREAM_ADDR_ETHERNET then
        rbind (sa_ether_addr dest) (\<lambda>addr.
          case comment of
            None \<Rightarrow> (case stream_ethernet_init (sys_eth sys) (Some addr) nic 0 of
                (ret, st) \<Rightarrow> if ret = 0 then Inl Null_deref else store_addr dest (eth_result (ret, st)) None)
          | Some c \<Rightarrow> store_addr dest (eth_result (stream_ethernet_create (sys_eth sys) (Some addr) nic c)) None)
      else if type = address_type_num STREAM_ADDR_FIFO then
        rbind (sa_string dest) (\<lambda>name.
          case sys_mkfifo sys name of
            Some errno \<Rightarrow> Inr (if errno = EEXIST then ERROR_CAPFILE_FIFO_EXIST else errno, None, None)
          | None \<Rightarrow>
              let r = stream_file_create (sys_medium sys) None (Some (sys_fopen sys name)) mpid comment flags in
              store_addr dest (file_result r) (if fst r \<noteq> 0 then Some name else None))
      else if type = address_type_num STREAM_ADDR_CAPFILE then
        rbind (sa_filename dest) (\<lambda>name.
          store_addr dest (file_result
            (stream_file_create (sys_medium sys) None (Some (sys_fopen sys name)) mpid comment flags)) None)
      else if type = address_type_num STREAM_ADDR_FP then
        rbind (sa_file_pointer dest) (\<lambda>fp.
          store_addr dest (file_result
            (stream_file_create (sys_medium sys) (Some (sys_fp sys fp)) None mpid comment flags)) None)
      else if type = address_type_num STREAM_ADDR_UDP then
        store_addr dest (udp_result (stream_udp_create (sys_udp sys) nic)) None
      else Inr (ERROR_NOT_IMPLEMENTED, None, None))"

text \<open>
  \<open>stream_ethernet_add\<close> and \<open>stream_udp_add\<close> cast the stream they get: on a stream of another kind they
  would use memory of the wrong type.
\<close>

definition stream_add :: "sysenv \<Rightarrow> any_stream \<Rightarrow> stream_addr \<Rightarrow> (int \<times> any_stream) res" where
  "stream_add sys st addr =
     (let type = stream_addr_type addr in
      if type = address_type_num STREAM_ADDR_ETHERNET then
        rbind (sa_ether_addr addr) (\<lambda>a.
          case st of
            Eth_stream s fb \<Rightarrow> (case stream_ethernet_add (ec_setsockopt (sys_eth sys)) s a of
                (ret, s) \<Rightarrow> Inr (ret, Eth_stream s fb))
          | _ \<Rightarrow> Inl Out_of_bounds)
      else if type = address_type_num STREAM_ADDR_UDP then
        rbind (sin_addr addr) (\<lambda>a.
          case st of
            Udp_stream s fb \<Rightarrow> (case stream_udp_add (uc_setsockopt (sys_udp sys)) s a of
                (ret, s) \<Rightarrow> Inr (ret, Udp_stream s fb))
          | _ \<Rightarrow> Inl Out_of_bounds)
      else Inr (ERROR_INVALID_PROTOCOL, st))"

section \<open>Dispatch\<close>

text \<open>\<open>stream_read\<close> of a stream that was opened: the callback if there is one, the byte buffer otherwise.\<close>

definition any_stream_read ::
  "nat \<Rightarrow> medium \<Rightarrow> ('b \<Rightarrow> mem \<Rightarrow> u32 \<Rightarrow> u32 \<Rightarrow> u32) \<Rightarrow> timeval option \<Rightarrow> any_stream \<times> 'b cap_filter option \<Rightarrow>
   (int \<times> (nat \<times> cap_header) option \<times> any_stream \<times> 'b cap_filter option) res option" where
  "any_stream_read fuel med bpf timeout x =
     (case x of
        (File_stream st, flt) \<Rightarrow>
          map_option (\<lambda>r. rbind r (\<lambda>(ret, cp, st, flt). Inr (ret, cp, File_stream st, flt)))
            (stream_read fuel (stream_file_fillbuffer med) bpf timeout (st, flt))
      | (Eth_stream st fb, flt) \<Rightarrow>
          map_option (\<lambda>r. rbind r (\<lambda>(ret, cp, st, fb, flt). Inr (ret, cp, Eth_stream st fb, flt)))
            (stream_ethernet_read fuel (fb_frame_size fb) bpf timeout (st, fb, flt))
      | (Udp_stream st fb, flt) \<Rightarrow>
          map_option (\<lambda>r. rbind r (\<lambda>(ret, cp, st, fb, flt). Inr (ret, cp, Udp_stream st fb, flt)))
            (stream_udp_read fuel bpf timeout (st, fb, flt)))"

text \<open>\<open>stream_peek\<close> calls \<open>abort\<close> for a stream with a read callback.\<close>

definition any_stream_peek ::
  "nat \<Rightarrow> medium \<Rightarrow> ('b \<Rightarrow> mem \<Rightarrow> u32 \<Rightarrow> u32 \<Rightarrow> u32) \<Rightarrow> any_stream \<times> 'b cap_filter option \<Rightarrow>
   (int \<times> (nat \<times> cap_header) option \<times> any_stream \<times> 'b cap_filter option) res option" where
  "any_stream_peek fuel med bpf x =
     (case x of
        (File_stream st, flt) \<Rightarrow>
          map_option (\<lambda>r. rbind r (\<lambda>(ret, cp, st, flt). Inr (ret, cp, File_stream st, flt)))
            (stream_peek fuel (stream_file_fillbuffer med) bpf (st, flt))
      | _ \<Rightarrow> Some (Inl Aborted))"

definition need_fclose :: "stream_file stream \<Rightarrow> bool" where
  "need_fclose st \<longleftrightarrow> stream_addr_type (st_addr st) = address_type_num STREAM_ADDR_CAPFILE \<or>
     stream_addr_have_flag (st_addr st) STREAM_ADDR_FCLOSE"

text \<open>The name that is unlinked, if any, and whether the \<open>FILE\<close> is closed.\<close>

definition stream_file_destroy :: "stream_file stream \<Rightarrow> (string option \<times> bool) res" where
  "stream_file_destroy st =
     rbind (if stream_addr_have_flag (st_addr st) STREAM_ADDR_UNLINK
            then rbind (sa_string (st_addr st)) (\<lambda>name. Inr (Some name)) else Inr None) (\<lambda>unlinked.
       Inr (unlinked, need_fclose st))"

definition stream_close :: "any_stream option \<Rightarrow> (int \<times> string option \<times> bool) res" where
  "stream_close st =
     (case st of
        None \<Rightarrow> Inr (0, None, False)
      | Some (File_stream s) \<Rightarrow> rbind (stream_file_destroy s) (\<lambda>(u, c). Inr (0, u, c))
      | Some _ \<Rightarrow> Inr (0, None, False))"

fun stream_num_address :: "any_stream \<Rightarrow> nat" where
  "stream_num_address (File_stream st) = st_num_addresses st"
| "stream_num_address (Eth_stream st fb) = st_num_addresses st"
| "stream_num_address (Udp_stream st fb) = st_num_addresses st"

definition stream_get_version :: "'s stream \<Rightarrow> u16 \<times> u16" where
  "stream_get_version st = (fh_major (st_FH st), fh_minor (st_FH st))"

definition stream_get_comment :: "'s stream \<Rightarrow> string option" where
  "stream_get_comment st = st_comment st"

definition stream_get_mampid :: "'s stream \<Rightarrow> string res" where
  "stream_get_mampid st = cstr (fh_mpid (st_FH st))"

section \<open>Opening from the command line\<close>

fun add_streams :: "nat \<Rightarrow> sysenv \<Rightarrow> any_stream \<Rightarrow> string list \<Rightarrow> (int \<times> any_stream) res" where
  "add_streams slack sys st [] = Inr (0, st)"
| "add_streams slack sys st (arg # args) =
     rbind (stream_addr_aton slack arg STREAM_ADDR_GUESS 0) (\<lambda>(ret, addr).
       if ret \<noteq> 0 then Inr (ret, st)
       else rbind (stream_add sys st addr) (\<lambda>(ret, st).
         if ret \<noteq> 0 then Inr (ret, st) else add_streams slack sys st args))"

text \<open>
  \<open>args\<close> are the arguments from \<open>optind\<close> on. For an ethernet address without interface the code jumps
  to the end with \<open>ret\<close> still 0.
\<close>

definition stream_from_getopt ::
  "nat \<Rightarrow> sysenv \<Rightarrow> string list \<Rightarrow> string option \<Rightarrow> string option \<Rightarrow> nat \<Rightarrow> (int \<times> any_stream option) res" where
  "stream_from_getopt slack sys args iface defaddr buffer_size =
     (case (case args of [] \<Rightarrow> defaddr | a # _ \<Rightarrow> Some a) of
        None \<Rightarrow> Inr (EINVAL, None)
      | Some address \<Rightarrow>
          if address = ''-'' \<and> sys_isatty sys then Inr (EINVAL, None)
          else
            let address = (if address = ''-'' then ''/dev/stdin'' else address) in
            rbind (stream_addr_aton slack address STREAM_ADDR_GUESS 0) (\<lambda>(ret, addr).
              let type = stream_addr_type addr in
              if ret \<noteq> 0 then Inr (ret, None)
              else if type = address_type_num STREAM_ADDR_ETHERNET \<and> iface = None then Inr (ret, None)
              else rbind (stream_open sys addr iface buffer_size) (\<lambda>(ret, st, _).
                if ret \<noteq> 0 then Inr (ret, st)
                else case st of
                  None \<Rightarrow> Inl Null_deref
                | Some st \<Rightarrow>
                    if tl args = [] then Inr (0, Some st)
                    else if \<not> (type = address_type_num STREAM_ADDR_ETHERNET \<or> type = address_type_num STREAM_ADDR_UDP)
                    then Inr (EINVAL, Some st)
                    else rbind (add_streams slack sys st (tl args)) (\<lambda>(ret, st). Inr (ret, Some st)))))"

section \<open>The addresses of a stream\<close>

text \<open>
  A stream has the addresses \<open>addrs\<close>, in this order: a file its only one, an ethernet stream all of them in its table,
  a UDP stream all of them except for a first one that is not a multicast address, which the socket is only bound to.
\<close>

fun stream_holds :: "any_stream \<Rightarrow> stream_addr list \<Rightarrow> bool" where
  "stream_holds (File_stream st) addrs \<longleftrightarrow> addrs = [st_addr st]"
| "stream_holds (Eth_stream st fb) addrs \<longleftrightarrow>
     addrs \<noteq> [] \<and> st_addr st = hd addrs \<and>
     map Inr (take (st_num_addresses st) (se_address (st_src st))) = map sa_ether_addr addrs"
| "stream_holds (Udp_stream st fb) addrs \<longleftrightarrow>
     addrs \<noteq> [] \<and> st_addr st = hd addrs \<and>
     (\<exists>a. sin_addr (hd addrs) = Inr a \<and>
       map Inr (take (st_num_addresses st) (su_address (st_src st))) =
         map sin_addr (if is_multicast a then addrs else tl addrs))"

text \<open>The table has room for \<open>MAX_ADDRESS\<close> addresses.\<close>

fun table_ok :: "any_stream \<Rightarrow> bool" where
  "table_ok (File_stream st) \<longleftrightarrow> True"
| "table_ok (Eth_stream st fb) \<longleftrightarrow> length (se_address (st_src st)) = MAX_ADDRESS \<and> st_num_addresses st \<le> MAX_ADDRESS"
| "table_ok (Udp_stream st fb) \<longleftrightarrow> length (su_address (st_src st)) = MAX_ADDRESS \<and> st_num_addresses st \<le> MAX_ADDRESS"

lemmas add_errors = EBUSY_def ERROR_INVALID_MULTICAST_def ERROR_INVALID_PROTOCOL_def

lemma ethernet_add_appends:
  assumes "stream_ethernet_add so st a = (0, st')" "so \<noteq> Some 0"
    and "length (se_address (st_src st)) = MAX_ADDRESS" "st_num_addresses st \<le> MAX_ADDRESS"
  shows "take (st_num_addresses st') (se_address (st_src st')) = take (st_num_addresses st) (se_address (st_src st)) @ [a]"
    "length (se_address (st_src st')) = MAX_ADDRESS" "st_num_addresses st' \<le> MAX_ADDRESS" "st_addr st' = st_addr st"
  using assms by (auto simp: stream_ethernet_add_def Let_def add_errors take_Suc_conv_app_nth split: if_splits option.splits)

lemma udp_add_appends:
  assumes "stream_udp_add so st a = (0, st')" "so \<noteq> Some 0"
    and "length (su_address (st_src st)) = MAX_ADDRESS" "st_num_addresses st \<le> MAX_ADDRESS"
  shows "take (st_num_addresses st') (su_address (st_src st')) = take (st_num_addresses st) (su_address (st_src st)) @ [a]"
    "length (su_address (st_src st')) = MAX_ADDRESS" "st_num_addresses st' \<le> MAX_ADDRESS" "st_addr st' = st_addr st"
  using assms by (auto simp: stream_udp_add_def Let_def add_errors take_Suc_conv_app_nth split: if_splits option.splits)

lemma stream_add_success:
  assumes "stream_add sys st addr = Inr (0, st')"
  obtains (eth) a s s' fb where "sa_ether_addr addr = Inr a" "st = Eth_stream s fb" "st' = Eth_stream s' fb"
      "stream_ethernet_add (ec_setsockopt (sys_eth sys)) s a = (0, s')"
  | (udp) a s s' fb where "sin_addr addr = Inr a" "st = Udp_stream s fb" "st' = Udp_stream s' fb"
      "stream_udp_add (uc_setsockopt (sys_udp sys)) s a = (0, s')"
proof (cases "stream_addr_type addr = address_type_num STREAM_ADDR_ETHERNET")
  case True
  with assms obtain a where a: "sa_ether_addr addr = Inr a"
    "(case st of Eth_stream s fb \<Rightarrow> (case stream_ethernet_add (ec_setsockopt (sys_eth sys)) s a of
        (ret, s) \<Rightarrow> Inr (ret, Eth_stream s fb)) | _ \<Rightarrow> Inl Out_of_bounds) = Inr (0, st')"
    by (auto simp: stream_add_def rbind_Inr_iff)
  then show ?thesis using eth [OF a(1)] by (cases st) (auto split: prod.splits)
next
  case False
  have "ERROR_INVALID_PROTOCOL \<noteq> 0" by (simp add: ERROR_INVALID_PROTOCOL_def)
  with False assms obtain a where a: "sin_addr addr = Inr a"
    "(case st of Udp_stream s fb \<Rightarrow> (case stream_udp_add (uc_setsockopt (sys_udp sys)) s a of
        (ret, s) \<Rightarrow> Inr (ret, Udp_stream s fb)) | _ \<Rightarrow> Inl Out_of_bounds) = Inr (0, st')"
    by (auto simp: stream_add_def Let_def rbind_Inr_iff split: if_splits)
  then show ?thesis using udp [OF a(1)] by (cases st) (auto split: prod.splits)
qed

lemma stream_add_holds:
  assumes "stream_add sys st addr = Inr (0, st')" "stream_holds st addrs" "table_ok st"
    and "ec_setsockopt (sys_eth sys) \<noteq> Some 0" "uc_setsockopt (sys_udp sys) \<noteq> Some 0"
  shows "stream_holds st' (addrs @ [addr]) \<and> table_ok st'"
  using assms(1)
proof (cases rule: stream_add_success)
  case (eth a s s' fb)
  from ethernet_add_appends [OF eth(4) assms(4)] assms(2,3) eth(1-3) show ?thesis by simp
next
  case (udp a s s' fb)
  from udp_add_appends [OF udp(4) assms(5)] assms(2,3) udp(1-3) show ?thesis by auto
qed

abbreviation parses :: "nat \<Rightarrow> string \<Rightarrow> stream_addr \<Rightarrow> bool" where
  "parses slack s a \<equiv> stream_addr_aton slack s STREAM_ADDR_GUESS 0 = Inr (0, a)"

lemma add_streams_holds:
  assumes "add_streams slack sys st args = Inr (0, st')" "stream_holds st addrs" "table_ok st"
    and "ec_setsockopt (sys_eth sys) \<noteq> Some 0" "uc_setsockopt (sys_udp sys) \<noteq> Some 0"
  shows "\<exists>as. list_all2 (parses slack) args as \<and> stream_holds st' (addrs @ as)"
  using assms
proof (induction args arbitrary: st addrs)
  case (Cons arg args)
  then obtain addr st1 where p: "parses slack arg addr" and a: "stream_add sys st addr = Inr (0, st1)"
    and r: "add_streams slack sys st1 args = Inr (0, st')"
    by (auto simp: rbind_Inr_iff split: prod.splits if_splits)
  from stream_add_holds [OF a Cons.prems(2-5)] have "stream_holds st1 (addrs @ [addr])" "table_ok st1" by auto
  from Cons.IH [OF r this Cons.prems(4,5)] p show ?case by (auto intro: list_all2_Cons [THEN iffD2])
qed auto

lemma ethernet_open_first:
  assumes "stream_ethernet_open calls (Some a) iface n = (0, Some (st, fb))" "calls_wf calls"
  shows "take (st_num_addresses st) (se_address (st_src st)) = [a]" "length (se_address (st_src st)) = MAX_ADDRESS"
    "st_num_addresses st \<le> MAX_ADDRESS"
proof -
  obtain st1 where i: "stream_ethernet_init calls (Some a) iface n = (0, Some (st1, fb))"
    and e: "st_num_addresses st = st_num_addresses st1" "st_src st = st_src st1"
    using assms(1) by (auto simp: stream_ethernet_open_def split: prod.splits option.splits if_splits)
  then obtain st0 where "stream_ethernet_add (ec_setsockopt calls) st0 a = (0, st1)" "st_num_addresses st0 = 0"
    "length (se_address (st_src st0)) = MAX_ADDRESS"
    using assms(2) by (auto simp: stream_ethernet_init_def Let_def calls_wf_def EINVAL_def ERROR_BUFFER_LENGTH_def
        ERROR_BUFFER_MULTIPLE_def stream_alloc_def split: option.splits sum.splits if_splits prod.splits)
  with ethernet_add_appends [OF this(1)] assms(2)
  show "take (st_num_addresses st) (se_address (st_src st)) = [a]" "length (se_address (st_src st)) = MAX_ADDRESS"
    "st_num_addresses st \<le> MAX_ADDRESS" unfolding e by (auto simp: calls_wf_def)
qed

lemma udp_open_first:
  assumes "stream_udp_open calls a iface = (0, Some (st, fb))" "uc_setsockopt calls \<noteq> Some 0"
  shows "take (st_num_addresses st) (su_address (st_src st)) = (if is_multicast a then [a] else [])"
    "length (su_address (st_src st)) = MAX_ADDRESS" "st_num_addresses st \<le> MAX_ADDRESS"
proof -
  let ?m = "estimate_mtu calls iface"
  define st0 where "st0 = stream_alloc PROTOCOL_UDP_MULTICAST (stream_frame_buffer_size 250 ?m) ?m
    \<lparr>su_events = uc_events calls, su_sent = [], su_if_index = 0, su_address = replicate MAX_ADDRESS 0,
     su_seqnum = replicate MAX_ADDRESS 0\<rparr>"
  have "if is_multicast a then stream_udp_add (uc_setsockopt calls) st0 a = (0, st) else st = st0"
    using assms(1) by (auto simp: stream_udp_open_def stream_udp_init_def st0_def EINVAL_def
        split: option.splits if_splits prod.splits)
  moreover have "st_num_addresses st0 = 0" "length (su_address (st_src st0)) = MAX_ADDRESS"
    by (simp_all add: st0_def stream_alloc_def Let_def)
  moreover note s = calculation
  have "take (st_num_addresses st) (su_address (st_src st)) = (if is_multicast a then [a] else []) \<and>
    length (su_address (st_src st)) = MAX_ADDRESS \<and> st_num_addresses st \<le> MAX_ADDRESS"
    using s udp_add_appends [OF _ assms(2), of st0 a st] by (cases "is_multicast a") auto
  then show "take (st_num_addresses st) (su_address (st_src st)) = (if is_multicast a then [a] else [])"
    "length (su_address (st_src st)) = MAX_ADDRESS" "st_num_addresses st \<le> MAX_ADDRESS" by simp_all
qed

lemma store_addr_success:
  assumes "store_addr dest r u = Inr (0, Some st, u')"
  shows "\<exists>s. r = (0, Some s) \<and> st = set_addr dest s"
  using assms by (auto simp: store_addr_def split: prod.splits option.splits if_splits)

lemma file_open_holds:
  assumes "store_addr dest (file_result r) u = Inr (0, Some st, u')"
  shows "stream_holds st [dest] \<and> table_ok st"
  using store_addr_success [OF assms] by (auto simp: file_result_def split: prod.splits)

lemma stream_open_holds:
  assumes "stream_open sys dest iface n = Inr (0, Some st, u)" "calls_wf (sys_eth sys)" "uc_setsockopt (sys_udp sys) \<noteq> Some 0"
  shows "stream_holds st [dest] \<and> table_ok st"
proof -
  let ?t = "stream_addr_type dest"
  consider (eth) "?t = address_type_num STREAM_ADDR_ETHERNET" | (udp) "?t = address_type_num STREAM_ADDR_UDP"
    | (other) "?t \<noteq> address_type_num STREAM_ADDR_ETHERNET" "?t \<noteq> address_type_num STREAM_ADDR_UDP" by blast
  then show ?thesis
  proof cases
    case eth
    then obtain a where a: "sa_ether_addr dest = Inr a"
      "store_addr dest (eth_result (stream_ethernet_open (sys_eth sys) (Some a) iface n)) None = Inr (0, Some st, u)"
      using assms(1) by (auto simp: stream_open_def rbind_Inr_iff)
    obtain s fb where "stream_ethernet_open (sys_eth sys) (Some a) iface n = (0, Some (s, fb))" "st = set_addr dest (Eth_stream s fb)"
      using store_addr_success [OF a(2)] by (auto simp: eth_result_def split: prod.splits)
    with ethernet_open_first [OF this(1) assms(2)] a(1) show ?thesis by simp
  next
    case udp
    then obtain a where a: "sin_addr dest = Inr a"
      "store_addr dest (udp_result (stream_udp_open (sys_udp sys) a iface)) None = Inr (0, Some st, u)"
      using assms(1) by (auto simp: stream_open_def rbind_Inr_iff)
    obtain s fb where "stream_udp_open (sys_udp sys) a iface = (0, Some (s, fb))" "st = set_addr dest (Udp_stream s fb)"
      using store_addr_success [OF a(2)] by (auto simp: udp_result_def split: prod.splits)
    with udp_open_first [OF this(1) assms(3)] a(1) show ?thesis by simp
  next
    case other
    then obtain r v where "store_addr dest (file_result r) v = Inr (0, Some st, u)"
      using assms(1) by (auto simp: stream_open_def Let_def rbind_Inr_iff split: if_splits option.splits)
    then show ?thesis by (rule file_open_holds)
  qed
qed

section \<open>Properties\<close>

text \<open>
  Claim C38. A call of \<open>stream_from_getopt\<close> that returns 0, the value for success, either parsed every address of the
  command line and gives a stream with all of them, in their order, or it gives no stream at all. The latter happens
  exactly when the first address is an ethernet address and no interface is given, whatever the system does. The
  system sets \<open>errno\<close> when a call fails.
\<close>

theorem stream_from_getopt_success:
  assumes "stream_from_getopt slack sys args iface defaddr n = Inr (0, st)"
    and "calls_wf (sys_eth sys)" "uc_setsockopt (sys_udp sys) \<noteq> Some 0"
  shows "\<exists>address addrs. (case args of [] \<Rightarrow> defaddr | a # _ \<Rightarrow> Some a) = Some address \<and>
    parses slack (if address = ''-'' then ''/dev/stdin'' else address) (hd addrs) \<and>
    (case st of
       None \<Rightarrow> iface = None \<and> stream_addr_type (hd addrs) = address_type_num STREAM_ADDR_ETHERNET
     | Some s \<Rightarrow> \<not> (iface = None \<and> stream_addr_type (hd addrs) = address_type_num STREAM_ADDR_ETHERNET) \<and>
         list_all2 (parses slack) (tl args) (tl addrs) \<and> stream_holds s addrs)"
proof -
  obtain address addr where ad: "(case args of [] \<Rightarrow> defaddr | a # _ \<Rightarrow> Some a) = Some address"
    "parses slack (if address = ''-'' then ''/dev/stdin'' else address) addr"
    and body: "(if stream_addr_type addr = address_type_num STREAM_ADDR_ETHERNET \<and> iface = None then Inr (0, None)
      else rbind (stream_open sys addr iface n) (\<lambda>(ret, st, _).
        if ret \<noteq> 0 then Inr (ret, st)
        else case st of None \<Rightarrow> Inl Null_deref | Some st \<Rightarrow>
          if tl args = [] then Inr (0, Some st)
          else if \<not> (stream_addr_type addr = address_type_num STREAM_ADDR_ETHERNET \<or> stream_addr_type addr = address_type_num STREAM_ADDR_UDP)
          then Inr (EINVAL, Some st)
          else rbind (add_streams slack sys st (tl args)) (\<lambda>(ret, st). Inr (ret, Some st)))) = Inr (0, st)"
    using assms(1) by (auto simp: stream_from_getopt_def Let_def EINVAL_def rbind_Inr_iff split: option.splits if_splits)
  show ?thesis
  proof (cases "stream_addr_type addr = address_type_num STREAM_ADDR_ETHERNET \<and> iface = None")
    case True
    then have "st = None" using body by simp
    then show ?thesis using ad True by (intro exI [of _ address] exI [of _ "[addr]"]) simp
  next
    case False
    then obtain s u where s: "stream_open sys addr iface n = Inr (0, Some s, u)"
      and r: "(if tl args = [] then Inr (0, Some s) else rbind (add_streams slack sys s (tl args)) (\<lambda>(ret, st). Inr (ret, Some st))) = Inr (0, st)"
      using body by (auto simp: rbind_Inr_iff EINVAL_def split: if_splits option.splits)
    obtain s' where st: "st = Some s'" and a: "add_streams slack sys s (tl args) = Inr (0, s')"
      using r by (cases "tl args") (auto simp: rbind_Inr_iff simp del: add_streams.simps(2) split: prod.splits)
    have "stream_holds s [addr]" "table_ok s" "ec_setsockopt (sys_eth sys) \<noteq> Some 0"
      using stream_open_holds [OF s assms(2,3)] assms(2) by (auto simp: calls_wf_def)
    from add_streams_holds [OF a this assms(3)] obtain as where
      "list_all2 (parses slack) (tl args) as" "stream_holds s' (addr # as)" by auto
    then show ?thesis using ad False st by (intro exI [of _ address] exI [of _ "addr # as"]) auto
  qed
qed

definition sample_sys :: sysenv where
  "sample_sys = \<lparr>sys_medium = good_medium, sys_mkfifo = (\<lambda>_. None),
     sys_fopen = (\<lambda>_. Inr \<lparr>cf_data = file_image ''mp'' ''c'' [], cf_pos = 0\<rparr>),
     sys_fp = (\<lambda>_. empty_file), sys_eth = sample_calls, sys_udp = sample_udp, sys_isatty = True\<rparr>"

definition sample_eth :: "u8 \<Rightarrow> stream_addr" where
  "sample_eth k = addr_header STREAM_ADDR_ETHERNET 0\<lparr>sa_data := sa_set_bytes [1, 0, 0, 0, 0, k]\<rparr>"

lemma sample_eth_parses:
  "parses 1 ''eth://01:00:00:00:00:01'' (sample_eth 1)" "parses 1 ''eth://01:00:00:00:00:02'' (sample_eth 2)"
proof -
  have "stream_addr_ntoa [] (sample_eth 1) = Inr ''eth://01:00:00:00:00:01''"
    "stream_addr_ntoa [] (sample_eth 2) = Inr ''eth://01:00:00:00:00:02''" by code_simp+
  moreover have "\<exists>s. stream_addr_ntoa [] (sample_eth k) = Inr s \<and> parses 1 s (sample_eth k)" for k
    using stream_addr_eth_roundtrip [of "[1, 0, 0, 0, 0, k]" "sample_eth k" 0 "[]" 0] by (auto simp: sample_eth_def)
  ultimately show "parses 1 ''eth://01:00:00:00:00:01'' (sample_eth 1)" "parses 1 ''eth://01:00:00:00:00:02'' (sample_eth 2)"
    by (metis sum.inject(2))+
qed

lemma sample_eth_fields:
  "stream_addr_type (sample_eth k) = address_type_num STREAM_ADDR_ETHERNET" "sa_ether_addr (sample_eth k) = Inr [1, 0, 0, 0, 0, k]"
  by (simp_all add: sample_eth_def addr_header_def stream_addr_type_def sa_ether_addr_def sa_bytes_def sa_set_bytes_def)

theorem stream_from_getopt_success_witness:
  "\<exists>s. stream_from_getopt 1 sample_sys [''eth://01:00:00:00:00:01'', ''eth://01:00:00:00:00:02''] (Some ''eth0'') None 0 =
      Inr (0, Some s) \<and> stream_holds s [sample_eth 1, sample_eth 2]"
proof -
  let ?args = "[''eth://01:00:00:00:00:01'', ''eth://01:00:00:00:00:02'']"
  have wf: "calls_wf (sys_eth sample_sys)" "uc_setsockopt (sys_udp sample_sys) \<noteq> Some 0"
    by (simp_all add: sample_sys_def calls_wf_def sample_calls_def sample_udp_def)
  obtain st fb where o: "stream_ethernet_open sample_calls (Some [1, 0, 0, 0, 0, 1]) (Some ''eth0'') 0 = (0, Some (st, fb))"
    using sample_open by blast
  then have "stream_open sample_sys (sample_eth 1) (Some ''eth0'') 0 =
      Inr (0, Some (Eth_stream (st\<lparr>st_addr := sample_eth 1\<rparr>) fb), None)"
    by (simp add: stream_open_def sample_eth_fields eth_result_def store_addr_def sample_sys_def)
  moreover have "st_num_addresses st \<noteq> MAX_ADDRESS"
    using ethernet_open_first [OF o] wf(1) by (auto simp: sample_sys_def MAX_ADDRESS_def dest: arg_cong [of _ _ length])
  then obtain s where "add_streams 1 sample_sys (Eth_stream (st\<lparr>st_addr := sample_eth 1\<rparr>) fb) (tl ?args) = Inr (0, s)"
    using sample_eth_parses(2) by (simp add: stream_add_def sample_eth_fields stream_ethernet_add_def Let_def sample_sys_def sample_calls_def)
  ultimately have r: "stream_from_getopt 1 sample_sys ?args (Some ''eth0'') None 0 = Inr (0, Some s)"
    using sample_eth_parses(1) by (simp add: stream_from_getopt_def sample_eth_fields del: add_streams.simps)
  from stream_from_getopt_success [OF r wf] obtain addrs where
    "parses 1 ''eth://01:00:00:00:00:01'' (hd addrs)" "list_all2 (parses 1) (tl ?args) (tl addrs)" "stream_holds s addrs"
    by auto
  then have "addrs = [sample_eth 1, sample_eth 2]"
    using sample_eth_parses by (cases s; cases addrs) (auto simp: list_all2_Cons1)
  then show ?thesis using r \<open>stream_holds s addrs\<close> by blast
qed

end
