(* ===== verification/Stream_Pfring.thy ===== *)
theory Stream_Pfring
  imports Stream_Ethernet
begin

text \<open>
  Ethernet streams over PF_RING (\<open>src/stream_pfring.c\<close>, built instead of \<open>src/stream_ethernet.c\<close> when the library is
  there). Frames are not copied: \<open>pfring_recv\<close> with a buffer length of zero gives a pointer into the ring of the
  library. The memory of the ring is a map from addresses to the bytes that lie there; receiving a frame stores its
  bytes at its address, whatever was there before.

  The library is the list of what \<open>pfring_recv\<close> will give; a list that is used up gives nothing more. The two
  modes, waiting and not waiting, differ only in time.
\<close>

section \<open>State\<close>

datatype prx = Prx_none | Prx_error | Prx nat "u8 list"   \<comment> \<open>address and bytes of a frame\<close>

record stream_pfring =
  pf_events :: "prx list"
  pf_ring :: "nat \<Rightarrow> mem"
  pf_if_mtu :: nat
  pf_address :: "u8 list list"
  pf_seqnum :: "u64 list"
  pf_num_frames :: nat
  pf_num_packets :: nat
  pf_read_ptr :: "(nat \<times> nat) option"   \<comment> \<open>a frame and the offset in it\<close>
  pf_frame :: "nat option list"

abbreviation (input) pf_set :: "(stream_pfring \<Rightarrow> stream_pfring) \<Rightarrow> stream_pfring stream \<Rightarrow> stream_pfring stream" where
  "pf_set f st \<equiv> st\<lparr>st_src := f (st_src st)\<rparr>"

section \<open>Receiving\<close>

text \<open>The checks on a frame, which are those of the ethernet stream.\<close>

definition pfring_frame :: "stream_pfring stream \<Rightarrow> mem \<Rightarrow> (verdict \<times> stream_pfring stream) res" where
  "pfring_frame st dst =
     rbind (match_ma_pkt (take (st_num_addresses st) (pf_address (st_src st))) dst) (\<lambda>mt.
       case mt of
         None \<Rightarrow> Inr (Skip, st)
       | Some i \<Rightarrow>
           rbind (valid_framesize (length dst) dst sizeof_ethhdr) (\<lambda>valid.
             if \<not> valid then Inr (Skip, st)
             else rbind (sendhead_at dst sizeof_ethhdr) (\<lambda>sh.
               let st = st\<lparr>st_stat_recv := st_stat_recv st + unat (ntohl (sh_nopkts sh))\<rparr> in
               rbind (check_sequence (st_if_loopback st) (pf_seqnum (st_src st)) i sh) (\<lambda>(ok, seqnum).
                 if \<not> ok then Inr (Stop, st)
                 else Inr (Accept, pf_set (\<lambda>s. s\<lparr>pf_seqnum := seqnum\<rparr>)
                        (st\<lparr>st_writePos := (st_writePos st + 1) mod pf_num_frames (st_src st),
                            st_flushed := (st_flushed st \<or> ntohl (sh_flags sh) AND SENDER_FLUSH \<noteq> 0)\<rparr>))))))"

text \<open>What \<open>pfring_recv\<close> leaves behind when it gives a frame.\<close>

definition pfring_store :: "stream_pfring stream \<Rightarrow> nat \<Rightarrow> u8 list \<Rightarrow> prx list \<Rightarrow> stream_pfring stream" where
  "pfring_store st a bs es =
     pf_set (\<lambda>s. s\<lparr>pf_events := es, pf_ring := (pf_ring s)(a := bs), pf_frame := (pf_frame s)[st_writePos st := Some a]\<rparr>) st"

fun pfring_loop :: "prx list \<Rightarrow> stream_pfring stream \<Rightarrow> (bool \<times> stream_pfring stream) res" where
  "pfring_loop [] st = Inr (False, pf_set (\<lambda>s. s\<lparr>pf_events := []\<rparr>) st)"
| "pfring_loop (Prx a bs # es) st =
     (if \<not> st_writePos st < length (pf_frame (st_src st)) then Inl Out_of_bounds
      else rbind (pfring_frame (pfring_store st a bs es) bs) (\<lambda>(v, st).
        case v of
          Skip \<Rightarrow> pfring_loop es st
        | Stop \<Rightarrow> Inr (False, st)
        | Accept \<Rightarrow> Inr (True, st)))"
| "pfring_loop (_ # es) st = Inr (False, pf_set (\<lambda>s. s\<lparr>pf_events := es\<rparr>) st)"

definition stream_pfring_read_frame :: "stream_pfring stream \<Rightarrow> (bool \<times> stream_pfring stream) res" where
  "stream_pfring_read_frame st = pfring_loop (pf_events (st_src st)) st"

section \<open>Reading\<close>

text \<open>The bytes of the frame in slot \<open>i\<close>, and pointing at its first packet.\<close>

definition frame_at :: "stream_pfring stream \<Rightarrow> nat \<Rightarrow> (nat \<times> mem) res" where
  "frame_at st i =
     (if \<not> i < length (pf_frame (st_src st)) then Inl Out_of_bounds
      else case pf_frame (st_src st) ! i of None \<Rightarrow> Inl Null_deref | Some a \<Rightarrow> Inr (a, pf_ring (st_src st) a))"

definition pfring_enter :: "stream_pfring stream \<Rightarrow> stream_pfring stream res" where
  "pfring_enter st =
     rbind (frame_at st (st_readPos st)) (\<lambda>(a, m).
     rbind (sendhead_at m sizeof_ethhdr) (\<lambda>sh.
       Inr (pf_set (\<lambda>s. s\<lparr>pf_read_ptr := Some (a, sizeof_ethhdr + sizeof_sendhead), pf_num_packets := unat (ntohl (sh_nopkts sh))\<rparr>) st)))"

text \<open>Fetching a packet and moving on to the next one.\<close>

definition pfring_packet :: "stream_pfring stream \<Rightarrow> (nat \<times> cap_header \<times> stream_pfring stream) res" where
  "pfring_packet st =
     (case pf_read_ptr (st_src st) of
        None \<Rightarrow> Inl Null_deref
      | Some (a, off) \<Rightarrow>
          rbind (cap_at (pf_ring (st_src st) a) off) (\<lambda>cp.
            let n = pf_num_packets (st_src st) - 1;
                st = pf_set (\<lambda>s. s\<lparr>pf_num_packets := n, pf_read_ptr := Some (a, off + (sizeof_cap_header + unat (ch_caplen cp)))\<rparr>) st in
            if n = 0 then
              let st = st\<lparr>st_readPos := (st_readPos st + 1) mod pf_num_frames (st_src st)\<rparr> in
              if st_readPos st = st_writePos st then Inr (off, cp, pf_set (\<lambda>s. s\<lparr>pf_read_ptr := None\<rparr>) st)
              else rbind (pfring_enter st) (\<lambda>st. Inr (off, cp, st))
            else Inr (off, cp, st)))"

text \<open>Delivering a packet, up to the \<open>goto retry\<close> for one that the filter rejects.\<close>

definition pfring_deliver ::
  "('b \<Rightarrow> mem \<Rightarrow> u32 \<Rightarrow> u32 \<Rightarrow> u32) \<Rightarrow> stream_pfring stream \<times> 'b cap_filter option \<Rightarrow>
   (stream_pfring stream \<times> 'b cap_filter option) outcome res" where
  "pfring_deliver bpf = (\<lambda>(st, flt).
     if pf_num_packets (st_src st) = 0 then Inr (Done EAGAIN None (st, flt))
     else rbind (pfring_packet st) (\<lambda>(off, cp, st).
       if ch_caplen cp = 0 then Inr (Done ERROR_CAPFILE_INVALID None (st, flt))
       else
         let st = st\<lparr>st_stat_read := st_stat_read st + 1, st_stat_buffer_usage := 0\<rparr> in
         rbind (match_opt bpf flt cp) (\<lambda>(m, flt).
           if m then Inr (Done 0 (Some (off, cp)) (st\<lparr>st_stat_matched := st_stat_matched st + 1\<rparr>, flt))
           else Inr (Again (st, flt)))))"

text \<open>One round: a frame when there is none, a further one when there is space, a packet.\<close>

definition pfring_start :: "stream_pfring stream \<Rightarrow> (bool \<times> stream_pfring stream) res" where
  "pfring_start st =
     (if pf_read_ptr (st_src st) = None
      then rbind (stream_pfring_read_frame st) (\<lambda>(ok, st).
             if ok then rbind (pfring_enter st) (\<lambda>st. Inr (True, st)) else Inr (False, st))
      else Inr (True, st))"

definition pfring_further :: "stream_pfring stream \<Rightarrow> stream_pfring stream res" where
  "pfring_further st =
     (if st_writePos st \<noteq> st_readPos st then rbind (stream_pfring_read_frame st) (\<lambda>(_, st). Inr st) else Inr st)"

definition pfring_read_step ::
  "('b \<Rightarrow> mem \<Rightarrow> u32 \<Rightarrow> u32 \<Rightarrow> u32) \<Rightarrow> stream_pfring stream \<times> 'b cap_filter option \<Rightarrow>
   (stream_pfring stream \<times> 'b cap_filter option) outcome res" where
  "pfring_read_step bpf = (\<lambda>(st, flt).
     rbind (pfring_start st) (\<lambda>(ok, st).
       if \<not> ok then Inr (Done EAGAIN None (st, flt))
       else rbind (pfring_further st) (\<lambda>st. pfring_deliver bpf (st, flt))))"

definition stream_pfring_read ::
  "nat \<Rightarrow> ('b \<Rightarrow> mem \<Rightarrow> u32 \<Rightarrow> u32 \<Rightarrow> u32) \<Rightarrow> stream_pfring stream \<times> 'b cap_filter option \<Rightarrow>
   (int \<times> (nat \<times> cap_header) option \<times> stream_pfring stream \<times> 'b cap_filter option) res option" where
  "stream_pfring_read fuel bpf x = iterate fuel (pfring_read_step bpf) x"

section \<open>Adding addresses, opening\<close>

definition stream_pfring_add :: "stream_pfring stream \<Rightarrow> u8 list \<Rightarrow> int \<times> stream_pfring stream" where
  "stream_pfring_add st addr =
     (if st_num_addresses st = MAX_ADDRESS then (EBUSY, st)
      else if addr ! 0 AND 1 = 0 then (ERROR_INVALID_MULTICAST, st)
      else (0, pf_set (\<lambda>s. s\<lparr>pf_address := (pf_address s)[st_num_addresses st := addr]\<rparr>)
                 (st\<lparr>st_num_addresses := st_num_addresses st + 1\<rparr>)))"

definition stream_pfring_create :: int where
  "stream_pfring_create = EINVAL"

text \<open>
  What the operating system and the library give: the MTU of the interface, the error of \<open>pfring_open\<close>, whether the ring
  could be enabled. The other results are only shown.
\<close>

record pf_calls =
  pc_iface_mtu :: "int + nat"
  pc_open :: "int option"
  pc_enable :: bool
  pc_events :: "prx list"
  pc_ring :: "nat \<Rightarrow> mem"

definition stream_pfring_open ::
  "pf_calls \<Rightarrow> u8 list option \<Rightarrow> string option \<Rightarrow> nat \<Rightarrow> int \<times> stream_pfring stream option" where
  "stream_pfring_open calls addr iface buffer_size =
     (case (addr, iface) of
        (Some addr, Some _) \<Rightarrow>
          (case pc_iface_mtu calls of
             Inl errno \<Rightarrow> (errno, None)
           | Inr mtu \<Rightarrow>
               (case pc_open calls of
                  Some errno \<Rightarrow> (errno, None)
                | None \<Rightarrow>
                    let buffer_size = (if buffer_size = 0 then 250 * 8 else buffer_size);
                        num_frames = buffer_size div 8;
                        st = stream_alloc PROTOCOL_ETHERNET_MULTICAST buffer_size mtu
                               \<lparr>pf_events = pc_events calls, pf_ring = pc_ring calls, pf_if_mtu = mtu,
                                pf_address = replicate MAX_ADDRESS (replicate 6 0), pf_seqnum = replicate MAX_ADDRESS 0,
                                pf_num_frames = 0, pf_num_packets = 0, pf_read_ptr = None,
                                pf_frame = replicate num_frames None\<rparr> in
                    if \<not> pc_enable calls then (- 1, Some st)
                    else
                      (case stream_pfring_add (pf_set (\<lambda>s. s\<lparr>pf_num_frames := num_frames\<rparr>) st) addr of
                         (ret, st) \<Rightarrow>
                           if ret \<noteq> 0 then (ret, Some st)
                           else (0, Some (st\<lparr>st_type := PROTOCOL_ETHERNET_MULTICAST, st_FH := (st_FH st)\<lparr>fh_comment_size := 0\<rparr>,
                                            st_comment := None\<rparr>)))))
      | _ \<Rightarrow> (EINVAL, None))"

section \<open>The invariant\<close>

text \<open>Both positions lie inside the array of pointers.\<close>

definition pfring_ok :: "stream_pfring stream \<Rightarrow> bool" where
  "pfring_ok st \<longleftrightarrow> length (pf_frame (st_src st)) = pf_num_frames (st_src st) \<and> length (pf_seqnum (st_src st)) = MAX_ADDRESS \<and>
     length (pf_address (st_src st)) = MAX_ADDRESS \<and> st_num_addresses st \<le> MAX_ADDRESS \<and>
     st_readPos st < pf_num_frames (st_src st) \<and> st_writePos st < pf_num_frames (st_src st)"

lemma pfring_open_ok:
  assumes "stream_pfring_open calls addr iface n = (0, Some st)" "n = 0 \<or> 8 \<le> n"
  shows "pfring_ok st"
  using assms
  by (auto simp: stream_pfring_open_def stream_pfring_add_def stream_alloc_def pfring_ok_def Let_def MAX_ADDRESS_def
      split: option.splits sum.splits if_splits)

lemma pfring_store_ok: "pfring_ok st \<Longrightarrow> pfring_ok (pfring_store st a bs es)"
  by (simp add: pfring_ok_def pfring_store_def)

lemma check_sequence_length: "check_sequence lb seqs i sh = Inr (ok, seqs') \<Longrightarrow> length seqs' = length seqs"
  by (auto simp: check_sequence_def Let_def rbind_Inr_iff split: if_splits)

lemma pfring_ok_update:
  assumes "pfring_ok st" "length seqs = length (pf_seqnum (st_src st))"
  shows "pfring_ok (st\<lparr>st_stat_recv := r, st_writePos := Suc (st_writePos st) mod pf_num_frames (st_src st), st_flushed := f,
      st_src := (st_src st)\<lparr>pf_seqnum := seqs\<rparr>\<rparr>)"
    and "pfring_ok (st\<lparr>st_stat_recv := r\<rparr>)"
  using assms by (auto simp: pfring_ok_def)

lemma pfring_frame_ok:
  assumes "pfring_frame st dst = Inr (v, st')" "pfring_ok st"
  shows "pfring_ok st'"
proof -
  obtain mt where m: "match_ma_pkt (take (st_num_addresses st) (pf_address (st_src st))) dst = Inr mt"
    using assms(1) by (auto simp: pfring_frame_def rbind_Inr_iff)
  show ?thesis
  proof (cases mt)
    case None
    then show ?thesis using assms by (simp add: pfring_frame_def m)
  next
    case (Some i)
    then obtain valid where v: "valid_framesize (length dst) dst sizeof_ethhdr = Inr valid"
      using assms(1) by (auto simp: pfring_frame_def m rbind_Inr_iff)
    show ?thesis
    proof (cases valid)
      case True
      then obtain sh ok seqs where r: "sendhead_at dst sizeof_ethhdr = Inr sh"
          "check_sequence (st_if_loopback st) (pf_seqnum (st_src st)) i sh = Inr (ok, seqs)"
        using assms(1) Some by (auto simp: pfring_frame_def m v rbind_Inr_iff Let_def)
      then show ?thesis
        using assms True Some pfring_ok_update [OF assms(2) check_sequence_length [OF r(2)]]
        by (cases ok) (auto simp: pfring_frame_def m v)
    qed (use assms Some v in \<open>simp add: pfring_frame_def m\<close>)
  qed
qed

lemma pfring_loop_ok: "pfring_loop es st = Inr (ok, st') \<Longrightarrow> pfring_ok st \<Longrightarrow> pfring_ok st'"
proof (induction es st rule: pfring_loop.induct)
  case (2 a bs es st)
  then obtain v st1 where v: "pfring_frame (pfring_store st a bs es) bs = Inr (v, st1)"
    by (auto simp: rbind_Inr_iff split: if_splits)
  have "pfring_ok st1" using pfring_frame_ok [OF v pfring_store_ok [OF 2(3)]] .
  then show ?case using 2 v by (cases v) (auto split: if_splits)
qed (auto simp: pfring_ok_def)

lemma pfring_enter_ok: "pfring_enter st = Inr st' \<Longrightarrow> pfring_ok st \<Longrightarrow> pfring_ok st'"
  by (auto simp: pfring_enter_def pfring_ok_def rbind_Inr_iff)

lemma pfring_packet_ok:
  assumes "pfring_packet st = Inr (off, cp, st')" "pfring_ok st"
  shows "pfring_ok st'"
proof -
  obtain a where p: "pf_read_ptr (st_src st) = Some (a, off)" "cap_at (pf_ring (st_src st) a) off = Inr cp"
    using assms(1) by (auto simp: pfring_packet_def rbind_Inr_iff Let_def split: option.splits if_splits)
  define st1 where "st1 = st\<lparr>st_src := (st_src st)\<lparr>pf_num_packets := pf_num_packets (st_src st) - 1,
      pf_read_ptr := Some (a, off + (sizeof_cap_header + unat (ch_caplen cp)))\<rparr>,
    st_readPos := Suc (st_readPos st) mod pf_num_frames (st_src st)\<rparr>"
  have st1: "pfring_ok st1" using assms(2) by (auto simp: pfring_ok_def st1_def)
  show ?thesis
  proof (cases "pf_num_packets (st_src st) - 1 = 0")
    case True
    then have "st' = pf_set (\<lambda>s. s\<lparr>pf_read_ptr := None\<rparr>) st1 \<or> pfring_enter st1 = Inr st'"
      using assms(1) p by (auto simp: pfring_packet_def Let_def rbind_Inr_iff st1_def split: if_splits)
    then show ?thesis using st1 pfring_enter_ok by (auto simp: pfring_ok_def)
  qed (use assms p in \<open>auto simp: pfring_packet_def pfring_ok_def Let_def\<close>)
qed

text \<open>Reading keeps the positions inside the array, whatever the library gives.\<close>

abbreviation (input) outcome_state :: "('a \<times> 'c) outcome \<Rightarrow> 'a" where
  "outcome_state r \<equiv> (case r of Again (st, _) \<Rightarrow> st | Done _ _ (st, _) \<Rightarrow> st)"

lemma pfring_deliver_ok:
  assumes "pfring_deliver bpf (st, flt) = Inr r" "pfring_ok st"
  shows "pfring_ok (outcome_state r)"
proof (cases "pf_num_packets (st_src st) = 0")
  case False
  then obtain off cp st1 where p: "pfring_packet st = Inr (off, cp, st1)"
    using assms(1) by (auto simp: pfring_deliver_def rbind_Inr_iff)
  have "pfring_ok st1" by (rule pfring_packet_ok [OF p assms(2)])
  then have u: "pfring_ok (st1\<lparr>st_stat_read := x, st_stat_buffer_usage := y\<rparr>)"
    "pfring_ok (st1\<lparr>st_stat_read := x, st_stat_buffer_usage := y, st_stat_matched := z\<rparr>)" for x y z by (simp_all add: pfring_ok_def)
  show ?thesis
    using assms(1) False \<open>pfring_ok st1\<close> u by (auto simp: pfring_deliver_def p rbind_Inr_iff Let_def split: if_splits)
qed (use assms in \<open>auto simp: pfring_deliver_def\<close>)

lemma pfring_start_ok: "pfring_start st = Inr (ok, st') \<Longrightarrow> pfring_ok st \<Longrightarrow> pfring_ok st'"
  by (auto simp: pfring_start_def stream_pfring_read_frame_def rbind_Inr_iff dest: pfring_loop_ok pfring_enter_ok split: if_splits)

lemma pfring_further_ok: "pfring_further st = Inr st' \<Longrightarrow> pfring_ok st \<Longrightarrow> pfring_ok st'"
  by (auto simp: pfring_further_def stream_pfring_read_frame_def rbind_Inr_iff dest: pfring_loop_ok split: if_splits)

lemma pfring_read_step_ok:
  assumes "pfring_read_step bpf (st, flt) = Inr r" "pfring_ok st"
  shows "pfring_ok (outcome_state r)"
proof -
  obtain ok st1 where 1: "pfring_start st = Inr (ok, st1)" using assms(1) by (auto simp: pfring_read_step_def rbind_Inr_iff)
  then have ok1: "pfring_ok st1" using assms(2) by (rule pfring_start_ok)
  show ?thesis
  proof (cases ok)
    case True
    then obtain st2 where 2: "pfring_further st1 = Inr st2" "pfring_deliver bpf (st2, flt) = Inr r"
      using assms(1) 1 by (auto simp: pfring_read_step_def rbind_Inr_iff)
    then show ?thesis using pfring_deliver_ok [OF 2(2) pfring_further_ok [OF 2(1) ok1]] by simp
  qed (use assms(1) 1 ok1 in \<open>auto simp: pfring_read_step_def\<close>)
qed

section \<open>Frames that are lost\<close>

text \<open>
  A frame that is still to be read is replaced when the library uses its place in the ring for a later one: the pointer
  stays and the bytes are those of the later frame.
\<close>

lemma pfring_overwritten:
  assumes "i < length (pf_frame (st_src st))" "i \<noteq> st_writePos st" "pf_frame (st_src st) ! i = Some a"
  shows "frame_at (pfring_store st a bs es) i = Inr (a, bs)"
  using assms by (simp add: frame_at_def pfring_store_def)

text \<open>
  A frame without packets, which passes the checks, is never left: from then on reading gives \<open>EAGAIN\<close>.
\<close>

lemma pfring_frame_keeps:
  "pfring_frame st dst = Inr (v, st') \<Longrightarrow>
    pf_read_ptr (st_src st') = pf_read_ptr (st_src st) \<and> pf_num_packets (st_src st') = pf_num_packets (st_src st)"
  by (auto simp: pfring_frame_def rbind_Inr_iff Let_def split: option.splits if_splits)

lemma pfring_loop_keeps:
  "pfring_loop es st = Inr (ok, st') \<Longrightarrow>
    pf_read_ptr (st_src st') = pf_read_ptr (st_src st) \<and> pf_num_packets (st_src st') = pf_num_packets (st_src st)"
proof (induction es st rule: pfring_loop.induct)
  case (2 a bs es st)
  then obtain v st1 where v: "pfring_frame (pfring_store st a bs es) bs = Inr (v, st1)"
    by (auto simp: rbind_Inr_iff split: if_splits)
  have "pf_read_ptr (st_src st1) = pf_read_ptr (st_src st) \<and> pf_num_packets (st_src st1) = pf_num_packets (st_src st)"
    using pfring_frame_keeps [OF v] by (simp add: pfring_store_def)
  then show ?case using 2 v by (cases v) (auto split: if_splits)
qed auto

lemma pfring_stuck:
  assumes "pf_read_ptr (st_src st) = Some p" "pf_num_packets (st_src st) = 0" "pfring_read_step bpf (st, flt) = Inr r"
  shows "\<exists>st'. r = Done EAGAIN None (st', flt) \<and> pf_read_ptr (st_src st') = Some p \<and> pf_num_packets (st_src st') = 0"
proof -
  obtain st2 where 2: "pfring_further st = Inr st2" "pfring_deliver bpf (st2, flt) = Inr r"
    using assms by (auto simp: pfring_read_step_def pfring_start_def rbind_Inr_iff)
  then have "pf_read_ptr (st_src st2) = Some p" "pf_num_packets (st_src st2) = 0"
    using assms(1,2)
    by (auto simp: pfring_further_def stream_pfring_read_frame_def rbind_Inr_iff dest: pfring_loop_keeps split: if_splits)
  then show ?thesis using 2(2) by (auto simp: pfring_deliver_def)
qed

end
