(* ===== verification/Slist.thy ===== *)
theory Slist
  imports Cap_Prelude
begin

text \<open>
  The growing list with keys of \<open>src/slist.c\<close>. The blocks behind \<open>key\<close> and \<open>value\<close> are lists of slots, of
  which the first \<open>size\<close> are in use; a slot that was never written holds \<open>None\<close>. \<open>realloc\<close> may move a
  block, so a pointer to an element is the number of the allocation it points into together with the
  index of the element, and it dangles when the list has been reallocated since.

  The locale \<open>keyed_list\<close> is what users of the list rely on: keys are found at the index they were put
  at, and putting one more key does not move the others.
\<close>

section \<open>The list\<close>

record ('k, 'v) simple_list =
  sl_key :: "'k option list"
  sl_value :: "'v option list"
  sl_size :: nat
  sl_capacity :: nat
  sl_block :: nat     \<comment> \<open>the current allocation of \<open>value\<close>\<close>

type_synonym elem_ptr = "nat \<times> nat"

definition slist_alloc :: "('k, 'v) simple_list \<Rightarrow> nat \<Rightarrow> ('k, 'v) simple_list" where
  "slist_alloc sl growth =
     sl\<lparr>sl_capacity := sl_capacity sl + growth, sl_key := sl_key sl @ replicate growth None,
        sl_value := sl_value sl @ replicate growth None, sl_block := sl_block sl + 1\<rparr>"

definition slist_init :: "nat \<Rightarrow> ('k, 'v) simple_list" where
  "slist_init initial_size =
     slist_alloc \<lparr>sl_key = [], sl_value = [], sl_size = 0, sl_capacity = 0, sl_block = 0\<rparr> initial_size"

text \<open>Clearing releases the keys in use; their slots hold pointers to released memory afterwards.\<close>

definition slist_clear :: "('k, 'v) simple_list \<Rightarrow> ('k, 'v) simple_list" where
  "slist_clear sl = sl\<lparr>sl_key := replicate (sl_size sl) None @ drop (sl_size sl) (sl_key sl), sl_size := 0\<rparr>"

definition slist_free :: "('k, 'v) simple_list \<Rightarrow> ('k, 'v) simple_list" where
  "slist_free sl = (slist_clear sl)\<lparr>sl_key := [], sl_value := [], sl_capacity := 0, sl_block := sl_block sl + 1\<rparr>"

definition slist_get :: "('k, 'v) simple_list \<Rightarrow> nat \<Rightarrow> elem_ptr" where
  "slist_get sl index = (sl_block sl, index)"

text \<open>The loop of \<open>slist_find\<close> from slot \<open>i\<close> on, with \<open>n\<close> slots to go; \<open>cmp cur key\<close> is \<open>cmp(cur, key) == 0\<close>.\<close>

fun slist_scan :: "('k \<Rightarrow> 'k \<Rightarrow> bool) \<Rightarrow> 'k option list \<Rightarrow> 'k \<Rightarrow> nat \<Rightarrow> nat \<Rightarrow> nat option res" where
  "slist_scan cmp keys key i 0 = Inr None"
| "slist_scan cmp keys key i (Suc n) =
     (if \<not> i < length keys then Inl Out_of_bounds
      else case keys ! i of
          None \<Rightarrow> Inl Dangling
        | Some cur \<Rightarrow> if cmp cur key then Inr (Some i) else slist_scan cmp keys key (i + 1) n)"

definition slist_find :: "('k, 'v) simple_list \<Rightarrow> 'k \<Rightarrow> ('k \<Rightarrow> 'k \<Rightarrow> bool) \<Rightarrow> elem_ptr option res" where
  "slist_find sl key cmp =
     rbind (slist_scan cmp (sl_key sl) key 0 (sl_size sl)) (\<lambda>r. Inr (map_option (slist_get sl) r))"

definition slist_put :: "('k, 'v) simple_list \<Rightarrow> 'k \<Rightarrow> (elem_ptr \<times> ('k, 'v) simple_list) res" where
  "slist_put sl key =
     (let sl = (if sl_size sl = sl_capacity sl then slist_alloc sl (sl_capacity sl) else sl);
          index = sl_size sl
      in if \<not> index < sl_capacity sl then Inl Out_of_bounds
         else
           let sl = sl\<lparr>sl_key := (sl_key sl)[index := Some key], sl_size := sl_size sl + 1\<rparr>
           in Inr (slist_get sl index, sl))"

text \<open>Access to an element through a pointer to it.\<close>

definition elem_read :: "('k, 'v) simple_list \<Rightarrow> elem_ptr \<Rightarrow> 'v res" where
  "elem_read sl p =
     (if fst p \<noteq> sl_block sl then Inl Dangling
      else if \<not> snd p < length (sl_value sl) then Inl Out_of_bounds
      else case sl_value sl ! snd p of None \<Rightarrow> Inl Out_of_bounds | Some v \<Rightarrow> Inr v)"

definition elem_write :: "('k, 'v) simple_list \<Rightarrow> elem_ptr \<Rightarrow> 'v \<Rightarrow> ('k, 'v) simple_list res" where
  "elem_write sl p v =
     (if fst p \<noteq> sl_block sl then Inl Dangling
      else if \<not> snd p < length (sl_value sl) then Inl Out_of_bounds
      else Inr (sl\<lparr>sl_value := (sl_value sl)[snd p := Some v]\<rparr>))"

section \<open>Invariant and abstraction\<close>

definition slist_wf :: "('k, 'v) simple_list \<Rightarrow> bool" where
  "slist_wf sl \<longleftrightarrow> length (sl_key sl) = sl_capacity sl \<and> length (sl_value sl) = sl_capacity sl \<and>
     sl_size sl \<le> sl_capacity sl \<and> 0 < sl_capacity sl \<and> (\<forall>i < sl_size sl. sl_key sl ! i \<noteq> None)"

definition slist_keys :: "('k, 'v) simple_list \<Rightarrow> 'k list" where
  "slist_keys sl = map (\<lambda>i. the (sl_key sl ! i)) [0..<sl_size sl]"

lemma length_slist_keys [simp]: "length (slist_keys sl) = sl_size sl"
  by (simp add: slist_keys_def)

lemma slist_keys_nth: "slist_wf sl \<Longrightarrow> i < sl_size sl \<Longrightarrow> sl_key sl ! i = Some (slist_keys sl ! i)"
  by (auto simp: slist_keys_def slist_wf_def)

lemma slist_init_size [simp]: "sl_size (slist_init n) = 0" "sl_capacity (slist_init n) = n"
  by (simp_all add: slist_init_def slist_alloc_def)

lemma slist_init_wf: "0 < n \<Longrightarrow> slist_wf (slist_init n) \<and> slist_keys (slist_init n) = []"
  by (simp add: slist_init_def slist_alloc_def slist_wf_def slist_keys_def)

lemma slist_put_wf:
  assumes "slist_wf sl"
  obtains sl' where "slist_put sl k = Inr (slist_get sl' (sl_size sl), sl')" "slist_wf sl'"
    "slist_keys sl' = slist_keys sl @ [k]" "sl_size sl' = sl_size sl + 1"
proof -
  let ?g = "if sl_size sl = sl_capacity sl then slist_alloc sl (sl_capacity sl) else sl"
  let ?sl = "?g\<lparr>sl_key := (sl_key ?g)[sl_size sl := Some k], sl_size := sl_size sl + 1\<rparr>"
  have s: "sl_size ?g = sl_size sl" "sl_size sl < sl_capacity ?g" "length (sl_key ?g) = sl_capacity ?g"
    using assms by (auto simp: slist_wf_def slist_alloc_def)
  have n: "sl_key ?g ! i = sl_key sl ! i" if "i < sl_size sl" for i
    using assms that by (auto simp: slist_wf_def slist_alloc_def nth_append)
  have "slist_put sl k = Inr (slist_get ?sl (sl_size sl), ?sl)"
    using s by (simp add: slist_put_def Let_def)
  moreover have "slist_wf ?sl"
    using assms s n by (auto simp: slist_wf_def slist_alloc_def nth_list_update less_Suc_eq)
  moreover have "slist_keys ?sl = slist_keys sl @ [k]"
    using s n by (simp add: slist_keys_def)
  ultimately show thesis using that [of ?sl] s(1) by simp
qed

lemma slist_scan_spec:
  assumes "i + n \<le> length ks" "\<And>j. j < i + n \<Longrightarrow> ks ! j = Some (xs ! j)"
  shows "\<exists>r. slist_scan (=) ks k i n = Inr r \<and>
    (case r of None \<Rightarrow> \<forall>j. i \<le> j \<and> j < i + n \<longrightarrow> xs ! j \<noteq> k
     | Some p \<Rightarrow> i \<le> p \<and> p < i + n \<and> xs ! p = k \<and> (\<forall>j. i \<le> j \<and> j < p \<longrightarrow> xs ! j \<noteq> k))"
  using assms
proof (induction n arbitrary: i)
  case 0
  then show ?case by auto
next
  case (Suc n)
  show ?case
  proof (cases "xs ! i = k")
    case True
    then show ?thesis using Suc.prems by auto
  next
    case False
    obtain r where r: "slist_scan (=) ks k (i + 1) n = Inr r"
      "case r of None \<Rightarrow> \<forall>j. i + 1 \<le> j \<and> j < i + 1 + n \<longrightarrow> xs ! j \<noteq> k
       | Some p \<Rightarrow> i + 1 \<le> p \<and> p < i + 1 + n \<and> xs ! p = k \<and> (\<forall>j. i + 1 \<le> j \<and> j < p \<longrightarrow> xs ! j \<noteq> k)"
      using Suc.IH [of "i + 1"] Suc.prems by auto
    have "slist_scan (=) ks k i (Suc n) = Inr r" using False r(1) Suc.prems by simp
    moreover have "xs ! j \<noteq> k" if "i \<le> j" "i + 1 \<le> j \<Longrightarrow> xs ! j \<noteq> k" for j
      using that False by (cases "i = j") auto
    ultimately show ?thesis
      using r(2) by (cases r) (auto simp del: slist_scan.simps)
  qed
qed

lemma slist_find_wf:
  assumes "slist_wf sl"
  shows "\<exists>r. slist_find sl k (=) = Inr r \<and>
    (case r of None \<Rightarrow> k \<notin> set (slist_keys sl)
     | Some (b, i) \<Rightarrow> b = sl_block sl \<and> i < sl_size sl \<and> slist_keys sl ! i = k \<and> (\<forall>j<i. slist_keys sl ! j \<noteq> k))"
proof -
  obtain r where r: "slist_scan (=) (sl_key sl) k 0 (sl_size sl) = Inr r"
    "case r of None \<Rightarrow> \<forall>j. 0 \<le> j \<and> j < 0 + sl_size sl \<longrightarrow> slist_keys sl ! j \<noteq> k
     | Some p \<Rightarrow> 0 \<le> p \<and> p < 0 + sl_size sl \<and> slist_keys sl ! p = k \<and> (\<forall>j. 0 \<le> j \<and> j < p \<longrightarrow> slist_keys sl ! j \<noteq> k)"
    using slist_scan_spec [of 0 "sl_size sl" "sl_key sl" "slist_keys sl" k] slist_keys_nth [OF assms] assms
    by (auto simp: slist_wf_def)
  then show ?thesis
    by (cases r) (auto simp: slist_find_def slist_get_def in_set_conv_nth)
qed

lemma slist_find_absent:
  assumes "slist_wf sl" "k \<notin> set (slist_keys sl)"
  shows "slist_find sl k (=) = Inr None"
proof -
  obtain r where "slist_find sl k (=) = Inr r" "case r of None \<Rightarrow> k \<notin> set (slist_keys sl)
     | Some (b, i) \<Rightarrow> b = sl_block sl \<and> i < sl_size sl \<and> slist_keys sl ! i = k \<and> (\<forall>j<i. slist_keys sl ! j \<noteq> k)"
    using slist_find_wf [OF assms(1), of k] by (elim exE conjE) (rule that)
  then show ?thesis using assms(2) nth_mem [of _ "slist_keys sl"] by (cases r) auto
qed

lemma slist_find_at:
  assumes "slist_wf sl" "i < sl_size sl" "slist_keys sl ! i = k" "\<And>j. j < i \<Longrightarrow> slist_keys sl ! j \<noteq> k"
  shows "slist_find sl k (=) = Inr (Some (sl_block sl, i))"
proof -
  obtain r where r: "slist_find sl k (=) = Inr r" "case r of None \<Rightarrow> k \<notin> set (slist_keys sl)
     | Some (b, i) \<Rightarrow> b = sl_block sl \<and> i < sl_size sl \<and> slist_keys sl ! i = k \<and> (\<forall>j<i. slist_keys sl ! j \<noteq> k)"
    using slist_find_wf [OF assms(1), of k] by (elim exE conjE) (rule that)
  have "k \<in> set (slist_keys sl)" using assms(2,3) nth_mem [of i "slist_keys sl"] by simp
  then obtain n where n: "r = Some (sl_block sl, n)" "slist_keys sl ! n = k" "\<And>j. j < n \<Longrightarrow> slist_keys sl ! j \<noteq> k"
    using r(2) by (cases r) auto
  then have "n = i" using assms(3,4) by (metis linorder_neqE_nat)
  then show ?thesis using r(1) n(1) by simp
qed

section \<open>The interface of the list\<close>

locale keyed_list =
  fixes inv :: "'l \<Rightarrow> bool" and keys :: "'l \<Rightarrow> 'k list"
    and find_key :: "'l \<Rightarrow> 'k \<Rightarrow> nat option res" and put_key :: "'l \<Rightarrow> 'k \<Rightarrow> (nat \<times> 'l) res"
  assumes find_first: "inv l \<Longrightarrow> \<exists>r. find_key l k = Inr r \<and>
      (case r of None \<Rightarrow> k \<notin> set (keys l)
       | Some i \<Rightarrow> i < length (keys l) \<and> keys l ! i = k \<and> (\<forall>j<i. keys l ! j \<noteq> k))"
    and put_appends: "inv l \<Longrightarrow> \<exists>l'. put_key l k = Inr (length (keys l), l') \<and> inv l' \<and> keys l' = keys l @ [k]"
begin

lemma find_unique:
  assumes "inv l" "i < length (keys l)" "keys l ! i = k" "\<And>j. j < i \<Longrightarrow> keys l ! j \<noteq> k"
  shows "find_key l k = Inr (Some i)"
proof -
  obtain r where r: "find_key l k = Inr r" "case r of None \<Rightarrow> k \<notin> set (keys l)
       | Some i \<Rightarrow> i < length (keys l) \<and> keys l ! i = k \<and> (\<forall>j<i. keys l ! j \<noteq> k)"
    using find_first [OF assms(1)] by blast
  then obtain n where "r = Some n" "keys l ! n = k" "\<forall>j<n. keys l ! j \<noteq> k"
    using assms(2,3) nth_mem by (cases r) fastforce+
  moreover then have "n = i" using assms(3,4) by (metis linorder_neqE_nat)
  ultimately show ?thesis using r(1) by simp
qed

lemma find_after_put:
  assumes "inv l" "put_key l k = Inr (i, l')"
  shows "i = length (keys l) \<and> find_key l' k' =
    (if k' \<in> set (keys l) then find_key l k' else if k' = k then Inr (Some i) else Inr None)"
proof -
  have l': "i = length (keys l)" "inv l'" "keys l' = keys l @ [k]"
    using put_appends [OF assms(1), of k] assms(2) by auto
  obtain r where r: "find_key l k' = Inr r" "case r of None \<Rightarrow> k' \<notin> set (keys l)
       | Some i \<Rightarrow> i < length (keys l) \<and> keys l ! i = k' \<and> (\<forall>j<i. keys l ! j \<noteq> k')"
    using find_first [OF assms(1)] by blast
  show ?thesis
  proof (cases r)
    case (Some n)
    then have "find_key l' k' = Inr (Some n)"
      using r(2) l' by (intro find_unique) (auto simp: nth_append)
    then show ?thesis using Some r l'(1) by auto
  next
    case None
    then have n: "k' \<notin> set (keys l)" using r(2) by simp
    have "find_key l' k' = Inr (Some i)" if "k' = k"
      using l' n that by (intro find_unique) (auto simp: nth_append)
    moreover have "find_key l' k' = Inr None" if "k' \<noteq> k"
    proof -
      obtain r' where r': "find_key l' k' = Inr r'" "case r' of None \<Rightarrow> k' \<notin> set (keys l')
         | Some i \<Rightarrow> i < length (keys l') \<and> keys l' ! i = k' \<and> (\<forall>j<i. keys l' ! j \<noteq> k')"
        using find_first [OF l'(2)] by blast
      have "k' \<notin> set (keys l')" using l'(3) n that by simp
      then have "r' = None" using r'(2) nth_mem by (cases r') auto
      then show ?thesis using r'(1) by simp
    qed
    ultimately show ?thesis using n l'(1) by auto
  qed
qed

end

text \<open>The list of \<open>slist.c\<close> with \<open>cmp\<close> the equality of keys; the index is what the pointer points to.\<close>

definition slist_find_index :: "('k, 'v) simple_list \<Rightarrow> 'k \<Rightarrow> nat option res" where
  "slist_find_index sl key = rbind (slist_find sl key (=)) (\<lambda>r. Inr (map_option snd r))"

definition slist_put_index :: "('k, 'v) simple_list \<Rightarrow> 'k \<Rightarrow> (nat \<times> ('k, 'v) simple_list) res" where
  "slist_put_index sl key = rbind (slist_put sl key) (\<lambda>(p, sl). Inr (snd p, sl))"

interpretation kl: keyed_list slist_wf slist_keys slist_find_index slist_put_index
proof (unfold_locales, goal_cases)
  case (1 l k)
  then obtain r where "slist_find l k (=) = Inr r" "case r of None \<Rightarrow> k \<notin> set (slist_keys l)
     | Some (b, i) \<Rightarrow> b = sl_block l \<and> i < sl_size l \<and> slist_keys l ! i = k \<and> (\<forall>j<i. slist_keys l ! j \<noteq> k)"
    using slist_find_wf [OF 1, of k] by (elim exE conjE) (rule that)
  then show ?case by (cases r) (auto simp: slist_find_index_def)
next
  case (2 l k)
  obtain l' where "slist_put l k = Inr (slist_get l' (sl_size l), l')" "slist_wf l'" "slist_keys l' = slist_keys l @ [k]"
    using slist_put_wf [OF 2] by blast
  then show ?case by (simp add: slist_put_index_def slist_get_def)
qed

section \<open>Properties\<close>

text \<open>
  Putting a key into a list appends it at the next index, also when the list has to grow; then a
  key that was in the list before is found at the index it had, the new key at its own, and no other is
  found.
\<close>

lemma slist_find_after_put:
  assumes "slist_wf sl" "slist_put_index sl k = Inr (i, sl')"
  shows "i = sl_size sl \<and> slist_find_index sl' k' =
    (if k' \<in> set (slist_keys sl) then slist_find_index sl k' else if k' = k then Inr (Some i) else Inr None)"
  using kl.find_after_put [OF assms, of k'] by simp

end
