(* ===== verification/Connection_Id.thy ===== *)
theory Connection_Id
  imports Header_Walk Slist
begin

text \<open>
  Connection numbers (\<open>src/packet/connection_id.c\<close>): a packet of a TCP or UDP flow over IPv4 gets the
  number of the flow, the same in both directions, and a TCP handshake on a known flow starts a new
  number. The flows are kept in 256 lists of \<open>src/slist.c\<close>, two elements per connection that point to
  each other.

  A key is a block of its own that only its slot and the state at the same index point to, so the
  pointer \<open>state->entry\<close> is the index of the slot.
\<close>

section \<open>State\<close>

record conn_entry =
  en_protocol :: protocol_type
  en_finished :: bool
  en_src :: u32
  en_dst :: u32
  en_sport :: u16
  en_dport :: u16

record conn_state =
  cs_seq :: u32
  cs_entry :: nat
  cs_sibling :: "elem_ptr option"
  cs_id :: u32

type_synonym bucket = "(conn_entry, conn_state) simple_list"

record tracker =
  tr_list :: "bucket list"
  tr_initialized :: bool
  tr_counter :: u32

definition bucket_count :: nat where "bucket_count = 256"

section \<open>Entries\<close>

definition entry_put :: "bucket \<Rightarrow> conn_entry \<Rightarrow> u32 \<Rightarrow> (elem_ptr \<times> bucket) res" where
  "entry_put b entry n =
     rbind (slist_put b entry) (\<lambda>(p, b).
     rbind (elem_write b p \<lparr>cs_seq = 0, cs_entry = snd p, cs_sibling = None, cs_id = n\<rparr>) (\<lambda>b.
       Inr (p, b)))"

definition ipv4_forward :: "u32 \<Rightarrow> u32 \<Rightarrow> u16 \<Rightarrow> u16 \<Rightarrow> conn_entry" where
  "ipv4_forward src dst sport dport =
     \<lparr>en_protocol = PROTOCOL_IPV4, en_finished = False, en_src = src, en_dst = dst,
      en_sport = sport, en_dport = dport\<rparr>"

definition ipv4_backward :: "u32 \<Rightarrow> u32 \<Rightarrow> u16 \<Rightarrow> u16 \<Rightarrow> conn_entry" where
  "ipv4_backward src dst sport dport =
     \<lparr>en_protocol = PROTOCOL_IPV4, en_finished = False, en_src = dst, en_dst = src,
      en_sport = dport, en_dport = sport\<rparr>"

definition ipv4_connection_id :: "mem \<Rightarrow> nat \<Rightarrow> (conn_entry \<times> conn_entry) option res" where
  "ipv4_connection_id m ip =
     rbind (find_tcp_header m (Some ip) (Some (0, 0))) (\<lambda>(tcp, ports).
     rbind (find_udp_header m (Some ip) ports) (\<lambda>(udp, ports).
       case (tcp = None \<and> udp = None, ports) of
         (False, Some (sport, dport)) \<Rightarrow>
           rbind (ip_src_of m ip) (\<lambda>src. rbind (ip_dst_of m ip) (\<lambda>dst.
             Inr (Some (ipv4_forward src dst sport dport, ipv4_backward src dst sport dport))))
       | _ \<Rightarrow> Inr None))"

definition ipv4_bucket_select :: "mem \<Rightarrow> nat \<Rightarrow> nat res" where
  "ipv4_bucket_select m ip =
     rbind (ip_src_of m ip) (\<lambda>src. rbind (ip_dst_of m ip) (\<lambda>dst.
       Inr (unat (src XOR dst) mod bucket_count)))"

section \<open>Handshakes\<close>

text \<open>The TCP header of the packet, if it has one.\<close>

definition packet_tcp :: "mem \<Rightarrow> nat option res" where
  "packet_tcp m =
     rbind (find_ipv4_header m) (\<lambda>ip.
     rbind (find_tcp_header m (map_option fst ip) None) (\<lambda>(tcp, _). Inr tcp))"

text \<open>The sequence number of a packet with SYN and without ACK.\<close>

definition handshake :: "mem \<Rightarrow> u32 option res" where
  "handshake m =
     rbind (packet_tcp m) (\<lambda>tcp.
       case tcp of
         None \<Rightarrow> Inr None
       | Some tcp \<Rightarrow>
           rbind (rd8 m (tcp + 13)) (\<lambda>flags.
             if bit flags 1 \<and> \<not> bit flags 4
             then rbind (rd32 m (tcp + 4)) (\<lambda>seq. Inr (Some seq))
             else Inr None))"

text \<open>Access to the entry of a state, and marking it as finished.\<close>

definition entry_of :: "bucket \<Rightarrow> conn_state \<Rightarrow> conn_entry res" where
  "entry_of b s =
     (if \<not> cs_entry s < length (sl_key b) then Inl Out_of_bounds
      else case sl_key b ! cs_entry s of None \<Rightarrow> Inl Dangling | Some e \<Rightarrow> Inr e)"

definition entry_finish :: "bucket \<Rightarrow> conn_state \<Rightarrow> bucket res" where
  "entry_finish b s =
     rbind (entry_of b s) (\<lambda>e.
       Inr (b\<lparr>sl_key := (sl_key b)[cs_entry s := Some (e\<lparr>en_finished := True\<rparr>)]\<rparr>))"

definition sibling_of :: "bucket \<Rightarrow> conn_state \<Rightarrow> conn_state res" where
  "sibling_of b s = (case cs_sibling s of None \<Rightarrow> Inl Null_deref | Some p \<Rightarrow> elem_read b p)"

definition update_state :: "bucket \<Rightarrow> elem_ptr \<Rightarrow> (conn_state \<Rightarrow> conn_state) \<Rightarrow> bucket res" where
  "update_state b p f = rbind (elem_read b p) (\<lambda>s. elem_write b p (f s))"

definition connection_id_tcp_syn ::
  "mem \<Rightarrow> bucket \<Rightarrow> u32 \<Rightarrow> elem_ptr \<Rightarrow> (elem_ptr \<times> bucket \<times> u32) res" where
  "connection_id_tcp_syn m b counter state =
     rbind (handshake m) (\<lambda>hs.
       case hs of
         None \<Rightarrow> Inr (state, b, counter)
       | Some seq \<Rightarrow>
           rbind (elem_read b state) (\<lambda>s.
             if cs_seq s = seq then Inr (state, b, counter)
             else
               let n = counter + 1 in
               rbind (entry_of b s) (\<lambda>e.
               rbind (entry_put b e n) (\<lambda>(new0, b).
               rbind (elem_read b state) (\<lambda>s.
               rbind (sibling_of b s) (\<lambda>t.
               rbind (entry_of b t) (\<lambda>e'.
               rbind (entry_put b e' n) (\<lambda>(new1, b).
               rbind (update_state b new0 (\<lambda>s. s\<lparr>cs_seq := seq, cs_sibling := Some new1\<rparr>)) (\<lambda>b.
               rbind (update_state b new1 (\<lambda>s. s\<lparr>cs_seq := seq, cs_sibling := Some new0\<rparr>)) (\<lambda>b.
               rbind (elem_read b state) (\<lambda>s.
               rbind (entry_finish b s) (\<lambda>b.
               rbind (sibling_of b s) (\<lambda>t.
               rbind (entry_finish b t) (\<lambda>b.
                 Inr (new0, b, n)))))))))))))))"

section \<open>Searching\<close>

definition packet_seq :: "mem \<Rightarrow> u32 res" where
  "packet_seq m =
     rbind (packet_tcp m) (\<lambda>tcp. case tcp of None \<Rightarrow> Inr 0 | Some tcp \<Rightarrow> rd32 m (tcp + 4))"

definition connection_id_search ::
  "mem \<Rightarrow> bucket \<Rightarrow> u32 \<Rightarrow> conn_entry \<times> conn_entry \<Rightarrow> (u32 \<times> bucket \<times> u32) res" where
  "connection_id_search m b counter entry =
     rbind (slist_find b (fst entry) (=)) (\<lambda>r.
       case r of
         Some state \<Rightarrow>
           rbind (connection_id_tcp_syn m b counter state) (\<lambda>(state, b, counter).
           rbind (elem_read b state) (\<lambda>s. Inr (cs_id s, b, counter)))
       | None \<Rightarrow>
           let n = counter + 1 in
           rbind (entry_put b (fst entry) n) (\<lambda>(new0, b).
           rbind (packet_seq m) (\<lambda>seq.
           rbind (update_state b new0 (\<lambda>s. s\<lparr>cs_seq := seq\<rparr>)) (\<lambda>b.
           rbind (entry_put b (snd entry) n) (\<lambda>(new1, b).
           rbind (packet_seq m) (\<lambda>seq.
           rbind (update_state b new1 (\<lambda>s. s\<lparr>cs_seq := seq\<rparr>)) (\<lambda>b.
           rbind (update_state b new0 (\<lambda>s. s\<lparr>cs_sibling := Some new1\<rparr>)) (\<lambda>b.
           rbind (update_state b new1 (\<lambda>s. s\<lparr>cs_sibling := Some new0\<rparr>)) (\<lambda>b.
             Inr (n, b, n))))))))))"

definition tracker_init :: "tracker \<Rightarrow> tracker" where
  "tracker_init tr =
     (if tr_initialized tr then tr
      else tr\<lparr>tr_list := replicate bucket_count (slist_init 32), tr_initialized := True\<rparr>)"

definition connection_id :: "tracker \<Rightarrow> mem \<Rightarrow> (u32 \<times> tracker) res" where
  "connection_id tr m =
     (let tr = tracker_init tr in
      rbind (find_ipv4_header m) (\<lambda>ip.
        case ip of
          None \<Rightarrow> Inr (0, tr)
        | Some (ip, _) \<Rightarrow>
            rbind (ipv4_connection_id m ip) (\<lambda>entry.
              case entry of
                None \<Rightarrow> Inr (0, tr)
              | Some entry \<Rightarrow>
                  rbind (ipv4_bucket_select m ip) (\<lambda>i.
                    if \<not> i < length (tr_list tr) then Inl Out_of_bounds
                    else rbind (connection_id_search m (tr_list tr ! i) (tr_counter tr) entry) (\<lambda>(n, b, counter).
                      Inr (n, tr\<lparr>tr_list := (tr_list tr)[i := b], tr_counter := counter\<rparr>))))))"

section \<open>The abstract connection table\<close>

text \<open>
  A bucket stands for a list of connections, in the order they were opened: the entry of the first
  packet's direction, the sequence numbers kept for the two directions, and the number.
\<close>

record conn =
  cn_entry :: conn_entry
  cn_seq :: "u32 \<times> u32"
  cn_id :: u32

definition rev_entry :: "conn_entry \<Rightarrow> conn_entry" where
  "rev_entry e = e\<lparr>en_src := en_dst e, en_dst := en_src e, en_sport := en_dport e, en_dport := en_sport e\<rparr>"

fun flat :: "conn list \<Rightarrow> conn_entry list" where
  "flat [] = []"
| "flat (c # cs) = cn_entry c # rev_entry (cn_entry c) # flat cs"

text \<open>The first connection that holds the entry, and whether it holds it as its reverse direction.\<close>

fun find_conn :: "conn list \<Rightarrow> conn_entry \<Rightarrow> (nat \<times> bool) option" where
  "find_conn [] e = None"
| "find_conn (c # cs) e =
     (if cn_entry c = e then Some (0, False)
      else if rev_entry (cn_entry c) = e then Some (0, True)
      else map_option (\<lambda>(k, rv). (Suc k, rv)) (find_conn cs e))"

definition finish_conn :: "conn \<Rightarrow> conn" where
  "finish_conn c = c\<lparr>cn_entry := (cn_entry c)\<lparr>en_finished := True\<rparr>\<rparr>"

text \<open>What a packet of the flow \<open>e\<close> does to the table: \<open>hs\<close> is its handshake, \<open>sq\<close> its sequence number.\<close>

definition conn_search ::
  "u32 option \<Rightarrow> u32 \<Rightarrow> conn list \<Rightarrow> u32 \<Rightarrow> conn_entry \<Rightarrow> u32 \<times> conn list \<times> u32" where
  "conn_search hs sq cs counter e =
     (case find_conn cs e of
        None \<Rightarrow> (counter + 1, cs @ [\<lparr>cn_entry = e, cn_seq = (sq, sq), cn_id = counter + 1\<rparr>], counter + 1)
      | Some (k, rv) \<Rightarrow>
          (case hs of
             None \<Rightarrow> (cn_id (cs ! k), cs, counter)
           | Some q \<Rightarrow>
               if (if rv then snd (cn_seq (cs ! k)) else fst (cn_seq (cs ! k))) = q
               then (cn_id (cs ! k), cs, counter)
               else (counter + 1,
                     cs[k := finish_conn (cs ! k)] @ [\<lparr>cn_entry = e, cn_seq = (q, q), cn_id = counter + 1\<rparr>],
                     counter + 1)))"

definition conn_states :: "nat \<Rightarrow> nat \<Rightarrow> conn \<Rightarrow> conn_state \<times> conn_state" where
  "conn_states block k c =
     (\<lparr>cs_seq = fst (cn_seq c), cs_entry = 2 * k, cs_sibling = Some (block, 2 * k + 1), cs_id = cn_id c\<rparr>,
      \<lparr>cs_seq = snd (cn_seq c), cs_entry = 2 * k + 1, cs_sibling = Some (block, 2 * k), cs_id = cn_id c\<rparr>)"

definition holds_conns :: "bucket \<Rightarrow> conn list \<Rightarrow> bool" where
  "holds_conns b cs \<longleftrightarrow> slist_wf b \<and> slist_keys b = flat cs \<and>
     (\<forall>k < length cs. sl_value b ! (2 * k) = Some (fst (conn_states (sl_block b) k (cs ! k))) \<and>
        sl_value b ! (2 * k + 1) = Some (snd (conn_states (sl_block b) k (cs ! k))))"

section \<open>The table as a list of slots\<close>

lemma rev_rev_entry [simp]: "rev_entry (rev_entry e) = e"
  by (simp add: rev_entry_def)

lemma rev_finish: "rev_entry (e\<lparr>en_finished := True\<rparr>) = (rev_entry e)\<lparr>en_finished := True\<rparr>"
  by (simp add: rev_entry_def)

lemma length_flat [simp]: "length (flat cs) = 2 * length cs"
  by (induction cs) simp_all

lemma flat_append [simp]: "flat (cs @ ds) = flat cs @ flat ds"
  by (induction cs) simp_all

lemma flat_nth:
  "k < length cs \<Longrightarrow> flat cs ! (2 * k) = cn_entry (cs ! k)"
  "k < length cs \<Longrightarrow> flat cs ! Suc (2 * k) = rev_entry (cn_entry (cs ! k))"
proof (induction cs arbitrary: k)
  case (Cons c cs)
  { case 1 then show ?case using Cons.IH by (cases k) auto }
  { case 2 then show ?case using Cons.IH by (cases k) auto }
qed auto

lemma flat_finish:
  "k < length cs \<Longrightarrow> flat (cs[k := finish_conn (cs ! k)]) =
     (flat cs)[2 * k := (flat cs ! (2 * k))\<lparr>en_finished := True\<rparr>,
               Suc (2 * k) := (flat cs ! Suc (2 * k))\<lparr>en_finished := True\<rparr>]"
proof (induction cs arbitrary: k)
  case (Cons c cs)
  then show ?case by (cases k) (auto simp: finish_conn_def rev_finish)
qed simp

lemma find_conn_None: "find_conn cs e = None \<longleftrightarrow> e \<notin> set (flat cs)"
  by (induction cs) (auto split: option.splits)

lemma find_conn_Some:
  assumes "find_conn cs e = Some (k, rv)"
  shows "k < length cs \<and> flat cs ! (2 * k + (if rv then 1 else 0)) = e \<and>
    (\<forall>j < 2 * k + (if rv then 1 else 0). flat cs ! j \<noteq> e)"
  using assms
proof (induction cs arbitrary: k)
  case (Cons c cs)
  show ?case
  proof (cases "cn_entry c = e \<or> rev_entry (cn_entry c) = e")
    case True
    then show ?thesis using Cons.prems by (auto simp: less_Suc_eq split: if_splits)
  next
    case False
    then obtain k' where k': "k = Suc k'" "find_conn cs e = Some (k', rv)" using Cons.prems by auto
    have *: "k' < length cs" "flat cs ! (2 * k' + (if rv then 1 else 0)) = e"
      "\<And>j. j < 2 * k' + (if rv then 1 else 0) \<Longrightarrow> flat cs ! j \<noteq> e"
      using Cons.IH [OF k'(2)] by auto
    have "flat (c # cs) ! j \<noteq> e" if "j < 2 * k + (if rv then 1 else 0)" for j
    proof (cases j)
      case (Suc i)
      then show ?thesis using that *(3) [of "i - 1"] False k'(1) by (cases i) auto
    qed (use False in simp)
    then show ?thesis using * k'(1) by auto
  qed
qed simp

section \<open>The code refines the table\<close>

definition add_elem :: "bucket \<Rightarrow> conn_entry \<Rightarrow> conn_state \<Rightarrow> bucket" where
  "add_elem b e s = b\<lparr>sl_key := (sl_key b)[sl_size b := Some e], sl_size := sl_size b + 1,
     sl_value := (sl_value b)[sl_size b := Some s]\<rparr>"

lemma add_elem_simps [simp]:
  "sl_size (add_elem b e s) = sl_size b + 1" "sl_block (add_elem b e s) = sl_block b"
  "sl_capacity (add_elem b e s) = sl_capacity b" "length (sl_key (add_elem b e s)) = length (sl_key b)"
  "length (sl_value (add_elem b e s)) = length (sl_value b)"
  "i < sl_size b \<Longrightarrow> sl_value (add_elem b e s) ! i = sl_value b ! i"
  "i < sl_size b \<Longrightarrow> sl_key (add_elem b e s) ! i = sl_key b ! i"
  "sl_size b < length (sl_value b) \<Longrightarrow> sl_value (add_elem b e s) ! sl_size b = Some s"
  by (simp_all add: add_elem_def)

lemma add_elem_wf:
  assumes "slist_wf b" "sl_size b < sl_capacity b"
  shows "slist_wf (add_elem b e s)" "slist_keys (add_elem b e s) = slist_keys b @ [e]"
proof -
  show "slist_wf (add_elem b e s)"
    using assms by (auto simp: slist_wf_def add_elem_def nth_list_update less_Suc_eq)
  show "slist_keys (add_elem b e s) = slist_keys b @ [e]"
    using assms by (auto simp: slist_wf_def slist_keys_def add_elem_def)
qed

lemma entry_put_room:
  assumes "slist_wf b" "sl_size b < sl_capacity b"
  shows "entry_put b e n = Inr ((sl_block b, sl_size b),
    add_elem b e \<lparr>cs_seq = 0, cs_entry = sl_size b, cs_sibling = None, cs_id = n\<rparr>)"
  using assms by (simp add: entry_put_def slist_put_def slist_get_def Let_def elem_write_def slist_wf_def add_elem_def)

lemma update_last:
  assumes "sl_size b < length (sl_value b)"
  shows "update_state (add_elem b e s) (sl_block b, sl_size b) f = Inr (add_elem b e (f s))"
  using assms by (simp add: update_state_def elem_read_def elem_write_def add_elem_def)

lemma update_last_but_one:
  assumes "Suc (sl_size b) < length (sl_value b)"
  shows "update_state (add_elem (add_elem b e s) e' s') (sl_block b, sl_size b) f =
    Inr (add_elem (add_elem b e (f s)) e' s')"
  using assms by (simp add: update_state_def elem_read_def elem_write_def add_elem_def list_update_swap)

text \<open>Putting the two entries of a connection and setting their fields.\<close>

lemma put_two_simps:
  assumes wf: "slist_wf b" and room: "Suc (sl_size b) < sl_capacity b"
  shows "entry_put b e n = Inr ((sl_block b, sl_size b),
      add_elem b e \<lparr>cs_seq = 0, cs_entry = sl_size b, cs_sibling = None, cs_id = n\<rparr>)"
    and "entry_put (add_elem b e s) e' n = Inr ((sl_block b, Suc (sl_size b)),
      add_elem (add_elem b e s) e' \<lparr>cs_seq = 0, cs_entry = Suc (sl_size b), cs_sibling = None, cs_id = n\<rparr>)"
    and "update_state (add_elem b e s) (sl_block b, sl_size b) f = Inr (add_elem b e (f s))"
    and "update_state (add_elem (add_elem b e s) e' s') (sl_block b, sl_size b) f =
      Inr (add_elem (add_elem b e (f s)) e' s')"
    and "update_state (add_elem (add_elem b e s) e' s') (sl_block b, Suc (sl_size b)) f =
      Inr (add_elem (add_elem b e s) e' (f s'))"
proof -
  have r: "sl_size b < sl_capacity b" "Suc (sl_size b) < length (sl_value b)"
    using assms by (auto simp: slist_wf_def)
  show "entry_put b e n = Inr ((sl_block b, sl_size b),
      add_elem b e \<lparr>cs_seq = 0, cs_entry = sl_size b, cs_sibling = None, cs_id = n\<rparr>)"
    using entry_put_room [OF wf r(1)] .
  show "entry_put (add_elem b e s) e' n = Inr ((sl_block b, Suc (sl_size b)),
      add_elem (add_elem b e s) e' \<lparr>cs_seq = 0, cs_entry = Suc (sl_size b), cs_sibling = None, cs_id = n\<rparr>)"
    using entry_put_room [OF add_elem_wf(1) [OF wf r(1)], of e s e' n] room by simp
  show "update_state (add_elem b e s) (sl_block b, sl_size b) f = Inr (add_elem b e (f s))"
    using r(2) by (intro update_last) simp
  show "update_state (add_elem (add_elem b e s) e' s') (sl_block b, sl_size b) f =
      Inr (add_elem (add_elem b e (f s)) e' s')"
    using r(2) by (rule update_last_but_one)
  show "update_state (add_elem (add_elem b e s) e' s') (sl_block b, Suc (sl_size b)) f =
      Inr (add_elem (add_elem b e s) e' (f s'))"
    using update_last [of "add_elem b e s" e' s' f] r(2) by simp
qed

lemma holds_append:
  assumes h: "holds_conns b cs" and room: "Suc (sl_size b) < sl_capacity b"
    and s: "(s0, s1) = conn_states (sl_block b) (length cs) c"
  shows "holds_conns (add_elem (add_elem b (cn_entry c) s0) (rev_entry (cn_entry c)) s1) (cs @ [c])"
proof -
  have w: "slist_wf b" "slist_keys b = flat cs" "sl_size b = 2 * length cs" "length (sl_value b) = sl_capacity b"
    using h length_slist_keys [of b] by (auto simp: holds_conns_def slist_wf_def)
  let ?b = "add_elem b (cn_entry c) s0"
  let ?b' = "add_elem ?b (rev_entry (cn_entry c)) s1"
  have w1: "slist_wf ?b" "slist_keys ?b = flat cs @ [cn_entry c]"
    using add_elem_wf [OF w(1)] room w(2) by auto
  have w2: "slist_wf ?b'" "slist_keys ?b' = flat (cs @ [c])"
    using add_elem_wf [OF w1(1)] room w1(2) by auto
  have "sl_value ?b' ! (2 * k) = Some (fst (conn_states (sl_block b) k ((cs @ [c]) ! k))) \<and>
      sl_value ?b' ! (2 * k + 1) = Some (snd (conn_states (sl_block b) k ((cs @ [c]) ! k)))"
    if "k < length (cs @ [c])" for k
  proof (cases "k < length cs")
    case True
    then show ?thesis using h w(3) by (simp add: holds_conns_def nth_append)
  next
    case False
    then have k: "k = length cs" using that by simp
    have "sl_value ?b' ! sl_size b = Some s0" "sl_value ?b' ! Suc (sl_size b) = Some s1"
      using room w(4) add_elem_simps(8) [of ?b "rev_entry (cn_entry c)" s1] by simp_all
    then show ?thesis using k w(3) s by (simp add: prod_eq_iff)
  qed
  then show ?thesis using w2 by (simp add: holds_conns_def)
qed

lemma search_new:
  assumes h: "holds_conns b cs" and room: "Suc (sl_size b) < sl_capacity b"
    and e: "find_conn cs e = None" and sq: "packet_seq m = Inr sq"
  shows "\<exists>b'. connection_id_search m b c (e, rev_entry e) = Inr (c + 1, b', c + 1) \<and>
    holds_conns b' (cs @ [\<lparr>cn_entry = e, cn_seq = (sq, sq), cn_id = c + 1\<rparr>]) \<and>
    sl_capacity b' = sl_capacity b \<and> sl_block b' = sl_block b"
proof -
  have w: "slist_wf b" "slist_keys b = flat cs" "sl_size b = 2 * length cs" "length (sl_value b) = sl_capacity b"
    using h length_slist_keys [of b] by (auto simp: holds_conns_def slist_wf_def)
  have f: "slist_find b e (=) = Inr None"
    using slist_find_absent [OF w(1), of e] e w(2) by (simp add: find_conn_None)
  let ?s0 = "\<lparr>cs_seq = sq, cs_entry = sl_size b, cs_sibling = Some (sl_block b, Suc (sl_size b)), cs_id = c + 1\<rparr>"
  let ?s1 = "\<lparr>cs_seq = sq, cs_entry = Suc (sl_size b), cs_sibling = Some (sl_block b, sl_size b), cs_id = c + 1\<rparr>"
  let ?b = "add_elem (add_elem b e ?s0) (rev_entry e) ?s1"
  have "connection_id_search m b c (e, rev_entry e) = Inr (c + 1, ?b, c + 1)"
    by (simp add: connection_id_search_def f sq Let_def put_two_simps [OF w(1) room])
  moreover have "holds_conns ?b (cs @ [\<lparr>cn_entry = e, cn_seq = (sq, sq), cn_id = c + 1\<rparr>])"
    using holds_append [OF h room, of ?s0 ?s1 "\<lparr>cn_entry = e, cn_seq = (sq, sq), cn_id = c + 1\<rparr>"] w(3)
    by (simp add: conn_states_def)
  ultimately show ?thesis by auto
qed

text \<open>The slot at which a connection keeps a direction, and the state there.\<close>

definition slot :: "nat \<Rightarrow> bool \<Rightarrow> nat" where
  "slot k rv = 2 * k + (if rv then 1 else 0)"

definition slot_state :: "nat \<Rightarrow> nat \<Rightarrow> bool \<Rightarrow> conn \<Rightarrow> conn_state" where
  "slot_state block k rv c = (if rv then snd else fst) (conn_states block k c)"

lemma slot_state_simps [simp]:
  "cs_entry (slot_state block k rv c) = slot k rv"
  "cs_sibling (slot_state block k rv c) = Some (block, slot k (\<not> rv))"
  "cs_id (slot_state block k rv c) = cn_id c"
  "cs_seq (slot_state block k rv c) = (if rv then snd (cn_seq c) else fst (cn_seq c))"
  by (simp_all add: slot_state_def conn_states_def slot_def)

lemma slot_less: "k < n \<Longrightarrow> slot k rv < 2 * n"
  by (simp add: slot_def)

lemma holds_read:
  assumes "holds_conns b cs" "k < length cs"
  shows "elem_read b (sl_block b, slot k rv) = Inr (slot_state (sl_block b) k rv (cs ! k))"
    and "sl_key b ! slot k rv = Some (flat cs ! slot k rv)" "slot k rv < length (sl_key b)"
    and "sl_size b = 2 * length cs"
proof -
  have w: "slist_wf b" "slist_keys b = flat cs" "sl_size b = 2 * length cs" "sl_size b \<le> length (sl_value b)"
      "sl_size b \<le> length (sl_key b)"
    using assms(1) length_slist_keys [of b] by (auto simp: holds_conns_def slist_wf_def)
  show "slot k rv < length (sl_key b)" using slot_less [OF assms(2), of rv] w(3,5) by simp
  show "sl_key b ! slot k rv = Some (flat cs ! slot k rv)"
    using slist_keys_nth [OF w(1)] slot_less [OF assms(2), of rv] w(2,3) by simp
  show "elem_read b (sl_block b, slot k rv) = Inr (slot_state (sl_block b) k rv (cs ! k))"
    using assms slot_less [OF assms(2), of rv] w(3,4)
    by (auto simp: elem_read_def holds_conns_def slot_def slot_state_def)
  show "sl_size b = 2 * length cs" by (rule w(3))
qed

lemma holds_finish:
  assumes "holds_conns b cs" "k < length cs"
  shows "holds_conns (b\<lparr>sl_key := (sl_key b)
      [slot k rv := Some ((flat cs ! slot k rv)\<lparr>en_finished := True\<rparr>),
       slot k (\<not> rv) := Some ((flat cs ! slot k (\<not> rv))\<lparr>en_finished := True\<rparr>)]\<rparr>) (cs[k := finish_conn (cs ! k)])"
    (is "holds_conns ?b ?cs")
proof -
  have w: "slist_wf b" "slist_keys b = flat cs" "sl_size b = 2 * length cs" "sl_size b \<le> length (sl_key b)"
    using assms(1) length_slist_keys [of b] by (auto simp: holds_conns_def slist_wf_def)
  have l: "slot k rv < sl_size b" "slot k (\<not> rv) < sl_size b"
    using slot_less [OF assms(2)] w(3) by auto
  have wf: "slist_wf ?b"
    using w(1) l by (auto simp: slist_wf_def nth_list_update)
  have "slist_keys ?b = flat ?cs"
  proof (rule nth_equalityI)
    fix i assume "i < length (slist_keys ?b)"
    then have i: "i < sl_size b" by simp
    then have "slist_keys ?b ! i = the (sl_key ?b ! i)" by (simp add: slist_keys_def)
    also have "\<dots> = flat ?cs ! i"
      using i l w slist_keys_nth [OF w(1) i] flat_finish [OF assms(2)]
      by (auto simp: nth_list_update slot_def)
    finally show "slist_keys ?b ! i = flat ?cs ! i" .
  qed (simp add: w(3))
  moreover have "conn_states blk j (?cs ! j) = conn_states blk j (cs ! j)" for blk j
    using assms(2) by (cases "j = k") (simp_all add: conn_states_def finish_conn_def)
  ultimately show ?thesis
    using wf assms(1) by (simp add: holds_conns_def)
qed

lemma elem_read_key [simp]: "elem_read (b\<lparr>sl_key := ks\<rparr>) p = elem_read b p"
  by (simp add: elem_read_def)

lemma flat_slot:
  assumes "k < length cs"
  shows "flat cs ! slot k (\<not> rv) = rev_entry (flat cs ! slot k rv)"
  using flat_nth [OF assms] by (simp add: slot_def)

lemma entry_of_slot:
  assumes "holds_conns b cs" "k < length cs"
  shows "entry_of b (slot_state blk k rv c) = Inr (flat cs ! slot k rv)"
  using holds_read(2,3) [OF assms] by (simp add: entry_of_def)

lemma syn_new:
  assumes h: "holds_conns b cs" and room: "Suc (sl_size b) < sl_capacity b" and k: "k < length cs"
    and hs: "handshake m = Inr (Some q)" and q: "cs_seq (slot_state (sl_block b) k rv (cs ! k)) \<noteq> q"
  shows "\<exists>b'. connection_id_tcp_syn m b c (sl_block b, slot k rv) = Inr ((sl_block b, sl_size b), b', c + 1) \<and>
    holds_conns b' (cs[k := finish_conn (cs ! k)] @ [\<lparr>cn_entry = flat cs ! slot k rv, cn_seq = (q, q), cn_id = c + 1\<rparr>]) \<and>
    sl_capacity b' = sl_capacity b \<and> sl_block b' = sl_block b"
proof -
  let ?e = "flat cs ! slot k rv" and ?n = "sl_size b" and ?bl = "sl_block b"
  let ?c = "\<lparr>cn_entry = ?e, cn_seq = (q, q), cn_id = c + 1\<rparr>" and ?s = "slot_state ?bl k rv (cs ! k)"
  have wf: "slist_wf b" and n: "?n = 2 * length cs"
    using h holds_read(4) [OF h k] by (simp_all add: holds_conns_def)
  have v: "length (sl_value b) = sl_capacity b" using wf by (simp add: slist_wf_def)
  have sl: "slot k r < ?n" for r using slot_less [OF k] n by simp
  have rd: "elem_read b (?bl, slot k r) = Inr (slot_state ?bl k r (cs ! k))" for r by (rule holds_read(1) [OF h k])
  define b1 where "b1 = add_elem b ?e \<lparr>cs_seq = 0, cs_entry = ?n, cs_sibling = None, cs_id = c + 1\<rparr>"
  have rd1: "elem_read b1 (?bl, slot k r) = Inr (slot_state ?bl k r (cs ! k))" for r
    using rd [of r] sl [of r] by (simp add: elem_read_def b1_def split: if_splits option.splits)
  have en1: "entry_of b1 (slot_state ?bl k (\<not> rv) (cs ! k)) = Inr (rev_entry ?e)"
    using holds_read(2,3) [OF h k, of "\<not> rv"] sl [of "\<not> rv"] flat_slot [OF k, of rv] by (simp add: entry_of_def b1_def)
  obtain s0 s1 where s: "(s0, s1) = conn_states ?bl (length cs) ?c" by (metis surj_pair)
  define b2 where "b2 = add_elem (add_elem b ?e s0) (rev_entry ?e) s1"
  have h2: "holds_conns b2 (cs @ [?c])"
    using holds_append [OF h room s] by (simp add: b2_def)
  have bl2: "sl_block b2 = ?bl" by (simp add: b2_def)
  have b2: "add_elem (add_elem b ?e \<lparr>cs_seq = q, cs_entry = ?n, cs_sibling = Some (?bl, Suc ?n), cs_id = c + 1\<rparr>)
      (rev_entry ?e) \<lparr>cs_seq = q, cs_entry = Suc ?n, cs_sibling = Some (?bl, ?n), cs_id = c + 1\<rparr> = b2"
    using s n by (simp add: conn_states_def b2_def)
  define f where "f = (\<lambda>r. (flat (cs @ [?c]) ! slot k r)\<lparr>en_finished := True\<rparr>)"
  let ?b25 = "b2\<lparr>sl_key := (sl_key b2)[slot k rv := Some (f rv)]\<rparr>"
  let ?b3 = "b2\<lparr>sl_key := (sl_key b2)[slot k rv := Some (f rv), slot k (\<not> rv) := Some (f (\<not> rv))]\<rparr>"
  have k2: "k < length (cs @ [?c])" "(cs @ [?c]) ! k = cs ! k" using k by (simp_all add: nth_append)
  have rd2: "elem_read b2 (?bl, slot k r) = Inr (slot_state ?bl k r (cs ! k))" for r
    using holds_read(1) [OF h2 k2(1), of r] bl2 k2(2) by simp
  have fin: "entry_finish b2 ?s = Inr ?b25" "entry_finish ?b25 (slot_state ?bl k (\<not> rv) (cs ! k)) = Inr ?b3"
    using holds_read(2,3) [OF h2 k2(1)] by (simp_all add: entry_finish_def entry_of_def slot_def f_def)
  have "connection_id_tcp_syn m b c (?bl, slot k rv) = Inr ((?bl, ?n), ?b3, c + 1)"
    using hs q
    by (simp add: connection_id_tcp_syn_def rd entry_of_slot [OF h k] put_two_simps [OF wf room] rd1 [unfolded b1_def]
        en1 [unfolded b1_def] sibling_of_def Let_def b2 rd2 fin)
  moreover have "holds_conns ?b3 ((cs @ [?c])[k := finish_conn ((cs @ [?c]) ! k)])"
    unfolding f_def by (rule holds_finish [OF h2 k2(1)])
  ultimately show ?thesis using k by (auto simp: b2_def nth_append list_update_append)
qed

lemma search_refines:
  assumes h: "holds_conns b cs" and room: "Suc (sl_size b) < sl_capacity b"
    and hs: "handshake m = Inr hs" and sq: "packet_seq m = Inr sq"
    and r: "conn_search hs sq cs c e = (n, cs', c')"
  shows "\<exists>b'. connection_id_search m b c (e, rev_entry e) = Inr (n, b', c') \<and> holds_conns b' cs' \<and>
    sl_capacity b' = sl_capacity b \<and> sl_block b' = sl_block b"
proof (cases "find_conn cs e")
  case None
  then show ?thesis using search_new [OF h room None sq, of c] r by (auto simp: conn_search_def)
next
  case (Some kr)
  obtain k rv where f: "find_conn cs e = Some (k, rv)" using Some by (cases kr) simp
  have k: "k < length cs" "flat cs ! slot k rv = e" "\<And>j. j < slot k rv \<Longrightarrow> flat cs ! j \<noteq> e"
    using find_conn_Some [OF f] by (auto simp: slot_def)
  have w: "slist_wf b" "slist_keys b = flat cs" "sl_size b = 2 * length cs"
    using h length_slist_keys [of b] by (auto simp: holds_conns_def)
  have find: "slist_find b e (=) = Inr (Some (sl_block b, slot k rv))"
    using slist_find_at [OF w(1), of "slot k rv" e] slot_less [OF k(1), of rv] k(2,3) w(2,3) by simp
  let ?s = "slot_state (sl_block b) k rv (cs ! k)"
  have rd: "elem_read b (sl_block b, slot k rv) = Inr ?s" by (rule holds_read(1) [OF h k(1)])
  show ?thesis
  proof (cases "hs = None \<or> hs = Some (cs_seq ?s)")
    case True
    then have "connection_id_tcp_syn m b c (sl_block b, slot k rv) = Inr ((sl_block b, slot k rv), b, c)"
      using hs rd by (auto simp: connection_id_tcp_syn_def)
    moreover have "n = cn_id (cs ! k)" "cs' = cs" "c' = c"
      using r f True by (auto simp: conn_search_def split: if_splits)
    ultimately show ?thesis using h by (simp add: connection_id_search_def find rd)
  next
    case False
    then obtain q where q: "hs = Some q" "cs_seq ?s \<noteq> q" by auto
    obtain b' where b': "connection_id_tcp_syn m b c (sl_block b, slot k rv) = Inr ((sl_block b, sl_size b), b', c + 1)"
        "holds_conns b' (cs[k := finish_conn (cs ! k)] @ [\<lparr>cn_entry = e, cn_seq = (q, q), cn_id = c + 1\<rparr>])"
        "sl_capacity b' = sl_capacity b" "sl_block b' = sl_block b"
      using syn_new [OF h room k(1) hs [unfolded q(1)] q(2), of c] k(2) by auto
    have "elem_read b' (sl_block b, sl_size b) = Inr (slot_state (sl_block b) (length cs) False
        \<lparr>cn_entry = e, cn_seq = (q, q), cn_id = c + 1\<rparr>)"
      using holds_read(1) [OF b'(2), of "length cs" False] b'(4) w(3) by (simp add: nth_append slot_def)
    moreover have "n = c + 1" "c' = c + 1"
        "cs' = cs[k := finish_conn (cs ! k)] @ [\<lparr>cn_entry = e, cn_seq = (q, q), cn_id = c + 1\<rparr>]"
      using r f q by (auto simp: conn_search_def split: if_splits)
    ultimately show ?thesis using b' by (simp add: connection_id_search_def find)
  qed
qed

section \<open>Both directions of a flow\<close>

definition same_flow :: "conn_entry \<Rightarrow> conn \<Rightarrow> bool" where
  "same_flow e c \<longleftrightarrow> cn_entry c = e \<or> cn_entry c = rev_entry e"

lemma same_flow_rev [simp]: "same_flow (rev_entry e) c = same_flow e c"
  by (auto simp: same_flow_def)

lemma find_conn_first:
  "find_conn cs e = Some (k, rv) \<Longrightarrow> k < length cs \<and> same_flow e (cs ! k) \<and> (\<forall>j<k. \<not> same_flow e (cs ! j))"
proof (induction cs arbitrary: k)
  case (Cons c cs)
  then show ?case
    by (cases k) (auto simp: same_flow_def less_Suc_eq_0_disj split: if_splits)
qed simp

lemma find_conn_exists:
  "k < length cs \<Longrightarrow> same_flow e (cs ! k) \<Longrightarrow> (\<And>j. j < k \<Longrightarrow> \<not> same_flow e (cs ! j)) \<Longrightarrow>
   \<exists>rv. find_conn cs e = Some (k, rv)"
proof (induction cs arbitrary: k)
  case (Cons c cs)
  show ?case
  proof (cases k)
    case 0
    then show ?thesis using Cons.prems(2) by (auto simp: same_flow_def)
  next
    case (Suc j)
    have "\<not> same_flow e c" using Cons.prems(3) [of 0] Suc by simp
    moreover have "\<exists>rv. find_conn cs e = Some (j, rv)"
      using Cons.IH [of j] Cons.prems Suc by fastforce
    ultimately show ?thesis using Suc by (auto simp: same_flow_def)
  qed
qed simp

text \<open>No two open connections belong to the same flow.\<close>

definition flows_distinct :: "conn list \<Rightarrow> bool" where
  "flows_distinct cs \<longleftrightarrow> (\<forall>i j. i < j \<longrightarrow> j < length cs \<longrightarrow> \<not> en_finished (cn_entry (cs ! i)) \<longrightarrow>
     \<not> same_flow (cn_entry (cs ! i)) (cs ! j))"

lemma find_conn_absent: "find_conn cs e = None \<longleftrightarrow> (\<forall>c\<in>set cs. \<not> same_flow e c)"
  by (induction cs) (auto simp: same_flow_def)

lemma same_flow_sym: "same_flow e c \<Longrightarrow> same_flow (cn_entry c) d \<longleftrightarrow> same_flow e d"
  by (auto simp: same_flow_def)

lemma same_flow_finished: "same_flow e c \<Longrightarrow> en_finished (cn_entry c) = en_finished e"
  by (auto simp: same_flow_def rev_entry_def)

lemma finish_conn_flow: "\<not> en_finished e \<Longrightarrow> \<not> same_flow e (finish_conn c)"
  using same_flow_finished [of e "finish_conn c"] by (auto simp: finish_conn_def)

lemma flows_distinct_append:
  assumes "flows_distinct cs" "\<forall>c\<in>set cs. \<not> same_flow (cn_entry d) c"
  shows "flows_distinct (cs @ [d])"
  unfolding flows_distinct_def
proof (intro allI impI)
  fix i j assume ij: "i < j" "j < length (cs @ [d])" "\<not> en_finished (cn_entry ((cs @ [d]) ! i))"
  show "\<not> same_flow (cn_entry ((cs @ [d]) ! i)) ((cs @ [d]) ! j)"
  proof (cases "j < length cs")
    case True
    then show ?thesis using ij assms(1) by (simp add: flows_distinct_def nth_append)
  next
    case False
    then have "j = length cs" "i < length cs" using ij by auto
    moreover have "\<not> same_flow (cn_entry (cs ! i)) d"
      using assms(2) \<open>i < length cs\<close> nth_mem by (fastforce simp: same_flow_def)
    ultimately show ?thesis by (simp add: nth_append)
  qed
qed

lemma flows_distinct_finish:
  assumes "flows_distinct cs"
  shows "flows_distinct (cs[k := finish_conn (cs ! k)])"
  unfolding flows_distinct_def
proof (intro allI impI)
  let ?cs = "cs[k := finish_conn (cs ! k)]"
  fix i j assume ij: "i < j" "j < length ?cs" "\<not> en_finished (cn_entry (?cs ! i))"
  have "i \<noteq> k" using ij by (auto simp: finish_conn_def)
  then have i: "?cs ! i = cs ! i" by simp
  show "\<not> same_flow (cn_entry (?cs ! i)) (?cs ! j)"
    using ij i assms finish_conn_flow [of "cn_entry (cs ! i)" "cs ! k"]
    by (cases "j = k") (auto simp: flows_distinct_def)
qed

lemma finish_absent:
  assumes "flows_distinct cs" "\<not> en_finished e" "find_conn cs e = Some (k, rv)"
  shows "\<forall>c\<in>set (cs[k := finish_conn (cs ! k)]). \<not> same_flow e c"
proof
  fix c assume "c \<in> set (cs[k := finish_conn (cs ! k)])"
  then obtain j where j: "j < length cs" "c = cs[k := finish_conn (cs ! k)] ! j" by (auto simp: in_set_conv_nth)
  have f: "k < length cs" "same_flow e (cs ! k)" "\<And>i. i < k \<Longrightarrow> \<not> same_flow e (cs ! i)"
    using find_conn_first [OF assms(3)] by auto
  consider "j < k" | "j = k" | "k < j" by linarith
  then show "\<not> same_flow e c"
  proof cases
    case 1 then show ?thesis using f j by auto
  next
    case 2 then show ?thesis using finish_conn_flow [OF assms(2)] j by auto
  next
    case 3
    have "\<not> same_flow (cn_entry (cs ! k)) (cs ! j)"
      using assms(1,2) 3 j(1) same_flow_finished [OF f(2)] by (auto simp: flows_distinct_def)
    then show ?thesis using same_flow_sym [OF f(2)] 3 j(2) by auto
  qed
qed

lemma find_conn_appended:
  assumes "\<forall>c\<in>set cs. \<not> same_flow e c"
  shows "\<exists>rv. find_conn (cs @ [\<lparr>cn_entry = e, cn_seq = q, cn_id = n\<rparr>]) (rev_entry e) = Some (length cs, rv)"
  using assms by (intro find_conn_exists) (auto simp: nth_append same_flow_def)

lemma conn_search_reverse:
  assumes d: "flows_distinct cs" and e: "\<not> en_finished e" and r: "conn_search hs sq cs c e = (n, cs', c')"
  shows "flows_distinct cs' \<and> conn_search None sq' cs' c' (rev_entry e) = (n, cs', c')"
proof (cases "find_conn cs e")
  case None
  then have a: "\<forall>c\<in>set cs. \<not> same_flow e c" by (simp add: find_conn_absent)
  have cs': "n = c + 1" "cs' = cs @ [\<lparr>cn_entry = e, cn_seq = (sq, sq), cn_id = n\<rparr>]" "c' = c + 1"
    using r None by (auto simp: conn_search_def)
  moreover obtain rv where "find_conn cs' (rev_entry e) = Some (length cs, rv)"
    using find_conn_appended [OF a] cs'(2) by blast
  moreover have "flows_distinct cs'" using flows_distinct_append [OF d] a cs'(2) by simp
  ultimately show ?thesis by (simp add: conn_search_def)
next
  case (Some kr)
  obtain k rv where f: "find_conn cs e = Some (k, rv)" using Some by (cases kr) simp
  have "(n = cn_id (cs ! k) \<and> cs' = cs \<and> c' = c) \<or> (\<exists>q. n = c + 1 \<and> c' = c + 1 \<and>
      cs' = cs[k := finish_conn (cs ! k)] @ [\<lparr>cn_entry = e, cn_seq = (q, q), cn_id = c + 1\<rparr>])"
    using r f by (cases hs) (simp_all add: conn_search_def split: if_split_asm, blast+)
  then consider "n = cn_id (cs ! k)" "cs' = cs" "c' = c"
    | q where "n = c + 1" "cs' = cs[k := finish_conn (cs ! k)] @ [\<lparr>cn_entry = e, cn_seq = (q, q), cn_id = c + 1\<rparr>]" "c' = c + 1"
    by blast
  then show ?thesis
  proof cases
    case 1
    have "\<exists>rv. find_conn cs (rev_entry e) = Some (k, rv)"
      using find_conn_first [OF f] by (intro find_conn_exists) auto
    then show ?thesis using 1 d by (auto simp: conn_search_def)
  next
    case 2
    have a: "\<forall>c\<in>set (cs[k := finish_conn (cs ! k)]). \<not> same_flow e c" by (rule finish_absent [OF d e f])
    moreover obtain rv where "find_conn cs' (rev_entry e) = Some (length (cs[k := finish_conn (cs ! k)]), rv)"
      using find_conn_appended [OF a] 2(2) by blast
    moreover have "flows_distinct cs'"
      using flows_distinct_append [OF flows_distinct_finish [OF d]] a 2(2) by simp
    ultimately show ?thesis using 2 by (simp add: conn_search_def nth_append)
  qed
qed

section \<open>The tracker\<close>

text \<open>The flow of a packet in its direction and in the other, and the bucket of a flow.\<close>

definition packet_flow :: "mem \<Rightarrow> (conn_entry \<times> conn_entry) option res" where
  "packet_flow m =
     rbind (find_ipv4_header m) (\<lambda>ip. case ip of None \<Rightarrow> Inr None | Some (ip, _) \<Rightarrow> ipv4_connection_id m ip)"

definition flow_bucket :: "conn_entry \<Rightarrow> nat" where
  "flow_bucket e = unat (en_src e XOR en_dst e) mod bucket_count"

definition tracker_holds :: "tracker \<Rightarrow> conn list list \<Rightarrow> bool" where
  "tracker_holds tr css \<longleftrightarrow> tr_initialized tr \<and> length (tr_list tr) = bucket_count \<and> length css = bucket_count \<and>
     (\<forall>i < bucket_count. holds_conns (tr_list tr ! i) (css ! i) \<and> flows_distinct (css ! i))"

lemma flow_bucket_less [simp]: "flow_bucket e < bucket_count"
  by (simp add: flow_bucket_def bucket_count_def)

lemma flow_bucket_rev [simp]: "flow_bucket (rev_entry e) = flow_bucket e"
  by (simp add: flow_bucket_def rev_entry_def xor.commute)

lemma packet_flow_facts:
  assumes "packet_flow m = Inr (Some (e, e'))"
  obtains ip pl where "find_ipv4_header m = Inr (Some (ip, pl))" "ipv4_connection_id m ip = Inr (Some (e, e'))"
    "ipv4_bucket_select m ip = Inr (flow_bucket e)" "e' = rev_entry e" "\<not> en_finished e"
proof -
  obtain ip pl where ip: "find_ipv4_header m = Inr (Some (ip, pl))" "ipv4_connection_id m ip = Inr (Some (e, e'))"
    using assms by (auto simp: packet_flow_def rbind_Inr_iff split: option.splits)
  obtain src dst sport dport where "ip_src_of m ip = Inr src" "ip_dst_of m ip = Inr dst"
      "e = ipv4_forward src dst sport dport" "e' = ipv4_backward src dst sport dport"
    using ip(2) by (auto simp: ipv4_connection_id_def rbind_Inr_iff split: option.splits bool.splits)
  then show thesis
    using that [OF ip] by (simp add: ipv4_bucket_select_def flow_bucket_def ipv4_forward_def ipv4_backward_def rev_entry_def)
qed

lemma connection_id_flow:
  assumes "tracker_holds tr css" "packet_flow m = Inr (Some (e, e'))"
  shows "connection_id tr m =
    rbind (connection_id_search m (tr_list tr ! flow_bucket e) (tr_counter tr) (e, rev_entry e)) (\<lambda>(n, b, counter).
      Inr (n, tr\<lparr>tr_list := (tr_list tr)[flow_bucket e := b], tr_counter := counter\<rparr>))"
proof -
  obtain ip pl where "find_ipv4_header m = Inr (Some (ip, pl))" "ipv4_connection_id m ip = Inr (Some (e, e'))"
    "ipv4_bucket_select m ip = Inr (flow_bucket e)" "e' = rev_entry e"
    by (rule packet_flow_facts [OF assms(2)])
  then show ?thesis
    using assms(1) by (simp add: connection_id_def tracker_init_def tracker_holds_def Let_def)
qed

lemma tracker_step:
  assumes t: "tracker_holds tr css" and p: "packet_flow m = Inr (Some (e, e'))"
    and room: "Suc (sl_size (tr_list tr ! flow_bucket e)) < sl_capacity (tr_list tr ! flow_bucket e)"
    and hs: "handshake m = Inr hs" and sq: "packet_seq m = Inr sq"
    and r: "conn_search hs sq (css ! flow_bucket e) (tr_counter tr) e = (n, cs', c')"
  shows "\<exists>tr'. connection_id tr m = Inr (n, tr') \<and> tracker_holds tr' (css[flow_bucket e := cs']) \<and> tr_counter tr' = c'"
proof -
  let ?i = "flow_bucket e"
  have h: "holds_conns (tr_list tr ! ?i) (css ! ?i)" "flows_distinct (css ! ?i)"
    using t by (simp_all add: tracker_holds_def)
  have "\<not> en_finished e" by (rule packet_flow_facts [OF p])
  then have d: "flows_distinct cs'" using conn_search_reverse [OF h(2) _ r] by blast
  obtain b' where b': "connection_id_search m (tr_list tr ! ?i) (tr_counter tr) (e, rev_entry e) = Inr (n, b', c')"
      "holds_conns b' cs'"
    using search_refines [OF h(1) room hs sq r] by blast
  let ?tr = "tr\<lparr>tr_list := (tr_list tr)[?i := b'], tr_counter := c'\<rparr>"
  have "connection_id tr m = Inr (n, ?tr)"
    using connection_id_flow [OF t p] b'(1) by simp
  moreover have "tracker_holds ?tr (css[?i := cs'])"
    using t b'(2) d by (auto simp: tracker_holds_def nth_list_update)
  ultimately show ?thesis by auto
qed

lemma search_seen:
  assumes h: "holds_conns b cs" and f: "find_conn cs e = Some (k, rv)" and hs: "handshake m = Inr None"
  shows "connection_id_search m b c (e, rev_entry e) = Inr (cn_id (cs ! k), b, c)"
proof -
  have k: "k < length cs" "flat cs ! slot k rv = e" "\<And>j. j < slot k rv \<Longrightarrow> flat cs ! j \<noteq> e"
    using find_conn_Some [OF f] by (auto simp: slot_def)
  have w: "slist_wf b" "slist_keys b = flat cs" "sl_size b = 2 * length cs"
    using h length_slist_keys [of b] by (auto simp: holds_conns_def)
  have "slist_find b e (=) = Inr (Some (sl_block b, slot k rv))"
    using slist_find_at [OF w(1), of "slot k rv" e] slot_less [OF k(1), of rv] k(2,3) w(2,3) by simp
  then show ?thesis
    using hs by (simp add: connection_id_search_def connection_id_tcp_syn_def holds_read(1) [OF h k(1)])
qed

section \<open>Sample packets\<close>

text \<open>A UDP datagram from 1.1.1.1:1 to 2.2.2.2:2, the answer, and the tracker before the first packet.\<close>

definition udp_frame :: "u8 \<Rightarrow> u8 \<Rightarrow> mem" where
  "udp_frame a b = replicate 12 0 @ [0x08, 0, 0x45, 0, 0, 28, 0, 0, 0, 0, 64, 17, 0, 0, a, a, a, a, b, b, b, b,
     0, a, 0, b, 0, 0, 0, 0]"

definition fresh_tracker :: tracker where
  "fresh_tracker = tracker_init \<lparr>tr_list = [], tr_initialized = False, tr_counter = 0\<rparr>"

lemma length_udp_frame [simp]: "length (udp_frame a b) = 42"
  by (simp add: udp_frame_def)

lemma udp_frame_reads:
  "rd16 (udp_frame a b) 12 = Inr 0x08" "rd8 (udp_frame a b) 14 = Inr 0x45" "rd8 (udp_frame a b) 23 = Inr 17"
  "rd32 (udp_frame a b) 26 = Inr (le32 a a a a)" "rd32 (udp_frame a b) 30 = Inr (le32 b b b b)"
  "rd16 (udp_frame a b) 34 = Inr (le16 0 a)" "rd16 (udp_frame a b) 36 = Inr (le16 0 b)"
  by (simp_all add: rd16_def rd32_def rd8_def udp_frame_def nth_append nth_Cons' le16_def)

lemma udp_frame_ipv4: "find_ipv4_header (udp_frame a b) = Inr (Some (14, 34))"
  by (simp add: find_ipv4_header_def find_ipv4_header_int_def h_proto_def ipv4_retry.simps packet_consts ip_hl_def
      udp_frame_reads ntohs_def le16_def)

lemma udp_frame_flow:
  "packet_flow (udp_frame a b) = Inr (Some (ipv4_forward (le32 a a a a) (le32 b b b b) (ntohs (le16 0 a)) (ntohs (le16 0 b)),
     ipv4_backward (le32 a a a a) (le32 b b b b) (ntohs (le16 0 a)) (ntohs (le16 0 b))))"
  by (simp add: packet_flow_def udp_frame_ipv4 ipv4_connection_id_def find_tcp_header_def find_udp_header_def
      find_transport_header_def ip_p_def udp_frame_reads packet_consts find_ipproto_header_def h_proto_def ip_hl_def
      ntohs_def ip_src_of_def ip_dst_of_def le16_def)

lemma udp_frame_no_tcp: "handshake (udp_frame a b) = Inr None" "packet_seq (udp_frame a b) = Inr 0"
  by (simp_all add: handshake_def packet_seq_def packet_tcp_def udp_frame_ipv4 find_tcp_header_def
      find_transport_header_def ip_p_def udp_frame_reads packet_consts)

lemma fresh_tracker_holds: "tracker_holds fresh_tracker (replicate bucket_count [])"
  using slist_init_wf [of 32]
  by (auto simp: tracker_holds_def fresh_tracker_def tracker_init_def holds_conns_def flows_distinct_def bucket_count_def)

lemma fresh_tracker_bucket: "i < bucket_count \<Longrightarrow> tr_list fresh_tracker ! i = slist_init 32"
  by (simp add: fresh_tracker_def tracker_init_def)

section \<open>Properties\<close>

text \<open>
  Claim C4. As long as the bucket of a flow has room, \<open>connection_id\<close> implements the table of connections:
  a packet of a flow without an open connection opens one with the next number; a packet of an open
  connection gets its number in either direction, unless it is a TCP handshake with a sequence number
  the connection has not seen: that closes the connection and opens another. The sibling pointers
  always connect the two entries of a connection, and no two open connections have the same flow.
\<close>

theorem connection_id_refines:
  assumes "tracker_holds tr css" "packet_flow m = Inr (Some (e, e'))"
    and "Suc (sl_size (tr_list tr ! flow_bucket e)) < sl_capacity (tr_list tr ! flow_bucket e)"
    and "handshake m = Inr hs" "packet_seq m = Inr sq"
    and "conn_search hs sq (css ! flow_bucket e) (tr_counter tr) e = (n, cs', c')"
  shows "\<exists>tr'. connection_id tr m = Inr (n, tr') \<and> tracker_holds tr' (css[flow_bucket e := cs']) \<and> tr_counter tr' = c'"
  using assms by (rule tracker_step)

theorem connection_id_refines_witness:
  "\<exists>tr'. connection_id fresh_tracker (udp_frame 1 2) = Inr (1, tr') \<and> tr_counter tr' = 1"
proof -
  obtain e e' where e: "packet_flow (udp_frame 1 2) = Inr (Some (e, e'))" using udp_frame_flow by blast
  have room: "Suc (sl_size (tr_list fresh_tracker ! flow_bucket e)) < sl_capacity (tr_list fresh_tracker ! flow_bucket e)"
    by (simp add: fresh_tracker_bucket)
  have "conn_search None 0 (replicate bucket_count [] ! flow_bucket e) (tr_counter fresh_tracker) e =
      (1, [\<lparr>cn_entry = e, cn_seq = (0, 0), cn_id = 1\<rparr>], 1)"
    by (simp add: conn_search_def fresh_tracker_def tracker_init_def)
  then show ?thesis
    using connection_id_refines [OF fresh_tracker_holds e room udp_frame_no_tcp] by blast
qed

text \<open>
  Claim C34. The two directions of a flow get the same number: when a packet has got a number, an answer
  that is not itself a handshake gets the same, and changes nothing.
\<close>

theorem connection_id_directions:
  assumes "tracker_holds tr css" "packet_flow p = Inr (Some (e, e'))" "packet_flow q = Inr (Some (e', e))"
    and "Suc (sl_size (tr_list tr ! flow_bucket e)) < sl_capacity (tr_list tr ! flow_bucket e)"
    and "handshake p = Inr hs" "packet_seq p = Inr sq" "handshake q = Inr None"
  shows "\<exists>n tr'. connection_id tr p = Inr (n, tr') \<and> connection_id tr' q = Inr (n, tr')"
proof -
  let ?i = "flow_bucket e"
  have e: "e' = rev_entry e" "\<not> en_finished e" by (rule packet_flow_facts [OF assms(2)], simp)+
  obtain n cs' c' where r: "conn_search hs sq (css ! ?i) (tr_counter tr) e = (n, cs', c')"
    by (cases "conn_search hs sq (css ! ?i) (tr_counter tr) e")
  obtain tr' where tr': "connection_id tr p = Inr (n, tr')" "tracker_holds tr' (css[?i := cs'])" "tr_counter tr' = c'"
    using tracker_step [OF assms(1,2,4,5,6) r] by blast
  have d: "flows_distinct (css ! ?i)" "length css = bucket_count" using assms(1) by (simp_all add: tracker_holds_def)
  have "conn_search None 0 cs' c' (rev_entry e) = (n, cs', c')"
    using conn_search_reverse [OF d(1) e(2) r] by blast
  then obtain k rv where k: "find_conn cs' (rev_entry e) = Some (k, rv)" "n = cn_id (cs' ! k)"
    by (auto simp: conn_search_def split: option.splits)
  have "holds_conns (tr_list tr' ! ?i) cs'"
    using tr'(2) d(2) by (auto simp: tracker_holds_def dest: spec [of _ ?i])
  then have "connection_id_search q (tr_list tr' ! ?i) c' (rev_entry e, e) = Inr (n, tr_list tr' ! ?i, c')"
    using search_seen [OF _ k(1) assms(7), of "tr_list tr' ! ?i" c'] k(2) by simp
  then have "connection_id tr' q = Inr (n, tr')"
    using connection_id_flow [OF tr'(2) assms(3)] e(1) tr'(3) by simp
  then show ?thesis using tr'(1) by blast
qed

theorem connection_id_directions_witness:
  "\<exists>n tr'. connection_id fresh_tracker (udp_frame 1 2) = Inr (n, tr') \<and> connection_id tr' (udp_frame 2 1) = Inr (n, tr')"
proof -
  let ?e = "ipv4_forward (le32 1 1 1 1) (le32 2 2 2 2) (ntohs (le16 0 1)) (ntohs (le16 0 2))"
  let ?e' = "ipv4_backward (le32 1 1 1 1) (le32 2 2 2 2) (ntohs (le16 0 1)) (ntohs (le16 0 2))"
  have "packet_flow (udp_frame 2 1) = Inr (Some (?e', ?e))"
    using udp_frame_flow [of 2 1] by (simp add: ipv4_forward_def ipv4_backward_def)
  then show ?thesis
    using connection_id_directions [OF fresh_tracker_holds udp_frame_flow [of 1 2], of "udp_frame 2 1" None 0]
      udp_frame_no_tcp by (simp add: fresh_tracker_bucket)
qed

text \<open>
  When the bucket is full, a TCP handshake with a new sequence number on an open connection uses
  a dangling pointer: the first new entry moves the elements, and the pointer to the old state is then
  followed to find its sibling.
\<close>

lemma connection_id_dangling:
  assumes h: "holds_conns b cs" and full: "sl_size b = sl_capacity b"
    and f: "find_conn cs e = Some (k, rv)" and hs: "handshake m = Inr (Some q)"
    and q: "(if rv then snd (cn_seq (cs ! k)) else fst (cn_seq (cs ! k))) \<noteq> q"
  shows "connection_id_search m b c (e, rev_entry e) = Inl Dangling"
proof -
  have k: "k < length cs" "flat cs ! slot k rv = e" "\<And>j. j < slot k rv \<Longrightarrow> flat cs ! j \<noteq> e"
    using find_conn_Some [OF f] by (auto simp: slot_def)
  have w: "slist_wf b" "slist_keys b = flat cs" "sl_size b = 2 * length cs"
    using h length_slist_keys [of b] by (auto simp: holds_conns_def)
  have find: "slist_find b e (=) = Inr (Some (sl_block b, slot k rv))"
    using slist_find_at [OF w(1), of "slot k rv" e] slot_less [OF k(1), of rv] k(2,3) w(2,3) by simp
  obtain p b' where p: "entry_put b e (c + 1) = Inr (p, b')" "sl_block b' = Suc (sl_block b)"
    using w(1) full
    by (simp add: entry_put_def slist_put_def slist_alloc_def slist_get_def Let_def elem_write_def slist_wf_def)
  have "elem_read b' (sl_block b, slot k rv) = Inl Dangling" by (simp add: elem_read_def p(2))
  then show ?thesis
    using hs q k(2)
    by (simp add: connection_id_search_def find connection_id_tcp_syn_def holds_read(1) [OF h k(1)] Let_def
        entry_of_slot [OF h k(1)] p(1))
qed

end
