(* ===== verification/Packet_Input.thy ===== *)
theory Packet_Input
  imports Stream_Peek
begin

text \<open>
  The interface between streams and the tools that read packets from them, and capture files as its instance.
  A tool calls \<open>stream_read\<close> and \<open>stream_peek\<close> without a filter; what it relies on is that they deliver the
  packets the stream holds, one after the other.
\<close>

section \<open>Readers\<close>

text \<open>
  What a tool uses of a stream: \<open>stream_peek\<close> and \<open>stream_read\<close> without a filter. A result holds the
  returned value, the packet if the pointer was set, and the stream.
\<close>

type_synonym 's reader = "'s \<Rightarrow> (int \<times> cap_header option \<times> 's) res option"

definition unfiltered ::
  "(int \<times> (nat \<times> cap_header) option \<times> 's stream \<times> unit cap_filter option) res option \<Rightarrow>
   (int \<times> cap_header option \<times> 's stream) res option" where
  "unfiltered = map_option (\<lambda>r. rbind r (\<lambda>(ret, cp, st, _). Inr (ret, map_option snd cp, st)))"

definition file_peek :: "nat \<Rightarrow> medium \<Rightarrow> stream_file stream reader" where
  "file_peek fuel med st = unfiltered (stream_peek fuel (stream_file_fillbuffer med) (\<lambda>_ _ _ _. 0) (st, None))"

definition file_read :: "nat \<Rightarrow> medium \<Rightarrow> stream_file stream reader" where
  "file_read fuel med st = unfiltered (stream_read fuel (stream_file_fillbuffer med) (\<lambda>_ _ _ _. 0) None (st, None))"

lemma captured_ts [simp]: "ch_ts (captured p) = ch_ts p"
  by (simp add: captured_def)

text \<open>
  A stream that delivers packets: \<open>holds s ps\<close> says that \<open>ps\<close> are those it still has. The memory behind a
  packet is that of the buffer. \<open>reads\<close> is the counter \<open>stat.read\<close>.
\<close>

locale packet_reader =
  fixes rd :: "'s reader" and holds :: "'s \<Rightarrow> cap_header list \<Rightarrow> bool" and reads :: "'s \<Rightarrow> nat"
  assumes read_next: "holds s (p # ps) \<Longrightarrow>
      \<exists>q s'. rd s = Some (Inr (0, Some q, s')) \<and> captured q = p \<and> holds s' ps \<and> reads s' = Suc (reads s)"
    and read_end: "holds s [] \<Longrightarrow> \<exists>s'. rd s = Some (Inr (- 1, None, s'))"
    and packets_wf: "holds s ps \<Longrightarrow> p \<in> set ps \<Longrightarrow> packet_wf p"

text \<open>A stream that can be peeked at as well.\<close>

locale packet_input = packet_reader rd holds reads
  for rd :: "'s reader" and holds :: "'s \<Rightarrow> cap_header list \<Rightarrow> bool" and reads :: "'s \<Rightarrow> nat" +
  fixes peek :: "'s reader"
  assumes peek_next: "holds s (p # ps) \<Longrightarrow> \<exists>q s'. peek s = Some (Inr (0, Some q, s')) \<and> captured q = p \<and> holds s' (p # ps)"
    and peek_end: "holds s [] \<Longrightarrow> \<exists>s'. peek s = Some (Inr (- 1, None, s'))"

section \<open>The counter of packets\<close>

lemma fill_buffer_stat: "fill_buffer fill st t = Inr (ret, st') \<Longrightarrow> st_stat_read st' = st_stat_read st"
  by (auto simp: fill_buffer_def compact_buffer_def Let_def rbind_Inr_iff split: if_splits prod.splits fill_result.splits)

lemma read_step_stat:
  assumes "read_step fill bpf t (st, None) = Inr r"
  shows "case r of Again (st', flt) \<Rightarrow> st_stat_read st' = st_stat_read st \<and> flt = None
    | Done ret cp (st', flt) \<Rightarrow> ret = 0 \<longrightarrow> st_stat_read st' = Suc (st_stat_read st)"
  using assms
  by (auto simp: read_step_def rbind_Inr_iff Let_def match_opt_def dest!: fill_buffer_stat split: if_splits)

lemma stream_read_stat:
  "stream_read fuel fill bpf t (st, None) = Some (Inr (0, cp, st', flt)) \<Longrightarrow> st_stat_read st' = Suc (st_stat_read st)"
proof (induction fuel arbitrary: st)
  case (Suc fuel)
  then obtain r where r: "read_step fill bpf t (st, None) = Inr r"
    by (cases "read_step fill bpf t (st, None)") (auto simp: stream_read_def)
  show ?case
    using read_step_stat [OF r] Suc r by (cases r) (auto simp: stream_read_def)
qed (simp add: stream_read_def)

section \<open>Capture files as inputs\<close>

text \<open>The packets that a file stream still has, with a buffer that fits each of them.\<close>

definition file_holds :: "nat \<Rightarrow> stream_file stream \<Rightarrow> cap_header list \<Rightarrow> bool" where
  "file_holds fuel st ps \<longleftrightarrow> stream_wf st \<and> \<not> st_flushed st \<and>
     pending file_rest st = concat (map packet_bytes ps) \<and> length (pending file_rest st) < fuel \<and>
     (\<forall>p\<in>set ps. packet_wf p \<and> ch_caplen p \<noteq> 0 \<and> 36 + unat (ch_caplen p) \<le> st_buffer_size st)"

lemma file_holds_next:
  assumes "file_holds fuel st (p # ps)"
  shows "stream_wf st" "\<not> st_flushed st" "header_wf p" "ch_caplen p \<noteq> 0"
    "pending file_rest st = cap_header_bytes p @ ch_payload p @ concat (map packet_bytes ps)"
    "length (ch_payload p) = unat (ch_caplen p)" "36 + unat (ch_caplen p) \<le> st_buffer_size st"
    "length (file_rest (st_src st)) < fuel" "captured (p\<lparr>ch_payload := ch_payload p @ more'\<rparr>) = p"
  using assms by (auto simp: file_holds_def packet_wf_def packet_bytes_def captured_def pending_def)

abbreviation (input) "file_fill \<equiv> stream_file_fillbuffer good_medium"

lemma file_read_packet:
  assumes "file_holds n st (p # ps)"
  obtains pos q st' where "stream_read n file_fill bpf t (st, None) = Some (Inr (0, Some (pos, q), st', None))"
    "captured q = p" "file_holds n st' ps" "st_stat_read st' = Suc (st_stat_read st)"
proof -
  note f = file_holds_next [OF assms]
  obtain pos more st' where r: "stream_read n file_fill bpf t (st, None) =
      Some (Inr (0, Some (pos, p\<lparr>ch_payload := ch_payload p @ more\<rparr>), st', None))" "stream_wf st'" "\<not> st_flushed st'"
    "st_buffer_size st' = st_buffer_size st" "pending file_rest st' = concat (map packet_bytes ps)"
    using file_stream.stream_read_packet [OF f(1-3,5-8), of bpf t] by blast
  then have "file_holds n st' ps" using assms by (auto simp: file_holds_def)
  then show thesis using that [OF r(1) f(9)] stream_read_stat [OF r(1)] by simp
qed

interpretation capture_file: packet_input "file_read fuel good_medium" "file_holds fuel" st_stat_read "file_peek fuel good_medium" for fuel
proof unfold_locales
  fix s p ps assume h: "file_holds fuel s (p # ps)"
  note f = file_holds_next [OF h]
  from file_stream.stream_peek_packet [OF f(1-8), of "(\<lambda>_ _ _ _. 0) :: unit \<Rightarrow> _"]
  show "\<exists>q s'. file_peek fuel good_medium s = Some (Inr (0, Some q, s')) \<and> captured q = p \<and> file_holds fuel s' (p # ps)"
    using h f(9) by (fastforce simp: file_peek_def unfiltered_def file_holds_def)
  obtain pos q s' where "stream_read fuel file_fill ((\<lambda>_ _ _ _. 0) :: unit \<Rightarrow> _) None (s, None) = Some (Inr (0, Some (pos, q), s', None))"
    "captured q = p" "file_holds fuel s' ps" "st_stat_read s' = Suc (st_stat_read s)" by (rule file_read_packet [OF h])
  then show "\<exists>q s'. file_read fuel good_medium s = Some (Inr (0, Some q, s')) \<and> captured q = p \<and> file_holds fuel s' ps \<and>
      st_stat_read s' = Suc (st_stat_read s)"
    by (simp add: file_read_def unfiltered_def)
next
  fix s assume "file_holds fuel s []"
  then obtain fuel' where s: "stream_wf s" "\<not> st_flushed s" "pending file_rest s = []" "fuel = Suc fuel'"
    by (cases fuel) (auto simp: file_holds_def)
  then show "\<exists>s'. file_peek fuel good_medium s = Some (Inr (- 1, None, s'))"
    using file_stream.stream_peek_end [of s fuel' "(\<lambda>_ _ _ _. 0) :: unit \<Rightarrow> _"]
    by (auto simp: file_peek_def unfiltered_def)
  from s show "\<exists>s'. file_read fuel good_medium s = Some (Inr (- 1, None, s'))"
    using file_stream.stream_read_end [of s fuel' "(\<lambda>_ _ _ _. 0) :: unit \<Rightarrow> _" None]
    by (auto simp: file_read_def unfiltered_def)
qed (auto simp: file_holds_def)

section \<open>Writing a packet that was read\<close>

text \<open>A packet cut to a smaller number of captured bytes.\<close>

definition cut :: "u32 \<Rightarrow> cap_header \<Rightarrow> cap_header" where
  "cut c p = captured (p\<lparr>ch_caplen := c\<rparr>)"

lemma stream_copy_cut:
  assumes "captured q = p" "packet_wf p" "c \<le> ch_caplen p" "at_end bs dst"
  shows "\<exists>dst'. stream_copy (file_write good_medium) dst (q\<lparr>ch_caplen := c\<rparr>) = Inr (0, dst') \<and>
    at_end (bs @ packet_bytes (cut c p)) dst'"
proof -
  have c: "unat c \<le> unat (ch_caplen q)" using assms(1,3) by (auto simp: captured_def word_le_nat_alt)
  have l: "unat (ch_caplen q) \<le> length (ch_payload q)" using assms(1,2) by (auto simp: captured_def packet_wf_def)
  have t: "cut c p = captured (q\<lparr>ch_caplen := c\<rparr>)"
    using assms(1) c by (auto simp: cut_def captured_def min_absorb1)
  have "packet_wf (cut c p)"
    using assms(1,2) c l by (auto simp: t packet_wf_def captured_def header_wf_def)
  moreover have "stream_copy wr dst (q\<lparr>ch_caplen := c\<rparr>) = stream_copy wr dst (cut c p)" for wr :: "stream_file stream \<Rightarrow> _"
    using c l unfolding t by (simp add: stream_copy_def captured_def rdn_def cap_header_bytes_def)
  ultimately show ?thesis using stream_copy_end [OF _ assms(4), of "cut c p"] by simp
qed

lemma cut_same: "packet_wf p \<Longrightarrow> cut (ch_caplen p) p = p"
  by (simp add: cut_def captured_def packet_wf_def)

section \<open>Sample files\<close>

text \<open>A capture file of small packets that has been opened.\<close>

definition opened_file :: "cap_header list \<Rightarrow> stream_file stream" where
  "opened_file ps = stream_alloc PROTOCOL_LOCAL_FILE 200 0
     \<lparr>sf_file = \<lparr>cf_data = concat (map packet_bytes ps), cf_pos = 0\<rparr>, sf_force_flush = False\<rparr>"

lemma packet_bytes_zero: "length (packet_bytes (zero_packet t)) = 118"
  using peek_stream_facts(3) [of t] length_cap_header_bytes [of "zero_packet t"]
  by (simp add: packet_bytes_def packet_wf_def zero_packet_def)

lemma opened_file_holds_packets:
  assumes "\<forall>p\<in>set ps. packet_wf p \<and> ch_caplen p \<noteq> 0 \<and> unat (ch_caplen p) \<le> 164" "length (concat (map packet_bytes ps)) < fuel"
  shows "file_holds fuel (opened_file ps) ps"
  using assms by (simp add: file_holds_def opened_file_def stream_alloc_wf stream_alloc_pending file_rest_def)
    (simp add: stream_alloc_def Let_def)

lemma opened_file_holds:
  assumes "length ts * 118 < fuel"
  shows "file_holds fuel (opened_file (map zero_packet ts)) (map zero_packet ts)"
proof -
  have "length (concat (map packet_bytes (map zero_packet ts))) = length ts * 118"
    by (induction ts) (simp_all add: packet_bytes_zero)
  with assms show ?thesis using peek_stream_facts(3,4,7) by (intro opened_file_holds_packets) simp_all
qed

lemma opened_file_end [simp]: "at_end [] (opened_file [])"
  by (simp add: at_end_def opened_file_def stream_alloc_def Let_def)

end
