(* ===== verification/Capfilter.thy ===== *)
theory Capfilter
  imports Packet_Input
begin

text \<open>
  \<open>tools/capfilter.c\<close>: the loop that reads packets, asks the filter and copies each to the output or to the
  file of rejected packets. Option processing, messages and the signal that ends the loop are left out.
\<close>

section \<open>The loop\<close>

record capfilter_options =
  co_invert :: bool
  co_max_read :: u32
  co_max_matched :: u32

text \<open>The function \<open>min\<close> of the tool compares signed numbers.\<close>

definition min_int :: "u32 \<Rightarrow> u32 \<Rightarrow> u32" where
  "min_int a b = (if sint a < sint b then a else b)"

record ('s, 'b) capfilter_state =
  cs_filter :: "'b cap_filter"
  cs_src :: 's
  cs_dst :: "stream_file stream"
  cs_rej :: "stream_file stream option"
  cs_matched :: u64

text \<open>The packet with the captured length that the filter asks for.\<close>

definition limit_caplen :: "'b cap_filter \<Rightarrow> cap_header \<Rightarrow> cap_header" where
  "limit_caplen flt cp =
     (if f_caplen flt \<noteq> - 1 then cp\<lparr>ch_caplen := min_int (f_caplen flt) (ch_caplen cp)\<rparr> else cp)"

text \<open>What is done with a packet: the value that ends the loop when it is not zero.\<close>

definition copy_packet ::
  "medium \<Rightarrow> bool \<Rightarrow> cap_header \<Rightarrow> ('s, 'b) capfilter_state \<Rightarrow> (int \<times> ('s, 'b) capfilter_state) res" where
  "copy_packet med post_match cp s =
     (if post_match then
        rbind (stream_copy (file_write med) (cs_dst s) cp) (\<lambda>(ret, dst). Inr (ret, s\<lparr>cs_dst := dst\<rparr>))
      else case cs_rej s of
          None \<Rightarrow> Inr (0, s)
        | Some rej \<Rightarrow> rbind (stream_copy (file_write med) rej cp) (\<lambda>(ret, rej). Inr (ret, s\<lparr>cs_rej := Some rej\<rparr>)))"

text \<open>The loop with the number of rounds as fuel: the value that is left in \<open>ret\<close> and the state.\<close>

fun capfilter_loop ::
  "nat \<Rightarrow> medium \<Rightarrow> 's reader \<Rightarrow> ('s \<Rightarrow> nat) \<Rightarrow> ('b \<Rightarrow> mem \<Rightarrow> u32 \<Rightarrow> u32 \<Rightarrow> u32) \<Rightarrow> capfilter_options \<Rightarrow>
   ('s, 'b) capfilter_state \<Rightarrow> (int \<times> ('s, 'b) capfilter_state) res option" where
  "capfilter_loop 0 med rd reads bpf opts s = None"
| "capfilter_loop (Suc n) med rd reads bpf opts s =
     (case rd (cs_src s) of
        None \<Rightarrow> None
      | Some (Inl e) \<Rightarrow> Some (Inl e)
      | Some (Inr (ret, cp, src)) \<Rightarrow>
          let s = s\<lparr>cs_src := src\<rparr> in
          if ret = EAGAIN then capfilter_loop n med rd reads bpf opts s
          else if ret \<noteq> 0 then Some (Inr (ret, s))
          else case cp of
              None \<Rightarrow> Some (Inl Null_deref)
            | Some cp \<Rightarrow>
                case rbind (filter_match bpf (cs_filter s) (ch_payload cp) cp) (\<lambda>(mt, flt).
                  let post_match = (if co_invert opts then \<not> mt else mt);
                      s = s\<lparr>cs_filter := flt, cs_matched := (if post_match then cs_matched s + 1 else cs_matched s)\<rparr>
                  in copy_packet med post_match (limit_caplen flt cp) s) of
                  Inl e \<Rightarrow> Some (Inl e)
                | Inr (ret, s) \<Rightarrow>
                    if ret \<noteq> 0 then Some (Inr (ret, s))
                    else if co_max_read opts > 0 \<and> reads (cs_src s) \<ge> unat (co_max_read opts) \<or>
                        co_max_matched opts > 0 \<and> unat (cs_matched s) \<ge> unat (co_max_matched opts)
                    then Some (Inr (0, s))
                    else capfilter_loop n med rd reads bpf opts s)"

text \<open>The exit code.\<close>

definition capfilter_status :: "int \<Rightarrow> int" where
  "capfilter_status ret = (if ret \<noteq> 0 \<and> ret \<noteq> - 1 then 1 else 0)"

section \<open>What is written\<close>

text \<open>
  What the filter decides on the packets of a stream, whatever lies in memory behind the captured bytes of
  each.
\<close>

definition decides :: "('b \<Rightarrow> mem \<Rightarrow> u32 \<Rightarrow> u32 \<Rightarrow> u32) \<Rightarrow> 'b cap_filter \<Rightarrow> cap_header list \<Rightarrow> bool list \<Rightarrow> bool" where
  "decides bpf flt ps ms \<longleftrightarrow> (\<forall>qs. map captured qs = ps \<longrightarrow> (\<exists>flt'. filter_run bpf flt qs = Inr (ms, flt')))"

lemma prune_ranges_caplen [simp]: "f_caplen (prune_ranges flt) = f_caplen flt"
  by (auto simp: prune_ranges_def split: list.splits)

lemma filter_match_caplen:
  "filter_match bpf flt pkt head = Inr (mt, flt') \<Longrightarrow> f_caplen flt' = f_caplen flt"
  by (auto simp: filter_match_def Let_def rbind_Inr_iff split: if_splits)

lemma decides_Cons:
  assumes "decides bpf flt (p # ps) ms" "captured q = p" "\<exists>qs. map captured qs = ps"
  obtains mt flt' ms' where "filter_match bpf flt (ch_payload q) q = Inr (mt, flt')" "ms = mt # ms'" "decides bpf flt' ps ms'"
    "f_caplen flt' = f_caplen flt"
proof -
  obtain qs0 where "map captured qs0 = ps" using assms(3) by blast
  then have "map captured (q # qs0) = p # ps" using assms(2) by simp
  then obtain f0 where "filter_run bpf flt (q # qs0) = Inr (ms, f0)" using assms(1) unfolding decides_def by metis
  then obtain mt flt' ms' where m: "filter_match bpf flt (ch_payload q) q = Inr (mt, flt')" "ms = mt # ms'"
    by (auto simp: rbind_Inr_iff)
  have "decides bpf flt' ps ms'"
    unfolding decides_def
  proof (intro allI impI)
    fix qs assume "map captured qs = ps"
    then have "map captured (q # qs) = p # ps" using assms(2) by simp
    then obtain f where "filter_run bpf flt (q # qs) = Inr (ms, f)" using assms(1) unfolding decides_def by metis
    then show "\<exists>f. filter_run bpf flt' qs = Inr (ms', f)" using m by (auto simp: rbind_Inr_iff)
  qed
  then show thesis using that m filter_match_caplen by blast
qed

text \<open>The packets that go to one of the two files, as they are written.\<close>

definition limited :: "u32 \<Rightarrow> cap_header \<Rightarrow> cap_header" where
  "limited c p = (if c \<noteq> - 1 then cut (min_int c (ch_caplen p)) p else p)"

definition sent_to :: "bool \<Rightarrow> capfilter_options \<Rightarrow> u32 \<Rightarrow> (cap_header \<times> bool) list \<Rightarrow> cap_header list" where
  "sent_to b opts c xs = map (limited c \<circ> fst) (filter (\<lambda>x. (snd x \<noteq> co_invert opts) = b) xs)"

lemma sent_to_Cons:
  "sent_to b opts c (x # xs) = (if (snd x \<noteq> co_invert opts) = b then [limited c (fst x)] else []) @ sent_to b opts c xs"
  by (simp add: sent_to_def)

lemma uint_nonneg: "0 \<le> sint w \<Longrightarrow> uint w = sint (w :: u32)"
  using sint_lt [of w] by (subst uint_sint) (simp add: take_bit_int_eq_self)

lemma min_int_le:
  assumes "0 \<le> sint a"
  shows "min_int a b \<le> b"
proof (cases "sint a < sint b")
  case True
  then have "uint a \<le> uint b" using assms uint_nonneg [of a] uint_nonneg [of b] by simp
  then show ?thesis using True by (simp add: min_int_def word_le_def)
qed (simp add: min_int_def)

lemma capfilter_step:
  assumes "rd (cs_src s) = Some (Inr (0, Some q, src))" "filter_match bpf (cs_filter s) (ch_payload q) q = Inr (mt, flt)"
    and "copy_packet med (mt \<noteq> co_invert opts) (limit_caplen flt q) (s\<lparr>cs_src := src, cs_filter := flt,
      cs_matched := (if mt \<noteq> co_invert opts then cs_matched s + 1 else cs_matched s)\<rparr>) = Inr (0, s2)"
    and "co_max_matched opts = 0"
  shows "capfilter_loop (Suc n) med rd reads bpf opts s =
    (if co_max_read opts > 0 \<and> reads (cs_src s2) \<ge> unat (co_max_read opts) then Some (Inr (0, s2))
     else capfilter_loop n med rd reads bpf opts s2)"
proof -
  have "(if co_invert opts then \<not> mt else mt) = (mt \<noteq> co_invert opts)" by auto
  then show ?thesis using assms by (cases "mt = co_invert opts") (simp_all add: Let_def EAGAIN_def)
qed

context packet_reader
begin

lemma holds_captured: "holds s ps \<Longrightarrow> map captured ps = ps"
  using packets_wf by (fastforce simp: captured_def packet_wf_def intro: map_idI)

text \<open>One packet is copied to the file it belongs to.\<close>

lemma copy_packet_sent:
  assumes "captured q = p" "packet_wf p" "f_caplen flt = - 1 \<or> 0 \<le> sint (f_caplen flt)"
    and "at_end bs (cs_dst s)" "cs_rej s = Some rej" "at_end rs rej"
  shows "\<exists>s' rej'. copy_packet good_medium b (limit_caplen flt q) s = Inr (0, s') \<and> cs_src s' = cs_src s \<and>
    cs_filter s' = cs_filter s \<and> cs_matched s' = cs_matched s \<and> cs_rej s' = Some rej' \<and>
    at_end (bs @ (if b then packet_bytes (limited (f_caplen flt) p) else [])) (cs_dst s') \<and>
    at_end (rs @ (if b then [] else packet_bytes (limited (f_caplen flt) p))) rej'"
proof -
  define c where "c = (if f_caplen flt \<noteq> - 1 then min_int (f_caplen flt) (ch_caplen p) else ch_caplen p)"
  have cap: "ch_caplen q = ch_caplen p" using assms(1) by (auto simp: captured_def)
  then have "limit_caplen flt q = q\<lparr>ch_caplen := c\<rparr>" "limited (f_caplen flt) p = cut c p"
    using assms(1,2) by (simp_all add: limit_caplen_def limited_def c_def cut_same)
  moreover have "c \<le> ch_caplen p" using assms(3) min_int_le by (auto simp: c_def)
  ultimately show ?thesis
    using stream_copy_cut [OF assms(1,2) _ assms(4), of c] stream_copy_cut [OF assms(1,2) _ assms(6), of c] assms(4-6)
    by (cases b) (auto simp: copy_packet_def)
qed

lemma capfilter_loop_writes:
  assumes "holds (cs_src s) ps" "decides bpf (cs_filter s) ps ms"
    and "f_caplen (cs_filter s) = - 1 \<or> 0 \<le> sint (f_caplen (cs_filter s))"
    and "at_end bs (cs_dst s)" "cs_rej s = Some rej" "at_end rs rej" "co_max_matched opts = 0"
    and "co_max_read opts = 0 \<or> reads (cs_src s) < unat (co_max_read opts)" "length ps < n"
    and "xs = take (if co_max_read opts = 0 then length ps else unat (co_max_read opts) - reads (cs_src s)) (zip ps ms)"
  shows "\<exists>ret s' rej'. capfilter_loop n good_medium rd reads bpf opts s = Some (Inr (ret, s')) \<and> capfilter_status ret = 0 \<and>
    at_end (bs @ concat (map packet_bytes (sent_to True opts (f_caplen (cs_filter s)) xs))) (cs_dst s') \<and>
    cs_rej s' = Some rej' \<and> at_end (rs @ concat (map packet_bytes (sent_to False opts (f_caplen (cs_filter s)) xs))) rej'"
  using assms
proof (induction n arbitrary: s ps ms bs rs rej xs)
  case (Suc n)
  show ?case
  proof (cases ps)
    case Nil
    then obtain src where "rd (cs_src s) = Some (Inr (- 1, None, src))" using read_end Suc.prems(1) by blast
    then show ?thesis using Suc.prems(4-6,10) Nil
      by (simp add: EAGAIN_def capfilter_status_def sent_to_def Let_def)
  next
    case (Cons p ps')
    then obtain q src where r: "rd (cs_src s) = Some (Inr (0, Some q, src))" "captured q = p" "holds src ps'"
        "reads src = Suc (reads (cs_src s))" using read_next Suc.prems(1) by blast
    have "\<exists>qs. map captured qs = ps'" using holds_captured [OF r(3)] by blast
    from decides_Cons [OF Suc.prems(2) [unfolded Cons] r(2) this] obtain mt flt ms' where
      d: "filter_match bpf (cs_filter s) (ch_payload q) q = Inr (mt, flt)" "ms = mt # ms'" "decides bpf flt ps' ms'"
        "f_caplen flt = f_caplen (cs_filter s)" .
    define s1 where "s1 = s\<lparr>cs_src := src, cs_filter := flt,
      cs_matched := (if mt \<noteq> co_invert opts then cs_matched s + 1 else cs_matched s)\<rparr>"
    have s1: "cs_src s1 = src" "cs_filter s1 = flt" "cs_dst s1 = cs_dst s" "cs_rej s1 = Some rej"
      using Suc.prems(5) by (simp_all add: s1_def)
    have "packet_wf p" using packets_wf [OF Suc.prems(1)] Cons by simp
    from copy_packet_sent [OF r(2) this Suc.prems(3) [folded d(4)] Suc.prems(4) [folded s1(3)] s1(4) Suc.prems(6), of "mt \<noteq> co_invert opts"]
    obtain s2 rej2 where c: "copy_packet good_medium (mt \<noteq> co_invert opts) (limit_caplen flt q) s1 = Inr (0, s2)"
      "cs_src s2 = src" "cs_filter s2 = flt" "cs_rej s2 = Some rej2"
      "at_end (bs @ (if mt \<noteq> co_invert opts then packet_bytes (limited (f_caplen flt) p) else [])) (cs_dst s2)"
      "at_end (rs @ (if mt \<noteq> co_invert opts then [] else packet_bytes (limited (f_caplen flt) p))) rej2"
      using s1 by auto
    let ?stop = "co_max_read opts > 0 \<and> Suc (reads (cs_src s)) \<ge> unat (co_max_read opts)"
    have loop: "capfilter_loop (Suc n) good_medium rd reads bpf opts s =
        (if ?stop then Some (Inr (0, s2)) else capfilter_loop n good_medium rd reads bpf opts s2)"
      using capfilter_step [of rd s q src bpf mt flt good_medium opts s2 n reads, OF r(1) d(1) c(1) [unfolded s1_def] Suc.prems(7)] c(2) r(4) by simp
    let ?k = "if co_max_read opts = 0 then length ps else unat (co_max_read opts) - reads (cs_src s)"
    have "?k \<noteq> 0" using Suc.prems(8) Cons by auto
    then obtain k where k: "?k = Suc k" using not0_implies_Suc by blast
    have xs: "xs = (p, mt) # take k (zip ps' ms')" using Suc.prems(10) unfolding k by (simp add: Cons d(2))
    show ?thesis
    proof (cases ?stop)
      case True
      then have "k = 0" using k Suc.prems(8) by (auto split: if_splits)
      then show ?thesis using True loop c(4-6) xs d(4) by (auto simp: capfilter_status_def sent_to_def)
    next
      case False
      then have k': "k = (if co_max_read opts = 0 then length ps' else unat (co_max_read opts) - reads (cs_src s2))"
        using k c(2) r(4) Cons by (auto simp: word_gt_0 split: if_splits)
      have "co_max_read opts = 0 \<or> reads (cs_src s2) < unat (co_max_read opts)" "length ps' < n"
        using False c(2) r(4) Suc.prems(9) Cons by (auto simp: word_gt_0)
      from Suc.IH [OF r(3) [folded c(2)] d(3) [folded c(3)] Suc.prems(3) [folded d(4), folded c(3)] c(5) c(4) c(6) Suc.prems(7) this
          arg_cong [OF k', of "\<lambda>k. take k (zip ps' ms')"]]
      show ?thesis using False loop xs d(4) c(3) by (auto simp: sent_to_Cons)
    qed
  qed
qed simp

end

section \<open>Properties\<close>

text \<open>
  Claim C13. Filtering a capture file ends with exit code 0 and splits it: the packets that the filter accepts (or
  rejects, when inverted) are written to the output, the others to the rejects, each in the order of the input
  and cut to the captured length that was asked for; with a limit the first packets only.
\<close>

theorem capfilter_splits:
  assumes "file_holds fuel (cs_src s) ps" "decides bpf (cs_filter s) ps ms"
    and "f_caplen (cs_filter s) = - 1 \<or> 0 \<le> sint (f_caplen (cs_filter s))"
    and "at_end bs (cs_dst s)" "cs_rej s = Some rej" "at_end rs rej" "co_max_matched opts = 0" "st_stat_read (cs_src s) = 0"
    and "length ps < n" "xs = (if co_max_read opts = 0 then zip ps ms else take (unat (co_max_read opts)) (zip ps ms))"
  shows "\<exists>ret s' rej'. capfilter_loop n good_medium (file_read fuel good_medium) st_stat_read bpf opts s = Some (Inr (ret, s')) \<and>
    capfilter_status ret = 0 \<and>
    at_end (bs @ concat (map packet_bytes (sent_to True opts (f_caplen (cs_filter s)) xs))) (cs_dst s') \<and>
    cs_rej s' = Some rej' \<and> at_end (rs @ concat (map packet_bytes (sent_to False opts (f_caplen (cs_filter s)) xs))) rej'"
proof -
  have "co_max_read opts = 0 \<or> st_stat_read (cs_src s) < unat (co_max_read opts)"
    using assms(8) by (simp add: unat_gt_0)
  moreover have "xs = take (if co_max_read opts = 0 then length ps else unat (co_max_read opts) - st_stat_read (cs_src s)) (zip ps ms)"
    using assms(8,10) by simp
  ultimately show ?thesis
    using capture_file.capfilter_loop_writes [OF assms(1-7) _ assms(9)] by blast
qed

definition odd_frames :: "unit cap_filter" where
  "odd_frames = filter_zero\<lparr>f_mode := FILTER_AND, f_index := filter_bit OFFSET_FRAME_NUM, f_frame_counter := 1,
     f_frame_num := [(1, 1), (3, -1)], f_caplen := 60\<rparr>"

lemma zero_packet_behind:
  assumes "captured q = zero_packet t"
  obtains r where "q = (zero_packet t)\<lparr>ch_payload := replicate 82 0 @ r\<rparr>"
proof -
  have c: "unat (ch_caplen q) = 82" using arg_cong [OF assms, of ch_caplen] by (simp add: captured_def zero_packet_def)
  have "take 82 (ch_payload q) = replicate 82 0"
    using arg_cong [OF assms, of ch_payload] c by (simp add: captured_def zero_packet_def)
  then have "ch_payload q = replicate 82 0 @ drop 82 (ch_payload q)" by (metis append_take_drop_id)
  moreover have "q = (captured q)\<lparr>ch_payload := ch_payload q\<rparr>" by (simp add: captured_def)
  ultimately show thesis using that [of "drop 82 (ch_payload q)"] assms by simp
qed

lemma zero_packet_view_behind:
  assumes "captured q = zero_packet t"
  shows "\<exists>v. filter_view (ch_payload q) = Inr v"
proof -
  obtain r where q: "q = (zero_packet t)\<lparr>ch_payload := replicate 82 0 @ r\<rparr>" by (rule zero_packet_behind [OF assms])
  have "readable_frame (ch_payload q)"
    by (simp add: q readable_frame_def ethertype_at_def ntohs_def le16_def packet_consts nth_append)
  then show ?thesis using filter_view_readable by blast
qed

lemma odd_frames_decides:
  "decides bpf odd_frames (map zero_packet [t, u, v]) [True, False, True]"
  unfolding decides_def
proof (intro allI impI)
  fix qs :: "cap_header list" assume q: "map captured qs = map zero_packet [t, u, v]"
  have l: "length qs = 3" using arg_cong [OF q, of length] by (simp only: length_map) simp
  have "\<forall>q\<in>set qs. \<exists>v. filter_view (ch_payload q) = Inr v"
  proof
    fix x assume "x \<in> set qs"
    then have "captured x \<in> set (map captured qs)" by simp
    then show "\<exists>v. filter_view (ch_payload x) = Inr v" unfolding q using zero_packet_view_behind by auto
  qed
  then have "\<exists>flt'. filter_run bpf odd_frames qs =
      Inr (map (\<lambda>i. \<exists>r\<in>set (f_frame_num odd_frames). in_range (1 + int i) r) [0..<length qs], flt')"
    using filter_run_ranges [of odd_frames qs bpf] l by (simp add: odd_frames_def filter_zero_def not_passed_def)
  then show "\<exists>flt'. filter_run bpf odd_frames qs = Inr ([True, False, True], flt')"
    using l by (simp add: in_range_def upt_rec odd_frames_def)
qed

theorem capfilter_splits_witness:
  "\<exists>ret s' rej'. capfilter_loop 4 good_medium (file_read 400 good_medium) st_stat_read (\<lambda>_ _ _ _. 0)
      \<lparr>co_invert = True, co_max_read = 0, co_max_matched = 0\<rparr>
      \<lparr>cs_filter = odd_frames, cs_src = opened_file (map zero_packet [timepico_new 1 0, timepico_new 2 0, timepico_new 3 0]),
        cs_dst = opened_file [], cs_rej = Some (opened_file []), cs_matched = 0\<rparr> = Some (Inr (ret, s')) \<and>
    capfilter_status ret = 0 \<and>
    at_end ([] @ concat (map packet_bytes [cut 60 (zero_packet (timepico_new 2 0))])) (cs_dst s') \<and>
    cs_rej s' = Some rej' \<and>
    at_end ([] @ concat (map packet_bytes [cut 60 (zero_packet (timepico_new 1 0)), cut 60 (zero_packet (timepico_new 3 0))])) rej'"
proof -
  let ?ps = "map zero_packet [timepico_new 1 0, timepico_new 2 0, timepico_new 3 0]"
  let ?opts = "\<lparr>co_invert = True, co_max_read = 0, co_max_matched = 0\<rparr>"
  let ?s = "\<lparr>cs_filter = odd_frames, cs_src = opened_file ?ps, cs_dst = opened_file [], cs_rej = Some (opened_file []), cs_matched = 0\<rparr>"
  have s: "sent_to True ?opts 60 (zip ?ps [True, False, True]) = [cut 60 (zero_packet (timepico_new 2 0))]"
    "sent_to False ?opts 60 (zip ?ps [True, False, True]) = [cut 60 (zero_packet (timepico_new 1 0)), cut 60 (zero_packet (timepico_new 3 0))]"
    by (simp_all add: sent_to_def limited_def min_int_def zero_packet_def)
  have c: "f_caplen (cs_filter ?s) = 60" by (simp add: odd_frames_def)
  have h: "file_holds 400 (cs_src ?s) ?ps" by simp (rule opened_file_holds [of "[timepico_new 1 0, timepico_new 2 0, timepico_new 3 0]" 400, simplified])
  have d: "decides (\<lambda>_ _ _ _. 0) (cs_filter ?s) ?ps [True, False, True]" using odd_frames_decides by simp
  have "st_stat_read (cs_src ?s) = 0" by (simp add: opened_file_def stream_alloc_def Let_def)
  from capfilter_splits [OF h d, of "[]" "opened_file []" "[]" ?opts 4 "zip ?ps [True, False, True]"] this c s
  show ?thesis by (simp del: list.map)
qed

end
