(* ===== verification/Marker.thy ===== *)
theory Marker
  imports Packet Libc
begin

text \<open>
  Markers: the UDP packets that separate the runs of an experiment. Recognising them (\<open>src/marker.c\<close>) and
  the tool that sends them (\<open>tools/capmarker.c\<close>: its options and the byte order of what it sends).
\<close>

section \<open>The structure\<close>

record marker =
  mk_magic :: u32
  mk_version :: u8
  mk_flags :: u8
  mk_reserved :: u16
  mk_exp_id :: u32
  mk_run_id :: u32
  mk_key_id :: u32
  mk_seq_num :: u32
  mk_timestamp :: u64
  mk_comment :: "char list"

definition MARKERPORT :: u16 where "MARKERPORT = 0x0811"

definition MARKER_MAGIC :: u32 where "MARKER_MAGIC = 0x9f7a3c83"

definition MARKER_TERMINATE :: u8 where "MARKER_TERMINATE = 1"

text \<open>The structure in memory, packed; the fields are in the order of the host.\<close>

definition marker_bytes :: "marker \<Rightarrow> u8 list" where
  "marker_bytes mk =
     bytes32 (mk_magic mk) @ [mk_version mk, mk_flags mk] @ bytes16 (mk_reserved mk) @ bytes32 (mk_exp_id mk) @
     bytes32 (mk_run_id mk) @ bytes32 (mk_key_id mk) @ bytes32 (mk_seq_num mk) @ bytes64 (mk_timestamp mk) @
     map byte_of_char (mk_comment mk)"

section \<open>Recognising markers\<close>

text \<open>What is stored through \<open>ptr\<close>; the comment is not copied.\<close>

definition fill_marker :: "mem \<Rightarrow> nat \<Rightarrow> marker \<Rightarrow> marker res" where
  "fill_marker m off ptr =
     rbind (rd32 m off) (\<lambda>magic. rbind (rd8 m (off + 4)) (\<lambda>version. rbind (rd8 m (off + 5)) (\<lambda>flags.
     rbind (rd16 m (off + 6)) (\<lambda>reserved. rbind (rd32 m (off + 8)) (\<lambda>exp_id. rbind (rd32 m (off + 12)) (\<lambda>run_id.
     rbind (rd32 m (off + 16)) (\<lambda>key_id. rbind (rd32 m (off + 20)) (\<lambda>seq_num. rbind (rd64 m (off + 24)) (\<lambda>timestamp.
       Inr (ptr\<lparr>mk_magic := ntohl magic, mk_version := version, mk_flags := flags, mk_reserved := ntohs reserved,
         mk_exp_id := ntohl exp_id, mk_run_id := ntohl run_id, mk_key_id := ntohl key_id,
         mk_seq_num := ntohl seq_num, mk_timestamp := be64toh timestamp\<rparr>))))))))))"

text \<open>The return value and what \<open>ptr\<close> points to; \<open>port\<close> is not looked at.\<close>

definition is_marker_udp :: "mem \<Rightarrow> nat \<Rightarrow> marker option \<Rightarrow> (int \<times> marker option) res" where
  "is_marker_udp m off ptr =
     rbind (rd32 m off) (\<lambda>magic.
       if ntohl magic \<noteq> MARKER_MAGIC then Inr (0, ptr)
       else case ptr of
           None \<Rightarrow> Inr (1, None)
         | Some mk \<Rightarrow> rbind (fill_marker m off mk) (\<lambda>mk. Inr (1, Some mk)))"

definition is_marker :: "mem \<Rightarrow> marker option \<Rightarrow> int \<Rightarrow> (int \<times> marker option) res" where
  "is_marker m ptr port =
     rbind (find_ipv4_header m) (\<lambda>hdr.
       case hdr of
         None \<Rightarrow> Inr (0, ptr)
       | Some (ip, _) \<Rightarrow>
           rbind (find_udp_header m (Some ip) (Some (0, 0))) (\<lambda>(udp, ports).
             case (udp, ports) of
               (Some udp, Some (src, dst)) \<Rightarrow>
                 if src = MARKERPORT \<and> (int (unat dst) = port \<or> port = 0) then
                   rbind (rd32 m (udp + sizeof_udphdr)) (\<lambda>magic.
                     if ntohl magic \<noteq> MARKER_MAGIC then Inr (0, ptr)
                     else case ptr of
                         None \<Rightarrow> Inr (int (unat dst), None)
                       | Some mk \<Rightarrow> rbind (fill_marker m (udp + sizeof_udphdr) mk) (\<lambda>mk. Inr (int (unat dst), Some mk)))
                 else Inr (0, ptr)
             | _ \<Rightarrow> Inr (0, ptr)))"

section \<open>Sending markers\<close>

datatype marker_mode = MODE_UDP | MODE_TCP | MODE_ETH

definition initial_marker :: "u64 \<Rightarrow> marker" where
  "initial_marker now = \<lparr>mk_magic = MARKER_MAGIC, mk_version = 1, mk_flags = 0, mk_reserved = 0, mk_exp_id = 0,
     mk_run_id = 0, mk_key_id = 0, mk_seq_num = 0, mk_timestamp = be64toh now, mk_comment = replicate 64 NUL\<rparr>"

text \<open>
  One option with its argument, as \<open>getopt_long\<close> returns it: the marker and the mode, nothing when the program
  ends. The letter of the long option \<open>--key\<close> is \<open>l\<close>, which the switch does not have.
\<close>

definition capmarker_option :: "char \<Rightarrow> string \<Rightarrow> marker \<times> marker_mode \<Rightarrow> (marker \<times> marker_mode) option res" where
  "capmarker_option op optarg = (\<lambda>(mk, mode).
     let v = word_of_int (atoi optarg) :: u32 in
     if op = CHR ''?'' then Inr (Some (mk, mode))
     else if op = CHR ''e'' then Inr (if v = 0 then None else Some (mk\<lparr>mk_exp_id := v\<rparr>, mode))
     else if op = CHR ''r'' then Inr (if v = 0 then None else Some (mk\<lparr>mk_run_id := v\<rparr>, mode))
     else if op = CHR ''k'' then Inr (Some (mk\<lparr>mk_key_id := v\<rparr>, mode))
     else if op = CHR ''s'' then Inr (Some (mk\<lparr>mk_seq_num := v\<rparr>, mode))
     else if op = CHR ''c'' then Inr (Some (mk\<lparr>mk_comment := strncpy 63 optarg @ drop 63 (mk_comment mk)\<rparr>, mode))
     else if op = CHR ''u'' then Inr (Some (mk, MODE_UDP))
     else if op = CHR ''t'' then Inr (Some (mk, MODE_TCP))
     else if op = CHR ''x'' then Inr (Some (mk, MODE_ETH))
     else if op = CHR ''T'' then Inr (Some (mk\<lparr>mk_flags := mk_flags mk OR MARKER_TERMINATE\<rparr>, mode))
     else if op = CHR ''h'' then Inr None
     else Inl Aborted)"

fun capmarker_options :: "(char \<times> string) list \<Rightarrow> marker \<times> marker_mode \<Rightarrow> (marker \<times> marker_mode) option res" where
  "capmarker_options [] s = Inr (Some s)"
| "capmarker_options ((op, optarg) # opts) s =
     rbind (capmarker_option op optarg s) (\<lambda>r.
       case r of None \<Rightarrow> Inr None | Some s \<Rightarrow> capmarker_options opts s)"

text \<open>The byte order of the network; the timestamp has it from the start.\<close>

definition network_order :: "marker \<Rightarrow> marker" where
  "network_order mk = mk\<lparr>mk_magic := htonl (mk_magic mk), mk_reserved := htons (mk_reserved mk),
     mk_exp_id := htonl (mk_exp_id mk), mk_run_id := htonl (mk_run_id mk), mk_key_id := htonl (mk_key_id mk),
     mk_seq_num := htonl (mk_seq_num mk)\<rparr>"

text \<open>The datagram that is sent to each destination, or nothing when the program ends before.\<close>

definition capmarker :: "u64 \<Rightarrow> (char \<times> string) list \<Rightarrow> (u8 list \<times> marker_mode) option res" where
  "capmarker now opts =
     rbind (capmarker_options opts (initial_marker now, MODE_UDP)) (\<lambda>r.
       Inr (map_option (\<lambda>(mk, mode). (marker_bytes (network_order mk), mode)) r))"

section \<open>Reading back what is sent\<close>

lemma fill_marker_bytes:
  assumes "off = length pre"
  shows "fill_marker (pre @ marker_bytes mk @ post) off ptr = Inr (ptr\<lparr>mk_magic := ntohl (mk_magic mk), mk_version := mk_version mk,
    mk_flags := mk_flags mk, mk_reserved := ntohs (mk_reserved mk), mk_exp_id := ntohl (mk_exp_id mk),
    mk_run_id := ntohl (mk_run_id mk), mk_key_id := ntohl (mk_key_id mk), mk_seq_num := ntohl (mk_seq_num mk),
    mk_timestamp := be64toh (mk_timestamp mk)\<rparr>)"
proof -
  let ?m = "pre @ marker_bytes mk @ post"
  let ?c = "map byte_of_char (mk_comment mk) @ post"
  have 1: "rd32 ?m off = Inr (mk_magic mk)"
    using rd32_bytes32 [of pre "mk_magic mk"] assms by (simp add: marker_bytes_def)
  have 2: "rd8 ?m (off + 4) = Inr (mk_version mk)" "rd8 ?m (off + 5) = Inr (mk_flags mk)"
    using assms by (simp_all add: rd8_def marker_bytes_def nth_append)
  have 3: "rd16 ?m (off + 6) = Inr (mk_reserved mk)"
    using rd16_bytes16 [of "pre @ bytes32 (mk_magic mk) @ [mk_version mk, mk_flags mk]" "mk_reserved mk"] assms
    by (simp add: marker_bytes_def)
  let ?p = "pre @ bytes32 (mk_magic mk) @ [mk_version mk, mk_flags mk] @ bytes16 (mk_reserved mk)"
  have 4: "rd32 ?m (off + 8) = Inr (mk_exp_id mk)"
    using rd32_bytes32 [of ?p "mk_exp_id mk"] assms by (simp add: marker_bytes_def)
  have 5: "rd32 ?m (off + 12) = Inr (mk_run_id mk)"
    using rd32_bytes32 [of "?p @ bytes32 (mk_exp_id mk)" "mk_run_id mk"] assms by (simp add: marker_bytes_def)
  have 6: "rd32 ?m (off + 16) = Inr (mk_key_id mk)"
    using rd32_bytes32 [of "?p @ bytes32 (mk_exp_id mk) @ bytes32 (mk_run_id mk)" "mk_key_id mk"] assms by (simp add: marker_bytes_def)
  have 7: "rd32 ?m (off + 20) = Inr (mk_seq_num mk)"
    using rd32_bytes32 [of "?p @ bytes32 (mk_exp_id mk) @ bytes32 (mk_run_id mk) @ bytes32 (mk_key_id mk)" "mk_seq_num mk"] assms
    by (simp add: marker_bytes_def)
  have 8: "rd64 ?m (off + 24) = Inr (mk_timestamp mk)"
    using rd64_bytes64 [of "?p @ bytes32 (mk_exp_id mk) @ bytes32 (mk_run_id mk) @ bytes32 (mk_key_id mk) @ bytes32 (mk_seq_num mk)"
      "mk_timestamp mk"] assms by (simp add: marker_bytes_def)
  show ?thesis by (simp add: fill_marker_def 1 2 3 4 5 6 7 8)
qed

lemma be64toh_le64: "be64toh (le64 lo hi) = le64 (ntohl hi) (ntohl lo)"
  using unat_lt_u32 [of lo] by (simp add: be64toh_def unat_le64)

lemma be64toh_be64toh [simp]: "be64toh (be64toh w) = w"
proof -
  have "le64 (word_of_nat (unat w mod 4294967296)) (word_of_nat (unat w div 4294967296)) = w"
    using unat_lt_u64 [of w] by (intro word_unat_eqI) (simp add: unat_le64 unat_of_nat)
  then show ?thesis by (simp add: be64toh_def [of w] be64toh_le64)
qed

text \<open>No option changes the magic number or the timestamp.\<close>

lemma capmarker_option_keeps:
  assumes "capmarker_option op optarg s = Inr (Some s')"
  shows "mk_magic (fst s') = mk_magic (fst s)" "mk_timestamp (fst s') = mk_timestamp (fst s)"
  using assms by (cases s; auto simp: capmarker_option_def Let_def split: if_splits)+

lemma capmarker_options_keep:
  assumes "capmarker_options opts s = Inr (Some s')"
  shows "mk_magic (fst s') = mk_magic (fst s) \<and> mk_timestamp (fst s') = mk_timestamp (fst s)"
  using assms
  by (induction opts s rule: capmarker_options.induct)
    (auto simp: rbind_Inr_iff capmarker_option_keeps split: option.splits)

text \<open>A UDP packet from the port of markers, in an ethernet frame.\<close>

definition marker_frame :: "u16 \<Rightarrow> u8 list \<Rightarrow> mem" where
  "marker_frame port data = replicate 12 0 @ [0x08, 0, 0x45, 0, 0, 0, 0, 0, 0, 0, 64, 17] @ replicate 10 0 @
     bytes16 (htons MARKERPORT) @ bytes16 (htons port) @ replicate 4 0 @ data"

lemma marker_frame_reads:
  "rd16 (marker_frame port data) 12 = Inr 0x08" "rd8 (marker_frame port data) 14 = Inr 0x45"
  "rd8 (marker_frame port data) 23 = Inr 17"
  "rd16 (marker_frame port data) 34 = Inr (htons MARKERPORT)" "rd16 (marker_frame port data) 36 = Inr (htons port)"
proof -
  let ?h = "replicate 12 0 @ [0x08, 0, 0x45, 0, 0, 0, 0, 0, 0, 0, 64, 17] @ replicate 10 (0 :: u8)"
  show "rd16 (marker_frame port data) 12 = Inr 0x08" "rd8 (marker_frame port data) 14 = Inr 0x45"
    "rd8 (marker_frame port data) 23 = Inr 17"
    by (simp_all add: rd16_def rd8_def marker_frame_def nth_append nth_Cons' le16_def)
  show "rd16 (marker_frame port data) 34 = Inr (htons MARKERPORT)"
    using rd16_bytes16 [of ?h "htons MARKERPORT" "bytes16 (htons port) @ replicate 4 0 @ data"] by (simp add: marker_frame_def)
  show "rd16 (marker_frame port data) 36 = Inr (htons port)"
    using rd16_bytes16 [of "?h @ bytes16 (htons MARKERPORT)" "htons port" "replicate 4 0 @ data"] by (simp add: marker_frame_def)
qed

lemma marker_frame_headers:
  "find_ipv4_header (marker_frame port data) = Inr (Some (14, 34))"
  "find_udp_header (marker_frame port data) (Some 14) (Some p) = Inr (Some 34, Some (MARKERPORT, port))"
proof -
  have 1: "ntohs 0x08 = ETHERTYPE_IP" "ntohs 0x08 \<noteq> 0x8100" by (simp_all add: ntohs_def le16_def packet_consts)
  have 2: "ip_hl (marker_frame port data) 14 = Inr 5" by (simp add: ip_hl_def marker_frame_reads)
  show "find_ipv4_header (marker_frame port data) = Inr (Some (14, 34))"
    using 1 2 by (simp add: find_ipv4_header_def find_ipv4_header_int_def h_proto_def marker_frame_reads
        ipv4_retry.simps sizeof_ethhdr_def)
  show "find_udp_header (marker_frame port data) (Some 14) (Some p) = Inr (Some 34, Some (MARKERPORT, port))"
    using 1 2 by (simp add: find_udp_header_def find_transport_header_def ip_p_def marker_frame_reads
        find_ipproto_header_def h_proto_def sizeof_ethhdr_def IPPROTO_UDP_def)
qed

lemma is_marker_behind:
  assumes "mk_magic mk = MARKER_MAGIC" "port = 0 \<or> port = int (unat dport)"
    and "m = h @ marker_bytes (network_order mk) @ []" "length h = 42" "find_ipv4_header m = Inr (Some (14, 34))"
    and "find_udp_header m (Some 14) (Some (0, 0)) = Inr (Some 34, Some (MARKERPORT, dport))"
  shows "is_marker m (Some ptr) port =
    Inr (int (unat dport), Some (mk\<lparr>mk_timestamp := be64toh (mk_timestamp mk), mk_comment := mk_comment ptr\<rparr>))"
proof -
  have f: "fill_marker m 42 ptr = Inr (mk\<lparr>mk_timestamp := be64toh (mk_timestamp mk), mk_comment := mk_comment ptr\<rparr>)"
    unfolding assms(3) using assms(4) by (subst fill_marker_bytes) (simp_all add: network_order_def)
  have "rd32 m 42 = Inr (htonl MARKER_MAGIC)"
    using rd32_bytes32 [of h "htonl MARKER_MAGIC"] assms(1,4) unfolding assms(3) by (simp add: marker_bytes_def network_order_def)
  then show ?thesis using f assms(2,5,6) by (auto simp: is_marker_def sizeof_udphdr_def)
qed

lemma is_marker_frame:
  assumes "mk_magic mk = MARKER_MAGIC" "port = 0 \<or> port = int (unat dport)"
  shows "is_marker (marker_frame dport (marker_bytes (network_order mk))) (Some ptr) port =
    Inr (int (unat dport), Some (mk\<lparr>mk_timestamp := be64toh (mk_timestamp mk), mk_comment := mk_comment ptr\<rparr>))"
proof -
  let ?h = "replicate 12 0 @ [0x08, 0, 0x45, 0, 0, 0, 0, 0, 0, 0, 64, 17] @ replicate 10 0 @
     bytes16 (htons MARKERPORT) @ bytes16 (htons dport) @ replicate 4 (0 :: u8)"
  have "marker_frame dport (marker_bytes (network_order mk)) = ?h @ marker_bytes (network_order mk) @ []" "length ?h = 42"
    by (simp_all add: marker_frame_def bytes16_def)
  from is_marker_behind [OF assms this marker_frame_headers] show ?thesis .
qed

section \<open>Properties\<close>

text \<open>
  Claim C21. A marker that the tool sends is recognised: for every list of options, the packet with its datagram is
  reported with the port it was sent to, whether that port or any is asked for, and the fields are those that
  the options gave, back in the order of the host.
\<close>

theorem marker_sent_detected:
  assumes "capmarker now opts = Inr (Some (d, MODE_UDP))" "port = 0 \<or> port = int (unat dport)"
  shows "\<exists>mk. capmarker_options opts (initial_marker now, MODE_UDP) = Inr (Some (mk, MODE_UDP)) \<and>
    is_marker (marker_frame dport d) (Some ptr) port =
      Inr (int (unat dport), Some (mk\<lparr>mk_timestamp := now, mk_comment := mk_comment ptr\<rparr>))"
proof -
  obtain mk where o: "capmarker_options opts (initial_marker now, MODE_UDP) = Inr (Some (mk, MODE_UDP))"
      and d: "d = marker_bytes (network_order mk)"
    using assms(1) by (auto simp: capmarker_def rbind_Inr_iff)
  have k: "mk_magic mk = MARKER_MAGIC" "mk_timestamp mk = be64toh now"
    using capmarker_options_keep [OF o] by (simp_all add: initial_marker_def)
  have "is_marker (marker_frame dport d) (Some ptr) port =
      Inr (int (unat dport), Some (mk\<lparr>mk_timestamp := now, mk_comment := mk_comment ptr\<rparr>))"
    using is_marker_frame [OF k(1) assms(2), of ptr] k(2) d by simp
  with o show ?thesis by blast
qed

theorem marker_sent_detected_witness:
  "\<exists>mk. capmarker_options [(CHR ''e'', ''7''), (CHR ''T'', [])] (initial_marker 5, MODE_UDP) = Inr (Some (mk, MODE_UDP)) \<and>
    is_marker (marker_frame 4000 (marker_bytes (network_order
        ((initial_marker 5)\<lparr>mk_exp_id := 7, mk_flags := MARKER_TERMINATE\<rparr>)))) (Some (initial_marker 0)) 4000 =
      Inr (int (unat (4000 :: u16)), Some (mk\<lparr>mk_timestamp := 5, mk_comment := mk_comment (initial_marker 0)\<rparr>))"
proof -
  have "atoi ''7'' = 7" by (simp add: atoi_def strtoll_def isspace_def isdigit_def c_int_def Let_def)
  then show ?thesis
    by (intro marker_sent_detected) (simp_all add: capmarker_def capmarker_option_def initial_marker_def Let_def)
qed

text \<open>The long option for the key is not handled.\<close>

lemma capmarker_key_aborts: "capmarker now ((CHR ''l'', s) # opts) = Inl Aborted"
  by (simp add: capmarker_def capmarker_option_def Let_def)

end
