(* ===== verification/Read_Extension.thy ===== *)
theory Read_Extension
  imports Marker
begin

text \<open>
  Packets that were read from a stream lie in its buffer, with other bytes behind them. What was read within the
  captured data does not depend on those: a result that is not a fault stays as it is when the memory is
  larger. The collection \<open>fault_le_intros\<close> shows it for functions that are put together from others.
\<close>

definition fault_le :: "'a res \<Rightarrow> 'a res \<Rightarrow> bool" where
  "fault_le x y \<longleftrightarrow> (\<forall>v. x = Inr v \<longrightarrow> y = Inr v)"

named_theorems fault_le_intros \<open>programs that have the same result in a larger memory\<close>

lemma fault_le_refl [fault_le_intros]: "fault_le x x"
  by (simp add: fault_le_def)

lemma fault_le_rbind [fault_le_intros]: "fault_le x y \<Longrightarrow> (\<And>v. x = Inr v \<Longrightarrow> fault_le (f v) (g v)) \<Longrightarrow> fault_le (rbind x f) (rbind y g)"
  by (auto simp: fault_le_def rbind_Inr_iff)

lemma fault_le_if [fault_le_intros]: "(c \<Longrightarrow> fault_le x y) \<Longrightarrow> (\<not> c \<Longrightarrow> fault_le x' y') \<Longrightarrow> fault_le (if c then x else x') (if c then y else y')"
  by simp

lemma fault_le_option [fault_le_intros]:
  "(z = None \<Longrightarrow> fault_le x y) \<Longrightarrow> (\<And>v. fault_le (f v) (g v)) \<Longrightarrow> fault_le (case_option x f z) (case_option y g z)"
  by (cases z) auto

lemma fault_le_prod [fault_le_intros]: "(\<And>u v. fault_le (f u v) (g u v)) \<Longrightarrow> fault_le (case_prod f z) (case_prod g z)"
  by (cases z) auto

lemma rd8_larger [fault_le_intros]: "fault_le (rd8 m i) (rd8 (m @ r) i)"
  by (auto simp: fault_le_def rd8_def nth_append split: if_splits)

lemma rd16_larger [fault_le_intros]: "fault_le (rd16 m i) (rd16 (m @ r) i)"
  unfolding rd16_def by (intro fault_le_intros)

lemma rd32_larger [fault_le_intros]: "fault_le (rd32 m i) (rd32 (m @ r) i)"
  unfolding rd32_def by (intro fault_le_intros)

lemma h_proto_append [fault_le_intros]: "fault_le (h_proto m) (h_proto (m @ r))"
  unfolding h_proto_def by (intro fault_le_intros)

lemma ip_hl_append [fault_le_intros]: "fault_le (ip_hl m i) (ip_hl (m @ r) i)"
  unfolding ip_hl_def by (intro fault_le_intros)

lemma ip_p_append [fault_le_intros]: "fault_le (ip_p m i) (ip_p (m @ r) i)"
  unfolding ip_p_def by (intro fault_le_intros)

lemma ipv4_retry_append [fault_le_intros]: "fault_le (ipv4_retry m proto cur) (ipv4_retry (m @ r) proto cur)"
proof (induction m proto cur rule: ipv4_retry.induct)
  case (1 m proto cur)
  show ?case
    by (subst (1 2) ipv4_retry.simps) (intro fault_le_intros 1)
qed

lemma find_ipv4_header_append [fault_le_intros]: "fault_le (find_ipv4_header m) (find_ipv4_header (m @ r))"
  unfolding find_ipv4_header_def find_ipv4_header_int_def by (intro fault_le_intros)

lemma find_udp_header_append [fault_le_intros]: "fault_le (find_udp_header m ip ports) (find_udp_header (m @ r) ip ports)"
  unfolding find_udp_header_def find_transport_header_def find_ipproto_header_def by (intro fault_le_intros)

lemma fill_marker_append [fault_le_intros]: "fault_le (fill_marker m i mk) (fill_marker (m @ r) i mk)"
  unfolding fill_marker_def rd64_def by (intro fault_le_intros)

lemma is_marker_append [fault_le_intros]: "fault_le (is_marker m ptr port) (is_marker (m @ r) ptr port)"
  unfolding is_marker_def by (intro fault_le_intros)

end
