(* ===== verification/Capinfo.thy ===== *)
theory Capinfo
  imports Packet_Input Read_Extension Slist
begin

text \<open>
  \<open>tools/capinfo.c\<close>: the summary of a capture file. The counters of the whole file, of each measurement
  point, of each interface and of each location, the distribution over protocols, and the choice of units when
  they are printed. The text itself, which contains floating point numbers, is left out.
\<close>

section \<open>Counters\<close>

record count =
  ct_packets :: u64
  ct_bytes :: u64

record stats =
  ss_packets :: u64
  ss_bytes :: u64
  ss_byte_min :: u64
  ss_byte_max :: u64
  ss_first :: timepico
  ss_last :: timepico
  ss_marker_present :: int
  ss_transport :: "count list"

definition UINT16_MAX :: nat where "UINT16_MAX = 65535"

definition UINT8_MAX :: nat where "UINT8_MAX = 255"

definition no_count :: count where "no_count = \<lparr>ct_packets = 0, ct_bytes = 0\<rparr>"

text \<open>The timestamps are not reset.\<close>

definition reset_stats :: "stats \<Rightarrow> stats" where
  "reset_stats stat = stat\<lparr>ss_packets := 0, ss_bytes := 0, ss_byte_min := word_of_nat UINT16_MAX, ss_byte_max := 0,
     ss_marker_present := 0, ss_transport := replicate UINT16_MAX no_count\<rparr>"

text \<open>The functions \<open>min\<close> and \<open>max\<close> of the tool take \<open>unsigned int\<close>: the counter is cut to 32 bits.\<close>

definition store_stats :: "stats \<Rightarrow> cap_header \<Rightarrow> stats" where
  "store_stats stat cp =
     (let stat = stat\<lparr>ss_packets := ss_packets stat + 1\<rparr>;
          stat = (if ss_packets stat = 1 then stat\<lparr>ss_first := ch_ts cp\<rparr> else stat)
      in stat\<lparr>ss_last := ch_ts cp, ss_bytes := ss_bytes stat + ucast (ch_len cp),
           ss_byte_min := ucast (min (ucast (ss_byte_min stat) :: u32) (ch_len cp)),
           ss_byte_max := ucast (max (ucast (ss_byte_max stat) :: u32) (ch_len cp))\<rparr>)"

text \<open>One more packet in an array of counters.\<close>

definition count_packet :: "count list \<Rightarrow> nat \<Rightarrow> u32 \<Rightarrow> count list res" where
  "count_packet cs i len =
     (if \<not> i < length cs then Inl Out_of_bounds
      else Inr (cs[i := \<lparr>ct_packets = ct_packets (cs ! i) + 1, ct_bytes = ct_bytes (cs ! i) + ucast len\<rparr>]))"

section \<open>Counters by name\<close>

definition strndup :: "char list \<Rightarrow> nat \<Rightarrow> string" where
  "strndup s n = takeWhile (\<lambda>c. c \<noteq> NUL) (take n s)"

text \<open>The buffer holds 17 characters including the terminator.\<close>

definition get_location :: "cap_header \<Rightarrow> string" where
  "get_location cp = take 16 (strndup (ch_mampid cp) 8 @ '':'' @ strndup (ch_nic cp) 8)"

text \<open>
  The counters of a name, which are added when there are none. A new element is memory that was not initialised:
  \<open>junk\<close> says what it holds.
\<close>

definition store_unique ::
  "(elem_ptr \<Rightarrow> stats) \<Rightarrow> (string, stats) simple_list \<Rightarrow> char list \<Rightarrow> nat \<Rightarrow> (elem_ptr \<times> (string, stats) simple_list) res" where
  "store_unique junk slist key maxlen =
     rbind (slist_find slist key (\<lambda>cur str. strncmp_eq cur str maxlen)) (\<lambda>existing.
       case existing of
         Some p \<Rightarrow> Inr (p, slist)
       | None \<Rightarrow>
           rbind (slist_put slist (strndup key maxlen)) (\<lambda>(p, slist).
             let old = (case sl_value slist ! snd p of None \<Rightarrow> junk p | Some v \<Rightarrow> v) in
             rbind (elem_write slist p (reset_stats old)) (\<lambda>slist. Inr (p, slist))))"

text \<open>The common body of \<open>store_mampid\<close>, \<open>store_CI\<close> and \<open>store_location\<close>.\<close>

definition store_named ::
  "(elem_ptr \<Rightarrow> stats) \<Rightarrow> (string, stats) simple_list \<Rightarrow> char list \<Rightarrow> nat \<Rightarrow> cap_header \<Rightarrow> (string, stats) simple_list res" where
  "store_named junk slist key maxlen cp =
     rbind (store_unique junk slist key maxlen) (\<lambda>(p, slist).
     rbind (elem_read slist p) (\<lambda>stat. elem_write slist p (store_stats stat cp)))"

definition store_mampid where "store_mampid junk mpid cp = store_named junk mpid (ch_mampid cp) 8 cp"

definition store_CI where "store_CI junk CI cp = store_named junk CI (ch_nic cp) 8 cp"

definition store_location where "store_location junk location cp = store_named junk location (get_location cp) 17 cp"

section \<open>The summary\<close>

record capinfo =
  ci_global :: stats
  ci_ipproto :: "count list"
  ci_mpid :: "(string, stats) simple_list"
  ci_CI :: "(string, stats) simple_list"
  ci_location :: "(string, stats) simple_list"

definition capinfo_reset :: "capinfo \<Rightarrow> capinfo" where
  "capinfo_reset ci = \<lparr>ci_global = reset_stats (ci_global ci), ci_ipproto = replicate UINT8_MAX no_count,
     ci_mpid = slist_clear (ci_mpid ci), ci_CI = slist_clear (ci_CI ci), ci_location = slist_clear (ci_location ci)\<rparr>"

definition parse_ethernetII :: "cap_header \<Rightarrow> capinfo \<Rightarrow> capinfo res" where
  "parse_ethernetII cp ci =
     rbind (h_proto (ch_payload cp)) (\<lambda>proto.
     rbind (count_packet (ss_transport (ci_global ci)) (unat proto) (ch_len cp)) (\<lambda>transport.
       let ci = ci\<lparr>ci_global := (ci_global ci)\<lparr>ss_transport := transport\<rparr>\<rparr> in
       if proto = ETHERTYPE_VLAN \<or> proto = ETHERTYPE_IP then
         rbind (ip_p (ch_payload cp) (if proto = ETHERTYPE_VLAN then sizeof_ether_vlan_header else sizeof_ethhdr)) (\<lambda>p.
         rbind (count_packet (ci_ipproto ci) (unat p) (ch_len cp)) (\<lambda>ipproto.
           Inr (ci\<lparr>ci_ipproto := ipproto\<rparr>)))
       else Inr ci))"

text \<open>The body of the loop of \<open>show_info\<close>.\<close>

definition capinfo_packet :: "(nat \<Rightarrow> elem_ptr \<Rightarrow> stats) \<Rightarrow> cap_header \<Rightarrow> capinfo \<Rightarrow> capinfo res" where
  "capinfo_packet junk cp ci =
     rbind (if ss_marker_present (ci_global ci) = 0
            then rbind (is_marker (ch_payload cp) None 0) (\<lambda>(port, _). Inr port)
            else Inr (ss_marker_present (ci_global ci))) (\<lambda>present.
     let global = store_stats ((ci_global ci)\<lparr>ss_marker_present := present\<rparr>) cp in
     rbind (store_mampid (junk 0) (ci_mpid ci) cp) (\<lambda>mpid.
     rbind (store_CI (junk 1) (ci_CI ci) cp) (\<lambda>CI.
     rbind (store_location (junk 2) (ci_location ci) cp) (\<lambda>location.
     let ci = ci\<lparr>ci_global := global, ci_mpid := mpid, ci_CI := CI, ci_location := location\<rparr> in
     rbind (h_proto (ch_payload cp)) (\<lambda>proto.
       if proto \<le> 0x05DC then Inr ci else parse_ethernetII cp ci)))))"

text \<open>The loop with the number of rounds as fuel.\<close>

fun capinfo_loop ::
  "nat \<Rightarrow> 's reader \<Rightarrow> (nat \<Rightarrow> elem_ptr \<Rightarrow> stats) \<Rightarrow> 's \<times> capinfo \<Rightarrow> (int \<times> 's \<times> capinfo) res option" where
  "capinfo_loop 0 rd junk s = None"
| "capinfo_loop (Suc n) rd junk (st, ci) =
     (case rd st of
        None \<Rightarrow> None
      | Some (Inl e) \<Rightarrow> Some (Inl e)
      | Some (Inr (ret, cp, st)) \<Rightarrow>
          if ret \<noteq> 0 then Some (Inr (ret, st, ci))
          else case cp of
              None \<Rightarrow> Some (Inl Null_deref)
            | Some cp \<Rightarrow>
                case capinfo_packet junk cp ci of
                  Inl e \<Rightarrow> Some (Inl e)
                | Inr ci \<Rightarrow> capinfo_loop n rd junk (st, ci))"

text \<open>\<open>process\<close> up to the output: the summary of one file starts from what the file before left.\<close>

definition capinfo_file where
  "capinfo_file n rd junk st ci = capinfo_loop n rd junk (st, capinfo_reset ci)"

text \<open>What \<open>main\<close> starts with: static data is zero.\<close>

definition zero_stats :: stats where
  "zero_stats = \<lparr>ss_packets = 0, ss_bytes = 0, ss_byte_min = 0, ss_byte_max = 0, ss_first = \<lparr>tv_sec = 0, tv_psec = 0\<rparr>,
     ss_last = \<lparr>tv_sec = 0, tv_psec = 0\<rparr>, ss_marker_present = 0, ss_transport = replicate UINT16_MAX no_count\<rparr>"

definition capinfo_start :: capinfo where
  "capinfo_start = \<lparr>ci_global = zero_stats, ci_ipproto = replicate UINT8_MAX no_count, ci_mpid = slist_init 80,
     ci_CI = slist_init 80, ci_location = slist_init 80\<rparr>"

section \<open>Printing\<close>

text \<open>The loops that choose a unit; the multiplier wraps around, and a division by zero ends the program.\<close>

function unit_loop :: "u64 \<Rightarrow> u64 \<Rightarrow> nat \<Rightarrow> (u64 \<times> nat) res" where
  "unit_loop bytes multiplier n =
     (if multiplier = 0 then Inl Aborted
      else if 1024 \<le> bytes div multiplier \<and> n < 8 then unit_loop bytes (multiplier * 1024) (n + 1)
      else Inr (multiplier, n))"
  by pat_completeness auto
termination unit_loop
  by (relation "measure (\<lambda>(bytes, multiplier, n). 8 - n)") auto

declare unit_loop.simps [simp del]

definition format_bytes_unit :: "u64 \<Rightarrow> (u64 \<times> nat) res" where
  "format_bytes_unit bytes = unit_loop bytes 1 0"

definition format_rate_unit :: "u64 \<Rightarrow> u64 \<Rightarrow> (u64 \<times> u64 \<times> nat) res" where
  "format_rate_unit bytes seconds =
     (let rate = bytes * 8 div (if seconds > 0 then seconds else 1)
      in rbind (unit_loop rate 1 0) (\<lambda>r. Inr (rate, r)))"

text \<open>
  \<open>array_join\<close> into a buffer of \<open>bsize\<close> characters; \<open>buffer\<close> is the text it holds before, which stays when
  there is nothing to join.
\<close>

fun join_loop :: "nat \<Rightarrow> nat \<Rightarrow> string \<Rightarrow> string list \<Rightarrow> string \<Rightarrow> string res" where
  "join_loop bsize i dst [] delimiter = Inr dst"
| "join_loop bsize i dst (s # src) delimiter =
     (let dst = dst @ (if i > 0 then delimiter else []) @ s
      in if length dst < bsize then join_loop bsize (i + 1) dst src delimiter else Inl Out_of_bounds)"

definition array_join :: "nat \<Rightarrow> string \<Rightarrow> string list \<Rightarrow> string \<Rightarrow> string res" where
  "array_join bsize buffer src delimiter = (if src = [] then Inr buffer else join_loop bsize 0 [] src delimiter)"

text \<open>\<open>get_mampid_list\<close> and \<open>get_CI_list\<close>.\<close>

definition get_list :: "string \<Rightarrow> (string, stats) simple_list \<Rightarrow> string \<Rightarrow> string res" where
  "get_list buffer sl delimiter = array_join 2048 buffer (map (\<lambda>i. the (sl_key sl ! i)) [0..<sl_size sl]) delimiter"

section \<open>Totals of a list of packets\<close>

text \<open>What the counters say of a list of packets. The smallest size starts at 65535.\<close>

definition totals :: "stats \<Rightarrow> cap_header list \<Rightarrow> bool" where
  "totals st ps \<longleftrightarrow> ss_packets st = word_of_nat (length ps) \<and> ss_bytes st = word_of_nat (\<Sum>p\<leftarrow>ps. unat (ch_len p)) \<and>
     ss_byte_min st = word_of_nat (Min (insert UINT16_MAX ((\<lambda>p. unat (ch_len p)) ` set ps))) \<and>
     ss_byte_max st = word_of_nat (Max (insert 0 ((\<lambda>p. unat (ch_len p)) ` set ps))) \<and>
     (ps \<noteq> [] \<longrightarrow> ss_first st = ch_ts (hd ps) \<and> ss_last st = ch_ts (last ps))"

lemma totals_reset: "totals (reset_stats st) []"
  by (simp add: totals_def reset_stats_def)

lemma totals_marker [simp]: "totals (st\<lparr>ss_marker_present := x\<rparr>) ps = totals st ps"
  by (simp add: totals_def)

lemma totals_transport [simp]: "totals (st\<lparr>ss_transport := x\<rparr>) ps = totals st ps"
  by (simp add: totals_def)

lemma word_of_nat_min_u32:
  fixes w :: u32
  assumes "n < 2 ^ 32"
  shows "ucast (min (ucast (word_of_nat n :: u64) :: u32) w) = (word_of_nat (min n (unat w)) :: u64)"
    and "ucast (max (ucast (word_of_nat n :: u64) :: u32) w) = (word_of_nat (max n (unat w)) :: u64)"
proof -
  have u: "ucast (word_of_nat n :: u64) = (word_of_nat n :: u32)"
    using assms by (simp add: unsigned_of_nat take_bit_nat_eq_self)
  have n: "unat (word_of_nat n :: u32) = n" using assms by (simp add: unsigned_of_nat take_bit_nat_eq_self)
  then show "ucast (min (ucast (word_of_nat n :: u64) :: u32) w) = (word_of_nat (min n (unat w)) :: u64)"
    "ucast (max (ucast (word_of_nat n :: u64) :: u32) w) = (word_of_nat (max n (unat w)) :: u64)"
    unfolding u by (auto simp: min_def max_def word_le_nat_alt unsigned_of_nat take_bit_nat_eq_self assms)
qed

lemma store_stats_fields:
  "ss_packets (store_stats st cp) = ss_packets st + 1" "ss_bytes (store_stats st cp) = ss_bytes st + ucast (ch_len cp)"
  "ss_byte_min (store_stats st cp) = ucast (min (ucast (ss_byte_min st) :: u32) (ch_len cp))"
  "ss_byte_max (store_stats st cp) = ucast (max (ucast (ss_byte_max st) :: u32) (ch_len cp))"
  "ss_first (store_stats st cp) = (if ss_packets st + 1 = 1 then ch_ts cp else ss_first st)"
  "ss_last (store_stats st cp) = ch_ts cp" "ss_transport (store_stats st cp) = ss_transport st"
  "ss_marker_present (store_stats st cp) = ss_marker_present st"
  by (simp_all add: store_stats_def Let_def)

lemma totals_store:
  assumes "totals st ps" "Suc (length ps) < 2 ^ 64"
  shows "totals (store_stats st cp) (ps @ [cp])"
proof -
  let ?l = "\<lambda>p. unat (ch_len p)"
  let ?lo = "Min (insert UINT16_MAX (?l ` set ps))" and ?hi = "Max (insert 0 (?l ` set ps))"
  have lo: "?lo < 2 ^ 32" using Min_le [of "insert UINT16_MAX (?l ` set ps)" UINT16_MAX]
    by (simp add: UINT16_MAX_def del: Min_le)
  have "?l p < 2 ^ 32" for p using unsigned_less [of "ch_len p", where 'a = nat] by simp
  then have hi: "?hi < 2 ^ 32" by (subst Max_less_iff) auto
  have "insert a (?l ` set (ps @ [cp])) = insert (?l cp) (insert a (?l ` set ps))" for a by auto
  then have ins: "Min (insert UINT16_MAX (?l ` set (ps @ [cp]))) = min ?lo (?l cp)"
    "Max (insert 0 (?l ` set (ps @ [cp]))) = max ?hi (?l cp)"
    by (simp_all del: set_append add: min.commute max.commute)
  have "unat (word_of_nat (length ps) :: u64) = length ps"
    using assms(2) by (simp add: unsigned_of_nat take_bit_nat_eq_self)
  then have one: "ss_packets st + 1 = 1 \<longleftrightarrow> ps = []"
    using assms(1) unat_eq_zero [of "ss_packets st"] by (auto simp: totals_def)
  have t: "ss_packets st = word_of_nat (length ps)" "ss_bytes st = word_of_nat (\<Sum>p\<leftarrow>ps. ?l p)"
    "ss_byte_min st = word_of_nat ?lo" "ss_byte_max st = word_of_nat ?hi" "ps \<noteq> [] \<Longrightarrow> ss_first st = ch_ts (hd ps)"
    using assms(1) by (simp_all add: totals_def)
  show ?thesis
    unfolding totals_def store_stats_fields ins one t(3,4) word_of_nat_min_u32 [OF lo] word_of_nat_min_u32 [OF hi]
    by (cases ps) (simp_all add: t(1,2,5))
qed

section \<open>Totals by name\<close>

text \<open>The names in the order of their first packet.\<close>

definition first_seen :: "'a list \<Rightarrow> 'a list" where
  "first_seen xs = rev (remdups (rev xs))"

lemma first_seen_snoc: "first_seen (xs @ [x]) = (if x \<in> set xs then first_seen xs else first_seen xs @ [x])"
  by (simp add: first_seen_def)

lemma first_seen_simps [simp]: "first_seen [] = []" "set (first_seen xs) = set xs" "distinct (first_seen xs)"
  by (simp_all add: first_seen_def)

text \<open>The elements of a list are the totals of the packets with their name.\<close>

definition by_name :: "(string, stats) simple_list \<Rightarrow> (cap_header \<Rightarrow> string) \<Rightarrow> cap_header list \<Rightarrow> bool" where
  "by_name sl name ps \<longleftrightarrow> slist_wf sl \<and> slist_keys sl = first_seen (map name ps) \<and>
     (\<forall>i < sl_size sl. \<exists>st. sl_value sl ! i = Some st \<and> totals st [p\<leftarrow>ps. name p = slist_keys sl ! i])"

lemma by_name_clear: "slist_wf sl \<Longrightarrow> by_name (slist_clear sl) name []"
  by (auto simp: by_name_def slist_clear_def slist_wf_def slist_keys_def)

lemma slist_scan_cong:
  assumes "\<And>j cur. i \<le> j \<Longrightarrow> j < i + n \<Longrightarrow> ks ! j = Some cur \<Longrightarrow> cmp cur k \<longleftrightarrow> cur = k'"
  shows "slist_scan cmp ks k i n = slist_scan (=) ks k' i n"
  using assms
proof (induction n arbitrary: i)
  case (Suc n)
  have "slist_scan cmp ks k (i + 1) n = slist_scan (=) ks k' (i + 1) n"
    by (rule Suc.IH, rule Suc.prems) auto
  then show ?case using Suc.prems [of i] by (auto split: option.split)
qed simp

lemma slist_find_cong:
  assumes "slist_wf sl" "\<And>cur. cur \<in> set (slist_keys sl) \<Longrightarrow> cmp cur k \<longleftrightarrow> cur = k'"
  shows "slist_find sl k cmp = slist_find sl k' (=)"
proof -
  have "slist_scan cmp (sl_key sl) k 0 (sl_size sl) = slist_scan (=) (sl_key sl) k' 0 (sl_size sl)"
    using slist_keys_nth [OF assms(1)] assms(2) by (intro slist_scan_cong) (auto simp: set_conv_nth)
  then show ?thesis by (simp add: slist_find_def)
qed

lemma slist_put_values:
  assumes "slist_wf sl" "slist_put sl k = Inr (p, sl')"
  shows "length (sl_value sl') = sl_capacity sl'" "i < sl_size sl \<Longrightarrow> sl_value sl' ! i = sl_value sl ! i"
  using assms by (auto simp: slist_put_def slist_wf_def slist_alloc_def Let_def nth_append split: if_splits)

lemma strncmp_strndup: "strncmp_eq (strndup a n) b n \<longleftrightarrow> strndup a n = strndup b n"
proof -
  have "take n (strndup a n) = strndup a n"
    using length_takeWhile_le [of "\<lambda>c. c \<noteq> NUL" "take n a"] by (simp add: strndup_def)
  then show ?thesis by (simp add: strncmp_eq_def) (simp add: strndup_def)
qed

lemma get_location_strndup: "strndup (get_location p) 17 = get_location p"
proof -
  have "NUL \<notin> set (strndup s n)" for s n by (auto simp: strndup_def dest: set_takeWhileD)
  then have "NUL \<notin> set (get_location p)" using set_take_subset by (fastforce simp: get_location_def)
  then have "takeWhile (\<lambda>c. c \<noteq> NUL) (get_location p) = get_location p" by (auto simp: takeWhile_eq_all_conv)
  moreover have "take 17 (get_location p) = get_location p" by (simp add: get_location_def)
  ultimately show ?thesis by (simp only: strndup_def)
qed

lemma by_name_update:
  assumes "by_name sl name ps" "i < sl_size sl" "slist_keys sl ! i = name cp" "sl_value sl ! i = Some st"
    and "Suc (length ps) < 2 ^ 64"
  shows "by_name (sl\<lparr>sl_value := (sl_value sl)[i := Some (store_stats st cp)]\<rparr>) name (ps @ [cp])"
proof -
  have w: "slist_wf sl" "slist_keys sl = first_seen (map name ps)" "sl_size sl \<le> length (sl_value sl)"
    using assms(1) by (auto simp: by_name_def slist_wf_def)
  let ?sl = "sl\<lparr>sl_value := (sl_value sl)[i := Some (store_stats st cp)]\<rparr>"
  have k: "slist_keys ?sl = slist_keys sl" "slist_wf ?sl" using w(1) by (simp_all add: slist_keys_def slist_wf_def)
  have "name cp \<in> set (map name ps)"
    using assms(2,3) w(2) nth_mem [of i "slist_keys sl"] by (metis first_seen_simps(2) length_slist_keys)
  then have ks: "slist_keys ?sl = first_seen (map name (ps @ [cp]))" using k(1) w(2) by (simp add: first_seen_snoc)
  have "\<exists>st'. sl_value ?sl ! j = Some st' \<and> totals st' [p\<leftarrow>ps @ [cp]. name p = slist_keys sl ! j]" if j: "j < sl_size sl" for j
  proof (cases "j = i")
    case True
    have "Suc (length [p\<leftarrow>ps. name p = name cp]) < 2 ^ 64"
      using assms(5) length_filter_le [of "\<lambda>p. name p = name cp" ps] by linarith
    moreover have "totals st [p\<leftarrow>ps. name p = name cp]" using assms(1-4) by (auto simp: by_name_def)
    ultimately have "totals (store_stats st cp) ([p\<leftarrow>ps. name p = name cp] @ [cp])" by (intro totals_store)
    then show ?thesis using True assms(3) j w(3) by simp
  next
    case False
    have "slist_keys sl ! j \<noteq> name cp"
      using False j assms(2,3) w(2) by (metis first_seen_simps(3) length_slist_keys nth_eq_iff_index_eq)
    then show ?thesis using False j assms(1) w(3) by (auto simp: by_name_def)
  qed
  then show ?thesis using k ks by (simp add: by_name_def)
qed

lemma store_named_totals:
  assumes "by_name sl name ps" "\<And>p. name p = strndup (field p) maxlen" "Suc (length ps) < 2 ^ 64"
  shows "\<exists>sl'. store_named junk sl (field cp) maxlen cp = Inr sl' \<and> by_name sl' name (ps @ [cp])"
proof -
  have w: "slist_wf sl" "slist_keys sl = first_seen (map name ps)" using assms(1) by (auto simp: by_name_def)
  have find: "slist_find sl (field cp) (\<lambda>cur str. strncmp_eq cur str maxlen) = slist_find sl (name cp) (=)"
    using w assms(2) strncmp_strndup by (intro slist_find_cong) auto
  show ?thesis
  proof (cases "name cp \<in> set (slist_keys sl)")
    case True
    then obtain i where i: "slist_find sl (name cp) (=) = Inr (Some (sl_block sl, i))" "i < sl_size sl" "slist_keys sl ! i = name cp"
      using slist_find_wf [OF w(1), of "name cp"] by (auto split: option.splits)
    then obtain st where st: "sl_value sl ! i = Some st" using assms(1) by (auto simp: by_name_def)
    have "i < length (sl_value sl)" using i(2) w(1) by (simp add: slist_wf_def)
    then show ?thesis
      using by_name_update [OF assms(1) i(2,3) st assms(3)] find i(1) st
      by (simp add: store_named_def store_unique_def elem_read_def elem_write_def)
  next
    case False
    then have absent: "slist_find sl (name cp) (=) = Inr None" using slist_find_absent [OF w(1)] by simp
    obtain sl1 where put: "slist_put sl (name cp) = Inr (slist_get sl1 (sl_size sl), sl1)" "slist_wf sl1"
      "slist_keys sl1 = slist_keys sl @ [name cp]" "sl_size sl1 = sl_size sl + 1" using slist_put_wf [OF w(1)] .
    note v = slist_put_values [OF w(1) put(1)]
    define r where "r = reset_stats (case sl_value sl1 ! sl_size sl of None \<Rightarrow> junk (sl_block sl1, sl_size sl) | Some v \<Rightarrow> v)"
    let ?n = "sl_size sl"
    let ?sl = "sl1\<lparr>sl_value := (sl_value sl1)[?n := Some (store_stats r cp)]\<rparr>"
    have n: "?n < length (sl_value sl1)" using v(1) put(2,4) by (simp add: slist_wf_def)
    have run: "store_named junk sl (field cp) maxlen cp = Inr ?sl"
      using find absent put(1) n assms(2) [of cp]
      by (simp add: store_named_def store_unique_def elem_read_def elem_write_def slist_get_def r_def Let_def)
    have none: "[p\<leftarrow>ps. name p = name cp] = []" using False w(2) by (simp add: filter_empty_conv image_iff) metis
    have k: "slist_keys ?sl = slist_keys sl1" "slist_wf ?sl" using put(2) by (simp_all add: slist_keys_def slist_wf_def)
    have vals: "\<exists>st. sl_value ?sl ! j = Some st \<and> totals st [p\<leftarrow>ps @ [cp]. name p = slist_keys ?sl ! j]" if j: "j < sl_size ?sl" for j
    proof (cases "j = ?n")
      case True
      have "totals (store_stats r cp) ([] @ [cp])" unfolding r_def by (rule totals_store) (simp_all add: totals_reset)
      then show ?thesis using True n none put(3) k(1) by (simp add: nth_append)
    next
      case old: False
      then have j': "j < ?n" using j put(4) by simp
      then have "slist_keys sl1 ! j = slist_keys sl ! j" using put(3) by (simp add: nth_append)
      moreover have "slist_keys sl ! j \<noteq> name cp" using j' False by (metis length_slist_keys nth_mem)
      ultimately have "slist_keys sl1 ! j = slist_keys sl ! j" "slist_keys sl ! j \<noteq> name cp" by simp_all
      then show ?thesis using old j' v(2) assms(1) k(1) by (auto simp: by_name_def)
    qed
    have "slist_keys ?sl = first_seen (map name (ps @ [cp]))" using k(1) put(3) w(2) False by (simp add: first_seen_snoc)
    then have "by_name ?sl name (ps @ [cp])" unfolding by_name_def using k(2) vals by blast
    then show ?thesis using run by blast
  qed
qed

section \<open>Totals by protocol\<close>

text \<open>The counters of an array: those of the packets with each number.\<close>

definition by_number :: "count list \<Rightarrow> (cap_header \<Rightarrow> nat option) \<Rightarrow> cap_header list \<Rightarrow> bool" where
  "by_number cs number ps \<longleftrightarrow> (\<forall>i < length cs. cs ! i =
     \<lparr>ct_packets = word_of_nat (length [p\<leftarrow>ps. number p = Some i]),
      ct_bytes = word_of_nat (\<Sum>p\<leftarrow>[p\<leftarrow>ps. number p = Some i]. unat (ch_len p))\<rparr>)"

lemma by_number_reset: "by_number (replicate n no_count) number []"
  by (simp add: by_number_def no_count_def)

lemma by_number_skip: "by_number cs number ps \<Longrightarrow> number cp = None \<Longrightarrow> by_number cs number (ps @ [cp])"
  by (simp add: by_number_def)

lemma by_number_count:
  assumes "by_number cs number ps" "number cp = Some i" "i < length cs"
  shows "\<exists>cs'. count_packet cs i (ch_len cp) = Inr cs' \<and> length cs' = length cs \<and> by_number cs' number (ps @ [cp])"
  using assms by (auto simp: by_number_def count_packet_def nth_list_update add.commute)

text \<open>What is counted: the ethertype of frames that have one, and the protocol of IPv4 packets behind at most one VLAN tag.\<close>

definition frame_type :: "cap_header \<Rightarrow> nat option" where
  "frame_type p = (case h_proto (ch_payload p) of Inl _ \<Rightarrow> None | Inr t \<Rightarrow> if t \<le> 0x05DC then None else Some (unat t))"

definition frame_ipproto :: "cap_header \<Rightarrow> nat option" where
  "frame_ipproto p =
     (case h_proto (ch_payload p) of
        Inl _ \<Rightarrow> None
      | Inr t \<Rightarrow>
          if t = ETHERTYPE_IP \<or> t = ETHERTYPE_VLAN then
            (case ip_p (ch_payload p) (if t = ETHERTYPE_VLAN then 18 else 14) of Inl _ \<Rightarrow> None | Inr b \<Rightarrow> Some (unat b))
          else None)"

text \<open>The port of the first marker.\<close>

definition marker_port :: "cap_header \<Rightarrow> int" where
  "marker_port p = (case is_marker (ch_payload p) None 0 of Inl _ \<Rightarrow> 0 | Inr (port, _) \<Rightarrow> port)"

definition first_marker :: "cap_header list \<Rightarrow> int" where
  "first_marker ps = (case filter (\<lambda>x. x \<noteq> 0) (map marker_port ps) of [] \<Rightarrow> 0 | x # _ \<Rightarrow> x)"

lemma first_marker_snoc: "first_marker (ps @ [p]) = (if first_marker ps = 0 then marker_port p else first_marker ps)"
proof (cases "filter (\<lambda>x. x \<noteq> 0) (map marker_port ps)")
  case (Cons x xs)
  then have "x \<in> set (filter (\<lambda>x. x \<noteq> 0) (map marker_port ps))" by simp
  then have "x \<noteq> 0" by simp
  with Cons show ?thesis by (simp add: first_marker_def)
qed (simp add: first_marker_def)

text \<open>
  A packet that can be counted: the headers that are looked at were captured, and there is a counter for the
  protocols.
\<close>

definition countable :: "cap_header \<Rightarrow> bool" where
  "countable p \<longleftrightarrow> 28 \<le> length (ch_payload p) \<and> (\<exists>r. is_marker (ch_payload p) None 0 = Inr r) \<and>
     frame_type p \<noteq> Some UINT16_MAX \<and> frame_ipproto p \<noteq> Some UINT8_MAX"

section \<open>The summary of a list of packets\<close>

definition summarises :: "capinfo \<Rightarrow> cap_header list \<Rightarrow> bool" where
  "summarises ci ps \<longleftrightarrow> totals (ci_global ci) ps \<and> ss_marker_present (ci_global ci) = first_marker ps \<and>
     length (ss_transport (ci_global ci)) = UINT16_MAX \<and> by_number (ss_transport (ci_global ci)) frame_type ps \<and>
     length (ci_ipproto ci) = UINT8_MAX \<and> by_number (ci_ipproto ci) frame_ipproto ps \<and>
     by_name (ci_mpid ci) (\<lambda>p. strndup (ch_mampid p) 8) ps \<and>
     by_name (ci_CI ci) (\<lambda>p. strndup (ch_nic p) 8) ps \<and>
     by_name (ci_location ci) get_location ps"

lemma summarises_reset:
  assumes "slist_wf (ci_mpid ci)" "slist_wf (ci_CI ci)" "slist_wf (ci_location ci)"
  shows "summarises (capinfo_reset ci) []"
  using assms
  by (simp add: summarises_def capinfo_reset_def totals_reset by_name_clear by_number_reset first_marker_def)
    (simp add: reset_stats_def by_number_reset)

lemma parse_ethernetII_append [fault_le_intros]:
  "fault_le (parse_ethernetII p ci) (parse_ethernetII (p\<lparr>ch_payload := ch_payload p @ r\<rparr>) ci)"
proof -
  have q: "ch_payload (p\<lparr>ch_payload := m\<rparr>) = m" "ch_len (p\<lparr>ch_payload := m\<rparr>) = ch_len p" for m by simp_all
  show ?thesis unfolding parse_ethernetII_def Let_def q by (intro fault_le_intros)
qed

lemma capinfo_packet_append:
  "fault_le (capinfo_packet junk p ci) (capinfo_packet junk (p\<lparr>ch_payload := ch_payload p @ r\<rparr>) ci)"
proof -
  let ?q = "p\<lparr>ch_payload := ch_payload p @ r\<rparr>"
  have stat: "store_stats st ?q = store_stats st p" for st by (simp add: store_stats_def Let_def)
  have q: "store_named j sl k n ?q = store_named j sl k n p" "get_location ?q = get_location p" for j sl k n
    by (simp_all add: store_named_def get_location_def stat)
  have sel: "ch_payload ?q = ch_payload p @ r" "ch_mampid ?q = ch_mampid p" "ch_nic ?q = ch_nic p" by simp_all
  show ?thesis
    unfolding capinfo_packet_def Let_def store_mampid_def store_CI_def store_location_def stat q sel by (intro fault_le_intros)
qed

lemma parse_ethernetII_counts:
  assumes "h_proto (ch_payload p) = Inr t" "0x05DC < t" "countable p"
    and "length (ss_transport (ci_global ci)) = UINT16_MAX" "by_number (ss_transport (ci_global ci)) frame_type ps"
    and "length (ci_ipproto ci) = UINT8_MAX" "by_number (ci_ipproto ci) frame_ipproto ps"
  shows "\<exists>tr ip. parse_ethernetII p ci = Inr (ci\<lparr>ci_global := (ci_global ci)\<lparr>ss_transport := tr\<rparr>, ci_ipproto := ip\<rparr>) \<and>
    length tr = UINT16_MAX \<and> by_number tr frame_type (ps @ [p]) \<and> length ip = UINT8_MAX \<and> by_number ip frame_ipproto (ps @ [p])"
proof -
  have ty: "frame_type p = Some (unat t)" using assms(1,2) by (simp add: frame_type_def)
  have "unat t < 2 ^ 16" using unsigned_less [of t, where 'a = nat] by simp
  then have "unat t < UINT16_MAX" using assms(3) ty by (auto simp: countable_def UINT16_MAX_def)
  then obtain tr where tr: "count_packet (ss_transport (ci_global ci)) (unat t) (ch_len p) = Inr tr" "length tr = UINT16_MAX"
    "by_number tr frame_type (ps @ [p])" using by_number_count [of _ frame_type ps p "unat t"] ty assms(4,5) by metis
  show ?thesis
  proof (cases "t = ETHERTYPE_VLAN \<or> t = ETHERTYPE_IP")
    case True
    let ?o = "if t = ETHERTYPE_VLAN then 18 else 14"
    obtain b where b: "ip_p (ch_payload p) ?o = Inr b" using assms(3) by (auto simp: countable_def ip_p_def rd8_in)
    have ip: "frame_ipproto p = Some (unat b)" using True assms(1) b by (auto simp: frame_ipproto_def)
    have "unat b < 2 ^ 8" using unsigned_less [of b, where 'a = nat] by simp
    then have "unat b < UINT8_MAX" using assms(3) ip by (auto simp: countable_def UINT8_MAX_def)
    then obtain cs where "count_packet (ci_ipproto ci) (unat b) (ch_len p) = Inr cs" "length cs = UINT8_MAX"
      "by_number cs frame_ipproto (ps @ [p])" using by_number_count [of _ frame_ipproto ps p "unat b"] ip assms(6,7) by metis
    then show ?thesis
      using tr b True assms(1)
      by (auto simp: parse_ethernetII_def Let_def sizeof_ether_vlan_header_def sizeof_ethhdr_def split: if_splits)
  next
    case False
    then have "frame_ipproto p = None" using assms(1) by (simp add: frame_ipproto_def)
    then show ?thesis
      using tr False assms(1,6) by_number_skip [OF assms(7), of p]
      by (intro exI [of _ tr] exI [of _ "ci_ipproto ci"]) (simp add: parse_ethernetII_def Let_def)
  qed
qed

lemma capinfo_packet_summarises:
  assumes "summarises ci ps" "countable p" "Suc (length ps) < 2 ^ 64"
  shows "\<exists>ci'. capinfo_packet junk p ci = Inr ci' \<and> summarises ci' (ps @ [p])"
proof -
  note s = assms(1) [unfolded summarises_def]
  let ?g = "store_stats ((ci_global ci)\<lparr>ss_marker_present := first_marker (ps @ [p])\<rparr>) p"
  obtain mpid where mpid: "store_mampid (junk 0) (ci_mpid ci) p = Inr mpid" "by_name mpid (\<lambda>p. strndup (ch_mampid p) 8) (ps @ [p])"
    using store_named_totals [of "ci_mpid ci" _ ps ch_mampid 8 "junk 0" p] s assms(3) by (auto simp: store_mampid_def)
  obtain CI where CI: "store_CI (junk 1) (ci_CI ci) p = Inr CI" "by_name CI (\<lambda>p. strndup (ch_nic p) 8) (ps @ [p])"
    using store_named_totals [of "ci_CI ci" _ ps ch_nic 8 "junk 1" p] s assms(3) by (auto simp: store_CI_def)
  obtain loc where loc: "store_location (junk 2) (ci_location ci) p = Inr loc" "by_name loc get_location (ps @ [p])"
    using store_named_totals [of "ci_location ci" get_location ps get_location 17 "junk 2" p] get_location_strndup [symmetric] s assms(3) by (auto simp: store_location_def)
  obtain t where t: "h_proto (ch_payload p) = Inr t" using assms(2) by (auto simp: countable_def h_proto_def rd16_in)
  let ?ci = "ci\<lparr>ci_global := ?g, ci_mpid := mpid, ci_CI := CI, ci_location := loc\<rparr>"
  have run: "capinfo_packet junk p ci = (if t \<le> 0x05DC then Inr ?ci else parse_ethernetII p ?ci)"
    using mpid(1) CI(1) loc(1) t s assms(2)
    by (auto simp: capinfo_packet_def first_marker_snoc marker_port_def countable_def Let_def)
  have g: "totals ?g (ps @ [p])" using s assms(3) by (intro totals_store) simp_all
  have g': "ss_transport ?g = ss_transport (ci_global ci)" "ss_marker_present ?g = first_marker (ps @ [p])"
    by (simp_all add: store_stats_fields)
  show ?thesis
  proof (cases "t \<le> 0x05DC")
    case True
    then have "frame_type p = None" "frame_ipproto p = None"
      using t by (auto simp: frame_type_def frame_ipproto_def packet_consts)
    then show ?thesis using run True g g' mpid CI loc s by_number_skip by (simp add: summarises_def)
  next
    case False
    have pre: "0x05DC < t" "length (ss_transport (ci_global ?ci)) = UINT16_MAX" "by_number (ss_transport (ci_global ?ci)) frame_type ps"
      "length (ci_ipproto ?ci) = UINT8_MAX" "by_number (ci_ipproto ?ci) frame_ipproto ps"
      using False s g'(1) by simp_all
    obtain tr ip where "parse_ethernetII p ?ci = Inr (?ci\<lparr>ci_global := (ci_global ?ci)\<lparr>ss_transport := tr\<rparr>, ci_ipproto := ip\<rparr>)"
      "length tr = UINT16_MAX" "by_number tr frame_type (ps @ [p])" "length ip = UINT8_MAX" "by_number ip frame_ipproto (ps @ [p])"
      using parse_ethernetII_counts [OF t pre(1) assms(2) pre(2-)] by blast
    then show ?thesis using run False g g' mpid CI loc by (simp add: summarises_def)
  qed
qed

context packet_reader
begin

lemma capinfo_loop_summarises:
  assumes "holds st ps" "summarises ci done_ps" "\<forall>p\<in>set ps. countable p" "length ps < n" "length done_ps + length ps < 2 ^ 64"
  shows "\<exists>st' ci'. capinfo_loop n rd junk (st, ci) = Some (Inr (- 1, st', ci')) \<and> summarises ci' (done_ps @ ps)"
  using assms
proof (induction n arbitrary: st ci ps done_ps)
  case (Suc n)
  show ?case
  proof (cases ps)
    case Nil
    then obtain st' where "rd st = Some (Inr (- 1, None, st'))" using read_end Suc.prems(1) by blast
    then show ?thesis using Suc.prems(2) Nil by simp
  next
    case (Cons p ps')
    then obtain q st' where r: "rd st = Some (Inr (0, Some q, st'))" "captured q = p" "holds st' ps'"
      using read_next Suc.prems(1) by blast
    obtain ci' where ci': "capinfo_packet junk p ci = Inr ci'" "summarises ci' (done_ps @ [p])"
      using capinfo_packet_summarises [OF Suc.prems(2), of p junk] Suc.prems(3,5) Cons by auto
    have "q = p\<lparr>ch_payload := ch_payload p @ drop (unat (ch_caplen q)) (ch_payload q)\<rparr>"
      using r(2) by (auto simp: captured_def)
    then have "capinfo_packet junk q ci = Inr ci'"
      using capinfo_packet_append [of junk p ci "drop (unat (ch_caplen q)) (ch_payload q)"] ci'(1) by (simp add: fault_le_def)
    then show ?thesis
      using Suc.IH [OF r(3) ci'(2)] Suc.prems(3-5) Cons r(1) by simp
  qed
qed simp

end

section \<open>Units\<close>

lemma unit_loop_fits:
  assumes "n \<le> 6" "n = 0 \<or> 1024 ^ n \<le> unat b"
  shows "\<exists>k \<le> 6. unit_loop b (word_of_nat (1024 ^ n)) n = Inr (word_of_nat (1024 ^ k), k) \<and>
    unat b < 1024 ^ (k + 1) \<and> (k = 0 \<or> 1024 ^ k \<le> unat b)"
  using assms
proof (induction "6 - n" arbitrary: n)
  case 0
  then have n: "n = 6" by simp
  have b: "unat b < 2 ^ 64" using unsigned_less [of b, where 'a = nat] by simp
  then have "\<not> 1024 \<le> b div 1152921504606846976" by (simp add: word_le_nat_alt unat_div)
  then show ?case using 0 n b by (intro exI [of _ 6]) (simp add: unit_loop.simps)
next
  case (Suc d)
  have "(1024::nat) ^ n \<le> 1024 ^ 6" using Suc.prems(1) by (intro power_increasing) simp_all
  then have m: "unat (word_of_nat (1024 ^ n) :: u64) = 1024 ^ n"
    by (simp add: unsigned_of_nat take_bit_nat_eq_self del: of_nat_power)
  then have nz: "(word_of_nat (1024 ^ n) :: u64) \<noteq> 0" by (metis power_not_zero unat_0 zero_neq_numeral)
  have c: "1024 \<le> b div word_of_nat (1024 ^ n) \<longleftrightarrow> 1024 ^ (n + 1) \<le> unat b"
    by (simp add: word_le_nat_alt unat_div m less_eq_div_iff_mult_less_eq del: of_nat_power)
  have "n < 8" using Suc.prems(1) by simp
  then have step: "unit_loop b (word_of_nat (1024 ^ n)) n =
      (if 1024 ^ (n + 1) \<le> unat b then unit_loop b (word_of_nat (1024 ^ (n + 1))) (n + 1) else Inr (word_of_nat (1024 ^ n), n))"
    using nz c by (subst unit_loop.simps) (simp add: mult.commute)
  show ?case
  proof (cases "1024 ^ (n + 1) \<le> unat b")
    case True
    then show ?thesis using step Suc.hyps(1) [of "n + 1"] Suc.hyps(2) by simp
  next
    case False
    then show ?thesis using step Suc.prems by (intro exI [of _ n]) simp
  qed
qed

section \<open>Properties\<close>

text \<open>
  Claim C14. The summary of a capture file is right: its counters give the number, the bytes, the sizes and the
  first and last time of the packets of the file, overall and for each measurement point, interface and
  location, which are listed in the order of their first packet; the distributions count the packets of every
  protocol; and the marker that is reported is the first one. Nothing of a file that was read before remains.
\<close>

theorem capinfo_summary:
  assumes "file_holds fuel st ps" "\<forall>p\<in>set ps. countable p" "length ps < n" "length ps < 2 ^ 64"
    and "slist_wf (ci_mpid ci)" "slist_wf (ci_CI ci)" "slist_wf (ci_location ci)"
  shows "\<exists>st' ci'. capinfo_file n (file_read fuel good_medium) junk st ci = Some (Inr (- 1, st', ci')) \<and> summarises ci' ps"
  using capture_file.capinfo_loop_summarises [OF assms(1) summarises_reset [OF assms(5-7)] assms(2,3), of junk] assms(4)
  by (simp add: capinfo_file_def)

lemma countable_zero_packet: "countable (zero_packet t)"
proof -
  have "h_proto (replicate 82 0) = Inr 0" by (simp add: h_proto_def rd16_in le16_def ntohs_def)
  then show ?thesis
    by (simp add: countable_def zero_packet_def is_marker_def find_ipv4_header_def find_ipv4_header_int_def ipv4_retry.simps
        packet_consts frame_type_def frame_ipproto_def)
qed

theorem capinfo_summary_witness:
  "\<exists>st' ci'. capinfo_file 3 (file_read 300 good_medium) (\<lambda>_ _. zero_stats)
      (opened_file (map zero_packet [timepico_new 1 0, timepico_new 2 0])) capinfo_start = Some (Inr (- 1, st', ci')) \<and>
    summarises ci' (map zero_packet [timepico_new 1 0, timepico_new 2 0])"
proof -
  have "slist_wf (slist_init 80 :: (string, stats) simple_list)" by (rule slist_init_wf [THEN conjunct1]) simp
  then show ?thesis
    using capinfo_summary [of 300 "opened_file (map zero_packet [timepico_new 1 0, timepico_new 2 0])"
      "map zero_packet [timepico_new 1 0, timepico_new 2 0]" 3 capinfo_start "\<lambda>_ _. zero_stats"]
      opened_file_holds [of "[timepico_new 1 0, timepico_new 2 0]" 300] countable_zero_packet
    by (simp add: capinfo_start_def)
qed

text \<open>
  The summary of a file without packets shows the times and the names of the file before: neither the
  timestamps nor the text of the names are reset.
\<close>

lemma capinfo_empty_stale:
  assumes "file_holds fuel st []"
  shows "\<exists>st' ci'. capinfo_file (Suc n) (file_read fuel good_medium) junk st ci = Some (Inr (- 1, st', ci')) \<and>
    ss_first (ci_global ci') = ss_first (ci_global ci) \<and> ss_last (ci_global ci') = ss_last (ci_global ci) \<and>
    get_list buffer (ci_CI ci') delimiter = Inr buffer"
proof -
  obtain st' where "file_read fuel good_medium st = Some (Inr (- 1, None, st'))" using capture_file.read_end [OF assms] by blast
  then show ?thesis
    by (simp add: capinfo_file_def capinfo_reset_def reset_stats_def get_list_def array_join_def slist_clear_def)
qed

text \<open>The arrays of counters have one element less than there are values: the largest is written behind them.\<close>

lemma capinfo_type_overflow:
  assumes "h_proto (ch_payload cp) = Inr 0xFFFF" "length (ss_transport (ci_global ci)) = UINT16_MAX"
  shows "parse_ethernetII cp ci = Inl Out_of_bounds"
  using assms by (simp add: parse_ethernetII_def count_packet_def UINT16_MAX_def)

lemma capinfo_ipproto_overflow:
  assumes "h_proto (ch_payload cp) = Inr ETHERTYPE_IP" "length (ss_transport (ci_global ci)) = UINT16_MAX"
    and "ip_p (ch_payload cp) 14 = Inr 255" "length (ci_ipproto ci) = UINT8_MAX"
  shows "parse_ethernetII cp ci = Inl Out_of_bounds"
  using assms by (simp add: parse_ethernetII_def count_packet_def UINT16_MAX_def UINT8_MAX_def packet_consts Let_def)

text \<open>A location is cut to 16 characters: interfaces that differ in the last of eight are counted as one.\<close>

lemma get_location_merges:
  assumes "length (strndup (ch_mampid p) 8) = 8" "ch_mampid q = ch_mampid p"
    and "strndup (ch_nic p) 8 = nic @ [c]" "strndup (ch_nic q) 8 = nic @ [d]" "length nic = 7"
  shows "get_location p = get_location q"
  using assms by (simp add: get_location_def)

text \<open>The names are joined when the text fits into the buffer, and written behind it otherwise.\<close>

lemma join_loop_append:
  "0 < i \<Longrightarrow> length dst < bsize \<Longrightarrow> join_loop bsize i dst src d =
    (let r = dst @ concat (map (\<lambda>s. d @ s) src) in if length r < bsize then Inr r else Inl Out_of_bounds)"
  by (induction src arbitrary: i dst) (auto simp: Let_def)

lemma array_join_concat:
  assumes "src = s # ss" "r = s @ concat (map (\<lambda>s. d @ s) ss)"
  shows "array_join bsize buffer src d = (if length r < bsize then Inr r else Inl Out_of_bounds)"
  using assms join_loop_append [of 1 s bsize ss d] by (auto simp: array_join_def Let_def)

text \<open>
  The unit for a number of bytes and for a rate is found: the loop ends, the multiplier never wraps
  around (so nothing is divided by zero), the number of the unit is at most 6, within the table of names, and
  the number that is printed is below 1024 and at least 1, or no unit is used.
\<close>

lemma capinfo_unit:
  "\<exists>n \<le> 6. format_bytes_unit b = Inr (word_of_nat (1024 ^ n), n) \<and> unat b < 1024 ^ (n + 1) \<and> (n = 0 \<or> 1024 ^ n \<le> unat b)"
  using unit_loop_fits [of 0 b] by (simp add: format_bytes_unit_def)

end
