(* ===== verification/Capmerge.thy ===== *)
theory Capmerge
  imports Packet_Input "HOL-Library.Multiset"
begin

text \<open>
  \<open>tools/capmerge.c\<close>: merging capture files by timestamp, and the second pass that sorts the packets in
  memory (\<open>--sort\<close>). The input streams are file streams; the option processing and the messages are left
  out.

  The memory that \<open>--sort\<close> collects the packets in holds them back to back behind the file header, so a
  pointer to a packet is its index and \<open>end\<close> the number of packets.
\<close>

section \<open>Merging\<close>

text \<open>The timestamp \<open>{-1, -1}\<close>: the largest one.\<close>

definition max_ts :: timepico where
  "max_ts = \<lparr>tv_sec = - 1, tv_psec = - 1\<rparr>"

text \<open>
  The loop that peeks at the open streams, over those it has not looked at yet: the streams that stay
  open with the packet it saw. A stream at its end is closed and the last one takes its place, which is
  not peeked at in this round.
\<close>

function peek_round :: "'s reader \<Rightarrow> 's list \<Rightarrow> (cap_header option \<times> 's) list res option" where
  "peek_round peek [] = Some (Inr [])"
| "peek_round peek (s # todo) =
     (case peek s of
        None \<Rightarrow> None
      | Some (Inl e) \<Rightarrow> Some (Inl e)
      | Some (Inr (ret, cp, s)) \<Rightarrow>
          if ret = 0 then map_option (\<lambda>r. rbind r (\<lambda>rs. Inr ((cp, s) # rs))) (peek_round peek todo)
          else if ret = EAGAIN then map_option (\<lambda>r. rbind r (\<lambda>rs. Inr ((None, s) # rs))) (peek_round peek todo)
          else if todo = [] then Some (Inr [])
          else map_option (\<lambda>r. rbind r (\<lambda>rs. Inr ((None, last todo) # rs))) (peek_round peek (butlast todo)))"
  by pat_completeness auto
termination peek_round
  by (relation "measure (\<lambda>(peek, todo). length todo)") auto

declare peek_round.simps(2) [simp del]

fun find_oldest :: "nat \<Rightarrow> (cap_header option \<times> 's) list \<Rightarrow> nat option \<Rightarrow> timepico \<Rightarrow> nat option" where
  "find_oldest i [] oldest cur = oldest"
| "find_oldest i ((pkt, _) # rs) oldest cur =
     (case pkt of
        Some p \<Rightarrow> if timecmp (ch_ts p) cur < 0 then find_oldest (i + 1) rs (Some i) (ch_ts p)
                  else find_oldest (i + 1) rs oldest cur
      | None \<Rightarrow> find_oldest (i + 1) rs oldest cur)"

definition truncate_len :: "cap_header \<Rightarrow> cap_header" where
  "truncate_len cp = cp\<lparr>ch_caplen := min (ch_caplen cp) (ch_len cp)\<rparr>"

text \<open>
  The main loop, with the number of rounds as fuel: the exit code and the output stream. The value of
  \<open>stream_read\<close> is not looked at; without a packet the pointer \<open>cp\<close> is not initialised.
\<close>

fun merge_loop ::
  "nat \<Rightarrow> 's reader \<Rightarrow> 's reader \<Rightarrow> ('d stream \<Rightarrow> u8 list \<Rightarrow> (int \<times> 'd stream) res) \<Rightarrow> 's list \<Rightarrow> 'd stream \<Rightarrow>
   (int \<times> 'd stream) res option" where
  "merge_loop 0 peek rd wr st dst = None"
| "merge_loop (Suc n) peek rd wr st dst =
     (if st = [] then Some (Inr (0, dst))
      else case peek_round peek st of
          None \<Rightarrow> None
        | Some (Inl e) \<Rightarrow> Some (Inl e)
        | Some (Inr rs) \<Rightarrow>
            (case find_oldest 0 rs None max_ts of
               None \<Rightarrow> merge_loop n peek rd wr (map snd rs) dst
             | Some k \<Rightarrow>
                 (case rd (map snd rs ! k) of
                    None \<Rightarrow> None
                  | Some (Inl e) \<Rightarrow> Some (Inl e)
                  | Some (Inr (_, None, _)) \<Rightarrow> Some (Inl Null_deref)
                  | Some (Inr (_, Some cp, s)) \<Rightarrow>
                      (case stream_copy wr dst (truncate_len cp) of
                         Inl e \<Rightarrow> Some (Inl e)
                       | Inr (ret, dst) \<Rightarrow>
                           if ret \<noteq> 0 then Some (Inr (1, dst))
                           else merge_loop n peek rd wr ((map snd rs)[k := s]) dst))))"

definition capmerge_files ::
  "nat \<Rightarrow> nat \<Rightarrow> medium \<Rightarrow> stream_file stream list \<Rightarrow> stream_file stream \<Rightarrow> (int \<times> stream_file stream) res option" where
  "capmerge_files n fuel med = merge_loop n (file_peek fuel med) (file_read fuel med) (file_write med)"

section \<open>Sorting in memory\<close>

text \<open>The loop that moves \<open>begin\<close> over packets that have been written: it looks at a packet first.\<close>

function skip_begin :: "cap_header list \<Rightarrow> nat \<Rightarrow> nat res" where
  "skip_begin ps i =
     (if \<not> i < length ps then Inl Out_of_bounds
      else if ch_len (ps ! i) > 0 then Inr i
      else if i + 1 < length ps then skip_begin ps (i + 1) else Inr (i + 1))"
  by pat_completeness auto
termination skip_begin
  by (relation "measure (\<lambda>(ps, i). length ps - i)") auto

declare skip_begin.simps [simp del]

text \<open>The search for the packet with the smallest timestamp, from index \<open>i\<close> on.\<close>

function scan_min :: "cap_header list \<Rightarrow> nat \<Rightarrow> nat option \<Rightarrow> timepico \<Rightarrow> nat option" where
  "scan_min ps i pkt cur =
     (if i < length ps then
        if ch_len (ps ! i) > 0 \<and> timecmp cur (ch_ts (ps ! i)) > 0
        then scan_min ps (i + 1) (Some i) (ch_ts (ps ! i))
        else scan_min ps (i + 1) pkt cur
      else pkt)"
  by pat_completeness auto
termination scan_min
  by (relation "measure (\<lambda>(ps, i, pkt, cur). length ps - i)") auto

declare scan_min.simps [simp del]

text \<open>The value of \<open>stream_copy\<close> is not looked at.\<close>

fun sort_loop ::
  "nat \<Rightarrow> ('s stream \<Rightarrow> u8 list \<Rightarrow> (int \<times> 's stream) res) \<Rightarrow> 's stream \<Rightarrow> cap_header list \<Rightarrow> nat \<Rightarrow> 's stream res option" where
  "sort_loop 0 wr dst ps beg = None"
| "sort_loop (Suc fuel) wr dst ps beg =
     (case skip_begin ps beg of
        Inl e \<Rightarrow> Some (Inl e)
      | Inr beg \<Rightarrow>
          (case scan_min ps beg None max_ts of
             None \<Rightarrow> Some (Inr dst)
           | Some k \<Rightarrow>
               (case stream_copy wr dst (ps ! k) of
                  Inl e \<Rightarrow> Some (Inl e)
                | Inr (_, dst) \<Rightarrow> sort_loop fuel wr dst (ps[k := (ps ! k)\<lparr>ch_len := 0\<rparr>]) beg)))"

section \<open>The sort is stable\<close>

text \<open>The packets the second pass writes.\<close>

definition live :: "cap_header \<Rightarrow> bool" where
  "live p \<longleftrightarrow> ch_len p > 0 \<and> ch_ts p < max_ts"

lemma sort_key_first_min:
  fixes f :: "'a \<Rightarrow> 'b :: linorder"
  assumes "\<And>y. y \<in> set a \<Longrightarrow> f x < f y" "\<And>y. y \<in> set b \<Longrightarrow> f x \<le> f y"
  shows "sort_key f (a @ x # b) = x # sort_key f (a @ b)"
proof (rule properties_for_sort_key)
  fix k
  have "filter (\<lambda>y. f k = f y) a = []" if "f k = f x"
    using assms(1) that by (fastforce simp: filter_empty_conv)
  then show "filter (\<lambda>y. f k = f y) (x # sort_key f (a @ b)) = filter (\<lambda>y. f k = f y) (a @ x # b)"
    using sort_key_stable [of f "f k" "a @ b"] by (auto simp: eq_commute [of "f k"])
qed (use assms in \<open>auto intro: less_imp_le\<close>)

lemma skip_begin_live:
  assumes "beg < length ps" "\<And>i. i < beg \<Longrightarrow> ch_len (ps ! i) = 0"
  obtains b where "skip_begin ps beg = Inr b" "b \<le> length ps" "\<forall>i<b. ch_len (ps ! i) = 0"
    "b < length ps \<or> (\<forall>p\<in>set ps. ch_len p = 0)"
proof -
  have "\<exists>b. skip_begin ps beg = Inr b \<and> b \<le> length ps \<and> (\<forall>i<b. ch_len (ps ! i) = 0)"
    using assms
  proof (induction ps beg rule: skip_begin.induct)
    case (1 ps i)
    show ?case
    proof (cases "ch_len (ps ! i) > 0 \<or> \<not> i + 1 < length ps")
      case True
      then show ?thesis using 1(2,3)
        by (subst skip_begin.simps) (auto simp: less_Suc_eq word_gt_0)
    next
      case False
      then have "skip_begin ps i = skip_begin ps (i + 1)" using 1(2) by (subst skip_begin.simps) simp
      then show ?thesis using 1(1) [of] 1(2,3) False by (auto simp: less_Suc_eq word_gt_0)
    qed
  qed
  then obtain b where b: "skip_begin ps beg = Inr b" "b \<le> length ps" "\<And>i. i < b \<Longrightarrow> ch_len (ps ! i) = 0" by blast
  have "b < length ps \<or> (\<forall>p\<in>set ps. ch_len p = 0)"
    using b(2,3) by (cases "b < length ps") (auto simp: in_set_conv_nth)
  then show thesis using that b by blast
qed

text \<open>The scan returns the first of the smallest packets from index \<open>i\<close> on that are older than \<open>cur\<close>.\<close>

definition none_older :: "cap_header list \<Rightarrow> nat \<Rightarrow> timepico \<Rightarrow> bool" where
  "none_older ps i cur \<longleftrightarrow> (\<forall>j. i \<le> j \<and> j < length ps \<longrightarrow> ch_len (ps ! j) = 0 \<or> cur \<le> ch_ts (ps ! j))"

definition first_oldest :: "cap_header list \<Rightarrow> nat \<Rightarrow> timepico \<Rightarrow> nat \<Rightarrow> bool" where
  "first_oldest ps i cur k \<longleftrightarrow> i \<le> k \<and> k < length ps \<and> ch_len (ps ! k) > 0 \<and> ch_ts (ps ! k) < cur \<and>
     (\<forall>j. i \<le> j \<and> j < k \<longrightarrow> ch_len (ps ! j) = 0 \<or> ch_ts (ps ! k) < ch_ts (ps ! j)) \<and>
     none_older ps (Suc k) (ch_ts (ps ! k))"

lemma none_older_step:
  "none_older ps (Suc i) cur \<Longrightarrow> ch_len (ps ! i) = 0 \<or> cur \<le> ch_ts (ps ! i) \<Longrightarrow> none_older ps i cur"
  unfolding none_older_def by (metis Suc_leI le_neq_implies_less)

lemma first_oldest_step:
  assumes "first_oldest ps (Suc i) cur' k" "cur' \<le> cur" "ch_len (ps ! i) = 0 \<or> ch_ts (ps ! k) < ch_ts (ps ! i)"
  shows "first_oldest ps i cur k"
proof -
  have k: "Suc i \<le> k" "k < length ps" "ch_len (ps ! k) > 0" "ch_ts (ps ! k) < cur'" "none_older ps (Suc k) (ch_ts (ps ! k))"
    and j: "\<And>j. Suc i \<le> j \<Longrightarrow> j < k \<Longrightarrow> ch_len (ps ! j) = 0 \<or> ch_ts (ps ! k) < ch_ts (ps ! j)"
    using assms(1) by (auto simp: first_oldest_def)
  have "ch_len (ps ! j) = 0 \<or> ch_ts (ps ! k) < ch_ts (ps ! j)" if "i \<le> j" "j < k" for j
    using assms(3) that j [of j] by (cases "j = i") auto
  then show ?thesis using k assms(2) by (auto simp: first_oldest_def)
qed

lemma first_oldest_less: "first_oldest ps i cur k \<Longrightarrow> ch_ts (ps ! k) < cur"
  by (simp add: first_oldest_def)

lemma scan_min_spec:
  "(scan_min ps i pkt cur = pkt \<and> none_older ps i cur) \<or>
   (\<exists>k. scan_min ps i pkt cur = Some k \<and> first_oldest ps i cur k)"
proof (induction ps i pkt cur rule: scan_min.induct)
  case (1 ps i pkt cur)
  let ?t = "ch_ts (ps ! i)"
  consider "\<not> i < length ps" | "i < length ps" "ch_len (ps ! i) > 0" "?t < cur"
    | "i < length ps" "ch_len (ps ! i) = 0 \<or> cur \<le> ?t" by (fastforce simp: word_gt_0)
  then show ?case
  proof cases
    case 1
    then show ?thesis by (subst scan_min.simps) (auto simp: none_older_def)
  next
    case 2
    then have r: "scan_min ps i pkt cur = scan_min ps (Suc i) (Some i) ?t"
      by (subst scan_min.simps) (simp add: timecmp_greater)
    have "none_older ps (Suc i) ?t \<Longrightarrow> first_oldest ps i cur i" using 2 by (auto simp: first_oldest_def)
    moreover have "first_oldest ps (Suc i) ?t k \<Longrightarrow> first_oldest ps i cur k" for k
      using first_oldest_step [of ps i ?t k cur] first_oldest_less [of ps "Suc i" ?t k] 2 by auto
    ultimately show ?thesis using "1.IH"(1) 2 timecmp_greater [of cur ?t] r by auto
  next
    case 3
    then have r: "scan_min ps i pkt cur = scan_min ps (Suc i) pkt cur"
      by (subst scan_min.simps) (auto simp: timecmp_greater)
    have "first_oldest ps (Suc i) cur k \<Longrightarrow> first_oldest ps i cur k" for k
      using first_oldest_step [of ps i cur k cur] first_oldest_less [of ps "Suc i" cur k] 3
      by (auto dest: less_le_trans)
    then show ?thesis using "1.IH"(2) 3 timecmp_greater [of cur ?t] none_older_step [of ps i cur] r by auto
  qed
qed

text \<open>Writing the packet that was found: what is left to sort are the others.\<close>

lemma live_written [simp]: "\<not> live (p\<lparr>ch_len := 0\<rparr>)"
  by (simp add: live_def)

lemma sort_oldest:
  assumes "first_oldest ps b max_ts k" "\<And>i. i < b \<Longrightarrow> ch_len (ps ! i) = 0"
  shows "sort_key ch_ts (filter live ps) =
    ps ! k # sort_key ch_ts (filter live (ps[k := (ps ! k)\<lparr>ch_len := 0\<rparr>]))"
proof -
  have k: "k < length ps" "live (ps ! k)" using assms(1) by (auto simp: first_oldest_def live_def)
  let ?a = "filter live (take k ps)" and ?b = "filter live (drop (Suc k) ps)"
  have "filter live ps = ?a @ ps ! k # ?b"
    using k id_take_nth_drop [OF k(1)] by (metis filter.simps(2) filter_append)
  moreover have "filter live (ps[k := (ps ! k)\<lparr>ch_len := 0\<rparr>]) = ?a @ ?b"
    using k(1) by (simp add: upd_conv_take_nth_drop)
  moreover have "sort_key ch_ts (?a @ ps ! k # ?b) = ps ! k # sort_key ch_ts (?a @ ?b)"
  proof (rule sort_key_first_min)
    fix y assume "y \<in> set ?a"
    then obtain j where "j < k" "y = ps ! j" "ch_len y > 0" using k(1) by (auto simp: live_def in_set_conv_nth)
    then show "ch_ts (ps ! k) < ch_ts y"
      using assms by (cases "j < b") (auto simp: first_oldest_def word_gt_0 not_less)
  next
    fix y assume "y \<in> set ?b"
    then obtain i where "i < length ps - Suc k" "y = ps ! (Suc k + i)" "ch_len y > 0"
      using k(1) by (auto simp: live_def in_set_conv_nth)
    moreover have "none_older ps (Suc k) (ch_ts (ps ! k))" using assms(1) by (simp add: first_oldest_def)
    ultimately show "ch_ts (ps ! k) \<le> ch_ts y"
      by (auto simp: none_older_def word_gt_0 dest: spec [of _ "Suc k + i"])
  qed
  ultimately show ?thesis by simp
qed

lemma live_none:
  assumes "none_older ps b max_ts" "\<And>i. i < b \<Longrightarrow> ch_len (ps ! i) = 0"
  shows "filter live ps = []"
proof (rule filter_False, rule ballI)
  fix p assume "p \<in> set ps"
  then obtain j where "j < length ps" "p = ps ! j" by (auto simp: in_set_conv_nth)
  then show "\<not> live p" using assms by (cases "j < b") (auto simp: live_def none_older_def word_gt_0 not_less [of j] not_le [symmetric])
qed

text \<open>The packets are written in the order of a stable sort by timestamp.\<close>

lemma sort_loop_sorts:
  assumes "\<And>p. p \<in> set ps \<Longrightarrow> live p \<Longrightarrow> packet_wf p" "at_end bs dst" "beg < length ps"
    and "\<And>i. i < beg \<Longrightarrow> ch_len (ps ! i) = 0" "length (filter live ps) < fuel"
  shows "\<exists>dst'. sort_loop fuel (file_write good_medium) dst ps beg = Some (Inr dst') \<and>
    at_end (bs @ concat (map packet_bytes (sort_key ch_ts (filter live ps)))) dst'"
  using assms
proof (induction fuel arbitrary: bs dst ps beg)
  case (Suc fuel)
  obtain b where b: "skip_begin ps beg = Inr b" "b \<le> length ps" "\<forall>i<b. ch_len (ps ! i) = 0"
    "b < length ps \<or> (\<forall>p\<in>set ps. ch_len p = 0)" by (rule skip_begin_live [OF Suc.prems(3,4)])
  show ?case
  proof (cases "scan_min ps b None max_ts")
    case None
    then have "none_older ps b max_ts" using scan_min_spec [of ps b None max_ts] by auto
    then have "filter live ps = []" using live_none b(3) by blast
    then show ?thesis using Suc.prems(2) b(1) None by simp
  next
    case (Some k)
    then have k: "first_oldest ps b max_ts k" using scan_min_spec [of ps b None max_ts] by auto
    then have kl: "k < length ps" "live (ps ! k)" "ch_len (ps ! k) > 0" by (auto simp: first_oldest_def live_def)
    let ?ps = "ps[k := (ps ! k)\<lparr>ch_len := 0\<rparr>]"
    obtain dst' where d: "stream_copy (file_write good_medium) dst (ps ! k) = Inr (0, dst')"
        "at_end (bs @ packet_bytes (ps ! k)) dst'"
      using stream_copy_end Suc.prems(1,2) kl nth_mem by blast
    have bl: "b < length ?ps" using b(4) kl by (auto simp: word_gt_0)
    have "\<And>i. i < b \<Longrightarrow> ch_len (?ps ! i) = 0" using b(3) kl(1) by (auto simp: nth_list_update)
    moreover have "packet_wf p" if "p \<in> set ?ps" "live p" for p
      using that Suc.prems(1) set_update_subset_insert [of ps k "(ps ! k)\<lparr>ch_len := 0\<rparr>"] by auto
    moreover have sk: "sort_key ch_ts (filter live ps) = ps ! k # sort_key ch_ts (filter live ?ps)"
      by (rule sort_oldest [OF k]) (use b(3) in blast)
    moreover from arg_cong [OF sk, of length] have "length (filter live ?ps) < fuel" using Suc.prems(5) by simp
    ultimately obtain dst'' where "sort_loop fuel (file_write good_medium) dst' ?ps b = Some (Inr dst'')"
      "at_end ((bs @ packet_bytes (ps ! k)) @ concat (map packet_bytes (sort_key ch_ts (filter live ?ps)))) dst''"
      using Suc.IH [of ?ps _ dst' b, OF _ d(2) bl] by blast
    then show ?thesis using b(1) Some d(1) sk by simp
  qed
qed simp

section \<open>The oldest packet\<close>

lemma find_oldest_spec:
  "(find_oldest i rs oldest cur = oldest \<and> (\<forall>r\<in>set rs. \<forall>c. fst r = Some c \<longrightarrow> cur \<le> ch_ts c)) \<or>
   (\<exists>k c. find_oldest i rs oldest cur = Some (i + k) \<and> k < length rs \<and> fst (rs ! k) = Some c \<and> ch_ts c < cur \<and>
     (\<forall>r\<in>set rs. \<forall>c'. fst r = Some c' \<longrightarrow> ch_ts c \<le> ch_ts c'))"
proof (induction i rs oldest cur rule: find_oldest.induct)
  case (2 i pkt s rs oldest cur)
  consider p where "pkt = Some p" "ch_ts p < cur" | "find_oldest i ((pkt, s) # rs) oldest cur = find_oldest (i + 1) rs oldest cur"
      "\<forall>p. pkt = Some p \<longrightarrow> cur \<le> ch_ts p"
    by (cases pkt) (use linorder_not_less in \<open>force simp: timecmp_less\<close>)+
  then show ?case
  proof cases
    case 1
    then have r: "find_oldest i ((pkt, s) # rs) oldest cur = find_oldest (i + 1) rs (Some i) (ch_ts p)"
      by (simp add: timecmp_less)
    from "2.IH"(2) [OF 1(1)] 1(2) consider
        "find_oldest (i + 1) rs (Some i) (ch_ts p) = Some i" "\<forall>r\<in>set rs. \<forall>c. fst r = Some c \<longrightarrow> ch_ts p \<le> ch_ts c"
      | k c where "find_oldest (i + 1) rs (Some i) (ch_ts p) = Some (i + 1 + k)" "k < length rs" "fst (rs ! k) = Some c"
        "ch_ts c < ch_ts p" "\<forall>r\<in>set rs. \<forall>c'. fst r = Some c' \<longrightarrow> ch_ts c \<le> ch_ts c'"
      by (auto simp: timecmp_less)
    then show ?thesis
    proof cases
      case 1
      then show ?thesis using r \<open>pkt = Some p\<close> \<open>ch_ts p < cur\<close>
        by (intro disjI2 exI [of _ 0] exI [of _ p]) auto
    next
      case 2
      then show ?thesis using r \<open>pkt = Some p\<close> \<open>ch_ts p < cur\<close>
        by (intro disjI2 exI [of _ "Suc k"] exI [of _ c]) auto
    qed
  next
    case c: 2
    have "(find_oldest (i + 1) rs oldest cur = oldest \<and> (\<forall>r\<in>set rs. \<forall>c. fst r = Some c \<longrightarrow> cur \<le> ch_ts c)) \<or>
      (\<exists>k c. find_oldest (i + 1) rs oldest cur = Some (i + 1 + k) \<and> k < length rs \<and> fst (rs ! k) = Some c \<and> ch_ts c < cur \<and>
       (\<forall>r\<in>set rs. \<forall>c'. fst r = Some c' \<longrightarrow> ch_ts c \<le> ch_ts c'))"
      using "2.IH"(1,3) c(2) by (cases pkt) (auto simp: timecmp_less not_less [symmetric])
    then show ?thesis
    proof (elim disjE exE)
      fix k p
      assume k: "find_oldest (i + 1) rs oldest cur = Some (i + 1 + k) \<and> k < length rs \<and> fst (rs ! k) = Some p \<and>
        ch_ts p < cur \<and> (\<forall>r\<in>set rs. \<forall>c'. fst r = Some c' \<longrightarrow> ch_ts p \<le> ch_ts c')"
      then have "\<forall>q. pkt = Some q \<longrightarrow> ch_ts p \<le> ch_ts q" using c(2) by (auto dest: less_le_trans)
      then show ?thesis using k c(1) by (intro disjI2 exI [of _ "Suc k"] exI [of _ p]) auto
    qed (use c in auto)
  qed
qed simp

section \<open>Inputs that deliver packets\<close>

text \<open>The packet that is written: truncated to its length on the wire.\<close>

definition truncated :: "cap_header \<Rightarrow> cap_header" where
  "truncated p = captured (truncate_len p)"

lemma truncated_ts [simp]: "ch_ts (truncated p) = ch_ts p"
  by (simp add: truncated_def captured_def truncate_len_def)

lemma stream_copy_truncated:
  assumes "captured q = p" "packet_wf p" "at_end bs dst"
  shows "\<exists>dst'. stream_copy (file_write good_medium) dst (truncate_len q) = Inr (0, dst') \<and>
    at_end (bs @ packet_bytes (truncated p)) dst'"
proof -
  have "ch_caplen p = ch_caplen q" "ch_len p = ch_len q" using assms(1) by (auto simp: captured_def)
  then show ?thesis using stream_copy_cut [OF assms(1,2) _ assms(3), of "min (ch_caplen p) (ch_len p)"]
    by (simp add: truncate_len_def truncated_def cut_def)
qed

context packet_input
begin

text \<open>A stream after a round with the packets it still has, and what was seen of them.\<close>

definition seen :: "cap_header option \<times> 's \<Rightarrow> cap_header list \<Rightarrow> bool" where
  "seen r ps \<longleftrightarrow> holds (snd r) ps \<and> (fst r = None \<or> (\<exists>q. fst r = Some q \<and> ps \<noteq> [] \<and> captured q = hd ps))"

text \<open>
  A round drops nothing. If it closes no stream it has seen the head of each; with at most two
  streams it has seen the head of each it keeps, or of none.
\<close>

lemma peek_round_spec:
  assumes "list_all2 holds st pss"
  shows "\<exists>rs pss'. peek_round peek st = Some (Inr rs) \<and> list_all2 seen rs pss' \<and>
    mset (concat pss') = mset (concat pss) \<and> set pss' \<subseteq> set pss \<and> length rs \<le> length st \<and>
    (length rs = length st \<longrightarrow> (\<forall>r\<in>set rs. fst r \<noteq> None)) \<and>
    (length st \<le> 2 \<longrightarrow> (\<forall>r\<in>set rs. fst r \<noteq> None) \<or> (\<forall>r\<in>set rs. fst r = None))"
  using assms
proof (induction "length st" arbitrary: st pss rule: less_induct)
  case less
  show ?case
  proof (cases st)
    case Nil
    then show ?thesis using less.prems by simp
  next
    case (Cons s todo)
    then obtain ps pss1 where pss: "pss = ps # pss1" "holds s ps" "list_all2 holds todo pss1"
      using less.prems by (auto simp: list_all2_Cons1)
    show ?thesis
    proof (cases ps)
      case (Cons p ps')
      then obtain q s' where q: "peek s = Some (Inr (0, Some q, s'))" "captured q = p" "holds s' ps"
        using peek_next pss(2) by blast
      obtain rs pss' where r: "peek_round peek todo = Some (Inr rs)" "list_all2 seen rs pss'"
        "mset (concat pss') = mset (concat pss1)" "set pss' \<subseteq> set pss1" "length rs \<le> length todo"
        "length rs = length todo \<longrightarrow> (\<forall>r\<in>set rs. fst r \<noteq> None)"
        using less.hyps [OF _ pss(3)] \<open>st = s # todo\<close> by auto
      have "(\<forall>r\<in>set rs. fst r \<noteq> None)" if "length todo \<le> 1"
        using r(5,6) that by (cases rs) auto
      moreover have "seen (Some q, s') ps" using q Cons by (simp add: seen_def)
      ultimately show ?thesis using r q(1) \<open>st = s # todo\<close> pss(1)
        by (intro exI [of _ "(Some q, s') # rs"] exI [of _ "ps # pss'"]) (auto simp: peek_round.simps(2))
    next
      case Nil
      then obtain s' where q: "peek s = Some (Inr (- 1, None, s'))" using peek_end pss(2) by blast
      show ?thesis
      proof (cases "todo = []")
        case True
        then show ?thesis using q Nil pss \<open>st = s # todo\<close>
          by (intro exI [of _ "[]"]) (simp add: peek_round.simps(2) EAGAIN_def)
      next
        case False
        then have "pss1 \<noteq> []" using pss(3) by auto
        then have l: "list_all2 holds (butlast todo) (butlast pss1)" "holds (last todo) (last pss1)"
          using pss(3) False by (auto simp: list_all2_conv_all_nth last_conv_nth nth_butlast)
        have p1: "pss1 = butlast pss1 @ [last pss1]" using \<open>pss1 \<noteq> []\<close> by simp
        obtain rs pss' where r: "peek_round peek (butlast todo) = Some (Inr rs)" "list_all2 seen rs pss'"
          "mset (concat pss') = mset (concat (butlast pss1))" "set pss' \<subseteq> set (butlast pss1)" "length rs \<le> length todo - 1"
          using less.hyps [OF _ l(1)] \<open>st = s # todo\<close> by (auto simp: diff_less_Suc)
        have "mset (concat pss1) = mset (concat (butlast pss1)) + mset (last pss1)" by (subst p1) simp
        moreover have "set (butlast pss1) \<subseteq> set pss1" "last pss1 \<in> set pss1"
          using \<open>pss1 \<noteq> []\<close> by (auto dest: in_set_butlastD)
        moreover have "seen (None, last todo) (last pss1)" using l(2) by (simp add: seen_def)
        moreover have "peek_round peek st = Some (Inr ((None, last todo) # rs))"
          using False q r(1) \<open>st = s # todo\<close> by (simp add: peek_round.simps(2) EAGAIN_def)
        moreover have "rs = []" if "length todo \<le> 1" using r(5) that by simp
        moreover have "Suc (length rs) \<le> length todo" using r(5) False by (cases todo) auto
        ultimately show ?thesis using r \<open>st = s # todo\<close> pss(1) Nil
          by (intro exI [of _ "(None, last todo) # rs"] exI [of _ "last pss1 # pss'"]) auto
      qed
    qed
  qed
qed

lemma seen_update:
  assumes "list_all2 seen rs pss" "k < length rs" "holds s ps"
  shows "list_all2 holds ((map snd rs)[k := s]) (pss[k := ps])"
  using assms by (auto simp: list_all2_conv_all_nth seen_def nth_list_update)

lemma seen_holds: "list_all2 seen rs pss \<Longrightarrow> list_all2 holds (map snd rs) pss"
  by (auto simp: list_all2_conv_all_nth seen_def)

lemma concat_update_tl:
  assumes "k < length pss" "pss ! k = p # ps"
  shows "mset (concat pss) = add_mset p (mset (concat (pss[k := ps])))"
  using assms by (induction pss arbitrary: k) (auto simp: nth_Cons' split: if_splits nat.splits)

text \<open>The packet that a round chooses, and whether it is the oldest of all that are left.\<close>

lemma chosen_packet:
  assumes "list_all2 seen rs pss" "find_oldest 0 rs None max_ts = Some k"
  shows "k < length rs" "fst (rs ! k) \<noteq> None" "pss ! k = hd (pss ! k) # tl (pss ! k)"
    "\<lbrakk>\<forall>r\<in>set rs. fst r \<noteq> None; \<forall>ps\<in>set pss. sorted (map ch_ts ps); p \<in> set (concat pss)\<rbrakk> \<Longrightarrow> ch_ts (hd (pss ! k)) \<le> ch_ts p"
proof -
  obtain c where c: "k < length rs" "fst (rs ! k) = Some c" "\<And>r c'. r \<in> set rs \<Longrightarrow> fst r = Some c' \<Longrightarrow> ch_ts c \<le> ch_ts c'"
    using find_oldest_spec [of 0 rs None max_ts] assms(2) by auto
  have l: "length rs = length pss" using assms(1) by (rule list_all2_lengthD)
  have "pss ! i \<noteq> [] \<and> hd (pss ! i) = captured c'" if "i < length rs" "fst (rs ! i) = Some c'" for i c'
    using assms(1) that by (auto simp: list_all2_conv_all_nth seen_def)
  then have s: "pss ! i \<noteq> [] \<and> ch_ts (hd (pss ! i)) = ch_ts c'" if "i < length rs" "fst (rs ! i) = Some c'" for i c'
    using that by simp
  show "k < length rs" "fst (rs ! k) \<noteq> None" "pss ! k = hd (pss ! k) # tl (pss ! k)" using c s [OF c(1,2)] by simp_all
  assume a: "\<forall>r\<in>set rs. fst r \<noteq> None" "\<forall>ps\<in>set pss. sorted (map ch_ts ps)" "p \<in> set (concat pss)"
  from a(3) obtain qs where "qs \<in> set pss" "p \<in> set qs" by auto
  then obtain i where i: "i < length pss" "p \<in> set (pss ! i)" by (metis in_set_conv_nth)
  then obtain c' where c': "fst (rs ! i) = Some c'" using a(1) l by fastforce
  have "sorted (map ch_ts (pss ! i))" using a(2) i(1) nth_mem by blast
  then have "ch_ts (hd (pss ! i)) \<le> ch_ts p" using i(2) by (cases "pss ! i") auto
  moreover have "ch_ts c \<le> ch_ts c'" using c(3) [of "rs ! i"] c' i(1) l by simp
  ultimately show "ch_ts (hd (pss ! k)) \<le> ch_ts p" using s [OF c(1,2)] s [of i] c' i(1) l by simp
qed

lemma none_chosen:
  assumes "list_all2 seen rs pss" "find_oldest 0 rs None max_ts = None" "\<forall>p\<in>set (concat pss). ch_ts p < max_ts"
  shows "\<forall>r\<in>set rs. fst r = None"
proof
  fix r assume r: "r \<in> set rs"
  then obtain ps where "seen r ps" "ps \<in> set pss"
    using assms(1) by (metis in_set_conv_nth list_all2_conv_all_nth)
  moreover have "max_ts \<le> ch_ts c" if "fst r = Some c" for c
    using find_oldest_spec [of 0 rs None max_ts] assms(2) r that by auto
  ultimately show "fst r = None" using assms(3) by (cases ps) (force simp: seen_def)+
qed

lemma merged_sorted:
  assumes "list_all2 seen rs pss" "find_oldest 0 rs None max_ts = Some k"
    and "(\<forall>r\<in>set rs. fst r \<noteq> None) \<or> (\<forall>r\<in>set rs. fst r = None)" "\<forall>ps\<in>set pss. sorted (map ch_ts ps)"
    and "mset out = image_mset truncated (mset (concat (pss[k := tl (pss ! k)])))"
    and "\<forall>ps\<in>set (pss[k := tl (pss ! k)]). sorted (map ch_ts ps) \<Longrightarrow> sorted (map ch_ts out)"
  shows "sorted (map ch_ts (truncated (hd (pss ! k)) # out))"
proof -
  note k = chosen_packet [OF assms(1,2)]
  have l: "k < length pss" using k(1) list_all2_lengthD [OF assms(1)] by simp
  then have "sorted (map ch_ts (tl (pss ! k)))" using assms(4) sorted_tl [of "map ch_ts (pss ! k)"] by (simp add: map_tl)
  then have "\<forall>ps\<in>set (pss[k := tl (pss ! k)]). sorted (map ch_ts ps)"
    using assms(4) set_update_subset_insert [of pss k "tl (pss ! k)"] by blast
  then have "sorted (map ch_ts out)" by (rule assms(6))
  moreover have "\<forall>r\<in>set rs. fst r \<noteq> None" using assms(3) k(2) nth_mem [OF k(1)] by metis
  moreover have "set (concat (pss[k := tl (pss ! k)])) \<subseteq> set (concat pss)"
    using concat_update_tl [OF l k(3)] mset_eq_setD [of "concat pss" "hd (pss ! k) # concat (pss[k := tl (pss ! k)])"] by auto
  moreover have "set out = truncated ` set (concat (pss[k := tl (pss ! k)]))"
    using arg_cong [OF assms(5), of set_mset] by simp
  ultimately show ?thesis using k(4) [OF _ assms(4)] by (auto simp del: set_concat)
qed

text \<open>
  Merging writes every packet once, provided that none has the largest timestamp. With at most two
  streams in the order of their timestamps it writes them in that order.
\<close>

lemma merge_loop_merges:
  assumes "list_all2 holds st pss" "at_end bs dst" "\<forall>p\<in>set (concat pss). ch_ts p < max_ts"
    and "length (concat pss) + length st < n"
  shows "\<exists>out dst'. merge_loop n peek rd (file_write good_medium) st dst = Some (Inr (0, dst')) \<and>
    at_end (bs @ concat (map packet_bytes out)) dst' \<and> mset out = image_mset truncated (mset (concat pss)) \<and>
    (length st \<le> 2 \<and> (\<forall>ps\<in>set pss. sorted (map ch_ts ps)) \<longrightarrow> sorted (map ch_ts out))"
  using assms
proof (induction n arbitrary: st pss bs dst)
  case (Suc n)
  show ?case
  proof (cases "st = []")
    case True
    then show ?thesis using Suc.prems(1,2) by (intro exI [of _ "[]"]) simp
  next
    case ne: False
    from peek_round_spec [OF Suc.prems(1)] obtain rs pss' where
      r: "peek_round peek st = Some (Inr rs)" "list_all2 seen rs pss'" "mset (concat pss') = mset (concat pss)"
        "set pss' \<subseteq> set pss" "length rs \<le> length st" "length rs = length st \<longrightarrow> (\<forall>r\<in>set rs. fst r \<noteq> None)"
        "length st \<le> 2 \<longrightarrow> (\<forall>r\<in>set rs. fst r \<noteq> None) \<or> (\<forall>r\<in>set rs. fst r = None)" by blast
    have ts: "\<forall>p\<in>set (concat pss'). ch_ts p < max_ts" using Suc.prems(3) mset_eq_setD [OF r(3)] by simp
    have len: "length (concat pss') = length (concat pss)" using mset_eq_length [OF r(3)] .
    show ?thesis
    proof (cases "find_oldest 0 rs None max_ts")
      case None
      then have "length rs < length st" using none_chosen [OF r(2) None ts] r(5,6) ne by (cases rs) (auto simp: le_less)
      then have "length (concat pss') + length (map snd rs) < n" using len Suc.prems(4) by simp
      from Suc.IH [OF seen_holds [OF r(2)] Suc.prems(2) ts this] show ?thesis
        using ne r(1,3-5) None by (auto simp: subset_iff)
    next
      case (Some k)
      define p ps where "p = hd (pss' ! k)" and "ps = tl (pss' ! k)"
      note k = chosen_packet [OF r(2) Some, folded p_def ps_def]
      have lk: "k < length pss'" using k(1) list_all2_lengthD [OF r(2)] by simp
      then have h: "holds (map snd rs ! k) (p # ps)"
        using r(2) k(1,3) by (auto simp: list_all2_conv_all_nth seen_def)
      obtain q s where q: "rd (map snd rs ! k) = Some (Inr (0, Some q, s))" "captured q = p" "holds s ps"
        using read_next [OF h] by blast
      obtain dst1 where d: "stream_copy (file_write good_medium) dst (truncate_len q) = Inr (0, dst1)"
          "at_end (bs @ packet_bytes (truncated p)) dst1"
        using stream_copy_truncated [OF q(2) _ Suc.prems(2)] packets_wf [OF h] by auto
      have m: "mset (concat pss') = mset (p # concat (pss'[k := ps]))" using concat_update_tl [OF lk k(3)] by simp
      have "\<forall>p\<in>set (concat (pss'[k := ps])). ch_ts p < max_ts" using ts mset_eq_setD [OF m] by auto
      moreover have "length (concat (pss'[k := ps])) + length ((map snd rs)[k := s]) < n"
        using mset_eq_length [OF m] len Suc.prems(4) r(5) by simp
      ultimately obtain out dst' where
        o1: "merge_loop n peek rd (file_write good_medium) ((map snd rs)[k := s]) dst1 = Some (Inr (0, dst'))"
          "at_end ((bs @ packet_bytes (truncated p)) @ concat (map packet_bytes out)) dst'"
          "mset out = image_mset truncated (mset (concat (pss'[k := ps])))"
          "length ((map snd rs)[k := s]) \<le> 2 \<and> (\<forall>ps\<in>set (pss'[k := ps]). sorted (map ch_ts ps)) \<longrightarrow> sorted (map ch_ts out)"
        using Suc.IH [OF seen_update [OF r(2) k(1) q(3)] d(2)] by blast
      have "sorted (map ch_ts (truncated p # out))" if "length st \<le> 2" "\<forall>ps\<in>set pss. sorted (map ch_ts ps)"
        unfolding p_def using that r(4,5,7) o1(3,4) by (intro merged_sorted [OF r(2) Some]) (auto simp: ps_def)
      moreover have "mset (truncated p # out) = image_mset truncated (mset (concat pss))" using m o1(3) r(3) by simp
      moreover have "merge_loop (Suc n) peek rd (file_write good_medium) st dst = Some (Inr (0, dst'))"
        using ne r(1) Some q(1) d(1) o1(1) by simp
      ultimately show ?thesis using o1(2) by (intro exI [of _ "truncated p # out"] exI [of _ dst']) simp
    qed
  qed
qed simp

text \<open>
  Three streams, of which the first is at its end: the last one takes its place without being looked at,
  and the packet of the second is written before an older one of the third.
\<close>

lemma merge_three:
  assumes "holds a []" "holds b [p]" "holds c [q]" "ch_ts p < max_ts" "ch_ts q < max_ts" "at_end bs dst"
  shows "\<exists>dst'. merge_loop (Suc (Suc (Suc (Suc n)))) peek rd (file_write good_medium) [a, b, c] dst = Some (Inr (0, dst')) \<and>
    at_end (bs @ packet_bytes (truncated p) @ packet_bytes (truncated q)) dst'"
proof -
  obtain a' where a: "peek a = Some (Inr (- 1, None, a'))" using peek_end assms(1) by blast
  obtain p1 b1 where b1: "peek b = Some (Inr (0, Some p1, b1))" "captured p1 = p" "holds b1 [p]" using peek_next assms(2) by blast
  obtain p2 b2 where b2: "rd b1 = Some (Inr (0, Some p2, b2))" "captured p2 = p" "holds b2 []" using read_next b1(3) by blast
  obtain b3 where b3: "peek b2 = Some (Inr (- 1, None, b3))" using peek_end b2(3) by blast
  obtain q1 c1 where c1: "peek c = Some (Inr (0, Some q1, c1))" "captured q1 = q" "holds c1 [q]" using peek_next assms(3) by blast
  obtain q2 c2 where c2: "rd c1 = Some (Inr (0, Some q2, c2))" "captured q2 = q" "holds c2 []" using read_next c1(3) by blast
  obtain c3 where c3: "peek c2 = Some (Inr (- 1, None, c3))" using peek_end c2(3) by blast
  have ts: "ch_ts p1 < max_ts" "ch_ts q1 < max_ts" using assms(4,5) b1(2) c1(2) by auto
  obtain d1 where d1: "stream_copy (file_write good_medium) dst (truncate_len p2) = Inr (0, d1)"
      "at_end (bs @ packet_bytes (truncated p)) d1"
    using stream_copy_truncated [OF b2(2) _ assms(6)] packets_wf [OF assms(2)] by auto
  obtain d2 where d2: "stream_copy (file_write good_medium) d1 (truncate_len q2) = Inr (0, d2)"
      "at_end ((bs @ packet_bytes (truncated p)) @ packet_bytes (truncated q)) d2"
    using stream_copy_truncated [OF c2(2) _ d1(2)] packets_wf [OF assms(3)] by auto
  show ?thesis
    using d2(2) ts by (intro exI [of _ d2])
      (simp add: peek_round.simps(2) EAGAIN_def a b1(1) b2(1) b3 c1(1) c2(1) c3 d1(1) d2(1) timecmp_less)
qed

end

section \<open>Properties\<close>

text \<open>
  Claim C9. Merging capture files ends with exit code 0 and writes every packet of every file exactly
  once, truncated to its length on the wire, provided that no packet has the largest timestamp. If there are
  at most two files and each is in the order of its timestamps, the output is in that order.
\<close>

theorem capmerge_merges:
  assumes "list_all2 (file_holds fuel) st pss" "at_end bs dst" "\<forall>p\<in>set (concat pss). ch_ts p < max_ts"
    and "length (concat pss) + length st < n"
  shows "\<exists>out dst'. capmerge_files n fuel good_medium st dst = Some (Inr (0, dst')) \<and>
    at_end (bs @ concat (map packet_bytes out)) dst' \<and> mset out = image_mset truncated (mset (concat pss)) \<and>
    (length st \<le> 2 \<and> (\<forall>ps\<in>set pss. sorted (map ch_ts ps)) \<longrightarrow> sorted (map ch_ts out))"
  unfolding capmerge_files_def using assms by (rule capture_file.merge_loop_merges)

theorem capmerge_merges_witness:
  "\<exists>out dst'. capmerge_files 6 300 good_medium
      [opened_file [zero_packet (timepico_new 1 0), zero_packet (timepico_new 3 0)], opened_file [zero_packet (timepico_new 2 0)]]
      (opened_file []) = Some (Inr (0, dst')) \<and>
    at_end ([] @ concat (map packet_bytes out)) dst' \<and>
    mset out = image_mset truncated (mset (concat
      [[zero_packet (timepico_new 1 0), zero_packet (timepico_new 3 0)], [zero_packet (timepico_new 2 0)]])) \<and>
    sorted (map ch_ts out)"
proof -
  let ?st = "[opened_file [zero_packet (timepico_new 1 0), zero_packet (timepico_new 3 0)], opened_file [zero_packet (timepico_new 2 0)]]"
  let ?pss = "[[zero_packet (timepico_new 1 0), zero_packet (timepico_new 3 0)], [zero_packet (timepico_new 2 0)]]"
  have "list_all2 (file_holds 300) ?st ?pss"
    using opened_file_holds [of "[timepico_new 1 0, timepico_new 3 0]" 300] opened_file_holds [of "[timepico_new 2 0]" 300] by simp
  moreover have "\<forall>p\<in>set (concat ?pss). ch_ts p < max_ts" "\<forall>ps\<in>set ?pss. sorted (map ch_ts ps)"
    by (simp_all add: zero_packet_def max_ts_def timepico_new_def less_timepico_ext_def less_eq_timepico_ext_def word_less_nat_alt unsigned_minus_1_eq_mask mask_eq_exp_minus_1)
  ultimately show ?thesis using capmerge_merges [of 300 ?st ?pss "[]" "opened_file []" 6] by simp
qed

text \<open>
  With three files the output can be out of order although every file is sorted: if the first is
  at its end, the packet of the second is written before that of the third, however old that is, since
  the stream that takes the place of a closed one is not looked at in the same round.
\<close>

lemma capmerge_swaps:
  assumes "file_holds fuel a []" "file_holds fuel b [p]" "file_holds fuel c [q]" "ch_ts p < max_ts" "ch_ts q < ch_ts p"
    and "at_end bs dst" "n \<ge> 4"
  shows "\<exists>dst'. capmerge_files n fuel good_medium [a, b, c] dst = Some (Inr (0, dst')) \<and>
    at_end (bs @ packet_bytes (truncated p) @ packet_bytes (truncated q)) dst'"
proof -
  obtain m where "n = Suc (Suc (Suc (Suc m)))" using assms(7) by (auto simp: numeral_eq_Suc Suc_le_eq dest!: Suc_lessD less_imp_Suc_add le_Suc_ex)
  then show ?thesis unfolding capmerge_files_def
    using capture_file.merge_three [OF assms(1-4) _ assms(6), of m] assms(4,5) by (auto dest: less_trans)
qed

text \<open>
  Claim C23. The second pass of \<open>--sort\<close> writes what a stable sort by timestamp gives, less the packets whose
  length on the wire is zero and those with the largest timestamp; it ends after one round more than
  there are packets to write.
\<close>

theorem capmerge_sorts:
  assumes "\<forall>p\<in>set ps. live p \<longrightarrow> packet_wf p" "at_end bs dst" "ps \<noteq> []" "length (filter live ps) < fuel"
  shows "\<exists>dst'. sort_loop fuel (file_write good_medium) dst ps 0 = Some (Inr dst') \<and>
    at_end (bs @ concat (map packet_bytes (sort_key ch_ts (filter live ps)))) dst'"
  by (rule sort_loop_sorts) (use assms in auto)

theorem capmerge_sorts_witness:
  "\<exists>dst'. sort_loop 3 (file_write good_medium) (opened_file []) [zero_packet (timepico_new 2 0), zero_packet (timepico_new 1 0)] 0 = Some (Inr dst') \<and>
    at_end ([] @ concat (map packet_bytes (sort_key ch_ts (filter live [zero_packet (timepico_new 2 0), zero_packet (timepico_new 1 0)])))) dst'"
  by (rule capmerge_sorts)
    (simp_all add: peek_stream_facts(3))

end
