(* ===== verification/Capdump.thy ===== *)
theory Capdump
  imports Capmerge Read_Extension Address
begin

text \<open>
  \<open>tools/capdump.c\<close>: packets are saved to a file, and markers in the stream start the next file or end saving.
  The main loop, the handling of markers, the names of the files, the signal that acts on termination markers and
  the markers that arrive by UDP. Signals are taken between two steps of the loop; the thread for TCP, whose
  handling of a marker is that for UDP, the progress report and messages are left out. Destinations are
  files.
\<close>

section \<open>Settings and state\<close>

datatype MarkerMode = MARKER_INCREMENT | MARKER_OVERWRITE | MARKER_APPEND

record capdump_conf =
  cc_marker :: int
  cc_marker_key :: u32
  cc_marker_mode :: MarkerMode
  cc_marker_format :: string
  cc_marker_comment :: bool
  cc_marker_quit :: bool
  cc_comment :: string
  cc_mpid :: string
  cc_basename :: string
  cc_extension :: string
  cc_max_packets :: u32
  cc_src_stream_count :: int

text \<open>
  \<open>cd_output\<close> is the name of the file that \<open>cd_dst\<close> writes to. \<open>cd_closed\<close> records the files that have been closed, in
  order, and \<open>cd_exists\<close> the names for which \<open>stat\<close> succeeds.
\<close>

record capdump_state =
  cd_dst :: "stream_file stream option"
  cd_output :: string
  cd_closed :: "(string \<times> stream_file stream) list"
  cd_exists :: "string \<Rightarrow> bool"
  cd_suffix :: u32
  cd_marker_terminate :: int
  cd_marker_terminate_TO :: int
  cd_keep_running :: bool
  cd_done :: bool   \<comment> \<open>the loop has been left by \<open>break\<close>\<close>

definition parse_marker_mode :: "string \<Rightarrow> MarkerMode" where
  "parse_marker_mode str =
     (case str of
        [] \<Rightarrow> MARKER_INCREMENT
      | c # _ \<Rightarrow>
          if tolower c = CHR ''o'' then MARKER_OVERWRITE
          else if tolower c = CHR ''a'' then MARKER_APPEND
          else MARKER_INCREMENT)"

text \<open>The name and the extension that \<open>set_destination\<close> keeps for the format: the text is split at the first dot.\<close>

definition set_destination :: "string \<Rightarrow> string \<times> string" where
  "set_destination str = (case strchr_split (CHR ''.'') str of None \<Rightarrow> (str, []) | Some r \<Rightarrow> r)"

section \<open>Names of files\<close>

text \<open>\<open>%*d\<close> and \<open>%0*d\<close>.\<close>

definition dec_field :: "bool \<Rightarrow> nat \<Rightarrow> int \<Rightarrow> string" where
  "dec_field zeropad width v =
     (let s = dec_int v; pad = width - length s
      in if \<not> zeropad then replicate pad (CHR '' '') @ s
         else if v < 0 then CHR ''-'' # replicate pad (CHR ''0'') @ List.tl s
         else replicate pad (CHR ''0'') @ s)"

text \<open>The digits behind a percent sign; a fifth one ends the program.\<close>

fun scan_width :: "string \<Rightarrow> string \<Rightarrow> (string \<times> string) res" where
  "scan_width w [] = Inr (w, [])"
| "scan_width w (c # src) =
     (if isdigit c then if length w = 4 then Inl Aborted else scan_width (w @ [c]) src
      else Inr (w, c # src))"

lemma scan_width_length: "scan_width w src = Inr (w', r) \<Longrightarrow> length r \<le> length src"
  by (induction w src rule: scan_width.induct) (auto split: if_splits)

definition field_text :: "capdump_conf \<Rightarrow> marker \<Rightarrow> char \<Rightarrow> bool \<Rightarrow> nat \<Rightarrow> string res" where
  "field_text conf mark specifier zeropad width =
     (if specifier = CHR ''e'' then Inr (cc_extension conf)
      else if specifier = CHR ''f'' then Inr (cc_basename conf)
      else if specifier = CHR ''s'' then Inr (dec_field zeropad width (sint (mk_seq_num mark)))
      else if specifier = CHR ''k'' then Inr (dec_field zeropad width (sint (mk_key_id mark)))
      else if specifier = CHR ''r'' then Inr (dec_field zeropad width (sint (mk_run_id mark)))
      else if specifier = CHR ''x'' then Inr (dec_field zeropad width (sint (mk_exp_id mark)))
      else Inl Aborted)"

definition name_size :: nat where "name_size = 1024"

text \<open>
  The loop over the format, with the text written so far. The four digits of a width have no room for the
  terminator that \<open>atoi\<close> looks for, and the buffer is not checked.
\<close>

function expand :: "capdump_conf \<Rightarrow> marker \<Rightarrow> string \<Rightarrow> string \<Rightarrow> string res" where
  "expand conf mark dst [] = (if length dst < name_size then Inr dst else Inl Out_of_bounds)"
| "expand conf mark dst (ch # src) =
     (if \<not> length dst < name_size then Inl Out_of_bounds
      else if ch \<noteq> CHR ''%'' then expand conf mark (dst @ [ch]) src
      else case scan_width [] src of
          Inl e \<Rightarrow> Inl e
        | Inr (w, []) \<Rightarrow> Inl Aborted
        | Inr (w, specifier # src) \<Rightarrow>
            if length w = 4 then Inl Out_of_bounds
            else rbind (field_text conf mark specifier (take 1 w = ''0'') (nat (atoi w))) (\<lambda>t.
              expand conf mark (dst @ t) src))"
  by pat_completeness auto
termination expand
  by (relation "measure (\<lambda>(conf, mark, dst, src). length src)") (auto dest!: scan_width_length)

text \<open>
  The loop over suffixes that looks for a name that is not in use; not returning is \<open>None\<close>. The suffix is cut
  to the space behind the name.
\<close>

definition with_suffix :: "string \<Rightarrow> u32 \<Rightarrow> string" where
  "with_suffix name suffix = name @ take (name_size - length name - 1) (''.'' @ dec_int (sint suffix))"

partial_function (option) free_name :: "(string \<Rightarrow> bool) \<Rightarrow> string \<Rightarrow> string \<Rightarrow> u32 \<Rightarrow> (string \<times> u32) option" where
  "free_name ex name buffer suffix =
     (if ex buffer then free_name ex name (with_suffix name suffix) (suffix + 1) else Some (buffer, suffix))"

definition generate_filename :: "capdump_conf \<Rightarrow> (string \<Rightarrow> bool) \<Rightarrow> u32 \<Rightarrow> marker \<Rightarrow> (string \<times> u32) res option" where
  "generate_filename conf ex suffix mark =
     (case expand conf mark [] (cc_marker_format conf) of
        Inl e \<Rightarrow> Some (Inl e)
      | Inr name \<Rightarrow>
          if cc_marker_mode conf = MARKER_INCREMENT then map_option Inr (free_name ex name name suffix)
          else Some (Inr (name, suffix)))"

section \<open>Markers\<close>

definition close_dst :: "capdump_state \<Rightarrow> capdump_state" where
  "close_dst s = s\<lparr>cd_closed := cd_closed s @ (case cd_dst s of None \<Rightarrow> [] | Some st \<Rightarrow> [(cd_output s, st)]), cd_dst := None\<rparr>"

text \<open>Creating a file; \<open>fopen\<close> gives an empty file or an error.\<close>

definition create_dst :: "medium \<Rightarrow> (string \<Rightarrow> int + cfile) \<Rightarrow> capdump_conf \<Rightarrow> string \<Rightarrow> string \<Rightarrow> capdump_state \<Rightarrow> int \<times> capdump_state" where
  "create_dst med fopen conf filename comment s =
     (case stream_file_create med None (Some (fopen filename)) (cc_mpid conf) (Some comment) STREAM_ADDR_DUPLICATE of
        (ret, st) \<Rightarrow>
          (ret, s\<lparr>cd_dst := st, cd_output := filename,
              cd_exists := (case fopen filename of Inl _ \<Rightarrow> cd_exists s | Inr _ \<Rightarrow> (cd_exists s)(filename := True))\<rparr>))"

definition open_next ::
  "medium \<Rightarrow> (string \<Rightarrow> int + cfile) \<Rightarrow> capdump_conf \<Rightarrow> marker \<Rightarrow> capdump_state \<Rightarrow> (int \<times> capdump_state) res option" where
  "open_next med fopen conf mark s =
     (case generate_filename conf (cd_exists s) (cd_suffix s) mark of
        None \<Rightarrow> None
      | Some (Inl e) \<Rightarrow> Some (Inl e)
      | Some (Inr (filename, suffix)) \<Rightarrow>
          let s = s\<lparr>cd_suffix := suffix\<rparr> in
          if cc_marker_mode conf = MARKER_APPEND \<and> filename = cd_output s then
            Some (if cd_dst s = None then Inl Null_deref else Inr (0, s))
          else
            Some (rbind (if cc_marker_comment conf then cstr (mk_comment mark) else Inr (cc_comment conf)) (\<lambda>comment.
              case create_dst med fopen conf filename comment (close_dst s) of
                (ret, s) \<Rightarrow> Inr (if ret \<noteq> 0 then 1 else 0, s))))"

definition validate_key :: "capdump_conf \<Rightarrow> marker \<Rightarrow> bool" where
  "validate_key conf mark \<longleftrightarrow> cc_marker_key conf \<noteq> 0 \<and> mk_key_id mark = cc_marker_key conf"

definition handle_marker ::
  "medium \<Rightarrow> (string \<Rightarrow> int + cfile) \<Rightarrow> capdump_conf \<Rightarrow> marker \<Rightarrow> capdump_state \<Rightarrow> (int \<times> capdump_state) res option" where
  "handle_marker med fopen conf mark s =
     (if \<not> validate_key conf mark then Some (Inr (0, s))
      else if cd_output s = ''/dev/stdout'' then Some (Inr (1, s))
      else if mk_flags mark AND MARKER_TERMINATE \<noteq> 0 then
        Some (Inr (0, s\<lparr>cd_marker_terminate := cd_marker_terminate s + 1\<rparr>))
      else open_next med fopen conf mark s)"

text \<open>\<open>mark\<close> is not initialised: \<open>junk\<close> is what it holds.\<close>

definition handle_marker_caphead ::
  "medium \<Rightarrow> (string \<Rightarrow> int + cfile) \<Rightarrow> capdump_conf \<Rightarrow> marker \<Rightarrow> cap_header \<Rightarrow> capdump_state \<Rightarrow>
   (int \<times> capdump_state) res option" where
  "handle_marker_caphead med fopen conf junk cp s =
     (if cc_marker conf = 0 then Some (Inr (0, s))
      else case is_marker (ch_payload cp) (Some junk) (cc_marker conf) of
          Inl e \<Rightarrow> Some (Inl e)
        | Inr (r, Some mark) \<Rightarrow> if r = 0 then Some (Inr (0, s)) else handle_marker med fopen conf mark s
        | Inr (r, None) \<Rightarrow> Some (Inl Null_deref))"

definition handle_marker_server ::
  "medium \<Rightarrow> (string \<Rightarrow> int + cfile) \<Rightarrow> capdump_conf \<Rightarrow> marker \<Rightarrow> u8 list \<Rightarrow> capdump_state \<Rightarrow>
   (int \<times> capdump_state) res option" where
  "handle_marker_server med fopen conf junk payload s =
     (if cc_marker conf = 0 then Some (Inr (0, s))
      else case is_marker_udp payload 0 (Some junk) of
          Inl e \<Rightarrow> Some (Inl e)
        | Inr (r, Some mark) \<Rightarrow> if r = 0 then Some (Inr (0, s)) else handle_marker med fopen conf mark s
        | Inr (r, None) \<Rightarrow> Some (Inl Null_deref))"

definition write_packet :: "medium \<Rightarrow> cap_header \<Rightarrow> capdump_state \<Rightarrow> (int \<times> capdump_state) res" where
  "write_packet med cp s =
     (case cd_dst s of
        None \<Rightarrow> Inr (0, s)
      | Some st \<Rightarrow> rbind (stream_copy (file_write med) st (truncate_len cp)) (\<lambda>(ret, st). Inr (ret, s\<lparr>cd_dst := Some st\<rparr>)))"

section \<open>The signal\<close>

definition handle_terminate_signal :: "capdump_conf \<Rightarrow> capdump_state \<Rightarrow> capdump_state" where
  "handle_terminate_signal conf s =
     (if cd_marker_terminate s \<ge> cc_src_stream_count conf \<or> cd_marker_terminate_TO s \<ge> cc_src_stream_count conf then
        let s = (if cd_dst s \<noteq> None then (close_dst s)\<lparr>cd_output := []\<rparr> else s)
        in if cc_marker_quit conf then s\<lparr>cd_keep_running := False\<rparr>
           else s\<lparr>cd_marker_terminate := 0, cd_marker_terminate_TO := 0\<rparr>
      else s\<lparr>cd_marker_terminate_TO := cd_marker_terminate_TO s + 1\<rparr>)"

definition my_signalhandler :: "capdump_conf \<Rightarrow> capdump_state \<Rightarrow> capdump_state" where
  "my_signalhandler conf s = (if cd_marker_terminate s \<noteq> 0 then handle_terminate_signal conf s else s)"

section \<open>The main loop\<close>

text \<open>What the loop does with a packet it has read; \<open>reads\<close> is the counter \<open>stat.read\<close>.\<close>

definition capdump_packet ::
  "medium \<Rightarrow> (string \<Rightarrow> int + cfile) \<Rightarrow> capdump_conf \<Rightarrow> marker \<Rightarrow> nat \<Rightarrow> cap_header \<Rightarrow> capdump_state \<Rightarrow> capdump_state res option" where
  "capdump_packet med fopen conf junk reads cp s =
     (case handle_marker_caphead med fopen conf junk cp s of
        None \<Rightarrow> None
      | Some (Inl e) \<Rightarrow> Some (Inl e)
      | Some (Inr (ret, s)) \<Rightarrow>
          if ret \<noteq> 0 then Some (Inr (s\<lparr>cd_done := True\<rparr>))
          else Some (rbind (write_packet med cp s) (\<lambda>(ret, s).
            Inr (if ret \<noteq> 0 \<or> cc_max_packets conf > 0 \<and> reads \<ge> unat (cc_max_packets conf)
                 then s\<lparr>cd_done := True\<rparr> else s))))"

text \<open>The loop without signals and without \<open>--listen\<close>, with the number of rounds as fuel.\<close>

fun capdump_loop ::
  "nat \<Rightarrow> medium \<Rightarrow> (string \<Rightarrow> int + cfile) \<Rightarrow> capdump_conf \<Rightarrow> marker \<Rightarrow> 's reader \<Rightarrow> ('s \<Rightarrow> nat) \<Rightarrow> 's \<times> capdump_state \<Rightarrow>
   ('s \<times> capdump_state) res option" where
  "capdump_loop 0 med fopen conf junk rd reads x = None"
| "capdump_loop (Suc n) med fopen conf junk rd reads (src, s) =
     (if \<not> cd_keep_running s \<or> cd_done s then Some (Inr (src, s))
      else case rd src of
          None \<Rightarrow> None
        | Some (Inl e) \<Rightarrow> Some (Inl e)
        | Some (Inr (ret, cp, src)) \<Rightarrow>
            if ret = EAGAIN \<or> ret = EINTR then capdump_loop n med fopen conf junk rd reads (src, s)
            else if ret > 0 \<or> ret = - 1 then Some (Inr (src, s\<lparr>cd_done := True\<rparr>))
            else if ret \<noteq> 0 then Some (Inl Aborted)
            else case cp of
                None \<Rightarrow> Some (Inl Null_deref)
              | Some cp \<Rightarrow>
                  case capdump_packet med fopen conf junk (reads src) cp s of
                    None \<Rightarrow> None
                  | Some (Inl e) \<Rightarrow> Some (Inl e)
                  | Some (Inr s) \<Rightarrow> capdump_loop n med fopen conf junk rd reads (src, s))"

section \<open>Markers by UDP\<close>

definition sizeof_marker :: nat where "sizeof_marker = 96"

definition BUFSIZE :: nat where "BUFSIZE = 1500"

text \<open>
  The packet that a marker is put into. It is allocated without being cleared; the lengths are stored in the
  order of the host, and \<open>htonl(12345)\<close> is cut to the 16 bits of the identification, which gives zero.
\<close>

definition setup_udp :: "u16 \<Rightarrow> cap_header \<Rightarrow> cap_header" where
  "setup_udp portno packet = packet
     \<lparr>ch_len := 138, ch_caplen := 138, ch_nic := ''c0'' @ drop 2 (ch_nic packet), ch_mampid := strncpy 8 ''control'',
      ch_payload := put_at 12 (bytes16 (htons ETHERTYPE_IP)) (put_at 14 [0x45] (put_at 16 (bytes16 124) (put_at 18 (bytes16 0)
        (put_at 23 [IPPROTO_UDP] (put_at 26 [127, 0, 0, 1] (put_at 30 [127, 0, 0, 1]
        (put_at 34 (bytes16 (htons MARKERPORT)) (put_at 36 (bytes16 (htons portno)) (put_at 38 (bytes16 104)
        (put_at 74 (replicate 64 0) (ch_payload packet)))))))))))\<rparr>"

text \<open>
  A datagram that waits in the socket; it is left there when it is shorter than a marker. All of it is copied into
  the packet, whose last 96 bytes are the marker.
\<close>

definition handle_udp ::
  "medium \<Rightarrow> (string \<Rightarrow> int + cfile) \<Rightarrow> capdump_conf \<Rightarrow> marker \<Rightarrow> cap_header \<Rightarrow> timepico \<Rightarrow> u8 list \<Rightarrow> capdump_state \<Rightarrow>
   (int \<times> capdump_state) res option" where
  "handle_udp med fopen conf junk packet now dgram s =
     (if length dgram < sizeof_marker then Some (Inr (0, s))
      else let buf = take BUFSIZE dgram in
        case handle_marker_server med fopen conf junk buf s of
          None \<Rightarrow> None
        | Some (Inl e) \<Rightarrow> Some (Inl e)
        | Some (Inr (ret, s)) \<Rightarrow>
            if ret \<noteq> 0 then Some (Inr (1, s))
            else if length buf > sizeof_marker then Some (Inl Out_of_bounds)
            else Some (rbind (write_packet med (packet\<lparr>ch_ts := now, ch_payload := put_at 42 buf (ch_payload packet)\<rparr>) s)
              (\<lambda>(ret, s). Inr (if ret \<noteq> 0 then 1 else 0, s))))"

section \<open>Sequences of events\<close>

text \<open>
  What can happen while the loop runs: a packet is read (with the counter), the timer expires, or a datagram
  arrives. After the loop has been left nothing happens.
\<close>

datatype capdump_event = Packet_read cap_header nat | Alarm | Datagram "u8 list" timepico

fun capdump_step ::
  "medium \<Rightarrow> (string \<Rightarrow> int + cfile) \<Rightarrow> capdump_conf \<Rightarrow> marker \<Rightarrow> cap_header \<Rightarrow> capdump_event \<Rightarrow> capdump_state \<Rightarrow>
   capdump_state res option" where
  "capdump_step med fopen conf junk dummy (Packet_read cp reads) s = capdump_packet med fopen conf junk reads cp s"
| "capdump_step med fopen conf junk dummy Alarm s = Some (Inr (my_signalhandler conf s))"
| "capdump_step med fopen conf junk dummy (Datagram d now) s =
     (case handle_udp med fopen conf junk dummy now d s of
        None \<Rightarrow> None
      | Some (Inl e) \<Rightarrow> Some (Inl e)
      | Some (Inr (ret, s)) \<Rightarrow> Some (Inr (if ret \<noteq> 0 then s\<lparr>cd_done := True\<rparr> else s)))"

fun capdump_run ::
  "medium \<Rightarrow> (string \<Rightarrow> int + cfile) \<Rightarrow> capdump_conf \<Rightarrow> marker \<Rightarrow> cap_header \<Rightarrow> capdump_event list \<Rightarrow> capdump_state \<Rightarrow>
   capdump_state res option" where
  "capdump_run med fopen conf junk dummy [] s = Some (Inr s)"
| "capdump_run med fopen conf junk dummy (e # es) s =
     (if \<not> cd_keep_running s \<or> cd_done s then Some (Inr s)
      else case capdump_step med fopen conf junk dummy e s of
          None \<Rightarrow> None
        | Some (Inl f) \<Rightarrow> Some (Inl f)
        | Some (Inr s) \<Rightarrow> capdump_run med fopen conf junk dummy es s)"

section \<open>Names that are not in use\<close>

lemma free_name_fresh:
  assumes "free_name ex name buffer suffix = Some r"
  shows "\<not> ex (fst r)"
  by (rule free_name.raw_induct [of "\<lambda>ex name buffer suffix r. \<not> ex (fst r)", OF _ assms]) (fastforce split: if_splits)

lemma free_name_returns:
  assumes "\<not> ex (with_suffix name (suffix + word_of_nat k))"
  shows "\<exists>r. free_name ex name buffer suffix = Some r"
  using assms
proof (induction k arbitrary: buffer suffix)
  case 0
  then show ?case by (subst free_name.simps, subst free_name.simps) auto
next
  case (Suc k)
  then have "\<exists>r. free_name ex name (with_suffix name suffix) (suffix + 1) = Some r" by (simp add: add.assoc)
  then show ?case by (subst free_name.simps) auto
qed

lemma generate_filename_fresh:
  assumes "generate_filename conf ex suffix mark = Some (Inr (fn, suf))" "cc_marker_mode conf = MARKER_INCREMENT"
  shows "\<not> ex fn"
  using assms by (auto simp: generate_filename_def dest: free_name_fresh split: sum.splits)

section \<open>Files by markers\<close>

text \<open>The marker of a packet that starts the next file.\<close>

definition start_marker :: "capdump_conf \<Rightarrow> marker \<Rightarrow> cap_header \<Rightarrow> marker option" where
  "start_marker conf junk p =
     (if cc_marker conf = 0 then None
      else case is_marker (ch_payload p) (Some junk) (cc_marker conf) of
          Inr (r, Some mark) \<Rightarrow>
            if r \<noteq> 0 \<and> validate_key conf mark \<and> mk_flags mark AND MARKER_TERMINATE = 0 then Some mark else None
        | _ \<Rightarrow> None)"

text \<open>
  The files that a list of packets is divided into: each but the first begins with the packet of its marker, and
  packets are cut to the length they had on the wire. Nothing when no name can be made.
\<close>

fun split_files ::
  "capdump_conf \<Rightarrow> marker \<Rightarrow> (string \<Rightarrow> bool) \<Rightarrow> u32 \<Rightarrow> string \<Rightarrow> cap_header list \<Rightarrow> cap_header list \<Rightarrow>
   (string \<times> cap_header list) list option" where
  "split_files conf junk ex suffix name qs [] = Some [(name, qs)]"
| "split_files conf junk ex suffix name qs (p # ps) =
     (case start_marker conf junk p of
        None \<Rightarrow> split_files conf junk ex suffix name (qs @ [truncated p]) ps
      | Some mark \<Rightarrow>
          (case generate_filename conf ex suffix mark of
             Some (Inr (fn, suf)) \<Rightarrow>
               map_option ((#) (name, qs)) (split_files conf junk (ex(fn := True)) suf fn [truncated p] ps)
           | _ \<Rightarrow> None))"

lemma split_files_fresh:
  assumes "split_files conf junk ex suffix name qs ps = Some files" "cc_marker_mode conf = MARKER_INCREMENT" "ex name"
  shows "distinct (map fst files) \<and> (\<forall>fn \<in> fst ` set files. fn = name \<or> \<not> ex fn)"
  using assms
proof (induction ps arbitrary: ex suffix name qs files)
  case (Cons p ps)
  show ?case
  proof (cases "start_marker conf junk p")
    case None
    then show ?thesis using Cons.IH [of ex suffix name "qs @ [truncated p]" files] Cons.prems by simp
  next
    case (Some mark)
    then obtain fn suf fs where g: "generate_filename conf ex suffix mark = Some (Inr (fn, suf))" "files = (name, qs) # fs"
      "split_files conf junk (ex(fn := True)) suf fn [truncated p] ps = Some fs"
      using Cons.prems(1) by (auto split: option.splits sum.splits)
    have "\<not> ex fn" using generate_filename_fresh [OF g(1) Cons.prems(2)] .
    then show ?thesis using Cons.IH [OF g(3) Cons.prems(2)] Cons.prems(3) g(2) by (auto split: if_splits)
  qed
qed simp

lemma split_files_name: "split_files conf junk ex suffix name qs ps = Some files \<Longrightarrow> name \<in> fst ` set files"
  by (induction ps arbitrary: ex suffix name qs files) (force split: option.splits sum.splits)+

text \<open>A file with its header and these packets.\<close>

definition wrote :: "capdump_conf \<Rightarrow> string \<times> stream_file stream \<Rightarrow> string \<times> cap_header list \<Rightarrow> bool" where
  "wrote conf f g \<longleftrightarrow> fst f = fst g \<and> at_end (file_image (cc_mpid conf) (cc_comment conf) (concat (map packet_bytes (snd g)))) (snd f)"

text \<open>
  Settings with which files are divided at markers: the names are not those of pipes or of a file that is
  appended to, and files can be created.
\<close>

definition divides :: "(string \<Rightarrow> int + cfile) \<Rightarrow> capdump_conf \<Rightarrow> bool" where
  "divides fopen conf \<longleftrightarrow> (\<forall>fn. fopen fn = Inr empty_file) \<and> cc_marker_mode conf \<noteq> MARKER_APPEND \<and> \<not> cc_marker_comment conf \<and>
     cc_max_packets conf = 0"

lemma write_packet_truncated:
  assumes "captured q = p" "packet_wf p" "cd_dst s = Some d" "wrote conf (fn, d) (fn, qs)"
  shows "\<exists>d'. write_packet good_medium q s = Inr (0, s\<lparr>cd_dst := Some d'\<rparr>) \<and> wrote conf (fn, d') (fn, qs @ [truncated p])"
proof -
  have "at_end (file_image (cc_mpid conf) (cc_comment conf) (concat (map packet_bytes qs))) d" using assms(4) by (simp add: wrote_def)
  from stream_copy_truncated [OF assms(1,2) this] show ?thesis
    using assms(3) by (auto simp: write_packet_def wrote_def file_image_def)
qed

lemma open_next_creates:
  assumes "divides fopen conf" "generate_filename conf (cd_exists s) (cd_suffix s) mark = Some (Inr (fn, suf))"
  shows "\<exists>d. open_next good_medium fopen conf mark s = Some (Inr (0, (close_dst s)\<lparr>cd_suffix := suf, cd_dst := Some d,
      cd_output := fn, cd_exists := (cd_exists s)(fn := True)\<rparr>)) \<and> wrote conf (fn, d) (fn, [])"
proof -
  obtain d where d: "stream_file_create good_medium None (Some (Inr empty_file)) (cc_mpid conf) (Some (cc_comment conf)) STREAM_ADDR_DUPLICATE = (0, Some d)"
    "at_end (file_image (cc_mpid conf) (cc_comment conf) []) d"
    using create_image by blast
  then show ?thesis
    using assms by (intro exI [of _ d], cases "cd_dst s") (simp_all add: open_next_def divides_def Let_def create_dst_def close_dst_def wrote_def)
qed

lemma is_marker_some:
  assumes "is_marker m (Some ptr) port = Inr (r, x)"
  shows "\<exists>mark. x = Some mark"
proof -
  obtain hdr where hdr: "find_ipv4_header m = Inr hdr" using assms by (auto simp: is_marker_def rbind_Inr_iff)
  show ?thesis
  proof (cases hdr)
    case None
    then show ?thesis using assms hdr by (auto simp: is_marker_def)
  next
    case (Some h)
    then obtain udp ports where u: "find_udp_header m (Some (fst h)) (Some (0, 0)) = Inr (udp, ports)"
      using assms hdr by (auto simp: is_marker_def rbind_Inr_iff split: prod.split_asm)
    show ?thesis
      using assms hdr Some u by (cases h, cases udp; cases ports) (auto simp: is_marker_def rbind_Inr_iff split: if_split_asm)
  qed
qed

lemma captured_extension:
  assumes "captured q = p"
  obtains r where "ch_payload q = ch_payload p @ r"
  using assms by (metis append_take_drop_id cap_header.select_convs(6) cap_header.surjective cap_header.update_convs(6) captured_def)

lemma handle_marker_captured:
  assumes "captured q = p" "\<exists>r. is_marker (ch_payload p) (Some junk) (cc_marker conf) = Inr r" "cd_output s \<noteq> ''/dev/stdout''"
  shows "start_marker conf junk p = None \<Longrightarrow>
      \<exists>t. handle_marker_caphead med fopen conf junk q s = Some (Inr (0, s\<lparr>cd_marker_terminate := t\<rparr>))"
    and "start_marker conf junk p = Some mark \<Longrightarrow>
      handle_marker_caphead med fopen conf junk q s = open_next med fopen conf mark s"
proof -
  obtain r mk where m: "is_marker (ch_payload p) (Some junk) (cc_marker conf) = Inr (r, Some mk)"
    using assms(2) is_marker_some by (metis prod.exhaust)
  then have q: "is_marker (ch_payload q) (Some junk) (cc_marker conf) = Inr (r, Some mk)"
    using captured_extension [OF assms(1)] is_marker_append by (metis fault_le_def)
  show "\<exists>t. handle_marker_caphead med fopen conf junk q s = Some (Inr (0, s\<lparr>cd_marker_terminate := t\<rparr>))" if "start_marker conf junk p = None"
    using that m q assms(3)
    by (auto simp: start_marker_def handle_marker_caphead_def handle_marker_def intro: exI [of _ "cd_marker_terminate s"] split: if_splits)
  show "handle_marker_caphead med fopen conf junk q s = open_next med fopen conf mark s" if "start_marker conf junk p = Some mark"
    using that m q assms(3) by (auto simp: start_marker_def handle_marker_caphead_def handle_marker_def split: if_splits)
qed

lemma capdump_packet_same_file:
  assumes "captured q = p" "packet_wf p" "divides fopen conf" "\<exists>r. is_marker (ch_payload p) (Some junk) (cc_marker conf) = Inr r"
    and "cd_output s \<noteq> ''/dev/stdout''" "cd_dst s = Some d" "wrote conf (cd_output s, d) (cd_output s, qs)"
    and "start_marker conf junk p = None"
  shows "\<exists>d' t. capdump_packet good_medium fopen conf junk n q s = Some (Inr (s\<lparr>cd_marker_terminate := t, cd_dst := Some d'\<rparr>)) \<and>
    wrote conf (cd_output s, d') (cd_output s, qs @ [truncated p])"
proof -
  obtain t where h: "handle_marker_caphead good_medium fopen conf junk q s = Some (Inr (0, s\<lparr>cd_marker_terminate := t\<rparr>))"
    using handle_marker_captured(1) [OF assms(1,4,5,8)] by auto
  obtain d' where "write_packet good_medium q (s\<lparr>cd_marker_terminate := t\<rparr>) = Inr (0, s\<lparr>cd_marker_terminate := t, cd_dst := Some d'\<rparr>)"
    "wrote conf (cd_output s, d') (cd_output s, qs @ [truncated p])"
    using write_packet_truncated [OF assms(1,2), of "s\<lparr>cd_marker_terminate := t\<rparr>" d conf "cd_output s" qs] assms(6,7) by auto
  then show ?thesis using h assms(3) by (auto simp: capdump_packet_def divides_def)
qed

lemma capdump_packet_next_file:
  assumes "captured q = p" "packet_wf p" "divides fopen conf" "\<exists>r. is_marker (ch_payload p) (Some junk) (cc_marker conf) = Inr r"
    and "cd_output s \<noteq> ''/dev/stdout''" "start_marker conf junk p = Some mark"
    and "generate_filename conf (cd_exists s) (cd_suffix s) mark = Some (Inr (fn, suf))"
  shows "\<exists>d. capdump_packet good_medium fopen conf junk n q s = Some (Inr ((close_dst s)\<lparr>cd_suffix := suf, cd_dst := Some d,
      cd_output := fn, cd_exists := (cd_exists s)(fn := True)\<rparr>)) \<and> wrote conf (fn, d) (fn, [truncated p])"
proof -
  obtain d where o: "open_next good_medium fopen conf mark s = Some (Inr (0, (close_dst s)\<lparr>cd_suffix := suf, cd_dst := Some d,
      cd_output := fn, cd_exists := (cd_exists s)(fn := True)\<rparr>))" "wrote conf (fn, d) (fn, [])"
    using open_next_creates [OF assms(3,7)] by blast
  have h: "handle_marker_caphead good_medium fopen conf junk q s = open_next good_medium fopen conf mark s"
    using handle_marker_captured(2) [OF assms(1,4,5,6)] by auto
  let ?s = "(close_dst s)\<lparr>cd_suffix := suf, cd_dst := Some d, cd_output := fn, cd_exists := (cd_exists s)(fn := True)\<rparr>"
  obtain d' where "write_packet good_medium q ?s = Inr (0, ?s\<lparr>cd_dst := Some d'\<rparr>)" "wrote conf (fn, d') (fn, [] @ [truncated p])"
    using write_packet_truncated [OF assms(1,2), of ?s d conf fn "[]"] o(2) by auto
  then show ?thesis using h o(1) assms(3) by (intro exI [of _ d']) (simp add: capdump_packet_def divides_def)
qed

context packet_reader
begin

lemma capdump_loop_divides:
  assumes "holds src ps" "divides fopen conf" "split_files conf junk (cd_exists s) (cd_suffix s) (cd_output s) qs ps = Some files"
    and "''/dev/stdout'' \<notin> fst ` set files" "cd_dst s = Some d" "wrote conf (cd_output s, d) (cd_output s, qs)"
    and "list_all2 (wrote conf) (cd_closed s) old" "\<forall>p\<in>set ps. \<exists>r. is_marker (ch_payload p) (Some junk) (cc_marker conf) = Inr r"
    and "cd_keep_running s" "\<not> cd_done s" "length ps < n"
  shows "\<exists>src' s' d'. capdump_loop n good_medium fopen conf junk rd reads (src, s) = Some (Inr (src', s')) \<and> cd_dst s' = Some d' \<and>
    list_all2 (wrote conf) (cd_closed s' @ [(cd_output s', d')]) (old @ files)"
  using assms
proof (induction n arbitrary: src ps s d qs old files)
  case (Suc n)
  have out: "cd_output s \<noteq> ''/dev/stdout''"
    using split_files_name [OF Suc.prems(3)] Suc.prems(4) by metis
  show ?case
  proof (cases ps)
    case Nil
    then obtain src' where "rd src = Some (Inr (- 1, None, src'))" using read_end Suc.prems(1) by blast
    then show ?thesis using Suc.prems(3,5-7,9,10) Nil by (auto simp: EAGAIN_def EINTR_def intro!: list_all2_appendI)
  next
    case (Cons p ps')
    then obtain q src' where r: "rd src = Some (Inr (0, Some q, src'))" "captured q = p" "holds src' ps'"
      using read_next Suc.prems(1) by blast
    have p: "packet_wf p" "\<exists>r. is_marker (ch_payload p) (Some junk) (cc_marker conf) = Inr r" "cd_output s \<noteq> ''/dev/stdout''"
      using packets_wf [OF Suc.prems(1)] Suc.prems(8) Cons out by auto
    have loop: "capdump_loop (Suc n) good_medium fopen conf junk rd reads (src, s) = capdump_loop n good_medium fopen conf junk rd reads (src', s1)"
      if "capdump_packet good_medium fopen conf junk (reads src') q s = Some (Inr s1)" for s1
      using that r(1) Suc.prems(9,10) by (simp add: EAGAIN_def EINTR_def)
    show ?thesis
    proof (cases "start_marker conf junk p")
      case None
      obtain d' t where s: "capdump_packet good_medium fopen conf junk (reads src') q s = Some (Inr (s\<lparr>cd_marker_terminate := t, cd_dst := Some d'\<rparr>))"
        "wrote conf (cd_output s, d') (cd_output s, qs @ [truncated p])"
        using capdump_packet_same_file [OF r(2) p(1) Suc.prems(2) p(2,3) Suc.prems(5,6) None] by blast
      show ?thesis
        unfolding loop [OF s(1)] using Suc.prems None Cons s(2)
        by (intro Suc.IH [OF r(3) Suc.prems(2), where qs = "qs @ [truncated p]" and d = d']) simp_all
    next
      case (Some mark)
      then obtain fn suf fs where g: "generate_filename conf (cd_exists s) (cd_suffix s) mark = Some (Inr (fn, suf))"
        "files = (cd_output s, qs) # fs" "split_files conf junk ((cd_exists s)(fn := True)) suf fn [truncated p] ps' = Some fs"
        using Suc.prems(3) Cons by (auto split: option.splits sum.splits)
      obtain d' where s: "capdump_packet good_medium fopen conf junk (reads src') q s = Some (Inr ((close_dst s)\<lparr>cd_suffix := suf, cd_dst := Some d',
          cd_output := fn, cd_exists := (cd_exists s)(fn := True)\<rparr>))" "wrote conf (fn, d') (fn, [truncated p])"
        using capdump_packet_next_file [OF r(2) p(1) Suc.prems(2) p(2,3) Some g(1)] by blast
      have "list_all2 (wrote conf) (cd_closed s @ [(cd_output s, d)]) (old @ [(cd_output s, qs)])"
        using Suc.prems(6,7) by (intro list_all2_appendI) simp_all
      then have "list_all2 (wrote conf) (cd_closed (close_dst s)) (old @ [(cd_output s, qs)])"
        using Suc.prems(5) by (simp add: close_dst_def)
      then have "\<exists>src'' s' d''. capdump_loop n good_medium fopen conf junk rd reads (src', (close_dst s)\<lparr>cd_suffix := suf, cd_dst := Some d',
          cd_output := fn, cd_exists := (cd_exists s)(fn := True)\<rparr>) = Some (Inr (src'', s')) \<and> cd_dst s' = Some d'' \<and>
          list_all2 (wrote conf) (cd_closed s' @ [(cd_output s', d'')]) ((old @ [(cd_output s, qs)]) @ fs)"
        using Suc.prems Cons g s(2) by (intro Suc.IH [OF r(3) Suc.prems(2), where qs = "[truncated p]" and d = d']) (simp_all add: close_dst_def fun_upd_def)
      then show ?thesis unfolding loop [OF s(1)] using g(2) by simp
    qed
  qed
qed simp

end

section \<open>Counters of termination markers\<close>

definition counts_keep :: "capdump_state \<Rightarrow> capdump_state \<Rightarrow> bool" where
  "counts_keep s s' \<longleftrightarrow> cd_marker_terminate_TO s' = cd_marker_terminate_TO s \<and>
     cd_marker_terminate s \<le> cd_marker_terminate s' \<and> cd_keep_running s' = cd_keep_running s"

lemma counts_keep_refl [simp]: "counts_keep s s"
  by (simp add: counts_keep_def)

lemma counts_keep_trans: "counts_keep s s' \<Longrightarrow> counts_keep s' s'' \<Longrightarrow> counts_keep s s''"
  by (simp add: counts_keep_def)

lemma create_dst_counts: "create_dst med fopen conf fn comment s = (ret, s') \<Longrightarrow> counts_keep s s'"
  by (auto simp: create_dst_def counts_keep_def split: prod.splits)

lemma open_next_counts:
  assumes "open_next med fopen conf mark s = Some (Inr (ret, s'))"
  shows "counts_keep s s'"
proof -
  obtain fn suf where g: "generate_filename conf (cd_exists s) (cd_suffix s) mark = Some (Inr (fn, suf))"
    using assms by (auto simp: open_next_def split: option.splits sum.splits)
  let ?s = "s\<lparr>cd_suffix := suf\<rparr>"
  have keep: "counts_keep s (close_dst ?s)" "counts_keep s ?s" by (simp_all add: counts_keep_def close_dst_def)
  show ?thesis
  proof (cases "cc_marker_mode conf = MARKER_APPEND \<and> fn = cd_output ?s")
    case True
    then show ?thesis using assms g keep(2) by (simp add: open_next_def Let_def split: if_split_asm)
  next
    case False
    then obtain comment r where "create_dst med fopen conf fn comment (close_dst ?s) = (r, s')"
      using assms g unfolding open_next_def Let_def
      by (cases "if cc_marker_comment conf then cstr (mk_comment mark) else Inr (cc_comment conf)") (auto split: prod.split_asm)
    then show ?thesis using keep(1) create_dst_counts counts_keep_trans by blast
  qed
qed

lemma handle_marker_counts: "handle_marker med fopen conf mark s = Some (Inr (ret, s')) \<Longrightarrow> counts_keep s s'"
  by (auto simp: handle_marker_def dest: open_next_counts split: if_splits) (simp add: counts_keep_def)

lemma write_packet_counts: "write_packet med cp s = Inr (ret, s') \<Longrightarrow> counts_keep s s'"
  by (auto simp: write_packet_def counts_keep_def rbind_Inr_iff split: option.splits prod.splits)

lemma handle_marker_caphead_counts: "handle_marker_caphead med fopen conf junk cp s = Some (Inr (ret, s')) \<Longrightarrow> counts_keep s s'"
  by (auto simp: handle_marker_caphead_def dest: handle_marker_counts split: if_splits sum.splits option.splits)

lemma handle_marker_server_counts: "handle_marker_server med fopen conf junk d s = Some (Inr (ret, s')) \<Longrightarrow> counts_keep s s'"
  by (auto simp: handle_marker_server_def dest: handle_marker_counts split: if_splits sum.splits option.splits)

lemma capdump_packet_counts:
  assumes "capdump_packet med fopen conf junk n cp s = Some (Inr s')"
  shows "counts_keep s s'"
proof -
  obtain ret s1 where h: "handle_marker_caphead med fopen conf junk cp s = Some (Inr (ret, s1))"
    using assms by (auto simp: capdump_packet_def split: option.splits sum.splits)
  have "counts_keep s1 s'"
    using assms h by (auto simp: capdump_packet_def rbind_Inr_iff dest!: write_packet_counts split: if_splits)
      (simp_all add: counts_keep_def)
  then show ?thesis using handle_marker_caphead_counts [OF h] counts_keep_trans by blast
qed

lemma handle_udp_counts:
  assumes "handle_udp med fopen conf junk dummy now d s = Some (Inr (ret, s'))"
  shows "counts_keep s s'"
proof (cases "length d < sizeof_marker")
  case False
  then obtain r s1 where h: "handle_marker_server med fopen conf junk (take BUFSIZE d) s = Some (Inr (r, s1))"
    using assms by (auto simp: handle_udp_def Let_def split: option.splits sum.splits)
  have "counts_keep s1 s'"
    using assms h False by (auto simp: handle_udp_def Let_def rbind_Inr_iff dest!: write_packet_counts split: if_splits)
  then show ?thesis using handle_marker_server_counts [OF h] counts_keep_trans by blast
qed (use assms in \<open>simp add: handle_udp_def\<close>)

lemma capdump_step_counts:
  "capdump_step med fopen conf junk dummy e s = Some (Inr s') \<Longrightarrow> e \<noteq> Alarm \<Longrightarrow> counts_keep s s'"
  by (cases e) (auto dest!: capdump_packet_counts handle_udp_counts simp: counts_keep_def split: option.splits sum.splits if_splits)

lemma signal_closes_or_counts:
  assumes "0 < cd_marker_terminate s"
  shows "cd_dst (my_signalhandler conf s) = None \<or>
    cd_marker_terminate_TO s < cc_src_stream_count conf \<and> my_signalhandler conf s = s\<lparr>cd_marker_terminate_TO := cd_marker_terminate_TO s + 1\<rparr>"
  using assms by (auto simp: my_signalhandler_def handle_terminate_signal_def close_dst_def Let_def)

section \<open>Properties\<close>

text \<open>
  Claim C15. A capture file that contains markers is divided into files: the packets up to the first marker with the
  key are in the first file, and each of these markers starts another, named after the format, that begins with
  the packet of the marker. All packets are saved in their order, cut to the length they had on the wire. When
  the mode is to increment, no two of the files have the same name.
\<close>

theorem capdump_splits:
  assumes "file_holds fuel src ps" "divides fopen conf"
    and "split_files conf junk (cd_exists s) (cd_suffix s) (cd_output s) [] ps = Some files" "''/dev/stdout'' \<notin> fst ` set files"
    and "cd_dst s = Some d" "at_end (file_image (cc_mpid conf) (cc_comment conf) []) d" "cd_closed s = []"
    and "\<forall>p\<in>set ps. \<exists>r. is_marker (ch_payload p) (Some junk) (cc_marker conf) = Inr r"
    and "cd_keep_running s" "\<not> cd_done s" "length ps < n"
  shows "\<exists>src' s' d'. capdump_loop n good_medium fopen conf junk (file_read fuel good_medium) st_stat_read (src, s) = Some (Inr (src', s')) \<and>
    cd_dst s' = Some d' \<and> list_all2 (wrote conf) (cd_closed s' @ [(cd_output s', d')]) files \<and>
    (cc_marker_mode conf = MARKER_INCREMENT \<and> cd_exists s (cd_output s) \<longrightarrow> distinct (map fst files))"
proof -
  have "wrote conf (cd_output s, d) (cd_output s, [])" using assms(6) by (simp add: wrote_def)
  moreover have "list_all2 (wrote conf) (cd_closed s) []" using assms(7) by simp
  ultimately show ?thesis
    using capture_file.capdump_loop_divides [OF assms(1-5) _ _ assms(8-11), of "[]"] split_files_fresh [OF assms(3)] by fastforce
qed

definition sample_conf :: capdump_conf where
  "sample_conf = \<lparr>cc_marker = 4000, cc_marker_key = 7, cc_marker_mode = MARKER_INCREMENT, cc_marker_format = ''%f-%x-%03s.%e'',
     cc_marker_comment = False, cc_marker_quit = False, cc_comment = ''sample'', cc_mpid = ''mp'', cc_basename = ''out'',
     cc_extension = ''cap'', cc_max_packets = 0, cc_src_stream_count = 1\<rparr>"

definition sample_mark :: marker where
  "sample_mark = (initial_marker 0)\<lparr>mk_exp_id := 1, mk_key_id := 7, mk_seq_num := 2\<rparr>"

definition marker_packet :: "timepico \<Rightarrow> cap_header" where
  "marker_packet t = \<lparr>ch_nic = replicate 8 NUL, ch_mampid = replicate 8 NUL, ch_ts = t, ch_len = 138, ch_caplen = 138,
     ch_payload = marker_frame 4000 (marker_bytes (network_order sample_mark))\<rparr>"

definition sample_state :: "stream_file stream \<Rightarrow> capdump_state" where
  "sample_state d = \<lparr>cd_dst = Some d, cd_output = ''out.cap'', cd_closed = [], cd_exists = (\<lambda>fn. fn = ''out.cap''), cd_suffix = 1,
     cd_marker_terminate = 0, cd_marker_terminate_TO = 0, cd_keep_running = True, cd_done = False\<rparr>"

lemma marker_packet_file:
  "length (marker_frame 4000 (marker_bytes (network_order sample_mark))) = 138" "packet_wf (marker_packet t)"
  "length (packet_bytes (marker_packet t)) = 174"
proof -
  show l: "length (marker_frame 4000 (marker_bytes (network_order sample_mark))) = 138"
    by (simp add: marker_frame_def marker_bytes_def sample_mark_def initial_marker_def network_order_def bytes16_def bytes32_def bytes64_def)
  then show "packet_wf (marker_packet t)" by (simp add: packet_wf_def header_wf_def marker_packet_def)
  then show "length (packet_bytes (marker_packet t)) = 174"
    using l length_cap_header_bytes [of "marker_packet t"] by (simp add: packet_bytes_def packet_wf_def) (simp add: marker_packet_def)
qed

lemma sample_marker:
  "is_marker (ch_payload (marker_packet t)) (Some sample_mark) 4000 = Inr (4000, Some sample_mark)"
  "is_marker (ch_payload (zero_packet t)) (Some sample_mark) 4000 = Inr (0, Some sample_mark)"
proof -
  have "be64toh 0 = 0" by (simp add: be64toh_def ntohl_def le32_def le64_def)
  then have "sample_mark\<lparr>mk_timestamp := be64toh (mk_timestamp sample_mark), mk_comment := mk_comment sample_mark\<rparr> = sample_mark"
    by (simp add: sample_mark_def initial_marker_def)
  then show "is_marker (ch_payload (marker_packet t)) (Some sample_mark) 4000 = Inr (4000, Some sample_mark)"
    using is_marker_frame [of sample_mark 4000 4000 sample_mark] by (simp add: marker_packet_def) (simp add: sample_mark_def initial_marker_def)
  have "h_proto (replicate 82 0) = Inr 0" by (simp add: h_proto_def rd16_in le16_def ntohs_def)
  then show "is_marker (ch_payload (zero_packet t)) (Some sample_mark) 4000 = Inr (0, Some sample_mark)"
    by (simp add: zero_packet_def is_marker_def find_ipv4_header_def find_ipv4_header_int_def ipv4_retry.simps packet_consts)
qed

lemma sample_name: "generate_filename sample_conf (\<lambda>fn. fn = ''out.cap'') 1 sample_mark = Some (Inr (''out-1-002.cap'', 1))"
proof -
  have "atoi ''03'' = 3" by (simp add: atoi_def strtoll_def isspace_def isdigit_def c_int_def)
  moreover have "dec 1 = ''1''" "dec 2 = ''2''" by (simp_all add: dec.simps digit_char_def char_of_eq_iff)
  then have "dec_field True 3 2 = ''002''" "dec_field False 0 1 = ''1''" "atoi [] = 0"
    by (simp_all add: dec_field_def dec_int_def atoi_def strtoll_def c_int_def numeral_2_eq_2)
  ultimately have "expand sample_conf sample_mark [] ''%f-%x-%03s.%e'' = Inr ''out-1-002.cap''"
    by (simp add: name_size_def isdigit_def field_text_def sample_conf_def sample_mark_def)
  then show ?thesis by (simp add: generate_filename_def sample_conf_def free_name.simps)
qed

theorem capdump_splits_witness:
  "\<exists>d src' s' d'. capdump_loop 4 good_medium (\<lambda>_. Inr empty_file) sample_conf sample_mark (file_read 500 good_medium) st_stat_read
      (opened_file [zero_packet (timepico_new 1 0), marker_packet (timepico_new 2 0), zero_packet (timepico_new 3 0)], sample_state d) =
      Some (Inr (src', s')) \<and> cd_dst s' = Some d' \<and>
    list_all2 (wrote sample_conf) (cd_closed s' @ [(cd_output s', d')])
      [(''out.cap'', [truncated (zero_packet (timepico_new 1 0))]),
       (''out-1-002.cap'', [truncated (marker_packet (timepico_new 2 0)), truncated (zero_packet (timepico_new 3 0))])] \<and>
    (cc_marker_mode sample_conf = MARKER_INCREMENT \<and> cd_exists (sample_state d) (cd_output (sample_state d)) \<longrightarrow>
      distinct (map fst [(''out.cap'', [truncated (zero_packet (timepico_new 1 0))]),
       (''out-1-002.cap'', [truncated (marker_packet (timepico_new 2 0)), truncated (zero_packet (timepico_new 3 0))])]))"
proof -
  let ?ps = "[zero_packet (timepico_new 1 0), marker_packet (timepico_new 2 0), zero_packet (timepico_new 3 0)]"
  let ?files = "[(''out.cap'', [truncated (zero_packet (timepico_new 1 0))]),
       (''out-1-002.cap'', [truncated (marker_packet (timepico_new 2 0)), truncated (zero_packet (timepico_new 3 0))])]"
  obtain d where d: "at_end (file_image (cc_mpid sample_conf) (cc_comment sample_conf) []) d" using create_image by blast
  have h: "file_holds 500 (opened_file ?ps) ?ps"
    using peek_stream_facts(3) marker_packet_file packet_bytes_zero
    by (intro opened_file_holds_packets) (simp_all add: zero_packet_def marker_packet_def)
  have v: "divides (\<lambda>_. Inr empty_file) sample_conf" by (simp add: divides_def sample_conf_def)
  have c: "cc_marker sample_conf = 4000" by (simp add: sample_conf_def)
  have st: "start_marker sample_conf sample_mark (marker_packet t) = Some sample_mark" "start_marker sample_conf sample_mark (zero_packet t) = None" for t
    using sample_marker [of t] c by (simp_all add: start_marker_def validate_key_def)
      (simp_all add: sample_conf_def sample_mark_def initial_marker_def)
  have "split_files sample_conf sample_mark (cd_exists (sample_state d)) (cd_suffix (sample_state d)) (cd_output (sample_state d)) [] ?ps = Some ?files"
    using st sample_name by (simp add: sample_state_def)
  from capdump_splits [OF h v this, of d 4] d sample_marker c show ?thesis
    by - (rule exI [of _ d], simp add: sample_state_def)
qed

text \<open>
  Claim C16. Whatever packets and datagrams arrive in between, once a termination marker has been counted the file is
  closed within as many signals of the timer as there are sources, plus one (or the loop has been left before).
\<close>

theorem capdump_terminates:
  assumes "capdump_run med fopen conf junk dummy es s = Some (Inr s')" "0 < cd_marker_terminate s"
    and "cd_keep_running s" "\<not> cd_done s"
    and "nat (cc_src_stream_count conf - cd_marker_terminate_TO s) < length [e\<leftarrow>es. e = Alarm]"
  shows "\<exists>k s1. k \<le> length es \<and> capdump_run med fopen conf junk dummy (take k es) s = Some (Inr s1) \<and> (cd_dst s1 = None \<or> cd_done s1)"
  using assms
proof (induction es arbitrary: s)
  case (Cons e es)
  then obtain s1 where s1: "capdump_step med fopen conf junk dummy e s = Some (Inr s1)"
    "capdump_run med fopen conf junk dummy es s1 = Some (Inr s')"
    by (auto split: option.splits sum.splits)
  have run: "capdump_run med fopen conf junk dummy (take (Suc k) (e # es)) s = capdump_run med fopen conf junk dummy (take k es) s1" for k
    using s1(1) Cons.prems(3,4) by simp
  show ?case
  proof (cases "cd_dst s1 = None \<or> cd_done s1")
    case True
    then show ?thesis using run [of 0] by (intro exI [of _ 1] exI [of _ s1]) simp
  next
    case False
    have "\<exists>k s2. k \<le> length es \<and> capdump_run med fopen conf junk dummy (take k es) s1 = Some (Inr s2) \<and> (cd_dst s2 = None \<or> cd_done s2)"
    proof (cases "e = Alarm")
      case True
      then have "cd_marker_terminate_TO s < cc_src_stream_count conf" "s1 = s\<lparr>cd_marker_terminate_TO := cd_marker_terminate_TO s + 1\<rparr>"
        using signal_closes_or_counts [OF Cons.prems(2), of conf] s1(1) False by auto
      then show ?thesis using Cons.prems True by (intro Cons.IH [OF s1(2)]) auto
    next
      case neq: False
      then show ?thesis
        using capdump_step_counts [OF s1(1)] Cons.prems False by (intro Cons.IH [OF s1(2)]) (auto simp: counts_keep_def)
    qed
    then obtain k s2 where "k \<le> length es" "capdump_run med fopen conf junk dummy (take k es) s1 = Some (Inr s2)" "cd_dst s2 = None \<or> cd_done s2"
      by blast
    then show ?thesis using run [of k] by (intro exI [of _ "Suc k"] exI [of _ s2]) simp
  qed
qed simp

theorem capdump_terminates_witness:
  "\<exists>d k s1. k \<le> length [Alarm, Alarm] \<and> capdump_run good_medium (\<lambda>_. Inr empty_file) sample_conf sample_mark (zero_packet (timepico_new 0 0))
      (take k [Alarm, Alarm]) ((sample_state d)\<lparr>cd_marker_terminate := 1\<rparr>) = Some (Inr s1) \<and> (cd_dst s1 = None \<or> cd_done s1)"
proof -
  fix d :: "stream_file stream"
  let ?s = "(sample_state d)\<lparr>cd_marker_terminate := 1\<rparr>"
  have "\<exists>s'. capdump_run good_medium (\<lambda>_. Inr empty_file) sample_conf sample_mark (zero_packet (timepico_new 0 0)) [Alarm, Alarm] ?s = Some (Inr s')"
    by (simp add: sample_state_def my_signalhandler_def handle_terminate_signal_def close_dst_def sample_conf_def)
  then obtain s' where "capdump_run good_medium (\<lambda>_. Inr empty_file) sample_conf sample_mark (zero_packet (timepico_new 0 0)) [Alarm, Alarm] ?s = Some (Inr s')" ..
  from capdump_terminates [OF this] show ?thesis by (simp add: sample_state_def sample_conf_def) blast
qed

text \<open>
  A marker that arrives by UDP is put into a packet that is recognised as a marker on the port of the socket when
  the file is read again.
\<close>

lemma length_put_at: "pos + length bs \<le> length m \<Longrightarrow> length (put_at pos bs m) = length m"
  by (simp add: put_at_def)

lemma nth_put_at:
  assumes "pos + length bs \<le> length m" "i < length m"
  shows "put_at pos bs m ! i = (if i < pos then m ! i else if i < pos + length bs then bs ! (i - pos) else m ! i)"
  using assms by (auto simp: put_at_def nth_append)

lemma setup_udp_bytes:
  assumes "length (ch_payload packet) = 138" "m = ch_payload (setup_udp portno packet)"
  shows "length m = 138" "m ! 12 = 8" "m ! 13 = 0" "m ! 14 = 0x45" "m ! 23 = 17"
    "m ! 34 = bytes16 (htons MARKERPORT) ! 0" "m ! 35 = bytes16 (htons MARKERPORT) ! 1"
    "m ! 36 = bytes16 (htons portno) ! 0" "m ! 37 = bytes16 (htons portno) ! 1"
proof -
  have l: "length (bytes16 w) = 2" for w by (simp add: bytes16_def)
  have b: "bytes16 (htons ETHERTYPE_IP) = [8, 0]" by (simp add: bytes16_def ntohs_def le16_def packet_consts)
  show "length m = 138" "m ! 12 = 8" "m ! 13 = 0" "m ! 14 = 0x45" "m ! 23 = 17"
    "m ! 34 = bytes16 (htons MARKERPORT) ! 0" "m ! 35 = bytes16 (htons MARKERPORT) ! 1"
    "m ! 36 = bytes16 (htons portno) ! 0" "m ! 37 = bytes16 (htons portno) ! 1"
    using assms by (simp_all add: setup_udp_def length_put_at nth_put_at l b IPPROTO_UDP_def)
qed

lemma capdump_relay_detected:
  assumes "length (ch_payload packet) = 138" "mk_magic mk = MARKER_MAGIC" "length (mk_comment mk) = 64"
    and "port = 0 \<or> port = int (unat portno)"
  shows "is_marker (put_at 42 (marker_bytes (network_order mk)) (ch_payload (setup_udp portno packet))) (Some ptr) port =
    Inr (int (unat portno), Some (mk\<lparr>mk_timestamp := be64toh (mk_timestamp mk), mk_comment := mk_comment ptr\<rparr>))"
proof -
  let ?d = "ch_payload (setup_udp portno packet)" and ?b = "marker_bytes (network_order mk)"
  let ?m = "put_at 42 ?b ?d"
  note d = setup_udp_bytes [OF assms(1) refl, of portno]
  have lb: "length ?b = 96" using assms(3) by (simp add: marker_bytes_def network_order_def bytes16_def bytes32_def bytes64_def)
  have m: "?m = take 42 ?d @ ?b @ []" "length (take 42 ?d) = 42" using d(1) lb by (simp_all add: put_at_def)
  have n: "?m ! i = ?d ! i" if "i < 42" for i using that d(1) lb by (simp add: nth_put_at)
  have l: "length ?m = 138" using d(1) lb by (simp add: length_put_at)
  have w: "le16 (bytes16 x ! 0) (bytes16 x ! 1) = x" for x using le16_bytes16 [of x] by (simp add: bytes16_def)
  have r: "rd16 ?m 12 = Inr 8" "rd8 ?m 14 = Inr 0x45" "rd8 ?m 23 = Inr 17"
    "rd16 ?m 34 = Inr (htons MARKERPORT)" "rd16 ?m 36 = Inr (htons portno)"
    using l n d(2-9) w by (simp_all add: rd8_in rd16_in le16_def)
  have 1: "ntohs 8 = ETHERTYPE_IP" "ntohs 8 \<noteq> 0x8100" by (simp_all add: ntohs_def le16_def packet_consts)
  have 2: "ip_hl ?m 14 = Inr 5" by (simp add: ip_hl_def r)
  have "find_ipv4_header ?m = Inr (Some (14, 34))"
    using 1 2 by (simp add: find_ipv4_header_def find_ipv4_header_int_def h_proto_def r ipv4_retry.simps sizeof_ethhdr_def)
  moreover have "find_udp_header ?m (Some 14) (Some (0, 0)) = Inr (Some 34, Some (MARKERPORT, portno))"
    using 1 2 by (simp add: find_udp_header_def find_transport_header_def ip_p_def r find_ipproto_header_def h_proto_def
        sizeof_ethhdr_def IPPROTO_UDP_def)
  ultimately show ?thesis using is_marker_behind [OF assms(2,4) m] by blast
qed

text \<open>Between the end of saving and the next marker nothing is saved.\<close>

lemma capdump_paused:
  assumes "capdump_packet med fopen conf junk n cp s = Some (Inr s')" "cd_dst s = None" "start_marker conf junk cp = None"
  shows "cd_dst s' = None \<and> cd_closed s' = cd_closed s"
  using assms
  by (auto simp: capdump_packet_def handle_marker_caphead_def handle_marker_def start_marker_def write_packet_def
      split: option.split_asm sum.split_asm if_split_asm)

text \<open>Without a key no marker is accepted, although the help says that this is the normal behaviour.\<close>

lemma capdump_key_required: "cc_marker_key conf = 0 \<Longrightarrow> handle_marker med fopen conf mark s = Some (Inr (0, s))"
  by (simp add: handle_marker_def validate_key_def)

text \<open>The comment of a marker is not read: \<open>--marker-comment\<close> gives the file what the variable held before.\<close>

lemma fill_marker_comment: "fill_marker m off ptr = Inr mark \<Longrightarrow> mk_comment mark = mk_comment ptr"
  by (auto simp: fill_marker_def rbind_Inr_iff)

lemma capdump_comment_unset: "is_marker_udp m off (Some junk) = Inr (r, Some mark) \<Longrightarrow> mk_comment mark = mk_comment junk"
  by (auto simp: is_marker_udp_def rbind_Inr_iff dest: fill_marker_comment split: if_split_asm)

text \<open>A datagram that is longer than a marker is written behind the packet it is copied to.\<close>

lemma capdump_udp_overflow:
  assumes "sizeof_marker < length dgram" "handle_marker_server med fopen conf junk (take BUFSIZE dgram) s = Some (Inr (0, s'))"
  shows "handle_udp med fopen conf junk packet now dgram s = Some (Inl Out_of_bounds)"
  using assms by (simp add: handle_udp_def Let_def sizeof_marker_def BUFSIZE_def min_def)

text \<open>A path with a dot in a directory is split there.\<close>

lemma set_destination_directory: "set_destination ''./out.cap'' = ([], ''/out.cap'')"
  by (simp add: set_destination_def)

text \<open>A width of four digits is read without a terminator.\<close>

lemma expand_width_unterminated: "expand conf mark [] ''%0010s'' = Inl Out_of_bounds"
  by (simp add: name_size_def isdigit_def)

end
