(* ===== verification/Protocol_Dump.thy ===== *)
theory Protocol_Dump
  imports Protocol_Format
begin

text \<open>
  The long form of a header: the \<open>dump\<close> function of every protocol under \<open>src/protocols/\<close> and \<open>src/format/\<close>, one
  line for each field, and \<open>header_dump\<close> of \<open>src/packet.c\<close>, which calls the one of the header that the walk is at. As
  in \<open>Protocol_Format\<close> the output is the string that is written and \<open>ptr\<close> is the offset of the header.
\<close>

type_synonym dump_fun = "header_chunk \<Rightarrow> nat \<Rightarrow> string \<Rightarrow> string res"

text \<open>A line: the prefix, the label as the code spells it with its spaces, the value.\<close>

definition dump_line :: "string \<Rightarrow> string \<Rightarrow> string \<Rightarrow> string" where
  "dump_line prefix label v = prefix @ label @ v @ [CHR 0x0a]"

definition yes_no :: "bool \<Rightarrow> string" where
  "yes_no b = (if b then ''yes'' else ''no'')"

text \<open>What is written for a header of which too little was captured, most of the time without an end of line.\<close>

definition limited_dump :: "string \<Rightarrow> string" where
  "limited_dump prefix = prefix @ ''[Packet size limited during capture]''"

section \<open>Link layer\<close>

definition ethernet_dump :: dump_fun where
  "ethernet_dump h ptr prefix =
     rbind (rdn (hc_mem h) (ptr + 6) 6) (\<lambda>src.
     rbind (rdn (hc_mem h) ptr 6) (\<lambda>dst.
     rbind (rd16 (hc_mem h) (ptr + 12)) (\<lambda>w.
       Inr (dump_line prefix ''h_source:           '' (hexdump_address src) @
            dump_line prefix ''h_dest:             '' (hexdump_address dst) @
            dump_line prefix ''h_proto:            0x'' (hex_pad 4 (unat (ntohs w)))))))"

definition vlan_dump :: dump_fun where
  "vlan_dump h ptr prefix =
     rbind (rd16 (hc_mem h) ptr) (\<lambda>w.
       let tci = ntohs w in
       Inr (dump_line prefix ''TCI:                0x'' (hex_pad 2 (unat tci)) @
            dump_line prefix ''PCP:                '' (dec (unat (drop_bit 13 (0xE000 AND tci)))) @
            dump_line prefix ''DEI/CFI:            '' (dec (unat (drop_bit 12 (0x1000 AND tci)))) @
            dump_line prefix ''VID:                '' (dec (unat (0x0FFF AND tci)))))"

definition arp_format_table :: "(nat \<times> string option) list" where
  "arp_format_table = [(1, Some ''Ethernet''), (0, None)]"

definition arp_op_table :: "(nat \<times> string option) list" where
  "arp_op_table = [(1, Some ''ARP Request''), (2, Some ''ARP Reply''), (3, Some ''RARP Request''), (4, Some ''RARP Reply''),
     (8, Some ''InARP Request''), (9, Some ''InARP Reply''), (10, Some ''ARP NAK''), (0, None)]"

text \<open>The number of captured bytes is compared with the size of an ethernet header.\<close>

definition arp_dump :: dump_fun where
  "arp_dump h ptr prefix =
     (if limited_caplen (hc_cp h) (Some ptr) 14 then Inr (limited_dump prefix @ [CHR 0x0a])
      else
        rbind (rd16 (hc_mem h) ptr) (\<lambda>hrd.
        rbind (rd16 (hc_mem h) (ptr + 6)) (\<lambda>w.
        rbind (name_lookup arp_format_table (unat (ntohs hrd)) ''unknown'') (\<lambda>format.
        rbind (rd16 (hc_mem h) (ptr + 2)) (\<lambda>pro.
        rbind (rd8 (hc_mem h) (ptr + 4)) (\<lambda>hln.
        rbind (rd8 (hc_mem h) (ptr + 5)) (\<lambda>pln.
        rbind (name_lookup arp_op_table (unat (ntohs w)) ''unknown'') (\<lambda>op.
          Inr (dump_line prefix ''ar_hrd:             '' (dec (unat (ntohs hrd)) @ '' ('' @ format @ '')'') @
               dump_line prefix ''ar_pro:             '' (dec (unat (ntohs pro))) @
               dump_line prefix ''ar_hln:             '' (dec (unat hln) @ '' bytes'') @
               dump_line prefix ''ar_pln:             '' (dec (unat pln) @ '' bytes'') @
               dump_line prefix ''ar_op:              0x'' (hex_pad 4 (unat (ntohs w)) @ '' ('' @ op @ '')''))))))))))"

definition cdp_dump :: dump_fun where
  "cdp_dump h ptr prefix = Inr []"

definition stp_dump :: dump_fun where
  "stp_dump h ptr prefix = Inr []"

definition data_dump :: dump_fun where
  "data_dump h ptr prefix = Inr []"

section \<open>Network layer and tunnels\<close>

definition ipv4_dump :: dump_fun where
  "ipv4_dump h ptr prefix =
     (let m = hc_mem h in
      rbind (rd32 m (ptr + 12)) (\<lambda>src.
      rbind (rd32 m (ptr + 16)) (\<lambda>dst.
      rbind (rd8 m ptr) (\<lambda>b.
      rbind (rd8 m (ptr + 1)) (\<lambda>tos.
      rbind (rd16 m (ptr + 2)) (\<lambda>len.
      rbind (rd16 m (ptr + 4)) (\<lambda>ident.
      rbind (rd16 m (ptr + 6)) (\<lambda>w.
      rbind (rd8 m (ptr + 8)) (\<lambda>ttl.
      rbind (rd8 m (ptr + 9)) (\<lambda>p.
      rbind (rd16 m (ptr + 10)) (\<lambda>sum.
        let hl = unat (b AND 0x0F); off = ntohs w in
        Inr (dump_line prefix ''ip_v:               '' (dec (unat (drop_bit 4 b))) @
             dump_line prefix ''ip_hl:              '' (dec hl @ '' ('' @ dec (4 * hl) @ '' octets)'') @
             dump_line prefix ''ip_tos:             '' (dec (unat tos)) @
             dump_line prefix ''ip_len:             '' (dec (unat (ntohs len))) @
             dump_line prefix ''ip_id:              '' (dec (unat (ntohs ident))) @
             dump_line prefix ''ip_off:             0x'' (zero_pad 4 (dec (unat off))) @
             dump_line prefix ''  RF:               '' (yes_no (off AND 0x8000 \<noteq> 0)) @
             dump_line prefix ''  DF:               '' (yes_no (off AND 0x4000 \<noteq> 0)) @
             dump_line prefix ''  MF:               '' (yes_no (off AND 0x2000 \<noteq> 0)) @
             dump_line prefix ''  bits:             0x'' (hex_pad 4 (unat (off AND 0x1fff))) @
             dump_line prefix ''ip_ttl:             '' (dec (unat ttl)) @
             dump_line prefix ''ip_p:               '' (dec (unat p)) @
             dump_line prefix ''ip_sum:             '' (dec (unat (ntohs sum))) @
             dump_line prefix ''ip_src:             '' (inet_ntoa src) @
             dump_line prefix ''ip_dst:             '' (inet_ntoa dst)))))))))))))"

definition ipv6_dump :: dump_fun where
  "ipv6_dump h ptr prefix =
     (let m = hc_mem h in
      rbind (rdn m (ptr + 8) 16) (\<lambda>src.
      rbind (rdn m (ptr + 24) 16) (\<lambda>dst.
      rbind (rd8 m ptr) (\<lambda>vfc.
      rbind (rd32 m ptr) (\<lambda>flow.
      rbind (rd16 m (ptr + 4)) (\<lambda>plen.
      rbind (rd8 m (ptr + 6)) (\<lambda>nxt.
      rbind (rd8 m (ptr + 7)) (\<lambda>hops.
        Inr (dump_line prefix ''ip6_vfc:            '' (dec (unat vfc)) @
             dump_line prefix ''ip6_flow:           0x'' (hex_pad 4 (unat (ntohl flow))) @
             dump_line prefix ''ip6_plen:           '' (dec (unat (ntohs plen)) @ '' octets'') @
             dump_line prefix ''ip6_nxt             '' (dec (unat nxt)) @
             dump_line prefix ''ip6_hops:           '' (dec (unat hops)) @
             dump_line prefix ''ip6_src:            '' (inet_ntop6 src) @
             dump_line prefix ''ip6_dst:            '' (inet_ntop6 dst))))))))))"

text \<open>The labels of GRE are followed by two tabulators and a space.\<close>

definition gre_line :: "string \<Rightarrow> string \<Rightarrow> nat \<Rightarrow> string" where
  "gre_line prefix label v = dump_line prefix (label @ [CHR 0x09, CHR 0x09, CHR '' '']) (dec v)"

definition gre_dump :: dump_fun where
  "gre_dump h ptr prefix =
     rbind (rd32 (hc_mem h) ptr) (\<lambda>w.
       let val = ntohl w; field = (\<lambda>i n. unat (take_bit n (drop_bit i val))) in
       Inr (gre_line prefix ''checksum       '' (field 31 1) @
            gre_line prefix ''routing        '' (field 30 1) @
            gre_line prefix ''key            '' (field 29 1) @
            gre_line prefix ''sequence       '' (field 28 1) @
            gre_line prefix ''strict         '' (field 27 1) @
            gre_line prefix ''recursion      '' (field 24 3) @
            gre_line prefix ''reserved       '' (field 19 5) @
            gre_line prefix ''version        '' (field 16 3) @
            gre_line prefix ''proto          '' (field 0 16)))"

definition mpls_dump :: dump_fun where
  "mpls_dump h ptr prefix =
     rbind (rd32 (hc_mem h) ptr) (\<lambda>w.
       let val = ntohl w in
       Inr (dump_line prefix ''label:              '' (dec (unat (drop_bit 12 val))) @
            dump_line prefix ''experimental:       '' (dec (unat (drop_bit 9 val AND 7))) @
            dump_line prefix ''bottom:             '' (yes_no (bit val 8)) @
            dump_line prefix ''TTL:                '' (dec (unat (val AND 0xff)))))"

definition pw_dump :: dump_fun where
  "pw_dump h ptr prefix =
     rbind (rd32 (hc_mem h) ptr) (\<lambda>w. Inr (dump_line prefix ''sequence:           '' (dec (unat (ntohl w AND 0xffff)))))"

definition gtp_message_names :: "(nat \<times> string) list" where
  "gtp_message_names = [
     (0, ''Reserved''), (1, ''Echo Request''), (2, ''Echo Response''), (3, ''Version Not Supported''),
     (4, ''Node Alive Request''), (5, ''Node Alive Response''), (6, ''Redirection Request''), (7, ''Redirection Response''),
     (16, ''Create PDP Context Request''), (17, ''Create PDP Context Response''), (18, ''Update PDP Context Request''),
     (19, ''Update PDP Context Response''), (20, ''Delete PDP Context Request''), (21, ''Delete PDP Context Response''),
     (26, ''Error Indication''), (27, ''PDU Notification Request''), (28, ''PDU Notification Response''),
     (29, ''PDU Notification Reject Request''), (30, ''PDU Notification Reject Response''),
     (31, ''Supported Extension Headers Notification''), (32, ''Send Routeing Information for GPRS Request''),
     (33, ''Send Routeing Information for GPRS Response''), (34, ''Failure Report Request''), (35, ''Failure Report Response''),
     (36, ''Note MS GPRS Present Request''), (37, ''Note MS GPRS Present Response''), (48, ''Identification Request''),
     (49, ''Identification Response''), (50, ''SGSN Context Request''), (51, ''SGSN Context Response''),
     (52, ''SGSN Context Acknowledge''), (53, ''Forward Relocation Request''), (54, ''Forward Relocation Response''),
     (55, ''Forward Relocation Complete''), (56, ''Relocation Cancel Request''), (57, ''Relocation Cancel Response''),
     (58, ''Forward SRNS Context''), (59, ''Forward Relocation Complete Acknowledge''),
     (60, ''Forward SRNS Context Acknowledge''), (240, ''Data Record Transfer Request''),
     (241, ''Data Record Transfer Response''), (255, ''T-PDU'')]"

text \<open>The message lies at the same place in all versions.\<close>

definition gtp_message_type :: "mem \<Rightarrow> nat \<Rightarrow> u8 res" where
  "gtp_message_type m ptr = rbind (rd8 m ptr) (\<lambda>b. rbind (gtp_version_of b) (\<lambda>_. rd8 m (ptr + 1)))"

definition gtp_message_type_str :: "u8 \<Rightarrow> string" where
  "gtp_message_type_str type =
     (case map_of gtp_message_names (unat type) of Some s \<Rightarrow> s | None \<Rightarrow> ''Unknown'')"

text \<open>The fields of version 1; the optional ones are read only when their flag is set.\<close>

definition gtp_v1_dump :: "mem \<Rightarrow> u8 \<Rightarrow> nat \<Rightarrow> string \<Rightarrow> string res" where
  "gtp_v1_dump m b ptr prefix =
     rbind (if bit b 1 then rbind (rd16 m (ptr + 8)) (\<lambda>w. Inr (''0x'' @ zero_pad 4 (dec (unat (ntohs w))))) else Inr ''no'') (\<lambda>seqnum.
     rbind (if bit b 0 then rbind (rd8 m (ptr + 10)) (\<lambda>n. Inr (''0x'' @ zero_pad 2 (dec (unat n)))) else Inr ''no'') (\<lambda>npdu.
     rbind (rd16 m (ptr + 2)) (\<lambda>len.
     rbind (rd32 m (ptr + 4)) (\<lambda>teid.
       Inr (dump_line prefix ''pt:                 '' (dec (if bit b 4 then 1 else 0)) @
            dump_line prefix ''extensions:         '' (if bit b 2 then ''yes (not shown)'' else ''no'') @
            dump_line prefix ''sequence num.:      '' seqnum @
            dump_line prefix ''npdu:               '' npdu @
            dump_line prefix ''length:             '' (dec (unat (ntohs len)) @ '' octets'') @
            dump_line prefix ''teid:               0x'' (hex_pad 8 (unat (ntohl teid))))))))"

definition gtp_dump :: dump_fun where
  "gtp_dump h ptr prefix =
     rbind (rd8 (hc_mem h) ptr) (\<lambda>b.
     rbind (gtp_message_type (hc_mem h) ptr) (\<lambda>type.
     rbind (gtp_version_of b) (\<lambda>v.
       emit (dump_line prefix ''version:            0x'' (hex_pad 2 (unat (drop_bit 5 b))) @
             dump_line prefix ''message type:       '' (gtp_message_type_str type @ '' (0x'' @ hex_pad 2 (unat type) @ '')''))
         (case v of GTPv1 \<Rightarrow> gtp_v1_dump (hc_mem h) b ptr prefix | GTPv2 \<Rightarrow> Inr [] | GTPvP \<Rightarrow> Inr []))))"

section \<open>Control protocols\<close>

definition icmp_dump :: dump_fun where
  "icmp_dump h ptr prefix =
     rbind (rd8 (hc_mem h) ptr) (\<lambda>type.
     rbind (rd8 (hc_mem h) (ptr + 1)) (\<lambda>code.
       Inr (dump_line prefix ''type:               '' (dec (unat type)) @
            dump_line prefix ''code:               '' (dec (unat code)))))"

text \<open>IGMP and OSPF compare the number of captured bytes with the size of a TCP header.\<close>

definition igmp_dump :: dump_fun where
  "igmp_dump h ptr prefix =
     (if limited_caplen (hc_cp h) (Some ptr) 20 then Inr (limited_dump prefix)
      else
        rbind (rd8 (hc_mem h) ptr) (\<lambda>t.
        rbind (rd8 (hc_mem h) (ptr + 1)) (\<lambda>time.
        rbind (rd32 (hc_mem h) (ptr + 4)) (\<lambda>group.
          Inr (dump_line prefix ''type:                '' (igmp_type_name t @ '' ('' @ dec (unat t) @ '')'') @
               dump_line prefix ''max response time:   '' (dec (unat time)) @
               dump_line prefix ''group address:       0x'' (hex_pad 4 (unat (ntohl group))))))))"

definition ospf_dump :: dump_fun where
  "ospf_dump h ptr prefix =
     (if limited_caplen (hc_cp h) (Some ptr) 20 then Inr (limited_dump prefix)
      else
        rbind (rd8 (hc_mem h) ptr) (\<lambda>v.
        rbind (rd8 (hc_mem h) (ptr + 1)) (\<lambda>t.
        rbind (ospf_type_name t) (\<lambda>name.
        rbind (str_arg name) (\<lambda>s.
        rbind (rd16 (hc_mem h) (ptr + 2)) (\<lambda>len.
        rbind (rd32 (hc_mem h) (ptr + 4)) (\<lambda>router.
        rbind (rd32 (hc_mem h) (ptr + 8)) (\<lambda>area.
        rbind (rd16 (hc_mem h) (ptr + 12)) (\<lambda>sum.
        rbind (rd16 (hc_mem h) (ptr + 14)) (\<lambda>au.
          Inr (dump_line prefix ''version:             '' (dec (unat v)) @
               dump_line prefix ''type:                '' (s @ '' ('' @ dec (unat t) @ '')'') @
               dump_line prefix ''len:                 '' (dec (unat (ntohs len)) @ '' bytes'') @
               dump_line prefix ''router id:           0x'' (hex_pad 4 (unat (ntohl router))) @
               dump_line prefix ''area id:             0x'' (hex_pad 4 (unat (ntohl area))) @
               dump_line prefix ''checksum:            0x'' (hex_pad 2 (unat (ntohs sum))) @
               dump_line prefix ''autype:              '' (dec (unat (ntohs au))))))))))))))"

text \<open>The number of the domain is one byte, to which \<open>ntohs\<close> is applied.\<close>

definition ptpv2_dump :: dump_fun where
  "ptpv2_dump h ptr prefix =
     (if limited_caplen (hc_cp h) (Some ptr) 34 then Inr (limited_dump prefix)
      else
        rbind (rd8 (hc_mem h) ptr) (\<lambda>tspec.
        rbind (rd8 (hc_mem h) (ptr + 1)) (\<lambda>ver.
        rbind (rd16 (hc_mem h) (ptr + 2)) (\<lambda>len.
        rbind (rd8 (hc_mem h) (ptr + 4)) (\<lambda>domain.
          Inr (dump_line prefix ''tSpec:              '' (dec (unat tspec)) @
               dump_line prefix ''version:            '' (dec (unat ver)) @
               dump_line prefix ''length:             '' (dec (unat (ntohs len))) @
               dump_line prefix ''domain:             '' (dec (unat (ntohs (ucast domain))))))))))"

section \<open>Transport layer\<close>

definition udp_dump :: dump_fun where
  "udp_dump h ptr prefix =
     rbind (rd16 (hc_mem h) ptr) (\<lambda>s.
     rbind (rd16 (hc_mem h) (ptr + 2)) (\<lambda>d.
     rbind (rd16 (hc_mem h) (ptr + 4)) (\<lambda>len.
     rbind (rd16 (hc_mem h) (ptr + 6)) (\<lambda>sum.
       Inr (dump_line prefix ''source:             '' (dec (unat (ntohs s))) @
            dump_line prefix ''dest:               '' (dec (unat (ntohs d))) @
            dump_line prefix ''len:                '' (dec (unat (ntohs len))) @
            dump_line prefix ''check:              '' (dec (unat (ntohs sum))))))))"

text \<open>The byte with \<open>doff\<close> and \<open>res1\<close> and the byte with the flags and \<open>res2\<close>; the header length is written twice.\<close>

definition tcp_dump :: dump_fun where
  "tcp_dump h ptr prefix =
     (if limited_caplen (hc_cp h) (Some ptr) 20 then Inr (limited_dump prefix)
      else
        let m = hc_mem h in
        rbind (rd16 m ptr) (\<lambda>s.
        rbind (rd16 m (ptr + 2)) (\<lambda>d.
        rbind (rd32 m (ptr + 4)) (\<lambda>seq.
        rbind (rd32 m (ptr + 8)) (\<lambda>ack_seq.
        rbind (rd8 m (ptr + 12)) (\<lambda>b.
        rbind (rd8 m (ptr + 13)) (\<lambda>fl.
        rbind (rd16 m (ptr + 14)) (\<lambda>window.
        rbind (rd16 m (ptr + 16)) (\<lambda>sum.
        rbind (rd16 m (ptr + 18)) (\<lambda>urg.
          let flag = (\<lambda>i. dec (if bit fl i then 1 else 0)) in
          Inr (dump_line prefix ''source:             '' (dec (unat (ntohs s))) @
               dump_line prefix ''dest:               '' (dec (unat (ntohs d))) @
               dump_line prefix ''seq:                '' (dec (unat (ntohl seq))) @
               dump_line prefix ''seq_ack:            '' (dec (unat (ntohl ack_seq))) @
               dump_line prefix ''doff:               '' (dec (unat (drop_bit 4 b))) @
               dump_line prefix ''doff:               '' (dec (unat (drop_bit 4 b))) @
               dump_line prefix ''res1:               0x'' (hex (unat (b AND 0x0F))) @
               dump_line prefix ''res2:               0x'' (hex (unat (drop_bit 6 fl))) @
               dump_line prefix ''urg:                '' (flag 5) @
               dump_line prefix ''ack:                '' (flag 4) @
               dump_line prefix ''psh:                '' (flag 3) @
               dump_line prefix ''rst:                '' (flag 2) @
               dump_line prefix ''syn:                '' (flag 1) @
               dump_line prefix ''fin:                '' (flag 0) @
               dump_line prefix ''window:             '' (dec (unat (ntohs window))) @
               dump_line prefix ''check:              0x'' (hex_pad 4 (unat (ntohs sum))) @
               dump_line prefix ''urg:                '' (dec (unat (ntohs urg))))))))))))))"

definition sctp_dump :: dump_fun where
  "sctp_dump h ptr prefix =
     (if limited_caplen (hc_cp h) (Some ptr) 12 then Inr (limited_dump prefix)
      else
        rbind (rd16 (hc_mem h) ptr) (\<lambda>s.
        rbind (rd16 (hc_mem h) (ptr + 2)) (\<lambda>d.
        rbind (rd32 (hc_mem h) (ptr + 4)) (\<lambda>vtag.
        rbind (rd32 (hc_mem h) (ptr + 8)) (\<lambda>sum.
          Inr (dump_line prefix ''source:             '' (dec (unat (ntohs s))) @
               dump_line prefix ''dest:               '' (dec (unat (ntohs d))) @
               dump_line prefix ''seq:                '' (dec (unat (ntohl vtag))) @
               dump_line prefix ''seq_ack:            '' (dec (unat (ntohl sum)))))))))"

section \<open>The long form of a header\<close>

fun protocol_dump :: "u8 list \<Rightarrow> protocol_type \<Rightarrow> dump_fun option" where
  "protocol_dump junk PROTOCOL_UNKNOWN = None"
| "protocol_dump junk PROTOCOL_DATA = Some data_dump"
| "protocol_dump junk PROTOCOL_DONE = None"
| "protocol_dump junk PROTOCOL_ARP = Some arp_dump"
| "protocol_dump junk PROTOCOL_CDP = Some cdp_dump"
| "protocol_dump junk PROTOCOL_DNS = Some (dns_dump junk)"
| "protocol_dump junk PROTOCOL_ETHERNET = Some ethernet_dump"
| "protocol_dump junk PROTOCOL_GRE = Some gre_dump"
| "protocol_dump junk PROTOCOL_GTP = Some gtp_dump"
| "protocol_dump junk PROTOCOL_ICMP = Some icmp_dump"
| "protocol_dump junk PROTOCOL_IGMP = Some igmp_dump"
| "protocol_dump junk PROTOCOL_IPV4 = Some ipv4_dump"
| "protocol_dump junk PROTOCOL_IPV6 = Some ipv6_dump"
| "protocol_dump junk PROTOCOL_MPLS = Some mpls_dump"
| "protocol_dump junk PROTOCOL_OSPF = Some ospf_dump"
| "protocol_dump junk PROTOCOL_PTPv2 = Some ptpv2_dump"
| "protocol_dump junk PROTOCOL_PW = Some pw_dump"
| "protocol_dump junk PROTOCOL_SCTP = Some sctp_dump"
| "protocol_dump junk PROTOCOL_STP = Some stp_dump"
| "protocol_dump junk PROTOCOL_TCP = Some tcp_dump"
| "protocol_dump junk PROTOCOL_UDP = Some udp_dump"
| "protocol_dump junk PROTOCOL_VLAN = Some vlan_dump"

definition header_dump :: "u8 list \<Rightarrow> header_chunk \<Rightarrow> string \<Rightarrow> string res" where
  "header_dump junk h prefix =
     (case hc_protocol h of
        None \<Rightarrow> Inl Null_deref
      | Some t \<Rightarrow>
          (case protocol_get t of
             None \<Rightarrow> Inl Null_deref
           | Some p \<Rightarrow>
               (case protocol_dump junk t of
                  None \<Rightarrow> Inr (prefix @ ''(not implemented)'' @ [CHR 0x0a])
                | Some f \<Rightarrow>
                    if hc_truncated h then Inr (limited_dump prefix @ [CHR 0x0a])
                    else
                      rbind (ptr_sanity (hc_cp h) (hc_ptr h)) (\<lambda>_.
                        case hc_ptr h of None \<Rightarrow> Inl Null_deref | Some ptr \<Rightarrow> f h ptr prefix))))"

section \<open>Reading inside the captured bytes\<close>

text \<open>A table with an end gives a name for every value.\<close>

lemma name_lookup_ends: "(k, None) \<in> set tab \<Longrightarrow> \<exists>s. name_lookup tab v def = Inr s"
  by (induction tab v def rule: name_lookup.induct) auto

lemma rbind_ex: "\<exists>x. r = Inr x \<Longrightarrow> (\<And>x. \<exists>y. f x = Inr y) \<Longrightarrow> \<exists>y. rbind r f = Inr y"
  by auto

lemmas plain_dump_defs = data_dump_def cdp_dump_def stp_dump_def ethernet_dump_def gre_dump_def icmp_dump_def ipv4_dump_def
  mpls_dump_def pw_dump_def udp_dump_def vlan_dump_def

lemma plain_dump_total:
  assumes "protocol_get t = Some p" "protocol_dump junk t = Some f"
    and "t \<in> {PROTOCOL_DATA, PROTOCOL_CDP, PROTOCOL_STP, PROTOCOL_ETHERNET, PROTOCOL_GRE, PROTOCOL_ICMP, PROTOCOL_IPV4,
      PROTOCOL_MPLS, PROTOCOL_PW, PROTOCOL_UDP, PROTOCOL_VLAN}"
    and "ptr + pr_size p \<le> length (hc_mem h)"
  shows "\<exists>s. f h ptr prefix = Inr s"
  using assms by (cases t) (auto simp: proto_entry_def plain_dump_defs mem_simps Let_def)

lemma arp_dump_total:
  assumes "unat (ch_caplen (hc_cp h)) \<le> length (hc_mem h)"
  shows "\<exists>s. arp_dump h ptr prefix = Inr s"
proof -
  have "(0, None) \<in> set arp_format_table" "(0, None) \<in> set arp_op_table"
    by (simp_all add: arp_format_table_def arp_op_table_def)
  note ends = this [THEN name_lookup_ends]
  show ?thesis using assms by (auto simp: arp_dump_def limited_caplen_def mem_simps intro!: rbind_ex ends)
qed

text \<open>The ones that look at the number of captured bytes themselves.\<close>

lemma checked_dump_total:
  assumes "unat (ch_caplen (hc_cp h)) \<le> length (hc_mem h)"
  shows "\<exists>s. igmp_dump h ptr prefix = Inr s" "\<exists>s. ptpv2_dump h ptr prefix = Inr s" "\<exists>s. sctp_dump h ptr prefix = Inr s"
    "\<exists>s. tcp_dump h ptr prefix = Inr s"
  using assms
  by (auto simp: igmp_dump_def ptpv2_dump_def sctp_dump_def tcp_dump_def limited_caplen_def mem_simps Let_def)

lemma ipv6_dump_total: "ptr + 40 \<le> length (hc_mem h) \<Longrightarrow> \<exists>s. ipv6_dump h ptr prefix = Inr s"
  by (simp add: ipv6_dump_def mem_simps Let_def)

lemma ospf_dump_total:
  assumes "unat (ch_caplen (hc_cp h)) \<le> length (hc_mem h)"
    and "unat (ch_caplen (hc_cp h)) < ptr + 20 \<or> 0 < unat (hc_mem h ! (ptr + 1)) \<and> unat (hc_mem h ! (ptr + 1)) < 6"
  shows "\<exists>s. ospf_dump h ptr prefix = Inr s"
proof (cases "unat (ch_caplen (hc_cp h)) < ptr + 20")
  case False
  then have "unat (hc_mem h ! (ptr + 1)) \<in> set [1..<6]" using assms(2) by simp
  then have "\<exists>s. ospf_type_name (hc_mem h ! (ptr + 1)) = Inr (Some s)"
    by (auto simp: upt_rec ospf_type_name_def ospf_type_table_def)
  then show ?thesis using False assms(1) by (auto simp: ospf_dump_def limited_caplen_def mem_simps str_arg_def)
qed (simp add: ospf_dump_def limited_caplen_def)

text \<open>The size of the header covers the fields that its flags announce.\<close>

lemma gtp_dump_total:
  assumes "gtp_header_size (hc_mem h) ptr = Inr n" "ptr + n \<le> length (hc_mem h)"
  shows "\<exists>s. gtp_dump h ptr prefix = Inr s"
proof -
  obtain b v where r: "rd8 (hc_mem h) ptr = Inr b" "gtp_version_of b = Inr v"
    using assms(1) unfolding gtp_header_size_def rbind_Inr_iff by blast
  then have "4 \<le> n" "v = GTPv1 \<Longrightarrow> 8 \<le> n \<and> (bit b 0 \<or> bit b 1 \<longrightarrow> n = 12)"
    using assms(1) by (auto simp: gtp_header_size_def split: gtp_version.splits if_splits)
  then show ?thesis using assms(2) r by (cases v) (auto simp: gtp_dump_def gtp_message_type_def gtp_v1_dump_def mem_simps)
qed

text \<open>
  What a header has to hold so that its long form is made from captured bytes: an IPv6 header was captured as a whole and
  the type of an OSPF packet is in its table. Nothing is said of DNS.
\<close>

definition dump_safe :: "header_chunk \<Rightarrow> bool" where
  "dump_safe h =
     (case (hc_protocol h, hc_ptr h) of
        (Some t, Some ptr) \<Rightarrow>
          hc_truncated h \<or>
          (let m = hc_mem h; k = unat (ch_caplen (hc_cp h)) in
           case t of
             PROTOCOL_IPV6 \<Rightarrow> ptr + 40 \<le> k
           | PROTOCOL_OSPF \<Rightarrow> k < ptr + 20 \<or> 0 < unat (m ! (ptr + 1)) \<and> unat (m ! (ptr + 1)) < 6
           | PROTOCOL_DNS \<Rightarrow> False
           | _ \<Rightarrow> True)
      | _ \<Rightarrow> False)"

lemma header_dump_total:
  assumes "chunk_ok cp h" "unat (ch_caplen cp) \<le> length (ch_payload cp)" "dump_safe h"
  shows "\<exists>s. header_dump junk h prefix = Inr s"
proof -
  obtain t ptr p where h: "hc_cp h = cp" "hc_protocol h = Some t" "hc_ptr h = Some ptr" "protocol_get t = Some p"
      "ptr \<le> unat (ch_caplen cp)" "\<not> hc_truncated h \<Longrightarrow> \<exists>n. header_size h = Inr n \<and> ptr + n \<le> unat (ch_caplen cp)"
    using assms(1) by (auto simp: chunk_ok_def)
  show ?thesis
  proof (cases "hc_truncated h \<or> protocol_dump junk t = None")
    case True
    then show ?thesis using h by (auto simp: header_dump_def split: option.split)
  next
    case False
    then obtain f n where f: "protocol_dump junk t = Some f" "header_size h = Inr n" "ptr + n \<le> unat (ch_caplen cp)"
      using h(6) by auto
    have mem: "ptr + n \<le> length (hc_mem h)" "unat (ch_caplen (hc_cp h)) \<le> length (hc_mem h)"
      using f(3) assms(2) h(1) by simp_all
    have n: "n = pr_size p" if "t \<noteq> PROTOCOL_GTP"
      using f(2) h(2-4) that by (cases t) (auto simp: header_size_def proto_entry_def)
    have "\<exists>s. f h ptr prefix = Inr s"
    proof (cases "t \<in> {PROTOCOL_DATA, PROTOCOL_CDP, PROTOCOL_STP, PROTOCOL_ETHERNET, PROTOCOL_GRE, PROTOCOL_ICMP, PROTOCOL_IPV4,
        PROTOCOL_MPLS, PROTOCOL_PW, PROTOCOL_UDP, PROTOCOL_VLAN}")
      case True
      then show ?thesis using plain_dump_total [OF h(4) f(1) True] mem n by auto
    next
      case other: False
      show ?thesis
        using other f n mem h False assms(3) checked_dump_total [OF mem(2)] arp_dump_total [OF mem(2)] ipv6_dump_total gtp_dump_total
          ospf_dump_total [OF mem(2)]
        by (cases t) (auto simp: dump_safe_def Let_def header_size_def protocol_gtp_def)
    qed
    then show ?thesis using h f(1) False by (auto simp: header_dump_def ptr_sanity_def)
  qed
qed

text \<open>
  The exceptions are there in the code: an IPv6 header that was captured in part is read behind the captured bytes, since
  its protocol gives the size of an IPv4 header. A whole IGMP message of eight bytes is taken for a truncated one, and
  the domain of a PTP message is shown multiplied by 256.
\<close>

lemma ipv6_dump_overread: "length (hc_mem h) < ptr + 40 \<Longrightarrow> ipv6_dump h ptr prefix = Inl Out_of_bounds"
  by (simp add: ipv6_dump_def rdn_def Let_def)

lemma igmp_dump_whole:
  "ptr + 8 = unat (ch_caplen (hc_cp h)) \<Longrightarrow> igmp_dump h ptr prefix = Inr (limited_dump prefix)"
  by (simp add: igmp_dump_def limited_caplen_def)

lemma ptpv2_domain_swapped: "unat (ntohs (ucast (d :: u8))) = 256 * unat d"
proof -
  have "ucast d = le16 d 0" by (simp add: le16_def)
  then show ?thesis by (simp add: ntohs_le16 unat_le16)
qed

end
