(* ===== verification/Walk_Extension.thy ===== *)
theory Walk_Extension
  imports Protocol_Dump Read_Extension
begin

text \<open>
  The headers of a packet and their long forms do not depend on the bytes behind the captured ones: when the walk and the
  \<open>dump\<close> functions have a result on a packet that ends with its captured bytes, they have the same on the packet
  in the buffer of a stream, where others follow.
\<close>

section \<open>The state of a walk over more memory\<close>

definition widen :: "mem \<Rightarrow> header_chunk \<Rightarrow> header_chunk" where
  "widen r h = h\<lparr>hc_cp := (hc_cp h)\<lparr>ch_payload := hc_mem h @ r\<rparr>\<rparr>"

lemma widen_simps [simp]:
  "hc_mem (widen r h) = hc_mem h @ r" "ch_caplen (hc_cp (widen r h)) = ch_caplen (hc_cp h)"
  "hc_protocol (widen r h) = hc_protocol h" "hc_last_net (widen r h) = hc_last_net h"
  "hc_truncated (widen r h) = hc_truncated h" "hc_ptr (widen r h) = hc_ptr h"
  by (simp_all add: widen_def)

lemma widen_update:
  "widen r (h\<lparr>hc_ptr := a\<rparr>) = (widen r h)\<lparr>hc_ptr := a\<rparr>" "widen r (h\<lparr>hc_protocol := b\<rparr>) = (widen r h)\<lparr>hc_protocol := b\<rparr>"
  "widen r (h\<lparr>hc_last_net := c\<rparr>) = (widen r h)\<lparr>hc_last_net := c\<rparr>" "widen r (h\<lparr>hc_truncated := d\<rparr>) = (widen r h)\<lparr>hc_truncated := d\<rparr>"
  by (simp_all add: widen_def)

lemma widen_caplen [simp]:
  "limited_caplen (hc_cp (widen r h)) p n = limited_caplen (hc_cp h) p n" "ptr_sanity (hc_cp (widen r h)) p = ptr_sanity (hc_cp h) p"
  by (simp_all add: limited_caplen_def ptr_sanity_def split: option.split)

lemma rdn_larger [fault_le_intros]: "fault_le (rdn m i n) (rdn (m @ r) i n)"
  by (auto simp: fault_le_def rdn_def split: if_splits)

lemma fault_le_gtp [fault_le_intros]:
  "fault_le a a' \<Longrightarrow> fault_le b b' \<Longrightarrow> fault_le c c' \<Longrightarrow>
    fault_le (case v of GTPv1 \<Rightarrow> a | GTPv2 \<Rightarrow> b | GTPvP \<Rightarrow> c) (case v of GTPv1 \<Rightarrow> a' | GTPv2 \<Rightarrow> b' | GTPvP \<Rightarrow> c')"
  by (cases v) auto

section \<open>The next header\<close>

lemma gtp_header_size_append [fault_le_intros]: "fault_le (gtp_header_size m ptr) (gtp_header_size (m @ r) ptr)"
  unfolding gtp_header_size_def by (intro fault_le_intros)

lemma tcp_doff_append [fault_le_intros]: "fault_le (tcp_doff m ptr) (tcp_doff (m @ r) ptr)"
  unfolding tcp_doff_def by (intro fault_le_intros)

lemma ipv6_ext_walk_append [fault_le_intros]:
  "fault_le (ipv6_ext_walk cp payload hsize) (ipv6_ext_walk (cp\<lparr>ch_payload := ch_payload cp @ r\<rparr>) payload hsize)"
proof (induction cp payload hsize rule: ipv6_ext_walk.induct)
  case (1 cp payload hsize)
  have l: "limited_caplen (cp\<lparr>ch_payload := ch_payload cp @ r\<rparr>) p n = limited_caplen cp p n" for p n
    by (simp add: limited_caplen_def split: option.split)
  have m: "ch_payload (cp\<lparr>ch_payload := ch_payload cp @ r\<rparr>) = ch_payload cp @ r" by simp
  show ?case
    by (subst (1 2) ipv6_ext_walk.simps) (simp only: l m, intro fault_le_intros 1)
qed

lemma ipv6_size_append [fault_le_intros]:
  "fault_le (ipv6_total_header_size (hc_cp h) ip) (ipv6_total_header_size (hc_cp (widen r h)) ip)"
  using ipv6_ext_walk_append unfolding ipv6_total_header_size_def widen_caplen widen_simps
  by (intro fault_le_intros) (simp add: widen_def)

lemma header_size_widen [fault_le_intros]: "fault_le (header_size h) (header_size (widen r h))"
proof (cases "(hc_protocol h, hc_ptr h)")
  case (Pair t ptr)
  show ?thesis
  proof (cases "t = Some PROTOCOL_GTP")
    case True
    then show ?thesis using Pair gtp_header_size_append
      by (cases ptr) (simp_all add: header_size_def protocol_gtp_def fault_le_refl)
  next
    case False
    then have "header_size (widen r h) = header_size h"
      using Pair by (cases t; cases ptr; cases "the t") (simp_all add: header_size_def proto_entry_def)
    then show ?thesis by (simp add: fault_le_refl)
  qed
qed

lemma ip_fields_append [fault_le_intros]:
  "fault_le (ip_src_of m i) (ip_src_of (m @ r) i)" "fault_le (ip_dst_of m i) (ip_dst_of (m @ r) i)"
  "fault_le (ip_len m i) (ip_len (m @ r) i)"
  unfolding ip_src_of_def ip_dst_of_def ip_len_def by (intro fault_le_intros)+

lemma next_fun_widen [fault_le_intros]:
  "fault_le (ethernet_next h ptr) (ethernet_next (widen r h) ptr)" "fault_le (vlan_next h ptr) (vlan_next (widen r h) ptr)"
  "fault_le (ipv4_next h ptr) (ipv4_next (widen r h) ptr)" "fault_le (ipv6_next h ptr) (ipv6_next (widen r h) ptr)"
  "fault_le (gre_next h ptr) (gre_next (widen r h) ptr)" "fault_le (mpls_next_payload h ptr) (mpls_next_payload (widen r h) ptr)"
  "fault_le (pw_next_payload h ptr) (pw_next_payload (widen r h) ptr)" "fault_le (gtp_next h ptr) (gtp_next (widen r h) ptr)"
  "fault_le (udp_next h ptr) (udp_next (widen r h) ptr)" "fault_le (tcp_next h ptr) (tcp_next (widen r h) ptr)"
  unfolding ethernet_next_def vlan_next_def ipv4_next_def ipv6_next_def gre_next_def mpls_next_payload_def pw_next_payload_def
    gtp_next_def udp_next_def tcp_next_def Let_def widen_simps
  by (intro fault_le_intros)+

lemma pr_next_widen:
  assumes "protocol_get t = Some p" "pr_next p = Some nxt"
  shows "fault_le (nxt h ptr) (nxt (widen r h) ptr)"
  using assms next_fun_widen [of h ptr r]
  by (cases t) (auto simp: proto_entry_def protocol_gtp_def done_next_defs fault_le_refl)

section \<open>The walk\<close>

lemma fault_leD: "fault_le x y \<Longrightarrow> x = Inr v \<Longrightarrow> y = Inr v"
  by (simp add: fault_le_def)

text \<open>What follows the callback: the table, the bounds and the size of the next header.\<close>

lemma next_payload_widen:
  assumes "next_payload h = Inr (b, h')"
  shows "next_payload (widen r h) = Inr (b, widen r h')"
proof -
  obtain t ptr p where c: "hc_protocol h = Some t" "hc_ptr h = Some ptr" "protocol_get t = Some p"
    using assms by (auto simp: next_payload_def split: option.splits)
  show ?thesis
  proof (cases "pr_next p = None \<or> hc_truncated h")
    case True
    then show ?thesis using assms c by (auto simp: next_payload_def split: option.splits)
  next
    case False
    then obtain nxt type out net where n: "pr_next p = Some nxt" "\<not> hc_truncated h" "nxt h ptr = Inr (type, out, net)"
      using assms c by (auto simp: next_payload_def rbind_Inr_iff)
    let ?h = "h\<lparr>hc_ptr := out, hc_protocol := Some type, hc_last_net := net\<rparr>"
    have w: "nxt (widen r h) ptr = Inr (type, out, net)" using fault_leD [OF pr_next_widen [OF c(3) n(1)] n(3)] .
    have u: "widen r ?h = (widen r h)\<lparr>hc_ptr := out, hc_protocol := Some type, hc_last_net := net\<rparr>" by (simp add: widen_update)
    obtain q where q: "protocol_get type = Some q"
      using assms c n by (cases "protocol_get type") (auto simp: next_payload_def Let_def)
    show ?thesis
    proof (cases "out = None \<and> type = PROTOCOL_DONE \<or> limited_caplen (hc_cp h) out 0")
      case True
      then show ?thesis using assms c n w q by (auto simp: next_payload_def Let_def widen_update)
    next
      case False
      then obtain k where k: "header_size ?h = Inr k" "ptr_sanity (hc_cp h) out = Inr ()"
        using assms c n q by (auto simp: next_payload_def Let_def rbind_Inr_iff)
      have "header_size ((widen r h)\<lparr>hc_ptr := out, hc_protocol := Some type, hc_last_net := net\<rparr>) = Inr k"
        using fault_leD [OF header_size_widen k(1), of r] unfolding u .
      with False k assms c n w q show ?thesis
        by (cases "limited_caplen (hc_cp h) out k") (auto simp: next_payload_def Let_def widen_update)
    qed
  qed
qed

lemma header_walk_widen:
  assumes "header_walk h = Inr (b, h')"
  shows "header_walk (widen r h) = Inr (b, widen r h')"
proof (cases "hc_ptr h")
  case None
  let ?h = "h\<lparr>hc_protocol := Some PROTOCOL_ETHERNET, hc_ptr := Some 0\<rparr>"
  obtain k where "header_size ?h = Inr k" using assms None by (auto simp: header_walk_def Let_def rbind_Inr_iff)
  then show ?thesis using assms None fault_leD [OF header_size_widen, of ?h k r]
    by (auto simp: header_walk_def Let_def widen_update)
next
  case (Some ptr)
  then show ?thesis using assms next_payload_widen by (simp add: header_walk_def)
qed

section \<open>The long forms\<close>

lemma gtp_text_append [fault_le_intros]:
  "fault_le (gtp_message_type m ptr) (gtp_message_type (m @ r) ptr)" "fault_le (gtp_v1_dump m b ptr prefix) (gtp_v1_dump (m @ r) b ptr prefix)"
  unfolding gtp_message_type_def gtp_v1_dump_def by (intro fault_le_intros)+

lemmas dump_defs = plain_dump_defs arp_dump_def ipv6_dump_def gtp_dump_def igmp_dump_def ospf_dump_def ptpv2_dump_def
  tcp_dump_def sctp_dump_def

lemma dump_widen:
  assumes "protocol_dump junk t = Some f" "t \<noteq> PROTOCOL_DNS"
  shows "fault_le (f h ptr prefix) (f (widen r h) ptr prefix)"
  using assms by (cases t) (auto simp only: protocol_dump.simps option.inject dump_defs Let_def emit_def widen_simps widen_caplen
      intro!: fault_le_intros)

lemma header_dump_widen:
  assumes "header_dump junk h prefix = Inr s" "dump_safe h"
  shows "header_dump junk (widen r h) prefix = Inr s"
proof (cases "hc_truncated h")
  case True
  then show ?thesis using assms(1) by (auto simp: header_dump_def split: option.splits)
next
  case False
  obtain t ptr where t: "hc_protocol h = Some t" "hc_ptr h = Some ptr" using assms(2) by (auto simp: dump_safe_def split: option.splits)
  then have "t \<noteq> PROTOCOL_DNS" using assms(2) False by (auto simp: dump_safe_def)
  note d = fault_leD [OF dump_widen [OF _ this]]
  show ?thesis using assms(1) False t d by (auto simp: header_dump_def rbind_Inr_iff split: option.splits)
qed

end
