(* ===== verification/Capwalk.thy ===== *)
theory Capwalk
  imports Walk_Extension Capfilter
begin

text \<open>
  \<open>tools/capwalk.c\<close>: every header of every packet in its long form. The output is the text that is written; the date that
  \<open>timepico_to_string\<close> gives for the seconds of a time, by \<open>strftime\<close>, is the parameter \<open>date\<close>. Option processing, the
  help and the signal are left out: of the options only the interface and the timeout have an effect.
\<close>

definition toupper :: "char \<Rightarrow> char" where
  "toupper c = (if 97 \<le> (of_char c :: nat) \<and> (of_char c :: nat) \<le> 122 then char_of (of_char c - 32 :: nat) else c)"

text \<open>The result is written into an array of 4096 characters.\<close>

definition ucfirst :: "string \<Rightarrow> string" where
  "ucfirst str =
     (case str of
        [] \<Rightarrow> str
      | c # cs \<Rightarrow> if cs \<noteq> [] then take 4095 (toupper c # cs) else [toupper c])"

text \<open>\<open>%.8s\<close> of a field that need not end with a null character.\<close>

definition field8_text :: "string \<Rightarrow> string" where
  "field8_text s = takeWhile (\<lambda>c. c \<noteq> CHR 0x00) (take 8 s)"

definition packet_text :: "(u32 \<Rightarrow> string) \<Rightarrow> nat \<Rightarrow> cap_header \<Rightarrow> string" where
  "packet_text date n cp =
     ''Packet '' @ dec n @ [CHR 0x0a] @ ''  DPMI'' @ [CHR 0x0a] @
     dump_line ''    '' ''MAMPid:             '' (field8_text (ch_mampid cp)) @
     dump_line ''    '' ''Iface:              '' (field8_text (ch_nic cp)) @
     dump_line ''    '' ''Timestamp:          '' (date (tv_sec (ch_ts cp))) @
     dump_line ''    '' ''Length:             '' (dec_int (sint (ch_len cp))) @
     dump_line ''    '' ''Capture length:     '' (dec_int (sint (ch_caplen cp)))"

text \<open>The line in front of a header, with its position.\<close>

definition header_title :: "header_chunk \<Rightarrow> string res" where
  "header_title h =
     (case (hc_protocol h, hc_ptr h) of
        (Some t, Some ptr) \<Rightarrow>
          (case protocol_get t of
             None \<Rightarrow> Inl Null_deref
           | Some p \<Rightarrow> Inr (''  '' @ ucfirst (pr_name p) @ '' @ '' @ dec ptr @ [CHR 0x0a]))
      | _ \<Rightarrow> Inl Null_deref)"

definition header_text :: "u8 list \<Rightarrow> header_chunk \<Rightarrow> string res" where
  "header_text junk h =
     (if hc_protocol h = None then Inr (''Unknown protocol'' @ [CHR 0x0a])
      else rbind (header_title h) (\<lambda>s. emit s (header_dump junk h ''    '')))"

text \<open>
  The loop over the headers of the callback, with the text that was written so far. It needs at most three rounds more
  than there are captured bytes.
\<close>

fun walk_loop :: "nat \<Rightarrow> u8 list \<Rightarrow> header_chunk \<Rightarrow> string \<Rightarrow> string res option" where
  "walk_loop 0 junk h out = None"
| "walk_loop (Suc fuel) junk h out =
     (case header_walk h of
        Inl e \<Rightarrow> Some (Inl e)
      | Inr (cont, h) \<Rightarrow>
          if cont then
            (case header_text junk h of
               Inl e \<Rightarrow> Some (Inl e)
             | Inr s \<Rightarrow> walk_loop fuel junk h (out @ s))
          else Some (Inr out))"

definition handle_packet ::
  "(u32 \<Rightarrow> string) \<Rightarrow> u8 list \<Rightarrow> 's stream \<Rightarrow> cap_header \<Rightarrow> string \<Rightarrow> (int \<times> string) res option" where
  "handle_packet date junk st cp out =
     map_option (\<lambda>r. rbind r (\<lambda>out. Inr (0, out)))
       (walk_loop (unat (ch_caplen cp) + 3) junk (header_init cp) (out @ packet_text date (st_stat_read st) cp))"

fun capwalk_loop ::
  "nat \<Rightarrow> nat \<Rightarrow> 's fill \<Rightarrow> ('b \<Rightarrow> mem \<Rightarrow> u32 \<Rightarrow> u32 \<Rightarrow> u32) \<Rightarrow> (u32 \<Rightarrow> string) \<Rightarrow> u8 list \<Rightarrow> timeval \<Rightarrow> string \<Rightarrow>
   's stream \<times> 'b cap_filter option \<Rightarrow> (string \<times> 's stream \<times> 'b cap_filter option) res option" where
  "capwalk_loop 0 fuel fill bpf date junk timeout out x = None"
| "capwalk_loop (Suc n) fuel fill bpf date junk timeout out x =
     (case stream_read_cb fuel fill bpf (handle_packet date junk) (Some timeout) out x of
        None \<Rightarrow> None
      | Some (Inl e) \<Rightarrow> Some (Inl e)
      | Some (Inr (ret, out, x)) \<Rightarrow>
          if ret = 0 then capwalk_loop n fuel fill bpf date junk timeout out x else Some (Inr (out, x)))"

section \<open>The headers of a packet\<close>

lemma visit_headers_ok:
  assumes "visit_headers n h = Some (Inr hs)" "chunk_ok cp h"
  shows "list_all (chunk_ok cp) hs"
  using assms
proof (induction n arbitrary: h hs)
  case (Suc n)
  then show ?case
    using walk_step by (fastforce split: sum.splits if_splits simp: rbind_Inr_iff)
qed simp

lemma visit_headers_first:
  assumes "visit_headers n (header_init cp) = Some (Inr hs)"
  shows "list_all (chunk_ok cp) hs"
proof (cases n)
  case (Suc k)
  obtain h where h: "header_walk (header_init cp) = Inr (True, h)" "chunk_ok cp h" using walk_first by blast
  then show ?thesis using assms Suc visit_headers_ok [of k h _ cp] by (auto simp: rbind_Inr_iff)
qed (use assms in simp)

text \<open>
  What is to be written for a header: a line with the name of its protocol and its position, and its long form. For a
  packet, its number and the fields of its capture header, and behind them the text of every header that the
  walk visits, in this order.
\<close>

definition describes :: "u8 list \<Rightarrow> header_chunk \<Rightarrow> string \<Rightarrow> bool" where
  "describes junk h t \<longleftrightarrow>
     (\<exists>type p ptr s. hc_protocol h = Some type \<and> protocol_get type = Some p \<and> hc_ptr h = Some ptr \<and>
        header_dump junk h ''    '' = Inr s \<and> t = ''  '' @ ucfirst (pr_name p) @ '' @ '' @ dec ptr @ [CHR 0x0a] @ s)"

definition describes_packet :: "(u32 \<Rightarrow> string) \<Rightarrow> u8 list \<Rightarrow> nat \<Rightarrow> cap_header \<Rightarrow> string \<Rightarrow> bool" where
  "describes_packet date junk n cp text \<longleftrightarrow>
     (\<exists>hs ts. visit_headers (unat (ch_caplen cp) + 3) (header_init cp) = Some (Inr hs) \<and> list_all2 (describes junk) hs ts \<and>
        text = packet_text date n cp @ concat ts)"

text \<open>A packet whose headers can be visited and are safe to write.\<close>

definition walkable :: "cap_header \<Rightarrow> bool" where
  "walkable cp =
     (case visit_headers (unat (ch_caplen cp) + 3) (header_init cp) of
        Some (Inr hs) \<Rightarrow> list_all dump_safe hs
      | _ \<Rightarrow> False)"

lemma describes_total:
  assumes "chunk_ok cp h" "unat (ch_caplen cp) \<le> length (ch_payload cp)" "dump_safe h"
  shows "\<exists>t. describes junk h t"
  using header_dump_total [OF assms, of junk "''    ''"] assms(1) by (auto simp: chunk_ok_def describes_def)

lemma header_text_widen:
  assumes "describes junk h t" "dump_safe h"
  shows "header_text junk (widen r h) = Inr t"
  using assms header_dump_widen [OF _ assms(2)] by (auto simp: describes_def header_text_def header_title_def)

text \<open>The loop writes these texts, whatever lies behind the captured bytes.\<close>

lemma walk_loop_texts:
  assumes "visit_headers n h = Some (Inr hs)" "list_all2 (describes junk) hs ts" "list_all dump_safe hs"
  shows "walk_loop n junk (widen r h) out = Some (Inr (out @ concat ts))"
  using assms
proof (induction n arbitrary: h hs ts out)
  case (Suc n)
  obtain b h' where w: "header_walk h = Inr (b, h')" using Suc.prems(1) by (auto split: sum.splits)
  show ?case
  proof (cases b)
    case True
    then obtain hs' where v: "visit_headers n h' = Some (Inr hs')" "hs = h' # hs'"
      using Suc.prems(1) w by (auto simp: rbind_Inr_iff)
    then obtain t ts' where t: "ts = t # ts'" "describes junk h' t" "list_all2 (describes junk) hs' ts'" "dump_safe h'" "list_all dump_safe hs'"
      using Suc.prems(2,3) by (auto simp: list_all2_Cons1)
    show ?thesis
      using Suc.IH [OF v(1) t(3,5), of "out @ t"] header_walk_widen [OF w, of r] header_text_widen [OF t(2,4), of r] True t(1) by simp
  next
    case False
    then show ?thesis using Suc.prems w header_walk_widen [OF w, of r] by simp
  qed
qed simp

lemma captured_in_buffer:
  assumes "captured q = p"
  shows "\<exists>r. q = p\<lparr>ch_payload := ch_payload p @ r\<rparr>"
proof -
  have "ch_payload q = ch_payload p @ drop (unat (ch_caplen q)) (ch_payload q)" using assms by (auto simp: captured_def)
  then show ?thesis using assms by (intro exI [of _ "drop (unat (ch_caplen q)) (ch_payload q)"]) (auto simp: captured_def)
qed

lemma handle_packet_text:
  assumes "captured q = p" "packet_wf p" "walkable p"
  shows "\<exists>t. describes_packet date junk (st_stat_read st) p t \<and> handle_packet date junk st q out = Some (Inr (0, out @ t))"
proof -
  obtain r where q: "q = p\<lparr>ch_payload := ch_payload p @ r\<rparr>" using captured_in_buffer [OF assms(1)] by blast
  let ?n = "unat (ch_caplen p) + 3"
  obtain hs where hs: "visit_headers ?n (header_init p) = Some (Inr hs)" "list_all dump_safe hs"
    using assms(3) unfolding walkable_def by (auto split: option.splits sum.splits)
  have "unat (ch_caplen p) \<le> length (ch_payload p)" using assms(2) by (simp add: packet_wf_def)
  then have "\<forall>h\<in>set hs. \<exists>t. describes junk h t"
    using visit_headers_first [OF hs(1)] hs(2) describes_total by (auto simp: list_all_iff)
  then obtain f where "\<forall>h\<in>set hs. describes junk h (f h)" by metis
  then have d: "list_all2 (describes junk) hs (map f hs)" by (simp add: list_all2_map2 list.rel_refl_strong list_all2_same)
  have "header_init q = widen r (header_init p)" "packet_text date k q = packet_text date k p" "ch_caplen q = ch_caplen p" for k
    by (simp_all add: q header_init_def widen_def packet_text_def)
  then show ?thesis
    using walk_loop_texts [OF hs(1) d hs(2), of r "out @ packet_text date (st_stat_read st) p"] hs(1) d
    by (intro exI [of _ "packet_text date (st_stat_read st) p @ concat (map f hs)"])
      (auto simp: handle_packet_def describes_packet_def)
qed

section \<open>Reading with a filter\<close>

lemma fill_buffer_matched: "fill_buffer fill st t = Inr (ret, st') \<Longrightarrow> st_stat_matched st' = st_stat_matched st"
  by (auto simp: fill_buffer_def compact_buffer_def Let_def rbind_Inr_iff split: if_splits prod.splits fill_result.splits)

text \<open>A round with a filter is a round without one, after which the filter is asked.\<close>

lemma read_step_filter:
  assumes "read_step fill bpf t (st, None) = Inr r"
  shows "case r of
      Again (st', _) \<Rightarrow> read_step fill bpf t (st, Some flt) = Inr (Again (st', Some flt)) \<and> st_stat_matched st' = st_stat_matched st
    | Done ret cp (st', _) \<Rightarrow>
        (ret \<noteq> 0 \<longrightarrow> read_step fill bpf t (st, Some flt) = Inr (Done ret cp (st', Some flt))) \<and>
        (ret = 0 \<longrightarrow> (\<exists>pos q. cp = Some (pos, q) \<and> (\<forall>m flt'. filter_match bpf flt (ch_payload q) q = Inr (m, flt') \<longrightarrow>
           read_step fill bpf t (st, Some flt) =
             Inr (if m then Done 0 cp (st', Some flt') else Again (st'\<lparr>st_stat_matched := st_stat_matched st\<rparr>, Some flt')))))"
proof (cases "st_writePos st - st_readPos st < sizeof_cap_header")
  case True
  then obtain ret st1 where f: "fill_buffer fill st (case t of None \<Rightarrow> tv_sec1 | Some _ \<Rightarrow> t) = Inr (ret, st1)"
    using assms by (auto simp: read_step_def rbind_Inr_iff)
  show ?thesis using assms True fill_buffer_matched [OF f] f by (cases t) (auto simp: read_step_def split: if_splits)
next
  case False
  then obtain ret st1 where f: "fill_buffer fill st tv_zero = Inr (ret, st1)"
    using assms by (auto simp: read_step_def rbind_Inr_iff)
  show ?thesis
  proof (cases "ret \<noteq> 0 \<and> ret \<noteq> EAGAIN \<and> ret \<noteq> - 1")
    case True
    then show ?thesis using assms False by (auto simp: read_step_def f)
  next
    case cont: False
    then obtain cp where c: "cap_at (st_buffer st1) (st_readPos st1) = Inr cp"
      using assms False by (auto simp: read_step_def f rbind_Inr_iff split: if_splits)
    show ?thesis
    proof (cases "st_readPos st1 + (sizeof_cap_header + unat (ch_caplen cp)) > st_writePos st1")
      case True
      then obtain ret2 st2 where g: "fill_buffer fill st1 t = Inr (ret2, st2)"
        using assms False cont by (auto simp: read_step_def f c rbind_Inr_iff Let_def split: if_splits)
      show ?thesis
        using assms False cont True fill_buffer_matched [OF f] fill_buffer_matched [OF g]
        by (auto simp: read_step_def f c g Let_def split: if_splits)
    next
      case whole: False
      let ?fin = "st_readPos st1 + (sizeof_cap_header + unat (ch_caplen cp))"
      define st2 where "st2 = st1\<lparr>st_readPos := ?fin, st_stat_read := st_stat_read st1 + 1,
        st_stat_buffer_usage := st_writePos st1 - ?fin\<rparr>"
      have step: "read_step fill bpf t (st, flt0) = rbind (match_opt bpf flt0 cp) (\<lambda>(m, flt).
          if m then Inr (Done 0 (Some (st_readPos st1, cp)) (st2\<lparr>st_stat_matched := st_stat_matched st2 + 1\<rparr>, flt))
          else Inr (Again (st2, flt)))" for flt0
        using False cont whole unfolding st2_def by (auto simp: read_step_def f c Let_def cong del: if_weak_cong)
      have "st_stat_matched st2 = st_stat_matched st" "st2\<lparr>st_stat_matched := st_stat_matched st\<rparr> = st2"
        using fill_buffer_matched [OF f] by (simp_all add: st2_def)
      then show ?thesis using assms by (auto simp: step match_opt_def)
    qed
  qed
qed

text \<open>
  Reading with a filter: the packet that is read without one, if the filter accepts it; otherwise reading goes on
  behind it. The number of rounds that a packet takes is the same.
\<close>

lemma stream_read_filter:
  assumes "stream_read n fill bpf t (st, None) = Some (Inr (0, Some (pos, q), st', None))"
    and "filter_match bpf flt (ch_payload q) q = Inr (m, flt')"
  shows "\<exists>j \<le> n. \<forall>k. stream_read (j + k) fill bpf t (st, Some flt) =
    (if m then Some (Inr (0, Some (pos, q), st', Some flt'))
     else stream_read k fill bpf t (st'\<lparr>st_stat_matched := st_stat_matched st\<rparr>, Some flt'))"
  using assms(1)
proof (induction n arbitrary: st)
  case (Suc n)
  obtain r where r: "read_step fill bpf t (st, None) = Inr r"
    using Suc.prems by (auto simp: stream_read_def split: sum.splits)
  note s = read_step_filter [OF r, of flt]
  show ?case
  proof (cases r)
    case (Again x)
    then obtain st1 where x: "x = (st1, None)" using read_step_stat [OF r] by (cases x) auto
    have "stream_read n fill bpf t (st1, None) = Some (Inr (0, Some (pos, q), st', None))"
      using Suc.prems r Again x by (simp add: stream_read_def)
    from Suc.IH [OF this] obtain j where j: "j \<le> n" "\<forall>k. stream_read (j + k) fill bpf t (st1, Some flt) =
        (if m then Some (Inr (0, Some (pos, q), st', Some flt'))
         else stream_read k fill bpf t (st'\<lparr>st_stat_matched := st_stat_matched st1\<rparr>, Some flt'))"
      by blast
    have "stream_read (Suc j + k) fill bpf t (st, Some flt) = stream_read (j + k) fill bpf t (st1, Some flt)" for k
      using s Again x by (simp add: stream_read_def)
    then show ?thesis using j s Again x by (intro exI [of _ "Suc j"]) simp
  next
    case (Done ret cp x)
    then have "ret = 0" "cp = Some (pos, q)" "x = (st', None)" using Suc.prems r by (auto simp: stream_read_def)
    then have "read_step fill bpf t (st, Some flt) =
        Inr (if m then Done 0 (Some (pos, q)) (st', Some flt') else Again (st'\<lparr>st_stat_matched := st_stat_matched st\<rparr>, Some flt'))"
      using s Done assms(2) by auto
    then show ?thesis by (intro exI [of _ 1]) (simp add: stream_read_def)
  qed
qed (simp add: stream_read_def)

section \<open>Reading a capture file with a filter\<close>

lemma file_holds_matched [simp]: "file_holds n (st\<lparr>st_stat_matched := k\<rparr>) ps = file_holds n st ps"
  by (simp add: file_holds_def stream_wf_def pending_def window_def)

lemma file_holds_captured: "file_holds n st ps \<Longrightarrow> map captured ps = ps"
  using capture_file.holds_captured by blast

lemma file_read_filter_end:
  assumes "file_holds n st []" "0 < fuel"
  shows "\<exists>x. stream_read fuel file_fill bpf t (st, Some flt) = Some (Inr (- 1, None, x))"
proof -
  obtain st' where "stream_read (Suc 0) file_fill bpf t (st, None) = Some (Inr (- 1, None, st', None))"
    using file_stream.stream_read_end [of st 0 bpf t] assms(1) by (auto simp: file_holds_def)
  then have "read_step file_fill bpf t (st, None) = Inr (Done (- 1) None (st', None))"
    by (auto simp: stream_read_def split: sum.splits outcome.splits)
  from read_step_filter [OF this] show ?thesis using assms(2) by (cases fuel) (simp_all add: stream_read_def)
qed

text \<open>
  One call gives the next packet that the filter accepts, or the end of the file; \<open>k\<close> packets have been read before.
\<close>

definition next_accepted ::
  "nat \<Rightarrow> ('b \<Rightarrow> mem \<Rightarrow> u32 \<Rightarrow> u32 \<Rightarrow> u32) \<Rightarrow> nat \<Rightarrow> cap_header list \<Rightarrow> bool list \<Rightarrow>
   (int \<times> (nat \<times> cap_header) option \<times> stream_file stream \<times> 'b cap_filter option) res option \<Rightarrow> bool" where
  "next_accepted n bpf k ps ms r \<longleftrightarrow>
     (\<exists>x. r = Some (Inr (- 1, None, x)) \<and> ms = replicate (length ps) False) \<or>
     (\<exists>ps1 ps2 ms2 pos q st flt. r = Some (Inr (0, Some (pos, q), st, Some flt)) \<and> ps = ps1 @ captured q # ps2 \<and>
        ms = replicate (length ps1) False @ True # ms2 \<and> file_holds n st ps2 \<and> decides bpf flt ps2 ms2 \<and>
        st_stat_read st = k + length ps1 + 1)"

lemma next_accepted_Cons:
  assumes "next_accepted n bpf (Suc k) ps ms r"
  shows "next_accepted n bpf k (p # ps) (False # ms) r"
  using assms unfolding next_accepted_def
proof
  assume "\<exists>ps1 ps2 ms2 pos q st flt. r = Some (Inr (0, Some (pos, q), st, Some flt)) \<and> ps = ps1 @ captured q # ps2 \<and>
    ms = replicate (length ps1) False @ True # ms2 \<and> file_holds n st ps2 \<and> decides bpf flt ps2 ms2 \<and>
    st_stat_read st = Suc k + length ps1 + 1"
  then obtain ps1 ps2 ms2 pos q st flt where "r = Some (Inr (0, Some (pos, q), st, Some flt))" "ps = ps1 @ captured q # ps2"
    "ms = replicate (length ps1) False @ True # ms2" "file_holds n st ps2" "decides bpf flt ps2 ms2"
    "st_stat_read st = Suc k + length ps1 + 1" by blast
  then show "(\<exists>x. r = Some (Inr (- 1, None, x)) \<and> False # ms = replicate (length (p # ps)) False) \<or>
    (\<exists>ps1 ps2 ms2 pos q st flt. r = Some (Inr (0, Some (pos, q), st, Some flt)) \<and> p # ps = ps1 @ captured q # ps2 \<and>
      False # ms = replicate (length ps1) False @ True # ms2 \<and> file_holds n st ps2 \<and> decides bpf flt ps2 ms2 \<and>
      st_stat_read st = k + length ps1 + 1)"
    by (intro disjI2 exI [of _ "p # ps1"] exI [of _ ps2] exI [of _ ms2]) simp
qed auto

lemma file_read_filter:
  assumes "file_holds n st ps" "decides bpf flt ps ms" "n * (length ps + 1) \<le> fuel"
  shows "next_accepted n bpf (st_stat_read st) ps ms (stream_read fuel file_fill bpf t (st, Some flt))"
  using assms
proof (induction ps arbitrary: st flt ms fuel)
  case Nil
  then have "0 < fuel" by (auto simp: file_holds_def)
  with Nil show ?case using file_read_filter_end [of n st fuel bpf t flt] by (auto simp: decides_def next_accepted_def)
next
  case (Cons p ps)
  obtain pos q st' where r: "stream_read n file_fill bpf t (st, None) = Some (Inr (0, Some (pos, q), st', None))"
    "captured q = p" "file_holds n st' ps" "st_stat_read st' = Suc (st_stat_read st)"
    using file_read_packet [OF Cons.prems(1)] by blast
  have "\<exists>qs. map captured qs = ps" using file_holds_captured [OF r(3)] by blast
  from decides_Cons [OF Cons.prems(2) r(2) this] obtain mt flt' ms' where
    d: "filter_match bpf flt (ch_payload q) q = Inr (mt, flt')" "ms = mt # ms'" "decides bpf flt' ps ms'" .
  from stream_read_filter [OF r(1) d(1)] obtain j where j: "j \<le> n" "\<And>k. stream_read (j + k) file_fill bpf t (st, Some flt) =
      (if mt then Some (Inr (0, Some (pos, q), st', Some flt'))
       else stream_read k file_fill bpf t (st'\<lparr>st_stat_matched := st_stat_matched st\<rparr>, Some flt'))" by blast
  define k where "k = fuel - j"
  have "n + n * (length ps + 1) \<le> fuel" using Cons.prems(3) by simp
  then have k: "fuel = j + k" "n * (length ps + 1) \<le> k" using j(1) unfolding k_def by linarith+
  show ?case
  proof (cases mt)
    case True
    show ?thesis
      unfolding next_accepted_def
      by (intro disjI2, rule exI [of _ "[]"], rule exI [of _ ps]) (use j(2) [of k] k(1) r(2-4) d(2,3) True in auto)
  next
    case False
    then show ?thesis
      using next_accepted_Cons [OF Cons.IH [of "st'\<lparr>st_stat_matched := st_stat_matched st\<rparr>", simplified, OF r(3) d(3) k(2) [simplified], unfolded r(4)], of p]
        j(2) [of k] k(1) d(2) by simp
  qed
qed

text \<open>The packets that are written.\<close>

definition chosen :: "bool list \<Rightarrow> string list \<Rightarrow> string" where
  "chosen ms ts = concat (map snd (filter fst (zip ms ts)))"

lemma chosen_skip: "chosen (replicate k False @ True # ms) (replicate k [] @ t # ts) = t @ chosen ms ts"
  by (simp add: chosen_def)

lemma chosen_none: "chosen (replicate k False) ts = []"
  by (auto simp: chosen_def filter_empty_conv in_set_zip)

text \<open>The texts of the packets: a text for each that the filter accepts, with its number in the file.\<close>

definition texts_of :: "(u32 \<Rightarrow> string) \<Rightarrow> u8 list \<Rightarrow> nat \<Rightarrow> bool list \<Rightarrow> cap_header list \<Rightarrow> string list \<Rightarrow> bool" where
  "texts_of date junk k ms ps ts \<longleftrightarrow> length ts = length ps \<and>
     (\<forall>i < length ps. ms ! i \<longrightarrow> describes_packet date junk (k + i + 1) (ps ! i) (ts ! i))"

lemma texts_of_skip:
  assumes "texts_of date junk (k + length ps1 + 1) ms ps ts" "describes_packet date junk (k + length ps1 + 1) p t"
  shows "texts_of date junk k (replicate (length ps1) False @ True # ms) (ps1 @ p # ps) (replicate (length ps1) [] @ t # ts)"
  unfolding texts_of_def
proof (intro conjI allI impI)
  fix i assume i: "i < length (ps1 @ p # ps)" "(replicate (length ps1) False @ True # ms) ! i"
  then consider "i = length ps1" | j where "i = length ps1 + Suc j" "j < length ps" "ms ! j"
    by (cases "i < length ps1") (auto simp: nth_append nth_Cons' split: if_splits intro: that(2) [of "i - Suc (length ps1)"])
  then show "describes_packet date junk (k + i + 1) ((ps1 @ p # ps) ! i) ((replicate (length ps1) [] @ t # ts) ! i)"
    using assms by cases (auto simp: nth_append texts_of_def add.assoc)
qed (use assms(1) in \<open>simp add: texts_of_def\<close>)

lemma capwalk_loop_prints:
  assumes "file_holds n st ps" "decides bpf flt ps ms" "list_all2 (\<lambda>m p. m \<longrightarrow> walkable p) ms ps"
    and "n * (length ps + 1) \<le> fuel" "length ps < N"
  shows "\<exists>ts x. texts_of date junk (st_stat_read st) ms ps ts \<and>
    capwalk_loop N fuel file_fill bpf date junk tmo out (st, Some flt) = Some (Inr (out @ chosen ms ts, x))"
  using assms
proof (induction N arbitrary: st flt ps ms out)
  case (Suc N)
  have cb: "stream_read_cb fuel file_fill bpf (handle_packet date junk) (Some tmo) out (st, Some flt) =
    (case stream_read fuel file_fill bpf (Some tmo) (st, Some flt) of
        None \<Rightarrow> None
      | Some (Inl e) \<Rightarrow> Some (Inl e)
      | Some (Inr (ret, cp, x)) \<Rightarrow>
          if ret = EAGAIN then Some (Inr (0, out, x))
          else if ret \<noteq> 0 then Some (Inr (ret, out, x))
          else case cp of
              None \<Rightarrow> Some (Inl Null_deref)
            | Some (_, cp) \<Rightarrow> map_option (\<lambda>r. rbind r (\<lambda>(ret, u). Inr (ret, u, x))) (handle_packet date junk (fst x) cp out))"
    by (simp add: stream_read_cb_def)
  from file_read_filter [OF Suc.prems(1,2,4), of "Some tmo"] show ?case unfolding next_accepted_def
  proof (elim disjE exE conjE)
    fix x assume "stream_read fuel file_fill bpf (Some tmo) (st, Some flt) = Some (Inr (- 1, None, x))" "ms = replicate (length ps) False"
    then show ?thesis
      by (intro exI [of _ "replicate (length ps) []"] exI [of _ x]) (auto simp: cb EAGAIN_def chosen_none texts_of_def)
  next
    fix ps1 ps2 ms2 pos q st' flt'
    assume r: "stream_read fuel file_fill bpf (Some tmo) (st, Some flt) = Some (Inr (0, Some (pos, q), st', Some flt'))"
      "ps = ps1 @ captured q # ps2" "ms = replicate (length ps1) False @ True # ms2" "file_holds n st' ps2"
      "decides bpf flt' ps2 ms2" "st_stat_read st' = st_stat_read st + length ps1 + 1"
    have w: "walkable (captured q)" "list_all2 (\<lambda>m p. m \<longrightarrow> walkable p) ms2 ps2"
      using Suc.prems(3) by (simp_all add: r(2,3) list_all2_append)
    have "packet_wf (captured q)" using capture_file.packets_wf [OF Suc.prems(1)] by (auto simp: r(2))
    from handle_packet_text [OF refl this w(1)] obtain t where
      t: "describes_packet date junk (st_stat_read st') (captured q) t" "handle_packet date junk st' q out = Some (Inr (0, out @ t))"
      by blast
    have "n * (length ps2 + 1) \<le> n * (length ps + 1)" using r(2) by (intro mult_le_mono2) simp
    then have "n * (length ps2 + 1) \<le> fuel" "length ps2 < N" using Suc.prems(4,5) r(2) by simp_all
    with w(2) obtain ts x where i: "texts_of date junk (st_stat_read st') ms2 ps2 ts"
      "capwalk_loop N fuel file_fill bpf date junk tmo (out @ t) (st', Some flt') = Some (Inr ((out @ t) @ chosen ms2 ts, x))"
      using Suc.IH [OF r(4,5), of "out @ t"] by blast
    show ?thesis
      using i texts_of_skip [OF i(1) [unfolded r(6)] t(1) [unfolded r(6)]] r(1) t(2)
      by (intro exI [of _ "replicate (length ps1) [] @ t # ts"] exI [of _ x]) (simp add: cb r(2,3) chosen_skip EAGAIN_def)
  qed
qed simp

section \<open>Properties\<close>

text \<open>
  Claim C18. Walking through a capture file ends and writes, for every packet that the filter accepts, in the order of the
  file, the number that the packet has in it and the text of every header that the walk visits in its captured bytes;
  the text does not depend on the bytes that lie behind them in the buffer. It is required that the headers of these
  packets can be visited within the captured bytes, and that none of them is a part of an IPv6 header, an OSPF packet of an
  unknown type or DNS.
\<close>

theorem capwalk_prints:
  assumes "file_holds n st ps" "decides bpf flt ps ms" "list_all2 (\<lambda>m p. m \<longrightarrow> walkable p) ms ps"
    and "n * (length ps + 1) \<le> fuel" "length ps < N"
  shows "\<exists>ts x. length ts = length ps \<and>
    (\<forall>i < length ps. ms ! i \<longrightarrow> describes_packet date junk (st_stat_read st + i + 1) (ps ! i) (ts ! i)) \<and>
    capwalk_loop N fuel (stream_file_fillbuffer good_medium) bpf date junk tmo out (st, Some flt) = Some (Inr (out @ chosen ms ts, x))"
  using capwalk_loop_prints [OF assms] by (auto simp: texts_of_def)

lemma zero_packet_walkable: "walkable (zero_packet t)"
proof -
  let ?q = "zero_packet t"
  define h where "h = (header_init ?q)\<lparr>hc_protocol := Some PROTOCOL_ETHERNET, hc_ptr := Some 0\<rparr>"
  have m: "hc_cp h = ?q" "unat (ch_caplen ?q) = 82" "hc_mem h = replicate 82 0" by (simp_all add: h_def header_init_def zero_packet_def)
  have w: "rd16 (replicate 82 0) 12 = Inr 0" by (simp add: rd16_def rd8_def le16_def)
  have e: "ethertype_next (ntohs 0) = PROTOCOL_DATA"
    by (simp add: ntohs_def le16_def ethertype_next_def packet_consts STPBRIDGES_def)
  have 1: "header_walk (header_init ?q) = Inr (True, h)"
    using m by (simp add: header_walk_def header_init_def h_def header_size_def proto_entry_def limited_caplen_def)
  have 2: "header_walk h = Inr (True, h\<lparr>hc_protocol := Some PROTOCOL_DATA, hc_ptr := Some 14\<rparr>)"
    using m by (simp add: header_walk_def next_payload_def h_def header_init_def header_size_def proto_entry_def
        limited_caplen_def ethernet_next_def w e ptr_sanity_def)
  have 3: "header_walk (h\<lparr>hc_protocol := Some PROTOCOL_DATA, hc_ptr := Some 14\<rparr>) =
      Inr (False, h\<lparr>hc_protocol := Some PROTOCOL_DATA, hc_ptr := Some 14\<rparr>)"
    by (simp add: header_walk_def next_payload_def proto_entry_def)
  have v: "visit_headers (Suc (Suc (Suc k))) (header_init ?q) = Some (Inr [h, h\<lparr>hc_protocol := Some PROTOCOL_DATA, hc_ptr := Some 14\<rparr>])" for k
    using 1 2 3 by simp
  have k: "unat (ch_caplen ?q) + 3 = Suc (Suc (Suc 82))" using m by simp
  show ?thesis unfolding walkable_def k v by (simp add: h_def dump_safe_def)
qed

theorem capwalk_prints_witness:
  "\<exists>t1 t3 x. describes_packet (\<lambda>_. []) [] 1 (zero_packet (timepico_new 1 0)) t1 \<and>
    describes_packet (\<lambda>_. []) [] 3 (zero_packet (timepico_new 3 0)) t3 \<and>
    capwalk_loop 4 1600 (stream_file_fillbuffer good_medium) (\<lambda>_ _ _ _. 0) (\<lambda>_. []) [] \<lparr>tval_sec = 1, tval_usec = 0\<rparr> []
      (opened_file (map zero_packet [timepico_new 1 0, timepico_new 2 0, timepico_new 3 0]), Some odd_frames) = Some (Inr (t1 @ t3, x))"
proof -
  let ?ps = "map zero_packet [timepico_new 1 0, timepico_new 2 0, timepico_new 3 0]"
  have h: "file_holds 400 (opened_file ?ps) ?ps" by simp (rule opened_file_holds [of "[timepico_new 1 0, timepico_new 2 0, timepico_new 3 0]" 400, simplified])
  have w: "list_all2 (\<lambda>m p. m \<longrightarrow> walkable p) [True, False, True] ?ps" using zero_packet_walkable by simp
  have k: "st_stat_read (opened_file ?ps) = 0" by (simp add: opened_file_def stream_alloc_def Let_def)
  obtain ts x where r: "length ts = 3"
    "\<forall>i < 3. [True, False, True] ! i \<longrightarrow> describes_packet (\<lambda>_. []) [] (i + 1) (?ps ! i) (ts ! i)"
    "capwalk_loop 4 1600 (stream_file_fillbuffer good_medium) (\<lambda>_ _ _ _. 0) (\<lambda>_. []) [] \<lparr>tval_sec = 1, tval_usec = 0\<rparr> [] (opened_file ?ps, Some odd_frames) =
      Some (Inr (chosen [True, False, True] ts, x))"
    using capwalk_prints [OF h odd_frames_decides [of "\<lambda>_ _ _ _. 0"] w, where fuel = 1600 and N = 4 and date = "\<lambda>_. []" and junk = "[]" and
      tmo = "\<lparr>tval_sec = 1, tval_usec = 0\<rparr>" and out = "[]"] k
    by (auto simp: numeral_3_eq_3 simp del: list.map)
  from r(1) obtain a b c where ts: "ts = [a, b, c]" by (auto simp: numeral_3_eq_3 length_Suc_conv)
  have "describes_packet (\<lambda>_. []) [] 1 (zero_packet (timepico_new 1 0)) a" "describes_packet (\<lambda>_. []) [] 3 (zero_packet (timepico_new 3 0)) c"
    using r(2) [rule_format, of 0] r(2) [rule_format, of 2] by (simp_all add: ts)
  moreover have "chosen [True, False, True] ts = a @ c" by (simp add: ts chosen_def)
  ultimately show ?thesis using r(3) by metis
qed

end
