(* ===== verification/Log.thy ===== *)
theory Log
  imports Dns_Print
begin

text \<open>
  \<open>src/log.c\<close>: the tag in front of a message and the hexadecimal dump of a packet, as the text that is written.
  The time in front of a message is read from the clock and left out.
\<close>

section \<open>Tags\<close>

text \<open>
  The widths are of type \<open>size_t\<close> and the counters of the two padding loops of type \<open>int\<close>: a loop runs as often
  as the counter is positive.
\<close>

definition int_of_size :: "u64 \<Rightarrow> int" where
  "int_of_size w = sint (ucast w :: u32)"

definition write_tag :: "string \<Rightarrow> string" where
  "write_tag tag =
     (let tag_width = 7; len = word_of_nat (length tag) :: u64;
          diff = (if tag_width - len > 0 then tag_width - len else 0);
          half = drop_bit 1 diff
      in ''['' @ replicate (nat (int_of_size (half + (diff AND 1)))) CHR '' '' @ tag @
         replicate (nat (int_of_size half)) CHR '' '' @ ''] '')"

section \<open>Hexadecimal dumps\<close>

definition aligned :: "nat \<Rightarrow> nat \<Rightarrow> nat" where
  "aligned v n = n * (v div n + (if v mod n > 0 then 1 else 0))"

definition hexdump_cell :: "mem \<Rightarrow> nat \<Rightarrow> nat \<Rightarrow> string res" where
  "hexdump_cell data bsize i =
     (if i < bsize then rbind (rd8 data i) (\<lambda>b. Inr (hex_pad_upper 2 (unat b) @ '' '')) else Inr ''   '')"

text \<open>The characters at \<open>j\<close> and behind, at most as many as the last argument says.\<close>

fun hexdump_ascii :: "mem \<Rightarrow> nat \<Rightarrow> nat \<Rightarrow> nat \<Rightarrow> string res" where
  "hexdump_ascii data bsize j 0 = Inr []"
| "hexdump_ascii data bsize j (Suc k) =
     (if j \<ge> bsize then Inr []
      else rbind (rd8 data j) (\<lambda>b.
        emit [if isprint b then char_of_byte b else CHR ''.''] (hexdump_ascii data bsize (j + 1) k)))"

text \<open>What is put out behind the bytes of a line.\<close>

definition hexdump_eol :: "mem \<Rightarrow> nat \<Rightarrow> nat \<Rightarrow> nat \<Rightarrow> string res" where
  "hexdump_eol data bsize align i =
     (if i mod 16 = 15 then
        rbind (hexdump_ascii data bsize (i - 15) 16) (\<lambda>s.
          Inr (''    |'' @ s @ ''|'' @
            (if i + 1 < align then CHR 0x0a # ''['' @ hex_pad_upper 4 (i + 1) @ '']  '' else [])))
      else Inr [])"

function hexdump_loop :: "mem \<Rightarrow> nat \<Rightarrow> nat \<Rightarrow> nat \<Rightarrow> string res" where
  "hexdump_loop data bsize align i =
     (if i < align then
        rbind (hexdump_cell data bsize i) (\<lambda>cell.
        rbind (hexdump_eol data bsize align i) (\<lambda>eol.
          emit (cell @ (if i mod 4 = 3 then ''  '' else []) @ eol) (hexdump_loop data bsize align (i + 1))))
      else Inr [])"
  by pat_completeness auto
termination hexdump_loop by (relation "measure (\<lambda>(_, _, align, i). align - i)") auto

declare hexdump_loop.simps [simp del]

text \<open>The text that is built in the buffer; the counter has 32 bits and the size is below \<open>2 ^ 32 - 15\<close>.\<close>

definition hexdump_str :: "mem \<Rightarrow> nat \<Rightarrow> string res" where
  "hexdump_str data bsize =
     rbind (hexdump_loop data bsize (aligned bsize 16) 0) (\<lambda>s.
       Inr (''[0000]  '' @ s @ [CHR 0x0a] @ ''['' @ hex_pad_upper 4 bsize @ '']'' @ [CHR 0x0a]))"

text \<open>The bytes that are allocated for it.\<close>

definition hexdump_buffer :: "nat \<Rightarrow> nat" where
  "hexdump_buffer bsize = bsize * 10 + 80"

section \<open>Lengths\<close>

lemma hex_length_le: "n < 16 ^ k \<Longrightarrow> 0 < k \<Longrightarrow> length (hex n) \<le> k"
proof (induction n arbitrary: k rule: hex.induct)
  case (1 n)
  show ?case
  proof (cases "n < 16")
    case True
    with 1(3) show ?thesis by (subst hex.simps) simp
  next
    case False
    with 1(2,3) obtain j where j: "k = Suc j" "0 < j" by (cases k; cases "k - 1") auto
    with 1(2) have "n div 16 < 16 ^ j" by (simp add: less_mult_imp_div_less)
    with 1(1) [OF False this j(2)] False j(1) show ?thesis by (subst hex.simps) simp
  qed
qed

lemma hex_pad_upper_length:
  "n < 16 ^ k \<Longrightarrow> 0 < m \<Longrightarrow> m \<le> k \<Longrightarrow> length (hex_pad_upper m n) \<le> k"
  using hex_length_le [of n k] by (simp add: hex_pad_upper_def hex_pad_def)

lemma aligned_eq:
  "aligned (16 * a + r) 16 = 16 * (if r = 0 then a else a + 1)" if "r \<le> 16" "r \<noteq> 16"
  using that by (simp add: aligned_def)

lemma hexdump_ascii_total:
  "bsize \<le> length data \<Longrightarrow> \<exists>s. hexdump_ascii data bsize j k = Inr s \<and> length s \<le> min k (bsize - j)"
proof (induction k arbitrary: j)
  case (Suc k)
  show ?case using Suc.IH [OF Suc.prems, of "j + 1"] Suc.prems by (auto simp: rd8_def)
qed simp

lemma hexdump_cell_total:
  assumes "bsize \<le> length data"
  shows "\<exists>s. hexdump_cell data bsize i = Inr s \<and> length s \<le> 3"
proof -
  have "length (hex_pad_upper 2 (unat (b :: u8))) \<le> 2" for b
    using hex_pad_upper_length [of "unat b" 2 2] unsigned_less [of b, where 'a = nat] by simp
  then show ?thesis using assms by (auto simp: hexdump_cell_def rd8_def)
qed

lemma hexdump_eol_total:
  assumes "bsize \<le> length data" "align \<le> 2 ^ 32" "q < 16"
  shows "\<exists>s. hexdump_eol data bsize align (16 * a + q) = Inr s \<and>
    length s \<le> (if q = 15 then 6 + min 16 (bsize - 16 * a) + (if 16 * a + 16 < align then 13 else 0) else 0)"
proof (cases "q = 15")
  case True
  obtain s where "hexdump_ascii data bsize (16 * a) 16 = Inr s" "length s \<le> min 16 (bsize - 16 * a)"
    using hexdump_ascii_total [OF assms(1)] by blast
  moreover have "length (hex_pad_upper 4 (16 + 16 * a)) \<le> 8" if "16 * a + 16 < align"
    using hex_pad_upper_length [of "16 + 16 * a" 8 4] that assms(2) by simp
  ultimately show ?thesis using True by (auto simp: hexdump_eol_def)
qed (use assms(3) in \<open>simp add: hexdump_eol_def\<close>)

text \<open>What the rest of a line and the lines behind it need, in a dump of \<open>n\<close> lines with \<open>r\<close> bytes on the last.\<close>

definition dump_rest :: "nat \<Rightarrow> nat \<Rightarrow> nat \<Rightarrow> nat \<Rightarrow> nat" where
  "dump_rest n r a q = 3 * (16 - q) + 2 * (4 - q div 4) +
     (if a + 1 = n then 6 + r else 97 + r + 91 * (n - 2 - a))"

lemma dump_rest_step:
  "q < 15 \<Longrightarrow> 3 + (if q mod 4 = 3 then 2 else 0) + dump_rest n r a (q + 1) \<le> dump_rest n r a q"
proof -
  assume "q < 15"
  then have "q \<in> set [0..<15]" by simp
  then show ?thesis by (auto simp: upt_rec dump_rest_def)
qed

lemma dump_rest_line:
  "a + 1 < n \<Longrightarrow> 40 + dump_rest n r (a + 1) 0 \<le> dump_rest n r a 15"
  by (auto simp: dump_rest_def)

lemma hexdump_loop_total:
  assumes "bsize \<le> length data" "16 * n \<le> 2 ^ 32" "bsize = 16 * (n - 1) + r" "a < n" "q < 16" "r \<le> 16"
  shows "\<exists>s. hexdump_loop data bsize (16 * n) (16 * a + q) = Inr s \<and> length s \<le> dump_rest n r a q"
  using assms(4,5)
proof (induction "16 * n - (16 * a + q)" arbitrary: a q rule: less_induct)
  case less
  let ?i = "16 * a + q"
  obtain cell eol where c: "hexdump_cell data bsize ?i = Inr cell" "length cell \<le> 3"
    and e: "hexdump_eol data bsize (16 * n) ?i = Inr eol"
      "length eol \<le> (if q = 15 then 6 + min 16 (bsize - 16 * a) + (if 16 * a + 16 < 16 * n then 13 else 0) else 0)"
    using hexdump_cell_total [OF assms(1)] hexdump_eol_total [OF assms(1,2) less.prems(2)] by blast
  have m: "?i mod 4 = q mod 4" by presburger
  have i: "16 * n - (?i + 1) < 16 * n - ?i" using less.prems by linarith
  have l: "hexdump_loop data bsize (16 * n) ?i = emit (cell @ (if q mod 4 = 3 then ''  '' else []) @ eol)
      (hexdump_loop data bsize (16 * n) (?i + 1))"
    using less.prems c(1) e(1) by (subst hexdump_loop.simps) (simp add: m)
  consider "q < 15" | "q = 15" "a + 1 = n" | "q = 15" "a + 1 < n" using less.prems by linarith
  then show ?case
  proof cases
    case 1
    then obtain s where "hexdump_loop data bsize (16 * n) (?i + 1) = Inr s" "length s \<le> dump_rest n r a (q + 1)"
      using less.hyps [of a "q + 1"] less.prems i by auto
    then show ?thesis using l c(2) e(2) 1 dump_rest_step [OF 1, of n r a] by auto
  next
    case 2
    have "hexdump_loop data bsize (16 * n) (?i + 1) = Inr []"
      using 2 by (subst hexdump_loop.simps) simp
    then show ?thesis using l c(2) e(2) 2 assms(3) by (auto simp: dump_rest_def)
  next
    case 3
    then obtain s where "hexdump_loop data bsize (16 * n) (?i + 1) = Inr s" "length s \<le> dump_rest n r (a + 1) 0"
      using less.hyps [of "a + 1" 0] i by (auto simp: add.commute)
    then show ?thesis using l c(2) e(2) 3 dump_rest_line [OF 3(2), of r] by auto
  qed
qed

section \<open>Properties\<close>

text \<open>
  Claim C36. The dump of a packet fits the buffer that \<open>hexdump_str\<close> allocates for it, with its terminating null
  character, and the bytes of the packet are all that is read.
\<close>

theorem hexdump_fits:
  assumes "bsize \<le> length data" "bsize \<le> 2 ^ 32 - 16"
  shows "\<exists>s. hexdump_str data bsize = Inr s \<and> length s + 1 \<le> hexdump_buffer bsize"
proof (cases "bsize = 0")
  case True
  then show ?thesis
    using hex_pad_upper_length [of 0 4 4]
    by (simp add: hexdump_str_def aligned_def hexdump_loop.simps [of _ _ 0] hexdump_buffer_def)
next
  case False
  define n where "n = (bsize - 1) div 16 + 1"
  define r where "r = (bsize - 1) mod 16 + 1"
  have r: "bsize = 16 * (n - 1) + r" "r \<le> 16" "0 < r" using False by (simp_all add: n_def r_def)
  have n: "0 < n" by (simp add: n_def)
  have al: "aligned bsize 16 = 16 * n"
  proof (cases "r = 16")
    case True
    then have "bsize = 16 * n" using r(1) n by simp
    then show ?thesis by (simp add: aligned_def)
  qed (use aligned_eq [of r "n - 1"] r n in simp)
  have "16 * n \<le> 2 ^ 32" using assms(2) by (simp add: n_def)
  from hexdump_loop_total [OF assms(1) this r(1) n _ r(2), of 0]
  obtain s where s: "hexdump_loop data bsize (16 * n) 0 = Inr s" "length s \<le> dump_rest n r 0 0" by auto
  have "length (hex_pad_upper 4 bsize) \<le> 8"
    using hex_pad_upper_length [of bsize 8 4] assms(2) by simp
  moreover have "dump_rest n r 0 0 + 21 \<le> bsize * 10 + 80"
    using r n unfolding dump_rest_def by (cases n; cases "n - 1") auto
  ultimately show ?thesis using s by (simp add: hexdump_str_def al hexdump_buffer_def)
qed

theorem hexdump_fits_witness:
  "\<exists>s. hexdump_str (replicate 17 0x41) 17 = Inr s \<and> length s + 1 \<le> hexdump_buffer 17"
  using hexdump_fits [of 17 "replicate 17 0x41"] by simp

text \<open>
  A tag of at most seven characters is centred in a field of seven. For a longer tag the difference of the widths is
  negative and wraps, so that the guard in front of the padding does not hold it back, but half of it is negative
  again once it is stored in an \<open>int\<close>: there is no padding.
\<close>

lemma write_tag_short:
  assumes "length tag \<le> 7"
  shows "\<exists>l r. write_tag tag = ''['' @ replicate l CHR '' '' @ tag @ replicate r CHR '' '' @ ''] '' \<and>
    l + length tag + r = 7 \<and> (l = r \<or> l = r + 1)"
proof -
  have "length tag \<in> set [0..<8]" using assms by simp
  then have "write_tag tag = ''['' @ replicate ((8 - length tag) div 2) CHR '' '' @ tag @ replicate ((7 - length tag) div 2) CHR '' '' @ ''] ''"
    by (auto simp: upt_rec write_tag_def int_of_size_def Let_def)
  then show ?thesis using assms by (intro exI [of _ "(8 - length tag) div 2"] exI [of _ "(7 - length tag) div 2"]) auto
qed

lemma int_of_size_wrapped:
  assumes "uint w = 2 ^ 63 + j" "- (2 ^ 30) \<le> j" "j \<le> 2 ^ 30"
  shows "int_of_size w = j"
proof -
  have "(ucast w :: u32) = word_of_int (2 ^ 63 + j)" using assms(1) by (metis ucast_eq)
  also have "\<dots> = word_of_int j" by simp
  finally show ?thesis using assms(2,3) by (simp add: int_of_size_def signed_of_int signed_take_bit_int_eq_self)
qed

lemma half_wrapped:
  assumes "0 < k" "k < 2 ^ 31"
  shows "uint (drop_bit 1 (- word_of_nat k :: u64)) = 2 ^ 63 - int ((k + 1) div 2)"
proof -
  have "(- word_of_nat k :: u64) = word_of_int (- int k)" by simp
  then have "uint (- word_of_nat k :: u64) = (- int k) mod 2 ^ 64"
    by (simp only: uint_word_of_int) simp
  also have "\<dots> = 2 ^ 64 - int k" using assms by (subst zmod_zminus1_eq_if) simp
  finally have "uint (drop_bit 1 (- word_of_nat k :: u64)) = (2 ^ 64 - int k) div 2"
    by (simp add: drop_bit_eq_div uint_div)
  also have "\<dots> = 2 ^ 63 - int ((k + 1) div 2)" by (simp add: zdiv_int)
  finally show ?thesis .
qed

lemma write_tag_long:
  assumes "7 < length tag" "length tag < 2 ^ 31"
  shows "write_tag tag = ''['' @ tag @ ''] ''"
proof -
  obtain k where k: "length tag = k + 7" "0 < k" using assms(1) by (metis add.commute less_imp_add_positive)
  define w :: u64 where "w = - word_of_nat k"
  have u: "uint (drop_bit 1 w) = 2 ^ 63 - int ((k + 1) div 2)" using half_wrapped [of k] k assms(2) by (simp add: w_def)
  have w: "7 - word_of_nat (length tag) = w" by (simp add: k(1) w_def)
  have h: "0 < (k + 1) div 2" "(k + 1) div 2 \<le> 2 ^ 30" using k assms(2) by auto
  have "w AND 1 = 0 \<or> w AND 1 = 1" by (simp add: and_one_eq mod_2_eq_odd)
  then obtain c where c: "c \<in> {0, 1 :: int}" "uint (drop_bit 1 w + (w AND 1)) = 2 ^ 63 + (c - int ((k + 1) div 2))"
  proof
    assume "w AND 1 = 1"
    moreover have "uint (drop_bit 1 w + 1) = 2 ^ 63 + (1 - int ((k + 1) div 2))"
      using u h(2) by (simp add: uint_word_ariths mod_pos_pos_trivial)
    ultimately show thesis using that [of 1] by simp
  qed (use u that [of 0] in simp)
  have "int_of_size (drop_bit 1 w + (w AND 1)) = c - int ((k + 1) div 2)" "int_of_size (drop_bit 1 w) = - int ((k + 1) div 2)"
    using c(1) h u by (intro int_of_size_wrapped [OF c(2)] int_of_size_wrapped; auto)+
  then have "int_of_size (drop_bit 1 w + (w AND 1)) \<le> 0" "int_of_size (drop_bit 1 w) \<le> 0" using c(1) h by auto
  moreover have "int_of_size 0 = 0" by (simp add: int_of_size_def)
  ultimately show ?thesis by (auto simp: write_tag_def Let_def w)
qed

end
