(* ===== verification/Capshow.thy ===== *)
theory Capshow
  imports Connection_Id Capfilter Log Protocol_Format
begin

text \<open>
  Showing packets: the formatter of \<open>src/format.c\<close> and the loop of \<open>tools/capshow.c\<close>. The output is the text that is
  written. The strings that \<open>strftime\<close> gives for a date, which depend on the time zone, and the content of arrays that
  are not initialised are the record \<open>show_env\<close>. The messages at the end of a run and the signal are left out.
\<close>

section \<open>The formatter\<close>

definition FORMAT_DATE_BIT :: nat where "FORMAT_DATE_BIT = 0"
definition FORMAT_LOCAL_BIT :: nat where "FORMAT_LOCAL_BIT = 1"
definition FORMAT_REL_TIMESTAMP :: nat where "FORMAT_REL_TIMESTAMP = 2"
definition FORMAT_HEXDUMP :: nat where "FORMAT_HEXDUMP = 3"
definition FORMAT_LAYER_LINK :: u32 where "FORMAT_LAYER_LINK = push_bit FORMAT_LAYER_BIT 2"

record format_state =
  fm_pktcount :: u64
  fm_ref :: timepico
  fm_first :: bool
  fm_flags :: u32

text \<open>\<open>se_date local sec\<close> gives the date and the offset of the time zone.\<close>

record show_env =
  se_date :: "bool \<Rightarrow> u32 \<Rightarrow> string \<times> string"
  se_junk :: "u8 list"

text \<open>\<open>%nd\<close>.\<close>

definition space_pad :: "nat \<Rightarrow> string \<Rightarrow> string" where
  "space_pad n s = replicate (n - length s) CHR '' '' @ s"

definition print_timestamp :: "show_env \<Rightarrow> format_state \<Rightarrow> cap_header \<Rightarrow> string" where
  "print_timestamp env fm cp =
     (if \<not> bit (fm_flags fm) FORMAT_DATE_BIT then
        let (neg, t) =
          (if bit (fm_flags fm) FORMAT_REL_TIMESTAMP then
             if timecmp (ch_ts cp) (fm_ref fm) \<ge> 0 then (False, timepico_sub (ch_ts cp) (fm_ref fm))
             else (True, timepico_sub (fm_ref fm) (ch_ts cp))
           else (False, ch_ts cp))
        in (if neg then ''-'' else []) @ dec (unat (tv_sec t)) @ ''.'' @ zero_pad 12 (dec (unat (tv_psec t)))
      else
        let (day, zone) = se_date env (bit (fm_flags fm) FORMAT_LOCAL_BIT) (tv_sec (ch_ts cp))
        in day @ ''.'' @ zero_pad 12 (dec (unat (tv_psec (ch_ts cp)))) @ '' '' @ zone)"

text \<open>The headers of a packet; the loop needs at most three rounds more than there are captured bytes.\<close>

fun headers_text :: "u8 list \<Rightarrow> u32 \<Rightarrow> header_chunk list \<Rightarrow> string res" where
  "headers_text junk flags [] = Inr []"
| "headers_text junk flags (h # hs) =
     rbind (if hc_protocol h = None then Inr (''Unknown protocol'' @ [CHR 0x0a]) else header_format junk h flags) (\<lambda>s.
       emit s (headers_text junk flags hs))"

definition show_headers :: "u8 list \<Rightarrow> format_state \<Rightarrow> cap_header \<Rightarrow> string res option" where
  "show_headers junk fm cp =
     (if ch_caplen cp > 0 \<and> fm_flags fm \<ge> FORMAT_LAYER_LINK then
        map_option (\<lambda>r. rbind r (headers_text junk (fm_flags fm)))
        (visit_headers (unat (ch_caplen cp) + 3) (header_init cp))
      else Some (Inr []))"

text \<open>\<open>min\<close> compares signed numbers and its result becomes a size.\<close>

definition show_hexdump :: "format_state \<Rightarrow> cap_header \<Rightarrow> string res" where
  "show_hexdump fm cp =
     (if bit (fm_flags fm) FORMAT_HEXDUMP then
        hexdump_str (ch_payload cp) (unat (scast (min_int (ch_caplen cp) (ch_len cp)) :: u64))
      else Inr [])"

text \<open>What \<open>print_pkt\<close> writes for a packet with a connection number.\<close>

definition pkt_items ::
  "show_env \<Rightarrow> format_state \<Rightarrow> cap_header \<Rightarrow> u32 \<Rightarrow> string res option" where
  "pkt_items env fm cp n =
     map_option (\<lambda>r. rbind r (\<lambda>hs. rbind (show_hexdump fm cp) (\<lambda>hx.
       Inr (print_timestamp env fm cp @ '':LINK('' @ space_pad 4 (dec_int (sint (ch_len cp))) @ ''):CAPLEN('' @
               space_pad 4 (dec_int (sint (ch_caplen cp))) @ '')'' @
               (if n > 0 then '':ID('' @ space_pad 4 (dec_int (sint n)) @ '')'' else '':ID(   -)'') @ hs @ [CHR 0x0a] @ hx))))
     (show_headers (se_junk env) fm cp)"

definition print_pkt ::
  "show_env \<Rightarrow> tracker \<Rightarrow> format_state \<Rightarrow> cap_header \<Rightarrow> (string \<times> tracker) res option" where
  "print_pkt env tr fm cp =
     (case connection_id tr (ch_payload cp) of
        Inl e \<Rightarrow> Some (Inl e)
      | Inr (n, tr) \<Rightarrow> map_option (\<lambda>r. rbind r (\<lambda>items. Inr (items, tr))) (pkt_items env fm cp n))"

text \<open>The time of reference is not set before the first packet.\<close>

definition format_setup :: "format_state \<Rightarrow> u32 \<Rightarrow> format_state" where
  "format_setup fm flags =
     fm\<lparr>fm_pktcount := 0, fm_first := True,
        fm_flags := (if drop_bit FORMAT_LAYER_BIT flags = 0 then flags OR FORMAT_LAYER_APPLICATION else flags)\<rparr>"

definition format_count :: "format_state \<Rightarrow> cap_header \<Rightarrow> format_state" where
  "format_count fm cp =
     (let fm = fm\<lparr>fm_pktcount := fm_pktcount fm + 1\<rparr>
      in if fm_first fm then fm\<lparr>fm_ref := ch_ts cp, fm_first := False\<rparr> else fm)"

text \<open>
  The number and the names in front. A name that fills its field is not terminated: \<open>strlen\<close> goes on behind the
  field, through the rest of the header and the packet.
\<close>

definition pkt_prefix :: "format_state \<Rightarrow> cap_header \<Rightarrow> string res" where
  "pkt_prefix fm cp =
     (let m = cap_header_bytes cp @ ch_payload cp in
      rbind (fputs_printable m (Some 8)) (\<lambda>nic.
      rbind (fputs_printable (drop 8 m) (Some 8)) (\<lambda>mampid.
        Inr (''['' @ space_pad 4 (dec (unat (fm_pktcount fm))) @ '']:'' @ nic @ '':'' @ mampid @ '':''))))"

definition format_pkg ::
  "show_env \<Rightarrow> tracker \<Rightarrow> format_state \<Rightarrow> cap_header \<Rightarrow>
   (string \<times> tracker \<times> format_state) res option" where
  "format_pkg env tr fm cp =
     (let fm = format_count fm cp in
      case pkt_prefix fm cp of
        Inl e \<Rightarrow> Some (Inl e)
      | Inr s \<Rightarrow> map_option (\<lambda>r. rbind r (\<lambda>(items, tr). Inr (s @ items, tr, fm))) (print_pkt env tr fm cp))"

definition format_ignore :: "format_state \<Rightarrow> cap_header \<Rightarrow> format_state" where
  "format_ignore fm cp = format_count fm cp"

section \<open>The options\<close>

record capshow_options =
  so_flags :: u32
  so_max_packets :: u32
  so_max_matched :: u32
  so_iface :: "string option"
  so_timeout :: timeval

text \<open>One round of the loop over the options; an option that shows a text and ends the program is left out.\<close>

definition set_flag :: "nat \<Rightarrow> capshow_options \<Rightarrow> capshow_options" where
  "set_flag i opts = opts\<lparr>so_flags := so_flags opts OR push_bit i 1\<rparr>"

definition capshow_option :: "char \<Rightarrow> string \<Rightarrow> capshow_options \<Rightarrow> capshow_options" where
  "capshow_option op optarg opts =
     (if op \<in> {CHR ''1'', CHR ''2'', CHR ''3'', CHR ''4''} then
        opts\<lparr>so_flags := (so_flags opts AND NOT (push_bit FORMAT_LAYER_BIT 7)) OR push_bit FORMAT_LAYER_BIT (word_of_nat (of_char op - 48))\<rparr>
      else if op = CHR ''d'' then set_flag FORMAT_DATE_BIT opts
      else if op = CHR ''D'' then set_flag FORMAT_LOCAL_BIT (set_flag FORMAT_DATE_BIT opts)
      else if op = CHR ''a'' then opts\<lparr>so_flags := so_flags opts AND NOT (push_bit FORMAT_REL_TIMESTAMP 1)\<rparr>
      else if op = CHR ''r'' then set_flag FORMAT_REL_TIMESTAMP opts
      else if op = CHR ''H'' then set_flag 4 opts
      else if op = CHR ''p'' then opts\<lparr>so_max_packets := word_of_int (atoi optarg)\<rparr>
      else if op = CHR ''c'' then opts\<lparr>so_max_matched := word_of_int (atoi optarg)\<rparr>
      else if op = CHR ''t'' then
        let tmp = atoi optarg in
        opts\<lparr>so_timeout := \<lparr>tval_sec = word_of_int (sgn tmp * (\<bar>tmp\<bar> div 1000)), tval_usec = word_of_int (sgn tmp * (\<bar>tmp\<bar> mod 1000) * 1000)\<rparr>\<rparr>
      else if op = CHR ''x'' then set_flag FORMAT_HEXDUMP opts
      else if op = CHR ''i'' then opts\<lparr>so_iface := Some optarg\<rparr>
      else opts)"

section \<open>The loop\<close>

record ('s, 'b) capshow_state =
  sw_src :: 's
  sw_filter :: "'b cap_filter"
  sw_tracker :: tracker
  sw_format :: format_state
  sw_matched :: u64
  sw_out :: "string"

text \<open>What is done with a packet.\<close>

definition show_packet ::
  "show_env \<Rightarrow> ('b \<Rightarrow> mem \<Rightarrow> u32 \<Rightarrow> u32 \<Rightarrow> u32) \<Rightarrow> cap_header \<Rightarrow> ('s, 'b) capshow_state \<Rightarrow>
   ('s, 'b) capshow_state res option" where
  "show_packet env bpf cp s =
     (case rbind (connection_id (sw_tracker s) (ch_payload cp)) (\<lambda>(_, tr).
             rbind (filter_match bpf (sw_filter s) (ch_payload cp) cp) (\<lambda>(mt, flt). Inr (tr, mt, flt))) of
        Inl e \<Rightarrow> Some (Inl e)
      | Inr (tr, mt, flt) \<Rightarrow>
          let s = s\<lparr>sw_tracker := tr, sw_filter := flt\<rparr> in
          if mt then
            map_option (\<lambda>r. rbind r (\<lambda>(items, tr, fm).
              Inr (s\<lparr>sw_tracker := tr, sw_format := fm, sw_matched := sw_matched s + 1, sw_out := sw_out s @ items\<rparr>)))
            (format_pkg env tr (sw_format s) cp)
          else Some (Inr (s\<lparr>sw_format := format_ignore (sw_format s) cp\<rparr>)))"

fun capshow_loop ::
  "nat \<Rightarrow> 's reader \<Rightarrow> ('s \<Rightarrow> nat) \<Rightarrow> show_env \<Rightarrow> ('b \<Rightarrow> mem \<Rightarrow> u32 \<Rightarrow> u32 \<Rightarrow> u32) \<Rightarrow> capshow_options \<Rightarrow>
   ('s, 'b) capshow_state \<Rightarrow> (int \<times> ('s, 'b) capshow_state) res option" where
  "capshow_loop 0 rd matches env bpf opts s = None"
| "capshow_loop (Suc n) rd matches env bpf opts s =
     (case rd (sw_src s) of
        None \<Rightarrow> None
      | Some (Inl e) \<Rightarrow> Some (Inl e)
      | Some (Inr (ret, cp, src)) \<Rightarrow>
          let s = s\<lparr>sw_src := src\<rparr> in
          if ret = EAGAIN then capshow_loop n rd matches env bpf opts s
          else if ret \<noteq> 0 then Some (Inr (ret, s))
          else case cp of
              None \<Rightarrow> Some (Inl Null_deref)
            | Some cp \<Rightarrow>
                (case show_packet env bpf cp s of
                   None \<Rightarrow> None
                 | Some (Inl e) \<Rightarrow> Some (Inl e)
                 | Some (Inr s) \<Rightarrow>
                     if so_max_packets opts > 0 \<and> matches (sw_src s) \<ge> unat (so_max_packets opts) then Some (Inr (ret, s))
                     else if so_max_matched opts > 0 \<and> unat (sw_matched s) \<ge> unat (so_max_matched opts) then Some (Inr (ret, s))
                     else capshow_loop n rd matches env bpf opts s))"

section \<open>Connection numbers of packets that are looked at twice\<close>

lemma handshake_seq: "handshake m = Inr (Some q) \<Longrightarrow> packet_seq m = Inr q"
  by (auto simp: handshake_def packet_seq_def rbind_Inr_iff split: option.splits if_splits)

text \<open>A packet that has been counted is found again, and its handshake is known.\<close>

lemma find_conn_last:
  assumes "\<forall>c\<in>set cs. \<not> same_flow e c"
  shows "\<exists>rv. find_conn (cs @ [\<lparr>cn_entry = e, cn_seq = (q, q), cn_id = n\<rparr>]) e = Some (length cs, rv)"
  using assms by (intro find_conn_exists) (auto simp: nth_append same_flow_def)

lemma conn_search_again:
  assumes d: "flows_distinct cs" and e: "\<not> en_finished e" and r: "conn_search hs sq cs c e = (n, cs', c')"
    and sq: "\<And>q. hs = Some q \<Longrightarrow> sq = q"
  obtains k rv where "find_conn cs' e = Some (k, rv)" "cn_id (cs' ! k) = n"
    "\<And>q. hs = Some q \<Longrightarrow> (if rv then snd (cn_seq (cs' ! k)) else fst (cn_seq (cs' ! k))) = q"
proof (cases "find_conn cs e")
  case None
  then have cs': "n = c + 1" "cs' = cs @ [\<lparr>cn_entry = e, cn_seq = (sq, sq), cn_id = c + 1\<rparr>]"
    using r by (auto simp: conn_search_def)
  obtain rv where "find_conn cs' e = Some (length cs, rv)"
    using find_conn_last [of cs e] None cs'(2) unfolding find_conn_absent by blast
  then show thesis using that [of "length cs" rv] cs' sq by (auto simp: nth_append)
next
  case (Some kr)
  obtain k rv where f: "find_conn cs e = Some (k, rv)" using Some by (cases kr) simp
  show thesis
  proof (cases "\<exists>q. hs = Some q \<and> (if rv then snd (cn_seq (cs ! k)) else fst (cn_seq (cs ! k))) \<noteq> q")
    case True
    then obtain q where q: "hs = Some q" "(if rv then snd (cn_seq (cs ! k)) else fst (cn_seq (cs ! k))) \<noteq> q" by blast
    let ?cs = "cs[k := finish_conn (cs ! k)]"
    have cs': "n = c + 1" "cs' = ?cs @ [\<lparr>cn_entry = e, cn_seq = (q, q), cn_id = c + 1\<rparr>]"
      using r f q by (auto simp: conn_search_def)
    obtain rv' where "find_conn cs' e = Some (length ?cs, rv')"
      using find_conn_last [OF finish_absent [OF d e f]] cs'(2) by blast
    then show thesis using that [of "length ?cs" rv'] cs' q(1) by (auto simp: nth_append)
  next
    case False
    then have "conn_search hs sq cs c e = (cn_id (cs ! k), cs, c)" using f by (cases hs) (simp_all add: conn_search_def)
    then have "n = cn_id (cs ! k)" "cs' = cs" using r by simp_all
    then show thesis using that [of k rv] f False by auto
  qed
qed

lemma search_known:
  assumes h: "holds_conns b cs" and f: "find_conn cs e = Some (k, rv)" and hs: "handshake m = Inr hs"
    and sq: "\<And>q. hs = Some q \<Longrightarrow> (if rv then snd (cn_seq (cs ! k)) else fst (cn_seq (cs ! k))) = q"
  shows "connection_id_search m b c (e, rev_entry e) = Inr (cn_id (cs ! k), b, c)"
proof -
  have k: "k < length cs" "flat cs ! slot k rv = e" "\<And>j. j < slot k rv \<Longrightarrow> flat cs ! j \<noteq> e"
    using find_conn_Some [OF f] by (auto simp: slot_def)
  have w: "slist_wf b" "slist_keys b = flat cs" "sl_size b = 2 * length cs"
    using h length_slist_keys [of b] by (auto simp: holds_conns_def)
  have "slist_find b e (=) = Inr (Some (sl_block b, slot k rv))"
    using slist_find_at [OF w(1), of "slot k rv" e] slot_less [OF k(1), of rv] k(2,3) w(2,3) by simp
  moreover have "cs_seq (slot_state (sl_block b) k rv (cs ! k)) = (if rv then snd (cn_seq (cs ! k)) else fst (cn_seq (cs ! k)))"
    by (simp add: slot_state_def conn_states_def)
  ultimately show ?thesis
    using hs sq by (cases hs) (simp_all add: connection_id_search_def connection_id_tcp_syn_def holds_read(1) [OF h k(1)])
qed

text \<open>
  What the packets of a trace need so that all of them can be counted: the fields that are read are there, and a
  packet that opens a connection has room in its bucket.
\<close>

definition countable_packet :: "tracker \<Rightarrow> mem \<Rightarrow> bool" where
  "countable_packet tr m \<longleftrightarrow> (\<exists>hs sq. handshake m = Inr hs \<and> packet_seq m = Inr sq) \<and>
     (case packet_flow m of
        Inl _ \<Rightarrow> False
      | Inr None \<Rightarrow> True
      | Inr (Some (e, _)) \<Rightarrow> Suc (sl_size (tr_list tr ! flow_bucket e)) < sl_capacity (tr_list tr ! flow_bucket e))"

lemma connection_id_again:
  assumes t: "tracker_holds tr css" and c: "countable_packet tr m"
  obtains n tr' css' where "connection_id tr m = Inr (n, tr')" "connection_id tr' m = Inr (n, tr')" "tracker_holds tr' css'"
proof -
  obtain hs sq where hs: "handshake m = Inr hs" "packet_seq m = Inr sq" using c by (auto simp: countable_packet_def)
  consider "packet_flow m = Inr None"
    | e e' where "packet_flow m = Inr (Some (e, e'))" "Suc (sl_size (tr_list tr ! flow_bucket e)) < sl_capacity (tr_list tr ! flow_bucket e)"
    using c by (auto simp: countable_packet_def split: sum.splits option.splits)
  then show thesis
  proof cases
    case 1
    then have "connection_id tr m = Inr (0, tracker_init tr)"
      by (cases "find_ipv4_header m") (auto simp: packet_flow_def connection_id_def Let_def split: option.split_asm)
    moreover have "tracker_init tr = tr" using t by (simp add: tracker_init_def tracker_holds_def)
    ultimately show thesis using that t by simp
  next
    case 2
    let ?i = "flow_bucket e"
    have e: "e' = rev_entry e" "\<not> en_finished e" by (rule packet_flow_facts [OF 2(1)], simp)+
    have d: "flows_distinct (css ! ?i)" "length css = bucket_count" using t by (simp_all add: tracker_holds_def)
    obtain n cs' c' where r: "conn_search hs sq (css ! ?i) (tr_counter tr) e = (n, cs', c')"
      by (cases "conn_search hs sq (css ! ?i) (tr_counter tr) e")
    obtain tr' where tr': "connection_id tr m = Inr (n, tr')" "tracker_holds tr' (css[?i := cs'])" "tr_counter tr' = c'"
      using tracker_step [OF t 2 hs r] by blast
    have "\<And>q. hs = Some q \<Longrightarrow> sq = q" using handshake_seq hs by force
    then obtain k rv where k: "find_conn cs' e = Some (k, rv)" "cn_id (cs' ! k) = n"
        "\<And>q. hs = Some q \<Longrightarrow> (if rv then snd (cn_seq (cs' ! k)) else fst (cn_seq (cs' ! k))) = q"
      using conn_search_again [OF d(1) e(2) r] by metis
    have "holds_conns (tr_list tr' ! ?i) cs'"
      using tr'(2) d(2) by (auto simp: tracker_holds_def dest: spec [of _ ?i])
    from search_known [OF this k(1) hs(1) k(3), of c'] have "connection_id tr' m = Inr (n, tr')"
      using connection_id_flow [OF tr'(2) 2(1)] tr'(3) k(2) by simp
    then show thesis using that tr' by blast
  qed
qed

section \<open>What is shown\<close>

text \<open>The packets that a stream delivers, as they lie in its buffer, and the value that ends the reading.\<close>

fun read_packets :: "nat \<Rightarrow> 's reader \<Rightarrow> 's \<Rightarrow> (cap_header list \<times> int) res option" where
  "read_packets 0 rd src = None"
| "read_packets (Suc n) rd src =
     (case rd src of
        None \<Rightarrow> None
      | Some (Inl e) \<Rightarrow> Some (Inl e)
      | Some (Inr (ret, cp, src)) \<Rightarrow>
          if ret = EAGAIN then read_packets n rd src
          else if ret \<noteq> 0 then Some (Inr ([], ret))
          else case cp of
              None \<Rightarrow> Some (Inl Null_deref)
            | Some cp \<Rightarrow> map_option (\<lambda>r. rbind r (\<lambda>(qs, ret). Inr (cp # qs, ret))) (read_packets n rd src))"

text \<open>The connection numbers when every packet is counted once.\<close>

fun id_run :: "tracker \<Rightarrow> cap_header list \<Rightarrow> u32 list res" where
  "id_run tr [] = Inr []"
| "id_run tr (q # qs) =
     rbind (connection_id tr (ch_payload q)) (\<lambda>(n, tr). rbind (id_run tr qs) (\<lambda>ns. Inr (n # ns)))"

fun countable_run :: "tracker \<Rightarrow> cap_header list \<Rightarrow> bool" where
  "countable_run tr [] \<longleftrightarrow> True"
| "countable_run tr (q # qs) \<longleftrightarrow> countable_packet tr (ch_payload q) \<and>
     (case connection_id tr (ch_payload q) of Inl _ \<Rightarrow> False | Inr (_, tr) \<Rightarrow> countable_run tr qs)"

text \<open>The line of a packet: its number, the time of reference and the connection number are given.\<close>

definition shown_line ::
  "show_env \<Rightarrow> u32 \<Rightarrow> timepico \<Rightarrow> nat \<Rightarrow> u32 \<Rightarrow> cap_header \<Rightarrow> string res option" where
  "shown_line env flags ref i n cp =
     (let fm = \<lparr>fm_pktcount = word_of_nat i, fm_ref = ref, fm_first = False, fm_flags = flags\<rparr> in
      case pkt_prefix fm cp of
        Inl e \<Rightarrow> Some (Inl e)
      | Inr s \<Rightarrow> map_option (\<lambda>r. rbind r (\<lambda>items. Inr (s @ items))) (pkt_items env fm cp n))"

definition selected :: "bool list \<Rightarrow> 'a list list \<Rightarrow> 'a list" where
  "selected ms ls = concat (map snd (filter fst (zip ms ls)))"

lemma selected_Cons [simp]: "selected (b # ms) (l # ls) = (if b then l else []) @ selected ms ls"
  by (simp add: selected_def)

lemma selected_Nil [simp]: "selected [] ls = []"
  by (simp add: selected_def)

text \<open>The formatter when \<open>i\<close> packets have been counted.\<close>

definition format_at :: "nat \<Rightarrow> timepico \<Rightarrow> u32 \<Rightarrow> format_state \<Rightarrow> bool" where
  "format_at i ref flags fm \<longleftrightarrow> fm_pktcount fm = word_of_nat i \<and> fm_flags fm = flags \<and> (fm_first fm \<longleftrightarrow> i = 0) \<and>
     (i > 0 \<longrightarrow> fm_ref fm = ref)"

lemma format_at_count:
  assumes "format_at i ref flags fm" "i = 0 \<Longrightarrow> ch_ts q = ref"
  shows "format_count fm q = \<lparr>fm_pktcount = word_of_nat (Suc i), fm_ref = ref, fm_first = False, fm_flags = flags\<rparr>"
    "format_at (Suc i) ref flags (format_count fm q)"
  using assms by (auto simp: format_at_def format_count_def Let_def add.commute intro!: format_state.equality)

lemma show_packet_shown:
  assumes "connection_id (sw_tracker s) (ch_payload q) = Inr (n, tr)" "connection_id tr (ch_payload q) = Inr (n, tr)"
    and "filter_match bpf (sw_filter s) (ch_payload q) q = Inr (mt, flt)"
    and f: "format_at i ref flags (sw_format s)" "i = 0 \<Longrightarrow> ch_ts q = ref"
    and l: "mt \<Longrightarrow> shown_line env flags ref (Suc i) n q = Some (Inr l)"
  shows "show_packet env bpf q s = Some (Inr (s\<lparr>sw_tracker := tr, sw_filter := flt, sw_format := format_count (sw_format s) q,
    sw_matched := sw_matched s + of_bool mt, sw_out := sw_out s @ (if mt then l else [])\<rparr>))"
proof (cases mt)
  case True
  have "format_pkg env tr (sw_format s) q = Some (Inr (l, tr, format_count (sw_format s) q))"
    using l [OF True] assms(2) format_at_count(1) [OF f]
    by (auto simp: format_pkg_def shown_line_def Let_def print_pkt_def rbind_Inr_iff split: sum.splits)
  then show ?thesis using True assms(1,3) by (simp add: show_packet_def Let_def)
next
  case False
  then show ?thesis using assms(1,3) by (simp add: show_packet_def Let_def format_ignore_def)
qed

lemma all_nth_Cons: "(\<forall>i < length (q # qs). P i) \<longleftrightarrow> P 0 \<and> (\<forall>i < length qs. P (Suc i))"
  by (simp add: All_less_Suc2)

lemma capshow_loop_shows:
  assumes "read_packets n rd (sw_src s) = Some (Inr (qs, ret))" "tracker_holds (sw_tracker s) css"
    and "countable_run (sw_tracker s) qs" "id_run (sw_tracker s) qs = Inr ns"
    and "filter_run bpf (sw_filter s) qs = Inr (ms, flt)" "format_at i ref flags (sw_format s)"
    and "i = 0 \<Longrightarrow> qs \<noteq> [] \<Longrightarrow> ch_ts (hd qs) = ref" "length ls = length qs"
    and "\<forall>j < length qs. ms ! j \<longrightarrow> shown_line env flags ref (Suc (i + j)) (ns ! j) (qs ! j) = Some (Inr (ls ! j))"
    and "so_max_packets opts = 0" "so_max_matched opts = 0"
  shows "\<exists>s'. capshow_loop n rd matches env bpf opts s = Some (Inr (ret, s')) \<and> sw_out s' = sw_out s @ selected ms ls \<and>
    sw_matched s' = sw_matched s + (\<Sum>m\<leftarrow>ms. of_bool m)"
  using assms
proof (induction n arbitrary: s qs css ns ms i ls)
  case (Suc n)
  obtain r cp src where r: "rd (sw_src s) = Some (Inr (r, cp, src))"
    using Suc.prems(1) by (auto split: option.splits sum.splits)
  consider "r = EAGAIN" | "r \<noteq> EAGAIN" "r \<noteq> 0" | q where "r = 0" "cp = Some q"
    using Suc.prems(1) r by (cases cp) (auto simp: EAGAIN_def split: if_splits)
  then show ?case
  proof cases
    case 1
    then have "read_packets n rd (sw_src (s\<lparr>sw_src := src\<rparr>)) = Some (Inr (qs, ret))" using Suc.prems(1) r by simp
    from Suc.IH [OF this _ _ _ _ _ Suc.prems(7-11), of css] Suc.prems(2-6)
    show ?thesis using r 1 by (simp add: Let_def)
  next
    case 2
    then have "qs = []" "r = ret" using Suc.prems(1) r by simp_all
    then show ?thesis using Suc.prems(5) r 2 by (simp add: Let_def)
  next
    case 3
    obtain qs' where qs: "qs = q # qs'" "read_packets n rd src = Some (Inr (qs', ret))"
      using Suc.prems(1) r 3 by (auto simp: EAGAIN_def rbind_Inr_iff)
    have "countable_packet (sw_tracker s) (ch_payload q)" using Suc.prems(3) qs(1) by simp
    from connection_id_again [OF Suc.prems(2) this] obtain k tr css' where
      c: "connection_id (sw_tracker s) (ch_payload q) = Inr (k, tr)" "connection_id tr (ch_payload q) = Inr (k, tr)"
        "tracker_holds tr css'" .
    obtain ns' where ns: "ns = k # ns'" "id_run tr qs' = Inr ns'"
      using Suc.prems(4) c(1) qs(1) by (auto simp: rbind_Inr_iff)
    obtain mt flt1 ms' where m: "filter_match bpf (sw_filter s) (ch_payload q) q = Inr (mt, flt1)" "ms = mt # ms'"
        "filter_run bpf flt1 qs' = Inr (ms', flt)"
      using Suc.prems(5) qs(1) by (auto simp: rbind_Inr_iff)
    obtain l ls' where ls: "ls = l # ls'" "length ls' = length qs'" using Suc.prems(8) qs(1) by (cases ls) auto
    have f: "i = 0 \<Longrightarrow> ch_ts q = ref" using Suc.prems(7) qs(1) by simp
    have line: "mt \<longrightarrow> shown_line env flags ref (Suc i) k q = Some (Inr l)"
      "\<forall>j < length qs'. ms' ! j \<longrightarrow> shown_line env flags ref (Suc (Suc i + j)) (ns' ! j) (qs' ! j) = Some (Inr (ls' ! j))"
      using Suc.prems(9) unfolding qs(1) m(2) ns(1) ls(1) all_nth_Cons by simp_all
    define s1 where "s1 = s\<lparr>sw_src := src, sw_tracker := tr, sw_filter := flt1, sw_format := format_count (sw_format s) q,
      sw_matched := sw_matched s + of_bool mt, sw_out := sw_out s @ (if mt then l else [])\<rparr>"
    have "show_packet env bpf q (s\<lparr>sw_src := src\<rparr>) = Some (Inr s1)"
      using show_packet_shown [of "s\<lparr>sw_src := src\<rparr>" q k tr bpf mt flt1 i ref flags env l] c m(1) Suc.prems(6) f line(1)
      by (simp add: s1_def)
    then have "capshow_loop (Suc n) rd matches env bpf opts s = capshow_loop n rd matches env bpf opts s1"
      using r 3 Suc.prems(10,11) by (simp add: EAGAIN_def Let_def)
    moreover have "\<exists>s'. capshow_loop n rd matches env bpf opts s1 = Some (Inr (ret, s')) \<and> sw_out s' = sw_out s1 @ selected ms' ls' \<and>
        sw_matched s' = sw_matched s1 + (\<Sum>m\<leftarrow>ms'. of_bool m)"
      using Suc.IH [of s1 qs' css' ns' ms' "Suc i" ls'] qs ns(2) m(3) c Suc.prems(3,10,11) line(2) ls(2)
        format_at_count(2) [OF Suc.prems(6) f] by (simp add: s1_def)
    ultimately show ?thesis using m(2) ls(1) by (auto simp: s1_def add.assoc)
  qed
qed simp

text \<open>A stream that delivers packets does so here.\<close>

context packet_reader
begin

lemma read_packets_holds:
  "holds src ps \<Longrightarrow> length ps < n \<Longrightarrow> \<exists>qs. read_packets n rd src = Some (Inr (qs, - 1)) \<and> map captured qs = ps"
proof (induction ps arbitrary: n src)
  case Nil
  then obtain m where "n = Suc m" by (cases n) auto
  then show ?case using read_end [OF Nil(1)] by (auto simp: EAGAIN_def)
next
  case (Cons p ps)
  then obtain m where m: "n = Suc m" "length ps < m" by (cases n) auto
  obtain q src' where "rd src = Some (Inr (0, Some q, src'))" "captured q = p" "holds src' ps"
    using read_next [OF Cons.prems(1)] by blast
  then show ?case using Cons.IH [of src' m] m by (auto simp: EAGAIN_def)
qed

end

text \<open>Relative times are the exact difference to the time of reference.\<close>

lemma norm_tp_fields:
  assumes "norm_tp t"
  shows "unat (tv_sec t) = total_psec t div 10 ^ 12" "unat (tv_psec t) = total_psec t mod 10 ^ 12"
  using assms by (simp_all add: norm_tp_def total_psec_def PICODIVIDER_def)

lemma print_timestamp_relative:
  assumes "\<not> bit (fm_flags fm) FORMAT_DATE_BIT" "bit (fm_flags fm) FORMAT_REL_TIMESTAMP"
    and "norm_tp (ch_ts cp)" "norm_tp (fm_ref fm)"
    and "d = \<bar>int (total_psec (ch_ts cp)) - int (total_psec (fm_ref fm))\<bar>"
  shows "print_timestamp env fm cp = (if ch_ts cp < fm_ref fm then ''-'' else []) @ dec (nat d div 10 ^ 12) @ ''.'' @
    zero_pad 12 (dec (nat d mod 10 ^ 12))"
proof (cases "ch_ts cp < fm_ref fm")
  case True
  then have s: "norm_tp (timepico_sub (fm_ref fm) (ch_ts cp))" "total_psec (timepico_sub (fm_ref fm) (ch_ts cp)) = nat d"
    using timepico_sub_total [OF assms(4,3)] total_psec_less_iff [OF assms(3,4)] assms(5) by auto
  have "\<not> timecmp (ch_ts cp) (fm_ref fm) \<ge> 0" using True timecmp_less not_le by blast
  then show ?thesis using True assms(1,2) norm_tp_fields [OF s(1)] s(2) by (simp add: print_timestamp_def)
next
  case False
  then have s: "norm_tp (timepico_sub (ch_ts cp) (fm_ref fm))" "total_psec (timepico_sub (ch_ts cp) (fm_ref fm)) = nat d"
    using timepico_sub_total [OF assms(3,4)] total_psec_less_iff [OF assms(3,4)] assms(5) by auto
  have "timecmp (ch_ts cp) (fm_ref fm) \<ge> 0" using False timecmp_less not_le by blast
  then show ?thesis using False assms(1,2) norm_tp_fields [OF s(1)] s(2) by (simp add: print_timestamp_def)
qed

section \<open>Properties\<close>

text \<open>
  Claim C17. What is shown of a packet does not depend on the filter: a filter only selects the lines. The line of a
  packet has the number of the packet in the stream, its time is relative to the first packet of the stream, and its
  connection number is the one it gets when every packet of the stream is counted once, shown or not. This holds
  for every stream that delivers packets and then ends, as long as the connection lists have room.
\<close>

theorem capshow_selects:
  assumes "read_packets n rd (sw_src s) = Some (Inr (qs, ret))" "tracker_holds (sw_tracker s) css"
    and "countable_run (sw_tracker s) qs" "id_run (sw_tracker s) qs = Inr ns"
    and "filter_run bpf (sw_filter s) qs = Inr (ms, flt)" "sw_format s = format_setup fm flags"
    and "flags' = fm_flags (sw_format s)" "length ls = length qs"
    and "\<forall>i < length qs. ms ! i \<longrightarrow> shown_line env flags' (ch_ts (hd qs)) (i + 1) (ns ! i) (qs ! i) = Some (Inr (ls ! i))"
    and "so_max_packets opts = 0" "so_max_matched opts = 0"
  shows "\<exists>s'. capshow_loop n rd matches env bpf opts s = Some (Inr (ret, s')) \<and> sw_out s' = sw_out s @ selected ms ls \<and>
    sw_matched s' = sw_matched s + (\<Sum>m\<leftarrow>ms. of_bool m)"
proof -
  have "format_at 0 (ch_ts (hd qs)) flags' (sw_format s)"
    using assms(6,7) by (simp add: format_at_def format_setup_def)
  from capshow_loop_shows [OF assms(1-5) this _ assms(8) _ assms(10,11)] assms(9) show ?thesis by simp
qed

text \<open>The lines of packets without content, with the layers switched off.\<close>

definition zero_line :: "nat \<Rightarrow> string \<Rightarrow> string" where
  "zero_line i time = ''['' @ space_pad 4 (dec i) @ '']:::'' @ time @ '':LINK(  82):CAPLEN(  82):ID(   -)'' @ [CHR 0x0a]"

lemma zero_packet_line:
  assumes "captured q = zero_packet t" "i < 2 ^ 64"
  shows "shown_line env (push_bit 29 1 OR 4) ref i 0 q = Some (Inr (zero_line i
    (print_timestamp env \<lparr>fm_pktcount = word_of_nat i, fm_ref = ref, fm_first = False, fm_flags = push_bit 29 1 OR 4\<rparr> q)))"
proof -
  obtain r where q: "q = (zero_packet t)\<lparr>ch_payload := replicate 82 0 @ r\<rparr>" by (rule zero_packet_behind [OF assms(1)])
  have d: "space_pad 4 (dec 82) = ''  82''" by code_simp
  have i: "unat (word_of_nat i :: u64) = i" using assms(2) by (simp add: unsigned_of_nat take_bit_nat_eq_self del: of_nat_power)
  have z: "fputs_printable (0 # m) k = Inr []" for m k by (simp add: fputs_printable_def split: option.splits)
  have "cap_header_bytes q @ ch_payload q = 0 # replicate 7 0 @ 0 # replicate 7 0 @ drop 16 (cap_header_bytes q @ ch_payload q)"
    by (simp add: q cap_header_bytes_def zero_packet_def byte_of_char_def eval_nat_numeral)
  then obtain m where m: "cap_header_bytes q @ ch_payload q = 0 # replicate 7 0 @ 0 # m" by blast
  have h: "show_headers junk fm cp = Some (Inr [])" if "fm_flags fm = 536870916" for junk and fm :: format_state and cp
    using that by (simp add: show_headers_def FORMAT_LAYER_LINK_def FORMAT_LAYER_BIT_def)
  show ?thesis
    unfolding shown_line_def pkt_prefix_def Let_def m
    by (simp add: z pkt_items_def h show_hexdump_def FORMAT_HEXDUMP_def zero_line_def q zero_packet_def dec_int_def d i)
qed

lemma zero_packet_uncounted:
  assumes "captured q = zero_packet t" "tr_initialized tr"
  shows "connection_id tr (ch_payload q) = Inr (0, tr)" "countable_packet tr (ch_payload q)"
proof -
  obtain r where q: "q = (zero_packet t)\<lparr>ch_payload := replicate 82 0 @ r\<rparr>" by (rule zero_packet_behind [OF assms(1)])
  have "find_ipv4_header (ch_payload q) = Inr None"
    by (simp add: q find_ipv4_header_def find_ipv4_header_int_def h_proto_def ipv4_retry.simps packet_consts rd16_def rd8_def
        nth_append ntohs_def le16_def)
  then show "connection_id tr (ch_payload q) = Inr (0, tr)" "countable_packet tr (ch_payload q)"
    using assms(2) by (simp_all add: connection_id_def tracker_init_def countable_packet_def packet_flow_def handshake_def
        packet_seq_def packet_tcp_def find_tcp_header_def find_transport_header_def)
qed

text \<open>A capture file of three packets, of which the first and the third are shown.\<close>

lemma zero_packet_time:
  assumes "captured q = zero_packet (timepico_new (word_of_nat k + 1) 0)" "k < 2 ^ 31"
  shows "print_timestamp env \<lparr>fm_pktcount = i, fm_ref = timepico_new 1 0, fm_first = False, fm_flags = push_bit 29 1 OR 4\<rparr> q =
    dec k @ ''.000000000000''"
proof -
  let ?fm = "\<lparr>fm_pktcount = i, fm_ref = timepico_new 1 0, fm_first = False, fm_flags = push_bit 29 1 OR 4\<rparr>"
  have ts: "ch_ts q = timepico_new (word_of_nat k + 1) 0" using arg_cong [OF assms(1), of ch_ts] by (simp add: zero_packet_def)
  have k: "unat (ucast (word_of_nat k + 1 :: u64) :: u32) = k + 1"
  proof -
    have "(word_of_nat k + 1 :: u64) = word_of_nat (k + 1)" by simp
    then show ?thesis using assms(2) by (simp only: unsigned_of_nat) (simp add: take_bit_nat_eq_self)
  qed
  have n: "norm_tp (ch_ts q)" "norm_tp (fm_ref ?fm)" by (simp_all add: ts norm_tp_def timepico_new_def PICODIVIDER_def)
  have e: "total_psec (ch_ts q) = (k + 1) * 10 ^ 12" "total_psec (fm_ref ?fm) = 10 ^ 12"
    using k by (simp_all add: ts total_psec_def timepico_new_def PICODIVIDER_def)
  have z: "zero_pad 12 (dec 0) = ''000000000000''" by code_simp
  have "nat \<bar>int (total_psec (ch_ts q)) - int (total_psec (fm_ref ?fm))\<bar> = k * 10 ^ 12" unfolding e by (simp add: algebra_simps)
  then show ?thesis
    using print_timestamp_relative [OF _ _ n refl, of env] total_psec_less_iff [OF n] z e
    by (simp add: FORMAT_DATE_BIT_def FORMAT_REL_TIMESTAMP_def)
qed

theorem capshow_selects_witness:
  "\<exists>s'. capshow_loop 4 (file_read 400 good_medium) st_stat_matched \<lparr>se_date = \<lambda>_ _. ([], []), se_junk = []\<rparr> (\<lambda>_ _ _ _. 0)
      \<lparr>so_flags = 4, so_max_packets = 0, so_max_matched = 0, so_iface = None, so_timeout = \<lparr>tval_sec = 1, tval_usec = 0\<rparr>\<rparr>
      \<lparr>sw_src = opened_file (map zero_packet [timepico_new 1 0, timepico_new 2 0, timepico_new 3 0]), sw_filter = odd_frames,
        sw_tracker = fresh_tracker,
        sw_format = format_setup \<lparr>fm_pktcount = 0, fm_ref = timepico_new 0 0, fm_first = False, fm_flags = 0\<rparr> (push_bit 29 1 OR 4),
        sw_matched = 0, sw_out = []\<rparr> = Some (Inr (- 1, s')) \<and>
    sw_out s' = zero_line 1 ''0.000000000000'' @ zero_line 3 ''2.000000000000'' \<and> sw_matched s' = 2"
  (is "\<exists>s'. capshow_loop 4 ?rd _ ?env ?bpf ?opts ?s = _ \<and> _ \<and> _")
proof -
  let ?ps = "map zero_packet [timepico_new 1 0, timepico_new 2 0, timepico_new 3 0]"
  have "file_holds 400 (sw_src ?s) ?ps" by simp (rule opened_file_holds [of "[timepico_new 1 0, timepico_new 2 0, timepico_new 3 0]" 400, simplified])
  from capture_file.read_packets_holds [OF this, of 4] obtain qs where
    r: "read_packets 4 ?rd (sw_src ?s) = Some (Inr (qs, - 1))" "map captured qs = ?ps" by auto
  then obtain p q u where qs: "qs = [p, q, u]" by (auto simp: map_eq_Cons_conv)
  have c: "captured p = zero_packet (timepico_new 1 0)" "captured q = zero_packet (timepico_new 2 0)"
      "captured u = zero_packet (timepico_new 3 0)" using r(2) qs by simp_all
  have tr: "tr_initialized fresh_tracker" by (simp add: fresh_tracker_def tracker_init_def)
  note z = c [THEN zero_packet_uncounted(1), OF tr] c [THEN zero_packet_uncounted(2), OF tr]
  have run: "countable_run (sw_tracker ?s) qs" "id_run (sw_tracker ?s) qs = Inr [0, 0, 0]" by (simp_all add: qs z)
  obtain flt where m: "filter_run ?bpf (sw_filter ?s) qs = Inr ([True, False, True], flt)"
    using odd_frames_decides [of ?bpf "timepico_new 1 0" "timepico_new 2 0" "timepico_new 3 0", unfolded decides_def, rule_format, OF r(2)]
    by auto
  let ?ls = "[zero_line 1 ''0.000000000000'', [], zero_line 3 ''2.000000000000'']"
  have ts: "ch_ts (hd qs) = timepico_new 1 0" using arg_cong [OF c(1), of ch_ts] by (simp add: qs zero_packet_def)
  have dec: "dec 0 @ ''.000000000000'' = ''0.000000000000''" "dec 2 @ ''.000000000000'' = ''2.000000000000''" by code_simp+
  have fl: "fm_flags (sw_format ?s) = push_bit 29 1 OR 4" by (simp add: format_setup_def FORMAT_LAYER_BIT_def)
  have fmt: "sw_format ?s = format_setup \<lparr>fm_pktcount = 0, fm_ref = timepico_new 0 0, fm_first = False, fm_flags = 0\<rparr> (push_bit 29 1 OR 4)"
    by simp
  have l: "\<forall>i < length qs. [True, False, True] ! i \<longrightarrow>
      shown_line ?env (fm_flags (sw_format ?s)) (ch_ts (hd qs)) (i + 1) ([0, 0, 0] ! i) (qs ! i) = Some (Inr (?ls ! i))"
    unfolding fl ts
    using zero_packet_line [OF c(1), of 1 ?env "timepico_new 1 0"] zero_packet_line [OF c(3), of 3 ?env "timepico_new 1 0"]
      zero_packet_time [of p 0 ?env 1] zero_packet_time [of u 2 ?env 3] c(1,3) dec
    by (auto simp: qs less_Suc_eq numeral_3_eq_3)
  have h: "tracker_holds (sw_tracker ?s) (replicate bucket_count [])" using fresh_tracker_holds by simp
  have "length ?ls = length qs" by (simp add: qs)
  from capshow_selects [OF r(1) h run m fmt refl this l, of ?opts st_stat_matched] show ?thesis by simp
qed

text \<open>
  The options \<open>-2\<close>, \<open>-3\<close> and \<open>-4\<close> set the layer and nothing else, but the same headers are shown for each of the
  three unless there is ICMP: the layer is only compared with the link layer.
\<close>

lemma capshow_option_layer:
  assumes "d \<in> {1, 2, 3, 4}"
  shows "drop_bit FORMAT_LAYER_BIT (so_flags (capshow_option (char_of (48 + d)) arg opts)) = word_of_nat d"
    "take_bit FORMAT_LAYER_BIT (so_flags (capshow_option (char_of (48 + d)) arg opts)) = take_bit FORMAT_LAYER_BIT (so_flags opts)"
proof -
  have m: "take_bit 29 w AND 536870911 = take_bit 29 w" for w :: u32
    using take_bit_eq_mask [of 29 "take_bit 29 w"] by (simp add: mask_eq_exp_minus_1)
  show "drop_bit FORMAT_LAYER_BIT (so_flags (capshow_option (char_of (48 + d)) arg opts)) = word_of_nat d"
    "take_bit FORMAT_LAYER_BIT (so_flags (capshow_option (char_of (48 + d)) arg opts)) = take_bit FORMAT_LAYER_BIT (so_flags opts)"
    using assms
    by (auto simp: capshow_option_def FORMAT_LAYER_BIT_def char_of_eq_iff drop_bit_or drop_bit_and take_bit_or take_bit_and m)
qed

lemma header_format_flags:
  assumes "hc_protocol h \<noteq> Some PROTOCOL_ICMP" "flags AND FORMAT_HEADER = flags' AND FORMAT_HEADER"
  shows "header_format junk h flags = header_format junk h flags'"
proof (cases "hc_protocol h")
  case (Some t)
  then have "f h ptr flags = f h ptr flags'" if "protocol_format junk t = Some f" for f ptr
    using that assms
    by (cases t) (auto simp: data_format_def cdp_format_def stp_format_def gre_format_def ipv4_format_def ipv6_format_def
        mpls_format_def pw_format_def udp_format_def vlan_format_def arp_format_def igmp_format_def ospf_format_def
        ptpv2_format_def gtp_format_def tcp_format_def sctp_format_def dns_format_def ethernet_format_def)
  note same = this
  show ?thesis
  proof (cases "protocol_format junk t")
    case f: (Some f)
    show ?thesis using Some same [OF f] by (simp add: header_format_def f split: option.split)
  qed (simp add: header_format_def Some split: option.split)
qed (simp add: header_format_def)

lemma show_headers_layer:
  assumes "FORMAT_LAYER_LINK \<le> flags" "FORMAT_LAYER_LINK \<le> flags'" "flags AND FORMAT_HEADER = flags' AND FORMAT_HEADER"
    and "\<And>hs. visit_headers (unat (ch_caplen cp) + 3) (header_init cp) = Some (Inr hs) \<Longrightarrow>
      \<forall>h\<in>set hs. hc_protocol h \<noteq> Some PROTOCOL_ICMP"
  shows "show_headers junk (fm\<lparr>fm_flags := flags\<rparr>) cp = show_headers junk (fm\<lparr>fm_flags := flags'\<rparr>) cp"
proof (cases "visit_headers (unat (ch_caplen cp) + 3) (header_init cp)")
  case (Some r)
  have "headers_text junk flags hs = headers_text junk flags' hs" if "\<forall>h\<in>set hs. hc_protocol h \<noteq> Some PROTOCOL_ICMP" for hs
    using that header_format_flags [OF _ assms(3)] by (induction hs) simp_all
  then show ?thesis using assms(1,2,4) Some by (cases r) (auto simp: show_headers_def)
qed (use assms(1,2) in \<open>simp add: show_headers_def\<close>)

end
