(* ===== verification/Pcap_Convert.thy ===== *)
theory Pcap_Convert
  imports Capshow
begin

text \<open>
  Conversion from and to the files of libpcap: the loops of \<open>tools/cap2pcap.c\<close> and \<open>tools/pcap2cap.c\<close>. The functions
  \<open>pcap_dump\<close> and \<open>pcap_next\<close> of libpcap are parameters. Opening the files, option processing, messages and the
  signal are left out.
\<close>

section \<open>From capture files\<close>

text \<open>\<open>struct pcap_pkthdr\<close>; the two fields of the time are of type \<open>long\<close>.\<close>

record pcap_pkthdr =
  ph_sec :: u64
  ph_usec :: u64
  ph_caplen :: u32
  ph_len :: u32

definition cap2pcap_header :: "cap_header \<Rightarrow> pcap_pkthdr" where
  "cap2pcap_header cp =
     \<lparr>ph_sec = ucast (tv_sec (ch_ts cp)), ph_usec = tv_psec (ch_ts cp) div 1000000, ph_caplen = ch_caplen cp, ph_len = ch_len cp\<rparr>"

text \<open>\<open>dump header data file\<close> is the file with one more packet; \<open>matches\<close> is the counter \<open>stat->matched\<close>.\<close>

fun cap2pcap_loop ::
  "nat \<Rightarrow> 's reader \<Rightarrow> ('s \<Rightarrow> nat) \<Rightarrow> (pcap_pkthdr \<Rightarrow> mem \<Rightarrow> 'd \<Rightarrow> 'd) \<Rightarrow> u32 \<Rightarrow> 's \<Rightarrow> 'd \<Rightarrow> (int \<times> 's \<times> 'd) res option" where
  "cap2pcap_loop 0 rd matches dump max_packets src d = None"
| "cap2pcap_loop (Suc n) rd matches dump max_packets src d =
     (case rd src of
        None \<Rightarrow> None
      | Some (Inl e) \<Rightarrow> Some (Inl e)
      | Some (Inr (ret, cp, src)) \<Rightarrow>
          if ret = EAGAIN then cap2pcap_loop n rd matches dump max_packets src d
          else if ret \<noteq> 0 then Some (Inr (ret, src, d))
          else case cp of
              None \<Rightarrow> Some (Inl Null_deref)
            | Some cp \<Rightarrow>
                let d = dump (cap2pcap_header cp) (ch_payload cp) d in
                if max_packets > 0 \<and> matches src \<ge> unat max_packets then Some (Inr (ret, src, d))
                else cap2pcap_loop n rd matches dump max_packets src d)"

section \<open>To capture files\<close>

text \<open>
  The multiplication by \<open>1e6\<close> is one of doubles. \<open>caplen\<close> is of type \<open>size_t\<close> and \<open>min\<close> compares ints.
\<close>

definition usec_to_psec :: "u64 \<Rightarrow> u64" where
  "usec_to_psec w = u64_of_dbl (r53i (r53i (sint w) * 1000000))"

definition pcap2cap_header :: "u64 \<Rightarrow> cap_header \<Rightarrow> pcap_pkthdr \<Rightarrow> cap_header" where
  "pcap2cap_header caplen cp h =
     cp\<lparr>ch_ts := \<lparr>tv_sec = ucast (ph_sec h), tv_psec = usec_to_psec (ph_usec h)\<rparr>, ch_len := ph_len h,
        ch_caplen := min_int (ph_caplen h) (ucast caplen)\<rparr>"

text \<open>
  \<open>nxt\<close> stands for \<open>pcap_next\<close>: the header and the bytes of the next packet, or none. A packet that cannot be
  written is reported and the loop goes on.
\<close>

fun pcap2cap_loop ::
  "nat \<Rightarrow> ('p \<Rightarrow> (pcap_pkthdr \<times> mem) option \<times> 'p) \<Rightarrow> medium \<Rightarrow> u64 \<Rightarrow> cap_header \<Rightarrow> 'p \<Rightarrow> stream_file stream \<Rightarrow>
   stream_file stream res option" where
  "pcap2cap_loop 0 nxt med caplen cp p dst = None"
| "pcap2cap_loop (Suc n) nxt med caplen cp p dst =
     (case nxt p of
        (None, p) \<Rightarrow> Some (Inr dst)
      | (Some (h, packet), p) \<Rightarrow>
          let cp = pcap2cap_header caplen cp h in
          (case rbind (rdn packet 0 (unat (ch_caplen cp))) (stream_write_separate (file_write med) dst cp) of
             Inl e \<Rightarrow> Some (Inl e)
           | Inr (ret, dst) \<Rightarrow> pcap2cap_loop n nxt med caplen cp p dst))"

section \<open>Times\<close>

lemma usec_to_psec_exact:
  assumes "unat w < 1000000"
  shows "usec_to_psec w = w * 1000000"
proof -
  have s: "sint w = int (unat w)"
    using sint_small [of w] assms by simp
  have "usec_to_psec w = word_of_nat (unat w * 1000000)"
    unfolding usec_to_psec_def s
    using assms r53_small(1) [of "unat w"] r53_small(1) [of "unat w * 1000000"] u64_of_dbl_pos [of "unat w * 1000000"] by simp
  then show ?thesis by simp
qed

text \<open>A timestamp cut to microseconds.\<close>

definition to_usec :: "timepico \<Rightarrow> timepico" where
  "to_usec t = t\<lparr>tv_psec := tv_psec t div 1000000 * 1000000\<rparr>"

section \<open>Files of libpcap\<close>

text \<open>The packets that \<open>pcap_next\<close> gives before it ends.\<close>

fun yields :: "('p \<Rightarrow> (pcap_pkthdr \<times> mem) option \<times> 'p) \<Rightarrow> 'p \<Rightarrow> (pcap_pkthdr \<times> mem) list \<Rightarrow> bool" where
  "yields nxt p [] \<longleftrightarrow> fst (nxt p) = None"
| "yields nxt p (r # rs) \<longleftrightarrow> fst (nxt p) = Some r \<and> yields nxt (snd (nxt p)) rs"

text \<open>
  What the conversion relies on: a file that was written with \<open>pcap_dump\<close> is read back with \<open>pcap_next\<close>, as long as
  no packet is longer than the snapshot length of the file and the times are those of the format.
\<close>

definition saveable :: "nat \<Rightarrow> pcap_pkthdr \<times> mem \<Rightarrow> bool" where
  "saveable snaplen = (\<lambda>(h, m). unat (ph_sec h) < 2 ^ 32 \<and> unat (ph_usec h) < 1000000 \<and>
     unat (ph_caplen h) \<le> snaplen \<and> unat (ph_caplen h) \<le> length m)"

definition savefile ::
  "nat \<Rightarrow> (pcap_pkthdr \<Rightarrow> mem \<Rightarrow> 'd \<Rightarrow> 'd) \<Rightarrow> 'd \<Rightarrow> ('d \<Rightarrow> 'p) \<Rightarrow> ('p \<Rightarrow> (pcap_pkthdr \<times> mem) option \<times> 'p) \<Rightarrow> bool" where
  "savefile snaplen dump d0 opn nxt \<longleftrightarrow> (\<forall>rs. list_all (saveable snaplen) rs \<longrightarrow>
     yields nxt (opn (foldl (\<lambda>d (h, m). dump h m d) d0 rs)) (map (\<lambda>(h, m). (h, take (unat (ph_caplen h)) m)) rs))"

definition pcap_record :: "cap_header \<Rightarrow> pcap_pkthdr \<times> mem" where
  "pcap_record q = (cap2pcap_header q, ch_payload q)"

lemma cap2pcap_loop_dumps:
  "read_packets n rd src = Some (Inr (qs, ret)) \<Longrightarrow>
   \<exists>src'. cap2pcap_loop n rd matches dump 0 src d = Some (Inr (ret, src', foldl (\<lambda>d (h, m). dump h m d) d (map pcap_record qs)))"
proof (induction n arbitrary: src qs d)
  case (Suc n)
  obtain r cp src' where r: "rd src = Some (Inr (r, cp, src'))"
    using Suc.prems by (auto split: option.splits sum.splits)
  consider "r = EAGAIN" | "r \<noteq> EAGAIN" "r \<noteq> 0" | q where "r = 0" "cp = Some q"
    using Suc.prems r by (cases cp) (auto simp: EAGAIN_def split: if_splits)
  then show ?case
  proof cases
    case 1
    then show ?thesis using Suc r by simp
  next
    case 2
    then show ?thesis using Suc.prems r by auto
  next
    case 3
    then obtain qs' where "qs = q # qs'" "read_packets n rd src' = Some (Inr (qs', ret))"
      using Suc.prems r by (auto simp: EAGAIN_def rbind_Inr_iff)
    then show ?thesis using Suc.IH [of src' qs'] r 3 by (simp add: EAGAIN_def pcap_record_def)
  qed
qed simp

lemma pcap2cap_header_again [simp]: "pcap2cap_header caplen (pcap2cap_header caplen cp h) h' = pcap2cap_header caplen cp h'"
  by (simp add: pcap2cap_header_def)

definition pcap_written :: "u64 \<Rightarrow> cap_header \<Rightarrow> pcap_pkthdr \<times> mem \<Rightarrow> cap_header" where
  "pcap_written caplen cp = (\<lambda>(h, m). captured ((pcap2cap_header caplen cp h)\<lparr>ch_payload := m\<rparr>))"

lemma write_separate_end:
  assumes "header_wf cp" "at_end bs dst" "unat (ch_caplen cp) \<le> length m" "ch_caplen cp \<noteq> 0"
  shows "\<exists>dst'. rbind (rdn m 0 (unat (ch_caplen cp))) (stream_write_separate (file_write good_medium) dst cp) = Inr (0, dst') \<and>
    at_end (bs @ packet_bytes (captured (cp\<lparr>ch_payload := m\<rparr>))) dst'"
proof -
  have "cap_header_bytes cp \<noteq> []" using length_cap_header_bytes [OF assms(1)] by auto
  then obtain d1 where d1: "file_write good_medium dst (cap_header_bytes cp) = Inr (0, d1)" "at_end (bs @ cap_header_bytes cp) d1"
    using file_write_end [OF assms(2)] by blast
  let ?b = "take (unat (ch_caplen cp)) m"
  have b: "?b \<noteq> []" using assms(3,4) by (auto simp: unat_eq_zero)
  then obtain d2 where d2: "file_write good_medium d1 ?b = Inr (0, d2)" "at_end ((bs @ cap_header_bytes cp) @ ?b) d2"
    using file_write_end [OF d1(2)] by blast
  have "packet_bytes (captured (cp\<lparr>ch_payload := m\<rparr>)) = cap_header_bytes cp @ ?b"
    by (simp add: packet_bytes_def captured_def cap_header_bytes_def)
  then show ?thesis using assms(3) b d1(1) d2 by (simp add: rdn_def stream_write_separate_def)
qed

lemma pcap2cap_loop_writes:
  assumes "yields nxt p rs" "header_wf cp" "at_end bs dst" "length rs < n"
    and "\<forall>(h, m)\<in>set rs. min_int (ph_caplen h) (ucast caplen) \<noteq> 0 \<and> unat (min_int (ph_caplen h) (ucast caplen)) \<le> length m"
  shows "\<exists>dst'. pcap2cap_loop n nxt good_medium caplen cp p dst = Some (Inr dst') \<and>
    at_end (bs @ concat (map (packet_bytes \<circ> pcap_written caplen cp) rs)) dst'"
  using assms
proof (induction rs arbitrary: n p cp bs dst)
  case Nil
  then obtain m where "n = Suc m" by (cases n) auto
  then show ?case using Nil by (cases "nxt p") simp
next
  case (Cons r rs)
  obtain h m p' k where r: "r = (h, m)" "nxt p = (Some (h, m), p')" "n = Suc k" "yields nxt p' rs" "length rs < k"
    using Cons.prems(1,4) by (cases "nxt p"; cases n; cases r) auto
  let ?cp = "pcap2cap_header caplen cp h"
  have wf: "header_wf ?cp" using Cons.prems(2) by (simp add: header_wf_def pcap2cap_header_def)
  have l: "unat (ch_caplen ?cp) \<le> length m" "ch_caplen ?cp \<noteq> 0"
    using Cons.prems(5) r(1) by (auto simp: pcap2cap_header_def)
  obtain d where d: "rbind (rdn m 0 (unat (ch_caplen ?cp))) (stream_write_separate (file_write good_medium) dst ?cp) = Inr (0, d)"
      "at_end (bs @ packet_bytes (pcap_written caplen cp (h, m))) d"
    using write_separate_end [OF wf Cons.prems(3) l] by (auto simp: pcap_written_def)
  have "pcap_written caplen ?cp = pcap_written caplen cp" by (auto simp: pcap_written_def)
  then show ?case using Cons.IH [OF r(4) wf d(2) r(5)] Cons.prems(5) r(1-3) d(1) by (simp add: Let_def)
qed

section \<open>Properties\<close>

text \<open>What remains of a packet: the names are those of the conversion and the time is cut to microseconds.\<close>

definition pcap_copy :: "u64 \<Rightarrow> cap_header \<Rightarrow> cap_header \<Rightarrow> cap_header" where
  "pcap_copy caplen cp p = captured (cp\<lparr>ch_ts := to_usec (ch_ts p), ch_len := ch_len p,
     ch_caplen := min_int (ch_caplen p) (ucast caplen), ch_payload := ch_payload p\<rparr>)"

lemma psec_div:
  assumes "norm_tp t"
  shows "unat (tv_psec t div 1000000) < 1000000"
  using assms by (simp add: norm_tp_def PICODIVIDER_def unat_div)

lemma ucast_ucast_same: "(ucast (ucast (w :: u32) :: u64) :: u32) = w"
  by transfer simp

lemma pcap_written_copy:
  assumes "norm_tp (ch_ts p)"
  shows "pcap_written caplen cp (cap2pcap_header p, ch_payload p) = pcap_copy caplen cp p"
proof -
  have "(ucast (ucast (tv_sec (ch_ts p)) :: u64) :: u32) = tv_sec (ch_ts p)" by (rule ucast_ucast_same)
  then show ?thesis
    using usec_to_psec_exact [OF psec_div [OF assms]]
    by (cases "ch_ts p") (simp add: pcap_written_def pcap_copy_def pcap2cap_header_def cap2pcap_header_def to_usec_def)
qed

lemma min_int_bounds:
  assumes "0 < sint a" "0 < sint b"
  shows "min_int a b \<noteq> 0" "unat (min_int a b) \<le> unat a"
proof -
  have "min_int a b \<le> a"
    using assms uint_nonneg [of a] uint_nonneg [of b] by (simp add: min_int_def word_le_def)
  then show "unat (min_int a b) \<le> unat a" by (simp add: word_le_nat_alt)
  show "min_int a b \<noteq> 0" using assms by (auto simp: min_int_def)
qed

lemma saved_record:
  assumes "captured q = p" "packet_wf p" "norm_tp (ch_ts p)" "unat (ch_caplen p) \<le> snaplen"
  shows "saveable snaplen (pcap_record q)"
    "(\<lambda>(h, m). (h, take (unat (ph_caplen h)) m)) (pcap_record q) = (cap2pcap_header p, ch_payload p)"
proof -
  have q: "ch_ts q = ch_ts p" "ch_caplen q = ch_caplen p" "ch_len q = ch_len p" "ch_payload p = take (unat (ch_caplen q)) (ch_payload q)"
    using assms(1) by (auto simp: captured_def)
  have l: "length (ch_payload p) = unat (ch_caplen p)" using assms(2) by (simp add: packet_wf_def)
  then show "saveable snaplen (pcap_record q)"
    using psec_div [OF assms(3)] assms(4) q unsigned_less [of "tv_sec (ch_ts p)", where 'a = nat]
    by (auto simp: saveable_def pcap_record_def cap2pcap_header_def unsigned_ucast_eq take_bit_nat_eq_self)
  show "(\<lambda>(h, m). (h, take (unat (ph_caplen h)) m)) (pcap_record q) = (cap2pcap_header p, ch_payload p)"
    using q by (simp add: pcap_record_def cap2pcap_header_def)
qed

text \<open>
  Claim C19. Converting a capture file with cap2pcap and the result back with pcap2cap ends and gives the packets of
  the file in the same order, with their lengths and bytes: the times lose what is below a microsecond, the names
  become those of the second conversion, and packets are cut to the length it is asked for. What is relied on is that
  libpcap reads what it has written.
\<close>

theorem pcap_roundtrip:
  assumes "file_holds fuel src ps" "length ps < n" "savefile snaplen dump d0 opn nxt"
    and "\<forall>p\<in>set ps. norm_tp (ch_ts p) \<and> unat (ch_caplen p) \<le> snaplen" "snaplen < 2 ^ 31"
    and "0 < sint (ucast caplen :: u32)" "header_wf cp" "at_end bs dst"
  shows "\<exists>src' d dst'. cap2pcap_loop n (file_read fuel good_medium) st_stat_matched dump 0 src d0 = Some (Inr (- 1, src', d)) \<and>
    pcap2cap_loop n nxt good_medium caplen cp (opn d) dst = Some (Inr dst') \<and>
    at_end (bs @ concat (map (packet_bytes \<circ> pcap_copy caplen cp) ps)) dst'"
proof -
  obtain qs where qs: "read_packets n (file_read fuel good_medium) src = Some (Inr (qs, - 1))" "map captured qs = ps"
    using capture_file.read_packets_holds [OF assms(1,2)] by blast
  let ?d = "foldl (\<lambda>d (h, m). dump h m d) d0 (map pcap_record qs)"
  let ?rs = "map (\<lambda>p. (cap2pcap_header p, ch_payload p)) ps"
  have p: "packet_wf p" "norm_tp (ch_ts p)" "unat (ch_caplen p) \<le> snaplen" "ch_caplen p \<noteq> 0" if "p \<in> set ps" for p
    using assms(1,4) that by (auto simp: file_holds_def)
  have q: "captured q \<in> set ps" if "q \<in> set qs" for q using that qs(2) by auto
  have "list_all (saveable snaplen) (map pcap_record qs)"
    using saved_record(1) [OF refl p(1-3)] q by (auto simp: list_all_iff)
  moreover have "map (\<lambda>(h, m). (h, take (unat (ph_caplen h)) m)) (map pcap_record qs) = ?rs"
    using saved_record(2) [OF refl p(1-3)] q qs(2) [symmetric] by (auto simp del: split_paired_All)
  ultimately have "yields nxt (opn ?d) ?rs"
    using assms(3) [unfolded savefile_def, rule_format, of "map pcap_record qs"] by (simp only:)
  moreover have "min_int (ch_caplen p) (ucast caplen) \<noteq> 0 \<and> unat (min_int (ch_caplen p) (ucast caplen)) \<le> length (ch_payload p)"
    if "p \<in> set ps" for p
  proof -
    have "0 < sint (ch_caplen p)"
      using sint_small [of "ch_caplen p"] p(3,4) [OF that] assms(5) by (simp add: word_neq_0_conv word_less_def)
    then show ?thesis using min_int_bounds [OF _ assms(6)] p(1) [OF that] by (simp add: packet_wf_def)
  qed
  ultimately obtain dst' where w: "pcap2cap_loop n nxt good_medium caplen cp (opn ?d) dst = Some (Inr dst')"
      "at_end (bs @ concat (map (packet_bytes \<circ> pcap_written caplen cp) ?rs)) dst'"
    using pcap2cap_loop_writes [of nxt "opn ?d" ?rs cp bs dst n caplen] assms(2,7,8) by (auto simp: cap2pcap_header_def)
  have c: "map (packet_bytes \<circ> pcap_written caplen cp) ?rs = map (packet_bytes \<circ> pcap_copy caplen cp) ps"
    using pcap_written_copy p(2) by (auto simp: o_def)
  obtain src' where "cap2pcap_loop n (file_read fuel good_medium) st_stat_matched dump 0 src d0 = Some (Inr (- 1, src', ?d))"
    using cap2pcap_loop_dumps [OF qs(1), of st_stat_matched dump d0] by auto
  then show ?thesis using w(2) [unfolded c] w(1) by blast
qed

text \<open>A file of libpcap as the list of its packets.\<close>

definition list_next :: "(pcap_pkthdr \<times> mem) list \<Rightarrow> (pcap_pkthdr \<times> mem) option \<times> (pcap_pkthdr \<times> mem) list" where
  "list_next rs = (case rs of [] \<Rightarrow> (None, []) | r # rs \<Rightarrow> (Some r, rs))"

definition list_dump :: "pcap_pkthdr \<Rightarrow> mem \<Rightarrow> (pcap_pkthdr \<times> mem) list \<Rightarrow> (pcap_pkthdr \<times> mem) list" where
  "list_dump h m rs = rs @ [(h, take (unat (ph_caplen h)) m)]"

lemma list_savefile: "savefile snaplen list_dump [] (\<lambda>d. d) list_next"
proof -
  have "foldl (\<lambda>d (h, m). list_dump h m d) ds rs = ds @ map (\<lambda>(h, m). (h, take (unat (ph_caplen h)) m)) rs" for ds rs
    by (induction rs arbitrary: ds) (auto simp: list_dump_def)
  moreover have "yields list_next rs rs" for rs by (induction rs) (simp_all add: list_next_def)
  ultimately show ?thesis by (simp add: savefile_def)
qed

theorem pcap_roundtrip_witness:
  "\<exists>src' d dst'. cap2pcap_loop 3 (file_read 400 good_medium) st_stat_matched list_dump 0
      (opened_file (map zero_packet [timepico_new 1 1500000, timepico_new 2 7])) [] = Some (Inr (- 1, src', d)) \<and>
    pcap2cap_loop 3 list_next good_medium 65499 ((zero_packet (timepico_new 0 0))\<lparr>ch_nic := strncpy 8 ''CONV''\<rparr>) d (opened_file []) =
      Some (Inr dst') \<and>
    at_end ([] @ concat (map packet_bytes [(zero_packet (timepico_new 1 1000000))\<lparr>ch_nic := strncpy 8 ''CONV''\<rparr>,
      (zero_packet (timepico_new 2 0))\<lparr>ch_nic := strncpy 8 ''CONV''\<rparr>])) dst'"
proof -
  let ?ts = "[timepico_new 1 1500000, timepico_new 2 7]"
  let ?cp = "(zero_packet (timepico_new 0 0))\<lparr>ch_nic := strncpy 8 ''CONV''\<rparr>"
  have h: "file_holds 400 (opened_file (map zero_packet ?ts)) (map zero_packet ?ts)" by (rule opened_file_holds) simp
  have n: "\<forall>p\<in>set (map zero_packet ?ts). norm_tp (ch_ts p) \<and> unat (ch_caplen p) \<le> 9964"
    by (simp add: zero_packet_def norm_tp_def timepico_new_def PICODIVIDER_def)
  have wf: "header_wf ?cp" by (simp add: header_wf_def zero_packet_def strncpy_def)
  have c: "map (packet_bytes \<circ> pcap_copy 65499 ?cp) (map zero_packet ?ts) = map packet_bytes
      [(zero_packet (timepico_new 1 1000000))\<lparr>ch_nic := strncpy 8 ''CONV''\<rparr>, (zero_packet (timepico_new 2 0))\<lparr>ch_nic := strncpy 8 ''CONV''\<rparr>]"
    by (simp add: pcap_copy_def to_usec_def zero_packet_def timepico_new_def captured_def min_int_def)
  show ?thesis
    using pcap_roundtrip [OF h, of 3, OF _ list_savefile n _ _ wf opened_file_end, of 65499] c by simp
qed

end
