(* ===== verification/Marc.thy ===== *)
theory Marc
  imports Libc
begin

text \<open>
  The control protocol between measurement points and the MArCd (\<open>src/marc.c\<close>, \<open>src/marc_dstat.c\<close>): MAMPids,
  the size of an event, sending and receiving events, and the compatibility mode for old servers.

  An event is the memory of a message, at offsets of \<open>MPMessage\<close>: the type at 0, the MAMPid at 4 and the
  payload at 20. What \<open>select\<close>, \<open>recvfrom\<close> and \<open>sendto\<close> do is an argument. Setting up sockets
  (\<open>marc_init_client\<close>, \<open>marc_init_server\<close>) and the log messages are left out; of \<open>marc_init_client\<close> waiting for
  the relay and its reply are modelled.
\<close>

section \<open>MAMPids\<close>

definition mampid_set :: "string option \<Rightarrow> char list" where
  "mampid_set src = (case src of None \<Rightarrow> replicate 16 NUL | Some s \<Rightarrow> strncpy 16 s)"

text \<open>\<open>%.16s\<close> reads no more than the 16 characters there are.\<close>

definition mampid_get :: "char list \<Rightarrow> string" where
  "mampid_get src = (if src ! 0 \<noteq> NUL then takeWhile (\<lambda>c. c \<noteq> NUL) (take 16 src) else ''(nil)'')"

section \<open>Events\<close>

definition MP_LEGACY_INIT_EVENT :: u32 where "MP_LEGACY_INIT_EVENT = 1"
definition MP_LEGACY_AUTH_EVENT :: u32 where "MP_LEGACY_AUTH_EVENT = 1"
definition MP_LEGACY_STATUS_EVENT :: u32 where "MP_LEGACY_STATUS_EVENT = 2"
definition MP_LEGACY_FILTER_RELOAD_EVENT :: u32 where "MP_LEGACY_FILTER_RELOAD_EVENT = 2"
definition MP_LEGACY_FILTER_ADD_EVENT :: u32 where "MP_LEGACY_FILTER_ADD_EVENT = 3"
definition MP_LEGACY_FILTER_DEL_EVENT :: u32 where "MP_LEGACY_FILTER_DEL_EVENT = 5"
definition MP_CONTROL_INIT_EVENT :: u32 where "MP_CONTROL_INIT_EVENT = 1"
definition MP_STATUS_EVENT :: u32 where "MP_STATUS_EVENT = 64"
definition MP_FILTER_REQUEST_EVENT :: u32 where "MP_FILTER_REQUEST_EVENT = 66"
definition MP_FILTER_EVENT :: u32 where "MP_FILTER_EVENT = 67"
definition MP_FILTER_RELOAD_EVENT :: u32 where "MP_FILTER_RELOAD_EVENT = 68"
definition MP_FILTER_DEL_EVENT :: u32 where "MP_FILTER_DEL_EVENT = 69"
definition MP_FILTER_INVALID_ID :: u32 where "MP_FILTER_INVALID_ID = 72"
definition MP_STATUS3_EVENT :: u32 where "MP_STATUS3_EVENT = 100"
definition MP_DSTAT_EVENT :: u32 where "MP_DSTAT_EVENT = 101"
definition MP_CONTROL_AUTHORIZE_EVENT :: u32 where "MP_CONTROL_AUTHORIZE_EVENT = 128"
definition MP_CONTROL_TERMINATE_EVENT :: u32 where "MP_CONTROL_TERMINATE_EVENT = 130"
definition MP_CONTROL_PING_EVENT :: u32 where "MP_CONTROL_PING_EVENT = 133"
definition MP_CONTROL_DISTRESS :: u32 where "MP_CONTROL_DISTRESS = 256"
definition MP_CONTROL_STOP_EVENT :: u32 where "MP_CONTROL_STOP_EVENT = 257"
definition MP_CONTROL_START_EVENT :: u32 where "MP_CONTROL_START_EVENT = 258"

lemmas mp_events = MP_LEGACY_INIT_EVENT_def MP_LEGACY_AUTH_EVENT_def MP_LEGACY_STATUS_EVENT_def
  MP_LEGACY_FILTER_RELOAD_EVENT_def MP_LEGACY_FILTER_ADD_EVENT_def MP_LEGACY_FILTER_DEL_EVENT_def
  MP_CONTROL_INIT_EVENT_def MP_STATUS_EVENT_def MP_FILTER_REQUEST_EVENT_def MP_FILTER_EVENT_def
  MP_FILTER_RELOAD_EVENT_def MP_FILTER_DEL_EVENT_def MP_FILTER_INVALID_ID_def MP_STATUS3_EVENT_def
  MP_DSTAT_EVENT_def MP_CONTROL_AUTHORIZE_EVENT_def MP_CONTROL_TERMINATE_EVENT_def MP_CONTROL_PING_EVENT_def
  MP_CONTROL_DISTRESS_def MP_CONTROL_STOP_EVENT_def MP_CONTROL_START_EVENT_def

text \<open>The sizes of the structures and of the union of messages.\<close>

definition sizeof_MPMessage :: nat where "sizeof_MPMessage = 1420"
definition sizeof_MPinitialization :: nat where "sizeof_MPinitialization = 256"
definition sizeof_CIinitialization :: nat where "sizeof_CIinitialization = 8"
definition sizeof_MPauth :: nat where "sizeof_MPauth = 24"
definition sizeof_MPFilter :: nat where "sizeof_MPFilter = 236"
definition sizeof_MPFilterID :: nat where "sizeof_MPFilterID = 24"
definition sizeof_MPstatusExtended :: nat where "sizeof_MPstatusExtended = 40"
definition sizeof_CIstats :: nat where "sizeof_CIstats = 24"
definition sizeof_MPDStat :: nat where "sizeof_MPDStat = 24"
definition sizeof_MPDStatHdr :: nat where "sizeof_MPDStatHdr = 4"

lemmas mp_sizes = sizeof_MPMessage_def sizeof_MPinitialization_def sizeof_CIinitialization_def sizeof_MPauth_def
  sizeof_MPFilter_def sizeof_MPFilterID_def sizeof_MPstatusExtended_def sizeof_CIstats_def sizeof_MPDStat_def
  sizeof_MPDStatHdr_def

text \<open>A value written over memory.\<close>

definition put :: "mem \<Rightarrow> nat \<Rightarrow> u8 list \<Rightarrow> mem" where
  "put m i bs = take i m @ bs @ drop (i + length bs) m"

abbreviation (input) set_type :: "mem \<Rightarrow> u32 \<Rightarrow> mem" where
  "set_type m t \<equiv> put m 0 (bytes32 t)"

section \<open>Dynamic status reports\<close>

definition MP_DSTAT_TRAILER :: u16 where "MP_DSTAT_TRAILER = 0"

definition mp_dstat_next :: "mem \<Rightarrow> nat \<Rightarrow> nat option res" where
  "mp_dstat_next m cur =
     rbind (rd16 m cur) (\<lambda>t. if ntohs t = MP_DSTAT_TRAILER then Inr None
       else rbind (rd16 m (cur + 2)) (\<lambda>len. Inr (Some (cur + unat (ntohs len)))))"

text \<open>The loop over the extension headers, which need not end; the headers visited are the fuel.\<close>

fun dstat_loop :: "nat \<Rightarrow> mem \<Rightarrow> nat \<Rightarrow> nat \<Rightarrow> nat res option" where
  "dstat_loop 0 m bytes cur = None"
| "dstat_loop (Suc fuel) m bytes cur =
     (case rd16 m (cur + 2) of
        Inl e \<Rightarrow> Some (Inl e)
      | Inr len \<Rightarrow>
          (case mp_dstat_next m cur of
             Inl e \<Rightarrow> Some (Inl e)
           | Inr None \<Rightarrow> Some (Inr (bytes + unat (ntohs len)))
           | Inr (Some cur) \<Rightarrow> dstat_loop fuel m (bytes + unat (ntohs len)) cur))"

definition mp_dstat_size :: "nat \<Rightarrow> mem \<Rightarrow> nat res option" where
  "mp_dstat_size fuel m = map_option (\<lambda>r. rbind r (\<lambda>bytes. Inr (bytes + sizeof_MPDStatHdr)))
     (dstat_loop fuel m sizeof_MPDStat sizeof_MPDStat)"

section \<open>The size of an event\<close>

text \<open>The type is in host order here; the number of interfaces is in network order.\<close>

definition event_size :: "nat \<Rightarrow> mem \<Rightarrow> nat res option" where
  "event_size fuel event =
     (case rd32 event 0 of
        Inl e \<Rightarrow> Some (Inl e)
      | Inr t \<Rightarrow>
          if t = MP_CONTROL_INIT_EVENT then
            Some (rbind (rd16 event 220) (\<lambda>noCI.
              Inr (sizeof_MPinitialization + unat (ntohs (word_of_nat (sizeof_CIinitialization * unat noCI))))))
          else if t = MP_CONTROL_AUTHORIZE_EVENT then Some (Inr sizeof_MPauth)
          else if t = MP_STATUS_EVENT then
            Some (rbind (cstr (map char_of_byte (drop 32 event))) (\<lambda>s. Inr (32 + length s + 1)))
          else if t = MP_STATUS3_EVENT then
            Some (rbind (rd8 event 38) (\<lambda>noCI. Inr (sizeof_MPstatusExtended + sizeof_CIstats * unat noCI)))
          else if t = MP_DSTAT_EVENT then mp_dstat_size fuel event
          else if t = MP_FILTER_EVENT then Some (Inr sizeof_MPFilter)
          else if t = MP_FILTER_REQUEST_EVENT then Some (Inr sizeof_MPFilterID)
          else if t = MP_FILTER_INVALID_ID then Some (Inr 4)
          else if t \<in> {MP_CONTROL_TERMINATE_EVENT, MP_CONTROL_STOP_EVENT, MP_CONTROL_START_EVENT,
              MP_CONTROL_DISTRESS, MP_CONTROL_PING_EVENT} then Some (Inr 20)
          else Some (Inl Aborted))"

definition legacy_compat :: "u32 \<Rightarrow> u32" where
  "legacy_compat event =
     (if event = MP_CONTROL_INIT_EVENT then MP_LEGACY_INIT_EVENT
      else if event = MP_STATUS_EVENT then MP_LEGACY_STATUS_EVENT
      else if event = MP_FILTER_REQUEST_EVENT then 3
      else if event = MP_LEGACY_FILTER_ADD_EVENT then MP_FILTER_EVENT
      else event)"

section \<open>Contexts\<close>

datatype context_type = CONTEXT_SERVER | CONTEXT_CLIENT

text \<open>\<open>compat\<close> is null or \<open>legacy_compat\<close>; the version is the one of \<open>struct client\<close>.\<close>

record marc_context =
  mc_type :: context_type
  mc_compat :: "(u32 \<Rightarrow> u32) option"
  mc_server_version :: "u16 \<times> u16"

text \<open>
  Sending: the returned value, the event as it was changed and the datagram, if one was sent. \<open>sendto\<close> gives
  the error number of a call that fails. \<open>dst\<close> says whether the caller gives an address; the address a
  client has of its server is not part of a server's context.
\<close>

definition marc_push_event ::
  "nat \<Rightarrow> (u8 list \<Rightarrow> int option) \<Rightarrow> marc_context \<Rightarrow> mem \<Rightarrow> bool \<Rightarrow> (int \<times> mem \<times> u8 list option) res option" where
  "marc_push_event fuel sendto ctx event dst =
     map_option (\<lambda>r. rbind r (\<lambda>bsize.
       rbind (rd32 event 0) (\<lambda>t.
         let t = (case mc_compat ctx of Some f \<Rightarrow> f t | None \<Rightarrow> t); event = set_type event (htonl t) in
         if \<not> dst \<and> mc_type ctx = CONTEXT_SERVER then Inl Out_of_bounds
         else rbind (rdn event 0 bsize) (\<lambda>data.
           Inr (case sendto data of None \<Rightarrow> (0, event, Some data) | Some err \<Rightarrow> (err, event, None))))))
     (event_size fuel event)"

definition marc_filter_request ::
  "nat \<Rightarrow> (u8 list \<Rightarrow> int option) \<Rightarrow> marc_context \<Rightarrow> string option \<Rightarrow> u32 \<Rightarrow> (int \<times> mem \<times> u8 list option) res option" where
  "marc_filter_request fuel sendto ctx MAMPid filter_id =
     marc_push_event fuel sendto ctx
       (bytes32 MP_FILTER_REQUEST_EVENT @ map byte_of_char (mampid_set MAMPid) @ bytes32 (htonl filter_id)) False"

text \<open>What \<open>select\<close> and \<open>recvfrom\<close> bring; a datagram comes with the address of its sender, a \<open>struct sockaddr_in\<close>.\<close>

datatype arrival =
    Select_failed int
  | Timed_out
  | Recv_failed int         \<comment> \<open>the value of \<open>errno\<close> after \<open>recvfrom\<close> failed\<close>
  | Datagram "u8 list" "u8 list"

section \<open>Initialisation\<close>

text \<open>
  Waiting for the reply of the relay, in try \<open>n\<close>: the error that is returned or the datagram. The arrivals are those
  of the calls that are made; without one the program waits. The request itself is sent once, before the loop.
\<close>

definition max_retries :: nat where "max_retries = 6"

definition ECANCELED :: int where "ECANCELED = 125"

definition ECONNREFUSED :: int where "ECONNREFUSED = 111"

fun await_reply :: "nat \<Rightarrow> arrival list \<Rightarrow> (int + u8 list) option" where
  "await_reply n arrs =
     (if \<not> n < max_retries then Some (Inl ECANCELED)
      else case arrs of
          [] \<Rightarrow> None
        | Select_failed err # _ \<Rightarrow> Some (Inl err)
        | Timed_out # arrs \<Rightarrow> await_reply (n + 1) arrs
        | Recv_failed err # _ \<Rightarrow> Some (Inl err)
        | Datagram src d # _ \<Rightarrow> Some (Inr d))"

declare await_reply.simps [simp del]

text \<open>
  The structure \<open>MAINFO\<close>, 220 bytes that are not initialised: the version at 0, the address at 4, the UDP port at
  216. The port is put in network order once more.
\<close>

definition server_of_reply :: "mem \<Rightarrow> u8 list \<Rightarrow> (int + string \<times> u16) res" where
  "server_of_reply junk d =
     (let reply = put junk 0 (take 220 d) in
      rbind (rd32 reply 0) (\<lambda>version.
        if ntohs (ucast version) = 1 then Inr (Inl ECONNREFUSED)
        else rbind (rd32 reply 216) (\<lambda>portUDP.
          rbind (cstr (map char_of_byte (drop 4 reply))) (\<lambda>address.
            Inr (Inr (address, htons (ucast portUDP)))))))"

text \<open>
  The request for initialisation. What a client knows of itself is the argument: its hardware address, the bytes
  \<open>gethostname\<close> wrote, its address and port in network order, the versions and the names of the interfaces, in an
  array of eight. The version of the protocol is that of the build.
\<close>

record client_info =
  ci_hwaddr :: "u8 list"
  ci_hostname :: "u8 list"
  ci_ipaddress :: "u8 list"
  ci_port :: u16
  ci_max_filters :: u16
  ci_noCI :: nat
  ci_ma_mtu :: u16
  ci_caputils :: "u8 list"
  ci_self :: "u8 list"
  ci_drivers :: u32
  ci_CI :: "u8 list"

definition init_message :: "u16 \<times> u16 \<Rightarrow> client_info \<Rightarrow> mem res" where
  "init_message version info =
     rbind (rdn (ci_CI info) 0 (sizeof_CIinitialization * ci_noCI info)) (\<lambda>CI.
       Inr (fold (\<lambda>(i, bs) m. put m i bs)
         [(0, bytes32 MP_CONTROL_INIT_EVENT), (4, ci_hwaddr info), (12, ci_hostname info), (212, ci_ipaddress info),
          (216, bytes16 (ci_port info)), (218, bytes16 (htons (ci_max_filters info))),
          (220, bytes16 (htons (word_of_nat (ci_noCI info)))), (210, bytes16 (htons (ci_ma_mtu info))),
          (238, bytes16 (htons (fst version)) @ bytes16 (htons (snd version))),
          (242, ci_caputils info), (246, ci_self info), (252, bytes32 (htonl (ci_drivers info))), (256, CI)]
         (replicate sizeof_MPMessage 0)))"

definition marc_client_init_request ::
  "nat \<Rightarrow> (u8 list \<Rightarrow> int option) \<Rightarrow> u16 \<times> u16 \<Rightarrow> marc_context \<Rightarrow> client_info \<Rightarrow> (int \<times> mem \<times> u8 list option) res option" where
  "marc_client_init_request fuel sendto version ctx info =
     (case init_message version info of Inl e \<Rightarrow> Some (Inl e) | Inr msg \<Rightarrow> marc_push_event fuel sendto ctx msg True)"

section \<open>Receiving\<close>

text \<open>
  What the caller passes besides the context: the memory \<open>cfrom\<close> points to and the value of \<open>*addrlen\<close>, either
  may be null, and the value that \<open>errno\<close> has. The event is returned with what the call left there.
\<close>

record poll_caller =
  pc_from :: "u8 list option"
  pc_addrlen :: "nat option"
  pc_errno :: int

definition sizeof_sockaddr_in :: nat where "sizeof_sockaddr_in = 16"

text \<open>
  The copy of the sender's address: as many bytes as the caller says are copied from the local structure, to
  the memory of the caller.
\<close>

definition copy_sender :: "poll_caller \<Rightarrow> u8 list \<Rightarrow> poll_caller res" where
  "copy_sender caller src =
     (case pc_from caller of
        None \<Rightarrow> Inr caller
      | Some cfrom \<Rightarrow>
          (case pc_addrlen caller of
             None \<Rightarrow> Inl Null_deref
           | Some n \<Rightarrow>
               rbind (rdn src 0 n) (\<lambda>bs.
                 if n \<le> length cfrom
                 then Inr (caller\<lparr>pc_from := Some (put cfrom 0 bs), pc_addrlen := Some sizeof_sockaddr_in\<rparr>)
                 else Inl Out_of_bounds)))"

record marc_event =
  me_ret :: int
  me_ctx :: marc_context
  me_event :: mem
  me_size :: "nat option"
  me_sent :: "u8 list option"
  me_caller :: poll_caller

abbreviation (input) EAGAIN :: int where "EAGAIN \<equiv> 11"

text \<open>The version an old MArCd or measurement point is taken to have.\<close>

definition legacy_fill :: "marc_context \<Rightarrow> nat \<Rightarrow> u32 \<Rightarrow> mem \<Rightarrow> marc_context \<times> u32 \<times> mem" where
  "legacy_fill ctx bytes t event =
     (if mc_type ctx = CONTEXT_CLIENT \<and> t = MP_LEGACY_AUTH_EVENT \<and> bytes < sizeof_MPauth then
        (ctx\<lparr>mc_compat := Some legacy_compat\<rparr>, MP_CONTROL_AUTHORIZE_EVENT,
         put event 20 (bytes16 0 @ bytes16 6))
      else if mc_type ctx = CONTEXT_SERVER \<and> t = MP_LEGACY_INIT_EVENT \<and> bytes < sizeof_MPinitialization then
        (ctx, MP_CONTROL_INIT_EVENT, put (put event 220 (bytes16 0)) 238 (bytes16 (htons 0) @ bytes16 (htons 6)))
      else (ctx, t, event))"

text \<open>
  The version is taken from the place it has in an initialisation message. The context of a server is smaller
  than the one it is stored in.
\<close>

definition store_version :: "marc_context \<Rightarrow> u32 \<Rightarrow> mem \<Rightarrow> marc_context res" where
  "store_version ctx t event =
     (if t = MP_CONTROL_AUTHORIZE_EVENT then
        if mc_type ctx = CONTEXT_SERVER then Inl Out_of_bounds
        else rbind (rd16 event 238) (\<lambda>major. rbind (rd16 event 240) (\<lambda>minor.
          Inr (ctx\<lparr>mc_server_version := (major, minor)\<rparr>)))
      else Inr ctx)"

text \<open>Messages of the web interface, which come without the full payload, and the compatibility mode.\<close>

definition php_hack :: "marc_context \<Rightarrow> nat \<Rightarrow> u32 \<Rightarrow> mem \<Rightarrow> (u32 \<times> mem) res" where
  "php_hack ctx bytes t event =
     (if bytes < 100 \<and> t < 11 then
        if t = MP_LEGACY_FILTER_ADD_EVENT then
          rbind (cstr (map char_of_byte (drop 20 event))) (\<lambda>s.
            Inr (MP_FILTER_REQUEST_EVENT, put event 20 (bytes32 (htonl (word_of_int (atoi s))))))
        else if t = MP_LEGACY_FILTER_DEL_EVENT then
          rbind (cstr (map char_of_byte (drop 20 event))) (\<lambda>s.
            Inr (MP_FILTER_DEL_EVENT, put event 20 (bytes32 (htonl (word_of_int (atoi s))))))
        else if t = MP_LEGACY_FILTER_RELOAD_EVENT then Inr (MP_FILTER_RELOAD_EVENT, put event 20 (bytes32 (htonl (- 1))))
        else Inr (t, event)
      else Inr ((case mc_compat ctx of Some f \<Rightarrow> f t | None \<Rightarrow> t), event))"

text \<open>A datagram without bytes makes \<open>recvfrom\<close> return 0, which is taken for an error: \<open>errno\<close> is what it was.\<close>

definition marc_poll_event ::
  "nat \<Rightarrow> (u8 list \<Rightarrow> int option) \<Rightarrow> marc_context \<Rightarrow> poll_caller \<Rightarrow> arrival \<Rightarrow> marc_event res option" where
  "marc_poll_event fuel sendto ctx caller arr =
     (let empty = replicate sizeof_MPMessage 0;
          stop = (\<lambda>ret. Some (Inr \<lparr>me_ret = ret, me_ctx = ctx, me_event = empty, me_size = None, me_sent = None,
                                  me_caller = caller\<rparr>)) in
      case arr of
        Select_failed err \<Rightarrow> stop err
      | Timed_out \<Rightarrow> stop EAGAIN
      | Recv_failed err \<Rightarrow> stop err
      | Datagram src d \<Rightarrow>
          let data = take sizeof_MPMessage d; bytes = length data; event = put empty 0 data in
          if bytes = 0 then stop (pc_errno caller)
          else case rbind (copy_sender caller src) (\<lambda>caller.
            rbind (rd32 event 0) (\<lambda>t.
            let (ctx, t, event) = legacy_fill ctx bytes (ntohl t) event in
            rbind (store_version ctx t event) (\<lambda>ctx. Inr (caller, ctx, t, event)))) of
            Inl e \<Rightarrow> Some (Inl e)
          | Inr (caller, ctx, t, event) \<Rightarrow>
              if t = MP_CONTROL_PING_EVENT then
                map_option (\<lambda>r. rbind r (\<lambda>(_, event, sent).
                    Inr \<lparr>me_ret = EAGAIN, me_ctx = ctx, me_event = event, me_size = None, me_sent = sent,
                         me_caller = caller\<rparr>))
                  (marc_push_event fuel sendto ctx (set_type event t) True)
              else
                Some (rbind (php_hack ctx bytes t event) (\<lambda>(t, event).
                  Inr \<lparr>me_ret = 0, me_ctx = ctx, me_event = set_type event t, me_size = Some bytes, me_sent = None,
                       me_caller = caller\<rparr>)))"

section \<open>Waiting for the relay\<close>

text \<open>After five timeouts the client gives up, whatever would arrive later.\<close>

lemma await_reply_gives_up: "n + k = max_retries \<Longrightarrow> await_reply n (replicate k Timed_out @ arrs) = Some (Inl ECANCELED)"
  by (induction k arbitrary: n) (simp_all add: await_reply.simps)

lemma await_reply_datagram: "n + k < max_retries \<Longrightarrow> await_reply n (replicate k Timed_out @ Datagram src d # arrs) = Some (Inr d)"
  by (induction k arbitrary: n) (simp_all add: await_reply.simps)

section \<open>The size of a report\<close>

text \<open>An extension header with its data; the length counts both.\<close>

definition dstat_bytes :: "u16 \<times> u8 list \<Rightarrow> u8 list" where
  "dstat_bytes h = bytes16 (htons (fst h)) @ bytes16 (htons (word_of_nat (4 + length (snd h)))) @ snd h"

lemma rd16_at: "i = length xs \<Longrightarrow> rd16 (xs @ bytes16 w @ ys) i = Inr w"
  by (simp add: rd16_bytes16)

lemma dstat_step:
  assumes "t \<noteq> MP_DSTAT_TRAILER" "m = pre @ bytes16 (htons t) @ bytes16 (htons len) @ ys"
  shows "dstat_loop (Suc fuel) m bytes (length pre) = dstat_loop fuel m (bytes + unat len) (length pre + unat len)"
proof -
  have "rd16 m (length pre) = Inr (htons t)" "rd16 m (length pre + 2) = Inr (htons len)"
    using rd16_at [of "length pre" pre "htons t" "bytes16 (htons len) @ ys"]
      rd16_at [of "length pre + 2" "pre @ bytes16 (htons t)" "htons len" ys] assms(2) by simp_all
  then show ?thesis using assms(1) by (simp add: mp_dstat_next_def)
qed

lemma dstat_loop_chain:
  assumes "\<forall>h\<in>set hs. fst h \<noteq> MP_DSTAT_TRAILER \<and> 4 + length (snd h) < 2 ^ 16"
    and "m = pre @ concat (map dstat_bytes hs) @ bytes16 (htons MP_DSTAT_TRAILER) @ bytes16 (htons tlen) @ ys"
  shows "dstat_loop (Suc (length hs)) m bytes (length pre) =
    Some (Inr (bytes + length (concat (map dstat_bytes hs)) + unat tlen))"
  using assms
proof (induction hs arbitrary: pre bytes)
  case Nil
  have "rd16 m (length pre) = Inr (htons MP_DSTAT_TRAILER)" "rd16 m (length pre + 2) = Inr (htons tlen)"
    using rd16_at [of "length pre" pre "htons MP_DSTAT_TRAILER" "bytes16 (htons tlen) @ ys"]
      rd16_at [of "length pre + 2" "pre @ bytes16 (htons MP_DSTAT_TRAILER)" "htons tlen" ys] Nil.prems(2) by simp_all
  then show ?case by (simp add: mp_dstat_next_def)
next
  case (Cons h hs)
  let ?n = "4 + length (snd h)"
  have n: "unat (word_of_nat ?n :: u16) = ?n" using Cons.prems(1) by (intro of_nat_inverse [OF refl]) auto
  have l: "length (dstat_bytes h) = ?n" by (simp add: dstat_bytes_def)
  have "dstat_loop (Suc (length (h # hs))) m bytes (length pre) =
      dstat_loop (Suc (length hs)) m (bytes + unat (word_of_nat ?n :: u16)) (length pre + unat (word_of_nat ?n :: u16))"
    using Cons.prems by (simp only: list.size add_Suc_right add_0_right, intro dstat_step) (auto simp: dstat_bytes_def)
  also have "\<dots> = dstat_loop (Suc (length hs)) m (bytes + ?n) (length (pre @ dstat_bytes h))"
    unfolding n by (simp add: l)
  also have "\<dots> = Some (Inr (bytes + ?n + length (concat (map dstat_bytes hs)) + unat tlen))"
    using Cons.prems by (intro Cons.IH) auto
  finally show ?case by (simp add: l)
qed

text \<open>A header that is not the trailer and has no length keeps the loop where it is.\<close>

lemma dstat_loop_diverges:
  assumes "t \<noteq> MP_DSTAT_TRAILER" "m = pre @ bytes16 (htons t) @ bytes16 (htons 0) @ ys"
  shows "dstat_loop fuel m bytes (length pre) = None"
proof (induction fuel)
  case (Suc fuel)
  from dstat_step [OF assms, of fuel bytes] Suc.IH show ?case by (simp del: dstat_loop.simps)
qed simp

section \<open>The size of a request\<close>

text \<open>The product with the size of an entry is swapped after it is taken, which is right for less than 32 interfaces.\<close>

lemma noCI_swapped:
  assumes "n < 32"
  shows "unat (ntohs (word_of_nat (8 * unat (htons (word_of_nat n))))) = 8 * n"
proof -
  have "n \<in> set [0..<32]" using assms by simp
  then show ?thesis by (simp add: upt_conv_Cons) (elim disjE; simp add: ntohs_def le16_def)
qed

definition info_wf :: "client_info \<Rightarrow> bool" where
  "info_wf info \<longleftrightarrow> length (ci_hwaddr info) = 6 \<and> length (ci_hostname info) \<le> 198 \<and> length (ci_ipaddress info) = 4 \<and>
     length (ci_caputils info) = 4 \<and> length (ci_self info) = 4 \<and> length (ci_CI info) = 64 \<and> ci_noCI info \<le> 8"

lemma length_put: "i + length bs \<le> length m \<Longrightarrow> length (put m i bs) = length m"
  by (simp add: put_def)

lemma put_nth: "i + length bs \<le> length m \<Longrightarrow> j < length m \<Longrightarrow>
    put m i bs ! j = (if i \<le> j \<and> j < i + length bs then bs ! (j - i) else m ! j)"
  by (auto simp: put_def nth_append not_less)

text \<open>A list of fields written one after the other; the bytes of a field that no later one covers.\<close>

abbreviation (input) puts :: "(nat \<times> u8 list) list \<Rightarrow> mem \<Rightarrow> mem" where
  "puts ps m \<equiv> fold (\<lambda>(i, bs) m. put m i bs) ps m"

lemma length_puts: "\<forall>(i, bs)\<in>set ps. i + length bs \<le> length m \<Longrightarrow> length (puts ps m) = length m"
  by (induction ps arbitrary: m) (auto simp: length_put)

lemma puts_nth:
  "\<forall>(i, bs)\<in>set ps. i + length bs \<le> length m \<and> (j < i \<or> i + length bs \<le> j) \<Longrightarrow> j < length m \<Longrightarrow> puts ps m ! j = m ! j"
  by (induction ps arbitrary: m) (auto simp: length_put put_nth)

lemma puts_field:
  assumes "\<forall>(i, bs)\<in>set (as @ (k, f) # ps). i + length bs \<le> length m"
    and "\<forall>(i, bs)\<in>set ps. k + length f \<le> i \<or> i + length bs \<le> k" "j < length f"
  shows "puts (as @ (k, f) # ps) m ! (k + j) = f ! j"
proof -
  have l: "length (puts as m) = length m" using assms(1) by (intro length_puts) auto
  then have "length (put (puts as m) k f) = length m" using assms(1) by (auto simp: length_put)
  then have "puts ps (put (puts as m) k f) ! (k + j) = put (puts as m) k f ! (k + j)"
    using assms by (intro puts_nth) fastforce+
  then show ?thesis using assms(1,3) l by (simp add: put_nth)
qed

lemma init_message_facts:
  assumes "info_wf info"
  shows "\<exists>m. init_message version info = Inr m \<and> length m = sizeof_MPMessage \<and>
    rd32 m 0 = Inr MP_CONTROL_INIT_EVENT \<and> rd16 m 220 = Inr (htons (word_of_nat (ci_noCI info)))"
proof -
  let ?CI = "take (8 * ci_noCI info) (ci_CI info)"
  let ?t = "bytes32 MP_CONTROL_INIT_EVENT" and ?n = "bytes16 (htons (word_of_nat (ci_noCI info)))"
  let ?as = "[(4, ci_hwaddr info), (12, ci_hostname info), (212, ci_ipaddress info),
    (216, bytes16 (ci_port info)), (218, bytes16 (htons (ci_max_filters info)))]"
  let ?ps = "[(210, bytes16 (htons (ci_ma_mtu info))), (238, bytes16 (htons (fst version)) @ bytes16 (htons (snd version))),
    (242, ci_caputils info), (246, ci_self info), (252, bytes32 (htonl (ci_drivers info))), (256, ?CI)]"
  let ?z = "replicate sizeof_MPMessage (0 :: u8)"
  let ?all = "(0, ?t) # ?as @ (220, ?n) # ?ps"
  define m where "m = puts ?all ?z"
  have in_range: "\<forall>(i, bs)\<in>set ?all. i + length bs \<le> length ?z" using assms by (simp add: info_wf_def mp_sizes)
  have l: "length m = sizeof_MPMessage" unfolding m_def using length_puts [OF in_range] by simp
  have t: "m ! (0 + j) = ?t ! j" if "j < length ?t" for j
    unfolding m_def by (rule puts_field [of "[]" 0 ?t "?as @ (220, ?n) # ?ps" ?z j, unfolded append_Nil])
      (use in_range that assms in \<open>simp_all add: info_wf_def\<close>)
  have n: "m ! (220 + j) = ?n ! j" if "j < length ?n" for j
  proof -
    have "m = puts (((0, ?t) # ?as) @ (220, ?n) # ?ps) ?z" by (simp only: m_def append_Cons append_Nil)
    then show ?thesis using in_range that assms by (simp only:, intro puts_field) (simp_all add: info_wf_def)
  qed
  have "rd32 m 0 = Inr MP_CONTROL_INIT_EVENT"
    using t [of 0] t [of 1] t [of 2] t [of 3] l by (simp add: rd32_in mp_sizes bytes32_def le32_bytes32)
  moreover have "rd16 m 220 = Inr (htons (word_of_nat (ci_noCI info)))"
    using n [of 0] n [of 1] l by (simp add: rd16_in mp_sizes bytes16_def le16_bytes16)
  moreover have "init_message version info = Inr m"
    using assms by (simp add: init_message_def m_def rdn_def info_wf_def mp_sizes)
  ultimately show ?thesis using l by blast
qed

section \<open>Well-formed contexts\<close>

text \<open>Only a client is ever in the compatibility mode, and the mode is the one that the code has.\<close>

definition context_wf :: "marc_context \<Rightarrow> bool" where
  "context_wf ctx \<longleftrightarrow> mc_compat ctx = None \<or> mc_type ctx = CONTEXT_CLIENT \<and> mc_compat ctx = Some legacy_compat"

lemma length_set_type: "4 \<le> length m \<Longrightarrow> length (set_type m t) = length m"
  by (rule length_put) simp

lemma legacy_fill_spec:
  assumes "legacy_fill ctx bytes t event = (ctx', t', event')" "length event = sizeof_MPMessage"
  shows "length event' = sizeof_MPMessage" "mc_type ctx' = mc_type ctx" "mc_server_version ctx' = mc_server_version ctx"
    "context_wf ctx \<Longrightarrow> context_wf ctx'" "mc_compat ctx = Some f \<Longrightarrow> context_wf ctx \<Longrightarrow> mc_compat ctx' = Some f"
  using assms by (auto simp: legacy_fill_def length_put mp_sizes context_wf_def split: if_splits)

lemma store_version_spec:
  assumes "store_version ctx t event = Inr ctx'"
  shows "mc_type ctx' = mc_type ctx" "mc_compat ctx' = mc_compat ctx"
  using assms by (auto simp: store_version_def rbind_Inr_iff split: if_splits)

lemma store_version_total:
  assumes "mc_type ctx = CONTEXT_CLIENT \<or> t \<noteq> MP_CONTROL_AUTHORIZE_EVENT" "length event = sizeof_MPMessage"
  shows "\<exists>ctx'. store_version ctx t event = Inr ctx'"
  using assms by (auto simp: store_version_def rd16_in mp_sizes)

lemma rd32_set_type [simp]: "rd32 (set_type m t) 0 = Inr t"
  using rd32_bytes32 [of "[]" t "drop 4 m"] by (simp add: put_def)

lemma event_size_ping: "event_size fuel (set_type m MP_CONTROL_PING_EVENT) = Some (Inr 20)"
  by (simp add: event_size_def) (simp add: mp_events)

lemma legacy_compat_ping: "legacy_compat MP_CONTROL_PING_EVENT = MP_CONTROL_PING_EVENT"
  by (simp add: legacy_compat_def mp_events)

text \<open>The answer to a ping is the message itself, cut to type and MAMPid.\<close>

lemma push_ping:
  assumes "context_wf ctx" "length m = sizeof_MPMessage"
  shows "\<exists>ret sent. marc_push_event fuel sendto ctx (set_type m MP_CONTROL_PING_EVENT) True =
    Some (Inr (ret, set_type m (htonl MP_CONTROL_PING_EVENT), sent)) \<and>
    (sent = None \<or> sent = Some (bytes32 (htonl MP_CONTROL_PING_EVENT) @ take 16 (drop 4 m)))"
proof -
  have "(case mc_compat ctx of Some f \<Rightarrow> f MP_CONTROL_PING_EVENT | None \<Rightarrow> MP_CONTROL_PING_EVENT) = MP_CONTROL_PING_EVENT"
    using assms(1) legacy_compat_ping by (auto simp: context_wf_def)
  moreover have "put (put m 0 (bytes32 a)) 0 (bytes32 b) = put m 0 (bytes32 b)" for a b by (simp add: put_def)
  moreover have "rdn (set_type m t) 0 20 = Inr (bytes32 t @ take 16 (drop 4 m))" for t
    using assms(2) by (simp add: rdn_def put_def mp_sizes)
  ultimately show ?thesis
    by (auto simp: marc_push_event_def event_size_ping Let_def split: option.splits)
qed

text \<open>A datagram shorter than 100 bytes leaves zeros behind it.\<close>

lemma zeros_behind:
  assumes "length d < 100"
  shows "\<exists>s. cstr (map char_of_byte (drop 20 (put (replicate sizeof_MPMessage 0) 0 d))) = Inr s"
proof -
  have "drop 20 (put (replicate sizeof_MPMessage 0) 0 d) = drop 20 d @ drop (20 - length d) (replicate (1420 - length d) 0)"
    by (simp add: put_def mp_sizes)
  moreover have "20 - length d < 1420 - length d" using assms by simp
  ultimately have "0 \<in> set (drop 20 (put (replicate sizeof_MPMessage 0) 0 d))"
    using assms by (auto simp: drop_replicate)
  then have "char_of_byte 0 \<in> set (map char_of_byte (drop 20 (put (replicate sizeof_MPMessage 0) 0 d)))"
    by (simp only: set_map imageI)
  then show ?thesis by (simp add: cstr_def char_of_byte_def char_of_def del: set_map)
qed

lemma php_hack_total:
  assumes "length event = sizeof_MPMessage"
    and "bytes < 100 \<and> t \<in> {MP_LEGACY_FILTER_ADD_EVENT, MP_LEGACY_FILTER_DEL_EVENT} \<Longrightarrow>
      \<exists>s. cstr (map char_of_byte (drop 20 event)) = Inr s"
  shows "\<exists>t' event'. php_hack ctx bytes t event = Inr (t', event') \<and> length event' = sizeof_MPMessage"
proof (cases "bytes < 100 \<and> t \<in> {MP_LEGACY_FILTER_ADD_EVENT, MP_LEGACY_FILTER_DEL_EVENT}")
  case True
  then obtain s where "cstr (map char_of_byte (drop 20 event)) = Inr s" using assms(2) by blast
  then show ?thesis using assms(1) by (simp add: php_hack_def length_put mp_sizes)
next
  case False
  then show ?thesis using assms(1) by (auto simp: php_hack_def length_put mp_sizes)
qed

section \<open>Receiving a datagram\<close>

text \<open>The message in the buffer and its type.\<close>

definition message :: "u8 list \<Rightarrow> mem" where
  "message d = put (replicate sizeof_MPMessage 0) 0 (take sizeof_MPMessage d)"

definition message_type :: "u8 list \<Rightarrow> u32" where
  "message_type d = ntohl (le32 (message d ! 0) (message d ! 1) (message d ! 2) (message d ! 3))"

lemma length_message [simp]: "length (message d) = sizeof_MPMessage"
  by (simp add: message_def put_def)

lemma message_type_Nil: "message_type [] \<noteq> MP_CONTROL_AUTHORIZE_EVENT"
  by (simp add: message_type_def message_def put_def ntohl_le32 sizeof_MPMessage_def mp_events) (simp add: le32_def)

text \<open>A caller that wants the sender's address has room for what it asks for, and asks for no more than the address has.\<close>

definition sender_room :: "poll_caller \<Rightarrow> bool" where
  "sender_room caller \<longleftrightarrow>
     (case pc_from caller of
        None \<Rightarrow> True
      | Some cfrom \<Rightarrow> (case pc_addrlen caller of None \<Rightarrow> False | Some n \<Rightarrow> n \<le> length cfrom \<and> n \<le> sizeof_sockaddr_in))"

definition sender_copied :: "poll_caller \<Rightarrow> u8 list \<Rightarrow> poll_caller \<Rightarrow> bool" where
  "sender_copied caller src caller' \<longleftrightarrow>
     (case (pc_from caller, pc_addrlen caller) of
        (Some cfrom, Some n) \<Rightarrow>
          pc_from caller' = Some (take n src @ drop n cfrom) \<and> pc_addrlen caller' = Some sizeof_sockaddr_in
      | _ \<Rightarrow> caller' = caller)"

lemma copy_sender_room:
  assumes "sender_room caller" "length src = sizeof_sockaddr_in"
  shows "\<exists>caller'. copy_sender caller src = Inr caller' \<and> sender_copied caller src caller'"
  using assms by (auto simp: sender_room_def copy_sender_def sender_copied_def rdn_def put_def split: option.splits)

lemma poll_datagram:
  assumes "legacy_fill ctx (min (length d) sizeof_MPMessage) (message_type d) (message d) = (ctx1, t1, m)"
    and "d \<noteq> []" "copy_sender caller src = Inr caller'"
  shows "marc_poll_event fuel sendto ctx caller (Datagram src d) =
    (case store_version ctx1 t1 m of
       Inl e \<Rightarrow> Some (Inl e)
     | Inr ctx2 \<Rightarrow>
         if t1 = MP_CONTROL_PING_EVENT then
           map_option (\<lambda>r. rbind r (\<lambda>(_, event, sent).
               Inr \<lparr>me_ret = EAGAIN, me_ctx = ctx2, me_event = event, me_size = None, me_sent = sent, me_caller = caller'\<rparr>))
             (marc_push_event fuel sendto ctx2 (set_type m t1) True)
         else Some (rbind (php_hack ctx2 (min (length d) sizeof_MPMessage) t1 m) (\<lambda>(t, event).
           Inr \<lparr>me_ret = 0, me_ctx = ctx2, me_event = set_type event t, me_size = Some (min (length d) sizeof_MPMessage),
             me_sent = None, me_caller = caller'\<rparr>)))"
proof -
  have "rd32 (message d) 0 = Inr (le32 (message d ! 0) (message d ! 1) (message d ! 2) (message d ! 3))"
    by (simp add: rd32_in mp_sizes numeral_2_eq_2)
  moreover have "min (length d) sizeof_MPMessage \<noteq> 0" using assms(2) by (simp add: mp_sizes)
  ultimately show ?thesis
    using assms by (cases "store_version ctx1 t1 m")
      (auto simp: marc_poll_event_def Let_def message_type_def message_def [symmetric] min.commute)
qed

lemma poll_empty:
  "marc_poll_event fuel sendto ctx caller (Datagram src []) =
     Some (Inr \<lparr>me_ret = pc_errno caller, me_ctx = ctx, me_event = replicate sizeof_MPMessage 0, me_size = None, me_sent = None,
       me_caller = caller\<rparr>)"
  by (simp add: marc_poll_event_def)

lemma legacy_fill_zeros:
  assumes "legacy_fill ctx n t (message d) = (ctx1, t1, m)" "length d < 100"
    and "t1 \<in> {MP_LEGACY_FILTER_ADD_EVENT, MP_LEGACY_FILTER_DEL_EVENT}"
  shows "\<exists>s. cstr (map char_of_byte (drop 20 m)) = Inr s"
  using assms zeros_behind [of d] by (auto simp: legacy_fill_def message_def mp_events mp_sizes split: if_splits)

text \<open>A server that is not sent an authorisation and every client get a result.\<close>

lemma poll_result:
  assumes "context_wf ctx" "mc_type ctx = CONTEXT_CLIENT \<or> message_type d \<noteq> MP_CONTROL_AUTHORIZE_EVENT"
    and "d \<noteq> []" "copy_sender caller src = Inr caller'"
  shows "\<exists>e. marc_poll_event fuel sendto ctx caller (Datagram src d) = Some (Inr e) \<and> context_wf (me_ctx e) \<and>
    mc_type (me_ctx e) = mc_type ctx \<and> length (me_event e) = sizeof_MPMessage \<and>
    (\<forall>f. mc_compat ctx = Some f \<longrightarrow> mc_compat (me_ctx e) = Some f) \<and> (\<forall>n. me_size e = Some n \<longrightarrow> n \<le> sizeof_MPMessage) \<and>
    me_caller e = caller'"
proof -
  obtain ctx1 t1 m where f: "legacy_fill ctx (min (length d) sizeof_MPMessage) (message_type d) (message d) = (ctx1, t1, m)"
    using prod_cases3 by blast
  note lf = legacy_fill_spec [OF f length_message]
  have "mc_type ctx1 = CONTEXT_CLIENT \<or> t1 \<noteq> MP_CONTROL_AUTHORIZE_EVENT"
    using assms(2) f lf(2) by (auto simp: legacy_fill_def mp_events split: if_splits)
  then obtain ctx2 where v: "store_version ctx1 t1 m = Inr ctx2" using store_version_total lf(1) by blast
  note sv = store_version_spec [OF v]
  have wf: "context_wf ctx2" using lf(4) [OF assms(1)] sv by (simp add: context_wf_def)
  show ?thesis
  proof (cases "t1 = MP_CONTROL_PING_EVENT")
    case True
    obtain ret sent where "marc_push_event fuel sendto ctx2 (set_type m MP_CONTROL_PING_EVENT) True =
        Some (Inr (ret, set_type m (htonl MP_CONTROL_PING_EVENT), sent))" using push_ping [OF wf lf(1)] by blast
    then show ?thesis using poll_datagram [OF f assms(3,4)] v True wf sv lf(1,2,5) assms(1) length_set_type [of m]
      by (auto simp: mp_sizes)
  next
    case False
    obtain t' m' where "php_hack ctx2 (min (length d) sizeof_MPMessage) t1 m = Inr (t', m')" "length m' = sizeof_MPMessage"
      using php_hack_total [OF lf(1), of "min (length d) sizeof_MPMessage" t1 ctx2] legacy_fill_zeros [OF f]
      by (auto simp: mp_sizes min_less_iff_disj)
    then show ?thesis using poll_datagram [OF f assms(3,4)] v False wf sv lf(2,5) assms(1) length_set_type [of m']
      by (auto simp: mp_sizes)
  qed
qed

section \<open>A run of a context\<close>

text \<open>The contexts that polling leads to.\<close>

inductive marc_reach :: "marc_context \<Rightarrow> marc_context \<Rightarrow> bool" for ctx :: marc_context where
  reach_init: "marc_reach ctx ctx"
| reach_poll: "marc_reach ctx ctx' \<Longrightarrow> marc_poll_event fuel sendto ctx' caller arr = Some (Inr e) \<Longrightarrow>
    marc_reach ctx (me_ctx e)"

lemma server_auth_fault:
  assumes "context_wf ctx" "mc_type ctx = CONTEXT_SERVER" "message_type d = MP_CONTROL_AUTHORIZE_EVENT"
    and "copy_sender caller src = Inr caller'"
  shows "marc_poll_event fuel sendto ctx caller (Datagram src d) = Some (Inl Out_of_bounds)"
proof -
  have "d \<noteq> []" using assms(3) message_type_Nil by auto
  moreover have "legacy_fill ctx (min (length d) sizeof_MPMessage) (message_type d) (message d) =
      (ctx, MP_CONTROL_AUTHORIZE_EVENT, message d)"
    using assms by (simp add: legacy_fill_def mp_events)
  ultimately show ?thesis using poll_datagram [OF _ _ assms(4)] assms(2) by (simp add: store_version_def)
qed

lemma poll_copies:
  assumes "marc_poll_event fuel sendto ctx caller (Datagram src d) = Some (Inr e)" "d \<noteq> []"
  shows "\<exists>caller'. copy_sender caller src = Inr caller'"
  using assms by (cases "copy_sender caller src") (simp_all add: marc_poll_event_def Let_def mp_sizes)

lemma poll_keeps:
  assumes "marc_poll_event fuel sendto ctx caller arr = Some (Inr e)" "context_wf ctx"
  shows "context_wf (me_ctx e)" "mc_type (me_ctx e) = mc_type ctx" "length (me_event e) = sizeof_MPMessage"
    "mc_compat ctx = Some f \<Longrightarrow> mc_compat (me_ctx e) = Some f"
proof -
  have "context_wf (me_ctx e) \<and> mc_type (me_ctx e) = mc_type ctx \<and> length (me_event e) = sizeof_MPMessage \<and>
    (mc_compat ctx = Some f \<longrightarrow> mc_compat (me_ctx e) = Some f)"
  proof (cases arr)
    case (Datagram src d)
    show ?thesis
    proof (cases "d = []")
      case True
      then show ?thesis using assms Datagram poll_empty by auto
    next
      case ne: False
      obtain caller' where c: "copy_sender caller src = Inr caller'" using poll_copies assms(1) Datagram ne by blast
      have "mc_type ctx = CONTEXT_CLIENT \<or> message_type d \<noteq> MP_CONTROL_AUTHORIZE_EVENT"
        using server_auth_fault [OF assms(2) _ _ c, of d fuel sendto] assms(1) Datagram by (cases "mc_type ctx") auto
      from poll_result [OF assms(2) this ne c, of fuel sendto] assms(1) Datagram show ?thesis by auto
    qed
  qed (use assms in \<open>auto simp: marc_poll_event_def Let_def\<close>)
  then show "context_wf (me_ctx e)" "mc_type (me_ctx e) = mc_type ctx" "length (me_event e) = sizeof_MPMessage"
    "mc_compat ctx = Some f \<Longrightarrow> mc_compat (me_ctx e) = Some f" by simp_all
qed

section \<open>Properties\<close>

text \<open>
  A MAMPid that has been set is read back, cut to 16 characters also when it fills the field and has
  no terminator; the empty one and a reset read as \<open>(nil)\<close>.
\<close>

lemma mampid_roundtrip:
  assumes "NUL \<notin> set s"
  shows "length (mampid_set (Some s)) = 16 \<and> mampid_get (mampid_set (Some s)) = (if s = [] then ''(nil)'' else take 16 s) \<and>
    mampid_get (mampid_set None) = ''(nil)''"
proof -
  have "strncpy 16 s ! 0 = (if s = [] then NUL else hd s)"
    by (cases s) (simp_all add: strncpy_def)
  moreover have "take 16 (strncpy 16 s) = strncpy 16 s" by simp
  moreover have "s \<noteq> [] \<Longrightarrow> hd s \<noteq> NUL" using assms hd_in_set by fastforce
  ultimately show ?thesis using takeWhile_strncpy [OF assms, of 16] by (simp add: mampid_set_def mampid_get_def)
qed

text \<open>
  Claim C11. Every message leaves a context of the type it had, with the compatibility mode of a client only; once
  the mode is on it stays on. So a server is never in it, whatever it has received.
\<close>

theorem marc_context_invariant:
  assumes "marc_reach ctx ctx'" "context_wf ctx"
  shows "context_wf ctx' \<and> mc_type ctx' = mc_type ctx \<and> (\<forall>f. mc_compat ctx = Some f \<longrightarrow> mc_compat ctx' = Some f) \<and>
    (mc_type ctx = CONTEXT_SERVER \<longrightarrow> mc_compat ctx' = None)"
proof -
  have "context_wf ctx' \<and> mc_type ctx' = mc_type ctx \<and> (\<forall>f. mc_compat ctx = Some f \<longrightarrow> mc_compat ctx' = Some f)"
    using assms by induction (auto simp: poll_keeps)
  then show ?thesis by (auto simp: context_wf_def)
qed

definition new_client :: marc_context where
  "new_client = \<lparr>mc_type = CONTEXT_CLIENT, mc_compat = None, mc_server_version = (0, 0)\<rparr>"

definition new_server :: marc_context where
  "new_server = \<lparr>mc_type = CONTEXT_SERVER, mc_compat = None, mc_server_version = (0, 0)\<rparr>"

definition new_caller :: poll_caller where
  "new_caller = \<lparr>pc_from = Some (replicate 16 0), pc_addrlen = Some 16, pc_errno = 0\<rparr>"

lemma new_caller_room: "sender_room new_caller"
  by (simp add: new_caller_def sender_room_def sizeof_sockaddr_in_def)

definition sample_sender :: "u8 list" where
  "sample_sender = [2, 0, 31, 64, 10, 0, 0, 1, 0, 0, 0, 0, 0, 0, 0, 0]"

theorem marc_context_invariant_witness:
  "\<exists>e. marc_poll_event 1 (\<lambda>_. None) new_server new_caller (Datagram sample_sender [0, 0, 0, 3]) = Some (Inr e) \<and>
    context_wf (me_ctx e) \<and> mc_type (me_ctx e) = mc_type new_server \<and> mc_compat (me_ctx e) = None"
proof -
  have wf: "context_wf new_server" "mc_type new_server = CONTEXT_SERVER" by (simp_all add: context_wf_def new_server_def)
  obtain caller' where c: "copy_sender new_caller sample_sender = Inr caller'"
    using copy_sender_room [OF new_caller_room, of sample_sender] by (auto simp: sample_sender_def sizeof_sockaddr_in_def)
  have "message_type [0, 0, 0, 3] \<noteq> MP_CONTROL_AUTHORIZE_EVENT"
    by (simp add: message_type_def message_def put_def nth_append ntohl_le32 sizeof_MPMessage_def mp_events) (simp add: le32_def)
  then obtain e where e: "marc_poll_event 1 (\<lambda>_. None) new_server new_caller (Datagram sample_sender [0, 0, 0, 3]) = Some (Inr e)"
    using poll_result [OF wf(1) _ _ c, of "[0, 0, 0, 3]" 1 "\<lambda>_. None"] by blast
  then show ?thesis using marc_context_invariant [OF reach_poll [OF reach_init] wf(1)] wf(2) by blast
qed

text \<open>
  Claim C12. Receiving is safe for every datagram of any length, at a client, and at a server for all but those of the
  type of an authorisation, when a caller that wants the sender's address gives a buffer of the length it says and
  of no more than the 16 bytes of an address. The call returns, with the event in a full message buffer and a size
  within it; the caller has as much of the address as it asked for, the rest of its buffer as before and the length
  of the address. A datagram without bytes returns what \<open>errno\<close> was and leaves the caller's memory alone.
\<close>

theorem marc_poll_safe:
  assumes "context_wf ctx" "mc_type ctx = CONTEXT_CLIENT \<or> message_type d \<noteq> MP_CONTROL_AUTHORIZE_EVENT"
    and "sender_room caller" "length src = sizeof_sockaddr_in"
  shows "\<exists>e. marc_poll_event fuel sendto ctx caller (Datagram src d) = Some (Inr e) \<and> length (me_event e) = sizeof_MPMessage \<and>
    (\<forall>n. me_size e = Some n \<longrightarrow> n \<le> sizeof_MPMessage) \<and>
    (if d = [] then me_ret e = pc_errno caller \<and> me_caller e = caller else sender_copied caller src (me_caller e))"
proof (cases "d = []")
  case True
  then show ?thesis using poll_empty by simp
next
  case False
  obtain caller' where c: "copy_sender caller src = Inr caller'" "sender_copied caller src caller'"
    using copy_sender_room [OF assms(3,4)] by blast
  from poll_result [OF assms(1,2) False c(1), of fuel sendto] c(2) False show ?thesis by auto
qed

theorem marc_poll_safe_witness:
  "\<exists>e. marc_poll_event 1 (\<lambda>_. None) new_client new_caller (Datagram sample_sender [0, 0, 0, 3]) = Some (Inr e) \<and>
    length (me_event e) = sizeof_MPMessage \<and> pc_from (me_caller e) = Some sample_sender"
proof -
  have "context_wf new_client" "mc_type new_client = CONTEXT_CLIENT \<or> message_type [0, 0, 0, 3] \<noteq> MP_CONTROL_AUTHORIZE_EVENT"
    "length sample_sender = sizeof_sockaddr_in"
    by (simp_all add: new_client_def context_wf_def sample_sender_def sizeof_sockaddr_in_def)
  from marc_poll_safe [OF this(1,2) new_caller_room this(3), of 1 "\<lambda>_. None"] show ?thesis
    by (auto simp: sender_copied_def new_caller_def sample_sender_def)
qed

text \<open>
  A caller that gives the size of a larger structure, as \<open>struct sockaddr_storage\<close> is, makes the copy read behind
  the local address, although its buffer has the room.
\<close>

lemma marc_sender_overread:
  assumes "pc_from caller = Some cfrom" "pc_addrlen caller = Some (length cfrom)" "sizeof_sockaddr_in < length cfrom"
    and "length src = sizeof_sockaddr_in" "d \<noteq> []"
  shows "marc_poll_event fuel sendto ctx caller (Datagram src d) = Some (Inl Out_of_bounds)"
  using assms by (simp add: marc_poll_event_def Let_def copy_sender_def rdn_def mp_sizes)

text \<open>
  A server that receives a message of the type of an authorisation writes outside of its context: it
  stores the version in the context of a client, which is larger.
\<close>

lemma marc_server_overflow:
  assumes "mc_type ctx = CONTEXT_SERVER" "mc_compat ctx = None" "message_type d = MP_CONTROL_AUTHORIZE_EVENT"
    and "sender_room caller" "length src = sizeof_sockaddr_in"
  shows "marc_poll_event fuel sendto ctx caller (Datagram src d) = Some (Inl Out_of_bounds)"
  using assms(1-3) copy_sender_room [OF assms(4,5)] server_auth_fault [of ctx d] by (auto simp: context_wf_def)

text \<open>
  The version of the server that a client stores from an authorisation is not the one in it: a message of
  that structure, 24 bytes, leaves the version 0.0.
\<close>

lemma marc_auth_version_lost:
  assumes "context_wf ctx" "mc_type ctx = CONTEXT_CLIENT" "length d = sizeof_MPauth" "message_type d = MP_CONTROL_AUTHORIZE_EVENT"
    and "sender_room caller" "length src = sizeof_sockaddr_in"
  shows "\<exists>e. marc_poll_event fuel sendto ctx caller (Datagram src d) = Some (Inr e) \<and> me_ret e = 0 \<and>
    mc_server_version (me_ctx e) = (0, 0)"
proof -
  have f: "legacy_fill ctx (min (length d) sizeof_MPMessage) (message_type d) (message d) =
      (ctx, MP_CONTROL_AUTHORIZE_EVENT, message d)"
    using assms by (simp add: legacy_fill_def mp_events)
  have "message d ! i = 0" if "24 \<le> i" "i < 1420" for i
    using assms(3) that by (simp add: message_def put_def mp_sizes nth_append)
  then have v: "store_version ctx MP_CONTROL_AUTHORIZE_EVENT (message d) = Inr (ctx\<lparr>mc_server_version := (0, 0)\<rparr>)"
    using assms(2) by (simp add: store_version_def rd16_in mp_sizes le16_def)
  have "\<not> MP_CONTROL_AUTHORIZE_EVENT < 11" by (simp add: mp_events)
  then have "php_hack ctx' n MP_CONTROL_AUTHORIZE_EVENT m =
      Inr ((case mc_compat ctx' of Some f \<Rightarrow> f MP_CONTROL_AUTHORIZE_EVENT | None \<Rightarrow> MP_CONTROL_AUTHORIZE_EVENT), m)" for ctx' n m
    by (simp add: php_hack_def)
  moreover have "d \<noteq> []" using assms(3) by (auto simp: mp_sizes)
  ultimately show ?thesis
    using copy_sender_room [OF assms(5,6)] poll_datagram [OF f, of caller src _ fuel sendto] v by (auto simp: mp_events)
qed

text \<open>
  Claim C24. A request for a filter that a client sends arrives: when neither side is in the compatibility mode, a server
  that polls the datagram gets an event of the type of the request, with the MAMPid and the identifier that were given,
  and the address of the client.
\<close>

theorem marc_filter_request_delivered:
  assumes "mc_type ctx = CONTEXT_CLIENT" "mc_compat ctx = None" "sendto_ok = (\<lambda>_. None)"
    and "mc_type srv = CONTEXT_SERVER" "mc_compat srv = None"
    and "sender_room caller" "length src = sizeof_sockaddr_in"
  shows "\<exists>m d e. marc_filter_request fuel sendto_ok ctx MAMPid filter_id = Some (Inr (0, m, Some d)) \<and>
    marc_poll_event fuel sendto srv caller (Datagram src d) = Some (Inr e) \<and> me_ret e = 0 \<and>
    me_size e = Some sizeof_MPFilterID \<and> sender_copied caller src (me_caller e) \<and>
    take 24 (me_event e) = bytes32 MP_FILTER_REQUEST_EVENT @ map byte_of_char (mampid_set MAMPid) @ bytes32 (htonl filter_id)"
proof -
  let ?b = "map byte_of_char (mampid_set MAMPid) @ bytes32 (htonl filter_id)"
  let ?d = "bytes32 (htonl MP_FILTER_REQUEST_EVENT) @ ?b"
  have l: "length ?b = 20" by (cases MAMPid) (simp_all add: mampid_set_def)
  have "rd32 (bytes32 MP_FILTER_REQUEST_EVENT @ ?b) 0 = Inr MP_FILTER_REQUEST_EVENT"
    using rd32_bytes32 [of "[]" MP_FILTER_REQUEST_EVENT ?b] by simp
  then have s: "marc_filter_request fuel sendto_ok ctx MAMPid filter_id = Some (Inr (0, ?d, Some ?d))"
    using assms(1-3) l by (simp add: marc_filter_request_def marc_push_event_def event_size_def Let_def put_def rdn_def mp_sizes)
      (simp add: mp_events)
  have m: "message ?d = ?d @ replicate 1396 0" using l by (simp add: message_def put_def mp_sizes)
  have t: "message_type ?d = MP_FILTER_REQUEST_EVENT"
    unfolding message_type_def m by (simp add: bytes32_def nth_append le32_bytes32)
  have f: "legacy_fill srv (min (length ?d) sizeof_MPMessage) (message_type ?d) (message ?d) =
      (srv, MP_FILTER_REQUEST_EVENT, message ?d)"
    unfolding t by (simp add: legacy_fill_def mp_events)
  have "store_version srv MP_FILTER_REQUEST_EVENT m = Inr srv" "php_hack srv n MP_FILTER_REQUEST_EVENT m = Inr (MP_FILTER_REQUEST_EVENT, m)"
    "MP_FILTER_REQUEST_EVENT \<noteq> MP_CONTROL_PING_EVENT" for m n
    using assms(5) by (simp_all add: store_version_def php_hack_def mp_events)
  moreover obtain caller' where c: "copy_sender caller src = Inr caller'" "sender_copied caller src caller'"
    using copy_sender_room [OF assms(6,7)] by blast
  moreover have "?d \<noteq> []" by (simp add: bytes32_def)
  ultimately have "marc_poll_event fuel sendto srv caller (Datagram src ?d) =
      Some (Inr \<lparr>me_ret = 0, me_ctx = srv, me_event = set_type (message ?d) MP_FILTER_REQUEST_EVENT,
        me_size = Some 24, me_sent = None, me_caller = caller'\<rparr>)"
    using poll_datagram [OF f, of caller src caller' fuel sendto] l by (simp add: mp_sizes)
  with s c(2) show ?thesis using m l by (auto simp: put_def mp_sizes)
qed

theorem marc_filter_request_delivered_witness:
  "\<exists>m d e. marc_filter_request 1 (\<lambda>_. None) new_client (Some ''mp1'') 7 = Some (Inr (0, m, Some d)) \<and>
    marc_poll_event 1 (\<lambda>_. None) new_server new_caller (Datagram sample_sender d) = Some (Inr e) \<and> me_ret e = 0 \<and>
    me_size e = Some sizeof_MPFilterID \<and> sender_copied new_caller sample_sender (me_caller e) \<and>
    take 24 (me_event e) = bytes32 MP_FILTER_REQUEST_EVENT @ map byte_of_char (mampid_set (Some ''mp1'')) @ bytes32 (htonl 7)"
  by (rule marc_filter_request_delivered)
    (simp_all add: new_client_def new_server_def new_caller_room sample_sender_def sizeof_sockaddr_in_def)

text \<open>
  In the compatibility mode the request is sent with the type 3 of an old MArCd instead, which a server of this
  library takes for a message of the web interface.
\<close>

lemma marc_filter_request_compat:
  assumes "mc_type ctx = CONTEXT_CLIENT" "mc_compat ctx = Some legacy_compat"
  shows "\<exists>m. marc_filter_request fuel (\<lambda>_. None) ctx MAMPid filter_id =
    Some (Inr (0, m, Some (bytes32 (htonl 3) @ map byte_of_char (mampid_set MAMPid) @ bytes32 (htonl filter_id))))"
proof -
  let ?b = "map byte_of_char (mampid_set MAMPid) @ bytes32 (htonl filter_id)"
  have l: "length ?b = 20" by (cases MAMPid) (simp_all add: mampid_set_def)
  have "rd32 (bytes32 MP_FILTER_REQUEST_EVENT @ ?b) 0 = Inr MP_FILTER_REQUEST_EVENT"
    using rd32_bytes32 [of "[]" MP_FILTER_REQUEST_EVENT ?b] by simp
  moreover have "legacy_compat MP_FILTER_REQUEST_EVENT = 3" by (simp add: legacy_compat_def mp_events)
  ultimately show ?thesis
    using assms l by (simp add: marc_filter_request_def marc_push_event_def event_size_def Let_def put_def rdn_def mp_sizes)
      (simp add: mp_events)
qed

text \<open>
  The size of a report is that of its bytes for every list of extension headers, when the trailer has the
  length 0; a trailer that gives its own size of 4, as the other headers do, is counted twice.
\<close>

lemma mp_dstat_size_exact:
  assumes "\<forall>h\<in>set hs. fst h \<noteq> MP_DSTAT_TRAILER \<and> 4 + length (snd h) < 2 ^ 16" "length hdr = 24"
    and "m = hdr @ concat (map dstat_bytes hs) @ bytes16 (htons MP_DSTAT_TRAILER) @ bytes16 (htons len)"
  shows "mp_dstat_size (Suc (length hs)) m = Some (Inr (length m + unat len))"
  using dstat_loop_chain [OF assms(1), of m hdr len "[]" 24] assms(2,3)
  by (simp add: mp_dstat_size_def mp_sizes del: dstat_loop.simps)

text \<open>
  The request for initialisation is sent with its header and one entry for each of up to eight interfaces,
  in the compatibility mode too.
\<close>

lemma marc_init_request_size:
  assumes "info_wf info" "context_wf ctx"
  shows "\<exists>m d. marc_client_init_request fuel (\<lambda>_. None) version ctx info = Some (Inr (0, m, Some d)) \<and>
    length d = sizeof_MPinitialization + sizeof_CIinitialization * ci_noCI info \<and> take 4 d = bytes32 (htonl MP_CONTROL_INIT_EVENT)"
proof -
  obtain m where m: "init_message version info = Inr m" "length m = sizeof_MPMessage" "rd32 m 0 = Inr MP_CONTROL_INIT_EVENT"
      "rd16 m 220 = Inr (htons (word_of_nat (ci_noCI info)))" using init_message_facts [OF assms(1)] by blast
  let ?n = "256 + 8 * ci_noCI info"
  have s: "event_size fuel m = Some (Inr ?n)"
    using m(3,4) noCI_swapped [of "ci_noCI info"] assms(1) by (simp add: event_size_def mp_sizes info_wf_def)
  have c: "(case mc_compat ctx of Some f \<Rightarrow> f MP_CONTROL_INIT_EVENT | None \<Rightarrow> MP_CONTROL_INIT_EVENT) = MP_CONTROL_INIT_EVENT"
    using assms(2) by (auto simp: context_wf_def legacy_compat_def mp_events)
  let ?m = "set_type m (htonl MP_CONTROL_INIT_EVENT)"
  have "rdn ?m 0 ?n = Inr (take ?n ?m)"
    using m(2) assms(1) length_set_type [of m] by (simp add: rdn_def mp_sizes info_wf_def)
  then have "marc_client_init_request fuel (\<lambda>_. None) version ctx info = Some (Inr (0, ?m, Some (take ?n ?m)))"
    using m(1,3) s c by (simp add: marc_client_init_request_def marc_push_event_def Let_def)
  moreover have "length (take ?n ?m) = ?n" "take 4 (take ?n ?m) = bytes32 (htonl MP_CONTROL_INIT_EVENT)"
    using m(2) assms(1) length_set_type [of m] by (simp_all add: mp_sizes info_wf_def put_def)
  ultimately show ?thesis by (auto simp: mp_sizes)
qed

definition sample_info :: client_info where
  "sample_info = \<lparr>ci_hwaddr = replicate 6 2, ci_hostname = [109, 112], ci_ipaddress = [10, 0, 0, 1], ci_port = 0x1234,
     ci_max_filters = 50, ci_noCI = 2, ci_ma_mtu = 1500, ci_caputils = [0, 7, 14, 0], ci_self = [0, 7, 0, 0],
     ci_drivers = 2, ci_CI = replicate 64 101\<rparr>"

end
