(* ===== verification/Spec2Isabelle.thy ===== *)
theory Spec2Isabelle
  imports Filter_Print Create_Filter Stream_Api Stream_Pfring Tcp_Options Connection_Id Capfilter Capinfo Capdump Capwalk Pcap_Convert Marc Marker
begin

text \<open>
  Verification of libcap_utils, the library and the tools with which the DPMI measurement infrastructure
  captures, filters, stores and shows packets. All paths are relative to \<open>src/\<close>.

  \<^bold>\<open>The program.\<close> A measurement point captures packets, puts a capture header with a picosecond timestamp in front
  of each (\<open>caputils/capture.h\<close>) and sends them in measurement frames over ethernet or UDP, or writes them to a
  capture file. A \<^emph>\<open>stream\<close> (\<open>src/stream.c\<close>) is the reading or writing end of such a transport: a buffer, filled by
  a callback of its kind, from which \<open>stream_read\<close> and \<open>stream_peek\<close> take packets that a \<^emph>\<open>filter\<close> accepts
  (\<open>src/filter.c\<close>, built from the command line by \<open>src/createfilter.c\<close>). Packets are taken apart by the header walk
  (\<open>src/packet.c\<close> with \<open>src/protocols/\<close>) and grouped into connections (\<open>src/packet/connection_id.c\<close>). The tools under
  \<open>tools/\<close> are loops over \<open>stream_read\<close>. Measurement points and their controller exchange events
  (\<open>src/marc.c\<close>).

  \<^bold>\<open>How it is modelled.\<close> A pointer into a packet or a buffer is an offset into the list of the bytes that can be read
  there, words have the width they have in the code and wrap around, and a double is an integer rounded to 53 bits.
  What has no defined result in the code (an access out of bounds, through a null pointer or to memory that was
  released, or a call of \<open>abort\<close>) is the left side of the sum type \<open>res\<close>; error codes are values on the right side.
  State is a record that operations return updated. What is not part of the sources is an argument: the socket
  calls are the list of what they will give, the operating system is the record \<open>sysenv\<close>, the errors of a disk are a
  \<open>medium\<close>, and \<open>bpf_filter\<close>, \<open>pcap_compile\<close>, \<open>pcap_dump\<close>, \<open>pcap_next\<close>, \<open>strptime\<close>, \<open>strftime\<close>, \<open>getservbyname\<close> and
  \<open>getprotobyname\<close> are functions. The host is little-endian with 64-bit longs.
  Sizes of buffers, positions in them and the counters of \<open>capdump\<close> and of the SCTP chunks are unbounded numbers: buffers of
  two gigabytes and more, as many signals, and destinations of less than three bytes for a DNS name are outside of the
  model. \<open>optind\<close> is 1 when a filter is built, the formats of dates are one function with \<open>strptime\<close>, and a read that
  fails gives no packet, where the code leaves the pointer of the caller at the last one that was rejected.

  \<^bold>\<open>Theories, from the bottom up.\<close>

  \<^item> \<open>Cap_Prelude\<close>: words, results with faults (\<open>rbind\<close>), loads from memory, byte order, C strings, and the collections
  \<open>res_simps\<close> and \<open>mem_simps\<close>. \<open>Libc\<close>: scanning and printing of numbers and addresses.

  \<^item> \<open>Picotime\<close> (\<open>src/picotime.c\<close>): timestamps as a linear order; comparison, conversions, addition and subtraction.
  Subtraction is exact on normalised timestamps although the borrow is computed in doubles.

  \<^item> \<open>Utils\<close> and \<open>Address\<close> (\<open>src/utils.c\<close>, \<open>src/address.c\<close>): ethernet addresses, ethertypes, and stream addresses, which
  survive printing and parsing.

  \<^item> \<open>Packet\<close> (\<open>src/packet.c\<close>): the capture header, the search for the IPv4 header behind VLAN tags, payload sizes.
  \<open>Header_Walk\<close> (\<open>src/packet.c\<close>, \<open>src/protocol.c\<close> and for every protocol the function that finds what follows its
  header): the walk ends for all packets, stays inside the captured bytes, and finds the IPv4 header that the search
  finds. \<open>Tcp_Options\<close> (\<open>src/protocols/tcp.c\<close>), \<open>Dns_Name\<close> and \<open>Dns_Print\<close> (\<open>src/protocols/dns.c\<close>): names are decoded as
  RFC 1035 has them, and decoding ends and stays in its destination for every packet. \<open>Protocol_Format\<close> and
  \<open>Protocol_Dump\<close> (the \<open>format\<close> and \<open>dump\<close> functions under \<open>src/protocols/\<close> and \<open>src/format/\<close>, \<open>header_format\<close> and
  \<open>header_dump\<close> of \<open>src/packet.c\<close>): the text of a header, short and long, is made from captured bytes, with exceptions
  that are in the code and stated as \<open>format_safe\<close> and \<open>dump_safe\<close>.

  \<^item> \<open>Slist\<close> (\<open>src/slist.c\<close>) and \<open>Connection_Id\<close> (\<open>src/packet/connection_id.c\<close>): the buckets with their sibling pointers
  implement a table of connections (\<open>conn_search\<close>) as long as the bucket of the flow has room; behind that a
  pointer can dangle.

  \<^item> \<open>Packet_Filter\<close> (\<open>src/filter.c\<close>): the sixteen criteria, their combination, and the state that is kept from packet to
  packet. \<open>Filter_Pack\<close>: the form in which filters travel; \<open>Filter_Print\<close>: the printed one. \<open>Create_Filter\<close> (\<open>src/createfilter.c\<close>): parsers and
  setters, the move of the filter options out of the argument vector, in place, and what holds for the filter of every
  command line.

  \<^item> \<open>Cap_Stream\<close>, \<open>Stream_Peek\<close> and \<open>Stream_Api\<close> (\<open>src/stream.c\<close>, \<open>src/error.c\<close>), \<open>Stream_File\<close> (\<open>src/stream_file.c\<close>),
  \<open>Measurement_Frame\<close> (\<open>caputils/send.h\<close>), \<open>Frame_Buffer\<close> (\<open>src/stream_buffer.c\<close>), \<open>Stream_Ethernet\<close> and \<open>Stream_Udp\<close>
  (\<open>src/stream_ethernet.c\<close>, \<open>src/stream_udp.c\<close>): files give back what was written, opening any file is safe, peeking
  shows what the next read returns, the ring of frame slots implements a queue of packets, and a stream that was opened from
  a command line has all its addresses. \<open>Stream_Pfring\<close>
  (\<open>src/stream_pfring.c\<close>): frames stay in the memory of the PF_RING library, a map from addresses to bytes, and the stream
  keeps pointers to them, with positions that stay inside the array.

  \<^item> \<open>Packet_Input\<close>: what the tools rely on, and \<open>Read_Extension\<close>: what was read from a packet does not depend on the
  bytes that lie behind it in the buffer of its stream (the relation \<open>fault_le\<close> with the rules \<open>fault_le_intros\<close>);
  \<open>Walk_Extension\<close> has this for the header walk and the long forms of the headers.

  \<^item> \<open>Capmerge\<close>, \<open>Capfilter\<close>, \<open>Capinfo\<close>, \<open>Capdump\<close>, \<open>Capshow\<close>, \<open>Capwalk\<close> and \<open>Pcap_Convert\<close> (\<open>tools/capmerge.c\<close>, \<open>capfilter.c\<close>,
  \<open>capinfo.c\<close>, \<open>capdump.c\<close>, \<open>capshow.c\<close> with \<open>src/format.c\<close>, \<open>capwalk.c\<close>, \<open>cap2pcap.c\<close> and \<open>pcap2cap.c\<close>): the loops of the
  tools over whole capture files. Packets are merged, sorted, split, summed up, saved by markers, shown and converted
  without loss. \<open>Capwalk\<close> also has what a filter does inside \<open>stream_read\<close>: it gives the packets that are read without
  one and that it accepts. \<open>Log\<close> (\<open>src/log.c\<close>): tags and hexadecimal dumps, which fit their buffer. \<open>Marker\<close> (\<open>src/marker.c\<close>,
  \<open>tools/capmarker.c\<close>): a marker that is sent is recognised.

  \<^item> \<open>Marc\<close> (\<open>src/marc.c\<close>, \<open>src/marc_dstat.c\<close>): MAMPids, events, the compatibility mode and status reports; receiving is
  safe for every datagram except authorisations at a server, for callers that ask for no more than the address of the
  sender has.

  \<^bold>\<open>Interfaces.\<close> \<open>byte_source\<close> and its extension \<open>reliable_source\<close> (\<open>Cap_Stream\<close>) are the contract between the buffer
  of a stream and the callback that fills it; capture files interpret it (\<open>file_stream\<close>). \<open>frame_source\<close>
  (\<open>Frame_Buffer\<close>) is the contract between the ring of frames and the function that receives one; ethernet
  and UDP streams interpret it (\<open>eth\<close>, \<open>udp\<close>). \<open>keyed_list\<close> (\<open>Slist\<close>) is what is relied on of the growing list
  (\<open>kl\<close>). \<open>packet_reader\<close> and its extension \<open>packet_input\<close> (\<open>Packet_Input\<close>) are a stream that delivers packets, as
  the tools see it, and an opened capture file is one (\<open>capture_file\<close>): the lemmas about the loops of the
  tools are proved inside these locales.

  \<^bold>\<open>Loops.\<close> A loop that ends by itself is a recursive function with a measure. Loops that wait for a source run on
  fuel, and running out of it is \<open>None\<close>; the properties show that it is enough. \<open>stream_read\<close> needs one round more
  than there are bytes to come, since every round but the last takes some of them; the loops of the tools need one
  round more than there are packets; the header walk needs three rounds more than there are captured bytes, since
  every header but the last moves on; decoding a DNS name ends since every reference is visited once. Where
  the code does not end, this is proved as such: \<open>stream_peek\<close> with a filter that rejects the packet at the read
  position, and a status report with an extension of length zero.

  \<^bold>\<open>Flaws that the model shows\<close> are lemmas next to the properties, among them \<open>connection_id_dangling\<close>,
  \<open>marc_server_overflow\<close>, \<open>marc_sender_overread\<close>, \<open>tcp_options_end_overread\<close>, \<open>dns_name_overread\<close>, \<open>dns_dump_question_null\<close>, \<open>capinfo_type_overflow\<close>, \<open>capdump_udp_overflow\<close>,
  \<open>expand_width_unterminated\<close>, \<open>show_headers_layer\<close>, \<open>icmp_code_overread\<close>, \<open>ospf_type_overread\<close>, \<open>sctp_chunks_overread\<close>,
  \<open>ipv6_dump_overread\<close>, \<open>mampid_runs_on\<close>, \<open>pfring_overwritten\<close> and \<open>pfring_stuck\<close>. They are why some properties have
  hypotheses: room in a bucket, known protocol numbers, headers without options, fields that fit.

  \<^bold>\<open>Not modelled.\<close> Option processing of the tools other than \<open>capmarker\<close> and \<open>capshow\<close>, their messages and help, and the
  printed form of the summary of \<open>capinfo\<close>, which consists of floating point numbers. Setting up sockets in
  \<open>src/marc.c\<close>, \<open>src/interface.c\<close> and \<open>tools/ifstat.c\<close>: calls of the operating system without logic of their own.
  \<open>src/stream_tcp.c\<close> is not part of the build, and \<open>print_mp\<close> of \<open>src/format/mp.c\<close> is called by nothing. The thread of
  \<open>capdump\<close> that receives markers over TCP.
  Signals are taken between two steps of a loop. The heap is modelled only where a pointer can outlive what it
  points to (\<open>Slist\<close>) and where the size of a block comes from a file (\<open>Stream_File\<close>).
\<close>

end
